(* ===== verification/Prelude.thy ===== *)
theory Prelude
  imports Main "HOL-Library.Sublist"
begin

text \<open>
  What every component shares: the collections of rewrite rules, the option and sum results
  that model Go's \<^verbatim>\<open>(value, error)\<close> pairs, and generic facts on lists.

  A Go function that returns \<^verbatim>\<open>(v, err)\<close> is modelled with the result type \<open>'e + 'a\<close>:
  \<open>Inl\<close> carries the error, \<open>Inr\<close> the value.
\<close>

named_theorems go_eval \<open>definitions unfolded to evaluate a model on a concrete input\<close>
named_theorems text_simps \<open>rewrite rules on Go strings and runes\<close>

subsection \<open>Lists\<close>

lemma takeWhile_split:
  "list_all P xs \<Longrightarrow> (case ys of [] \<Rightarrow> True | y # _ \<Rightarrow> \<not> P y) \<Longrightarrow> takeWhile P (xs @ ys) = xs"
  by (induction xs) (auto split: list.splits)

lemma dropWhile_split:
  "list_all P xs \<Longrightarrow> (case ys of [] \<Rightarrow> True | y # _ \<Rightarrow> \<not> P y) \<Longrightarrow> dropWhile P (xs @ ys) = ys"
  by (induction xs) (auto split: list.splits)

lemma drop_eq_Cons: "i < length xs \<Longrightarrow> drop i xs = xs ! i # drop (Suc i) xs"
  by (simp add: Cons_nth_drop_Suc)

lemma nth_via_drop: "drop i xs = y # ys \<Longrightarrow> i < length xs \<and> xs ! i = y \<and> drop (Suc i) xs = ys"
  by (metis drop_all drop_eq_Cons list.distinct(1) list.inject not_le)

lemma drop_length_append [simp]: "drop (length xs + n) (xs @ ys) = drop n ys"
  by simp

text \<open>The distinct elements of a list, each at its first occurrence.\<close>

fun dedupe_from :: "'a list \<Rightarrow> 'a list \<Rightarrow> 'a list" where
  "dedupe_from seen [] = []"
| "dedupe_from seen (x # xs) =
     (if x \<in> set seen then dedupe_from seen xs else x # dedupe_from (x # seen) xs)"

lemma set_dedupe_from: "set (dedupe_from seen xs) = set xs - set seen"
  by (induction seen xs rule: dedupe_from.induct) auto

lemma distinct_dedupe_from: "distinct (dedupe_from seen xs)"
  by (induction seen xs rule: dedupe_from.induct) (auto simp: set_dedupe_from)

subsection \<open>Results and fuel\<close>

text \<open>
  The recursive parsers are defined with fuel: \<open>None\<close> means that the fuel ran out, and every
  parser comes with a proof that its starting fuel is enough. \<open>and_then\<close> runs the rest of a Go
  function after a call that returned a value, and returns early on an error, as
  \<^verbatim>\<open>if err != nil { return nil, err }\<close> does.
\<close>

definition and_then :: "('e + 'a) option \<Rightarrow> ('a \<Rightarrow> ('e + 'b) option) \<Rightarrow> ('e + 'b) option" where
  "and_then m f =
     (case m of None \<Rightarrow> None | Some (Inl e) \<Rightarrow> Some (Inl e) | Some (Inr a) \<Rightarrow> f a)"

lemma and_then_simps [simp]:
  "and_then None f = None"
  "and_then (Some (Inl e)) f = Some (Inl e)"
  "and_then (Some (Inr a)) f = f a"
  by (simp_all add: and_then_def)

lemma and_then_InrE:
  assumes "and_then m f = Some (Inr b)"
  obtains a where "m = Some (Inr a)" "f a = Some (Inr b)"
  using assms by (auto simp: and_then_def split: option.splits sum.splits)

lemma and_then_not_None:
  "and_then m f \<noteq> None \<longleftrightarrow> m \<noteq> None \<and> (\<forall>a. m = Some (Inr a) \<longrightarrow> f a \<noteq> None)"
  by (auto simp: and_then_def split: option.splits sum.splits)

lemma and_then_cong [fundef_cong]:
  "m = m' \<Longrightarrow> (\<And>a. m' = Some (Inr a) \<Longrightarrow> f a = f' a) \<Longrightarrow> and_then m f = and_then m' f'"
  by (auto simp: and_then_def split: option.splits sum.splits)

text \<open>One result extends another: it is the same, or the other had run out of fuel.\<close>

definition extends :: "'a option \<Rightarrow> 'a option \<Rightarrow> bool" where
  "extends m m' \<longleftrightarrow> m = None \<or> m = m'"

lemma extends_refl [simp, intro]: "extends m m"
  and extends_None [simp, intro]: "extends None m"
  by (simp_all add: extends_def)

lemma extends_SomeD: "extends (Some r) m \<Longrightarrow> m = Some r"
  by (simp add: extends_def)

lemma extends_trans: "extends a b \<Longrightarrow> extends b c \<Longrightarrow> extends a c"
  by (auto simp: extends_def)

lemma extends_and_then [intro]:
  "extends m m' \<Longrightarrow> (\<And>a. extends (f a) (f' a)) \<Longrightarrow> extends (and_then m f) (and_then m' f')"
  by (auto simp: extends_def and_then_def split: option.splits sum.splits)

text \<open>
  The interface of a parser with fuel: more fuel extends the result, and \<open>need\<close> bounds the fuel
  an input takes. Inside the locale, the result no longer depends on the fuel.
\<close>

locale fuelled =
  fixes run :: "nat \<Rightarrow> 'a \<Rightarrow> 'b option" and need :: "'a \<Rightarrow> nat"
  assumes more: "extends (run n x) (run (Suc n) x)"
    and enough: "need x \<le> n \<Longrightarrow> run n x \<noteq> None"
begin

lemma more_le: "n \<le> m \<Longrightarrow> extends (run n x) (run m x)"
proof (induction m)
  case 0
  then show ?case by simp
next
  case (Suc m)
  then show ?case by (cases "n = Suc m") (auto intro: extends_trans more)
qed

lemma at_need: "need x \<le> n \<Longrightarrow> run n x = Some (the (run (need x) x))"
  using more_le [of "need x" n x] enough [of x "need x"] by (auto simp: extends_def)

lemma agree: "run n x = Some r \<Longrightarrow> r = the (run (need x) x)"
proof -
  assume r: "run n x = Some r"
  have "run (max n (need x)) x = Some r"
    using more_le [of n "max n (need x)" x] r by (auto dest: extends_SomeD)
  moreover have "run (max n (need x)) x = Some (the (run (need x) x))"
    by (rule at_need) simp
  ultimately show ?thesis by simp
qed

lemma decided: "\<exists>r. \<forall>n \<ge> need x. run n x = Some r"
  using at_need by blast

end

subsection \<open>Invariants of step relations\<close>

text \<open>
  A state machine keeps an invariant that holds at the start and that every step preserves.
\<close>

locale preserved =
  fixes step :: "'s \<Rightarrow> 's \<Rightarrow> bool" and start :: 's and inv :: "'s \<Rightarrow> bool"
  assumes at_start: "inv start"
    and at_step: "step s s' \<Longrightarrow> inv s \<Longrightarrow> inv s'"
begin

lemma always: "step\<^sup>*\<^sup>* start s \<Longrightarrow> inv s"
  by (induction rule: rtranclp_induct) (blast intro: at_start at_step)+

lemma onwards: "step\<^sup>*\<^sup>* s s' \<Longrightarrow> inv s \<Longrightarrow> inv s'"
  by (induction rule: rtranclp_induct) (blast intro: at_step)+

end

subsection \<open>Scanning loops\<close>

text \<open>The Go loop \<^verbatim>\<open>for p < len(s) && ok(s[p]) { p++ }\<close>.\<close>

function scan_while :: "('a \<Rightarrow> bool) \<Rightarrow> 'a list \<Rightarrow> nat \<Rightarrow> nat" where
  "scan_while ok s p = (if p < length s \<and> ok (s ! p) then scan_while ok s (Suc p) else p)"
  by pat_completeness auto
termination
  by (relation "measure (\<lambda>(ok, s, p). length s - p)") auto

declare scan_while.simps [simp del]

lemma scan_while_eq: "scan_while ok s p = p + length (takeWhile ok (drop p s))"
proof (induction ok s p rule: scan_while.induct)
  case (1 ok s p)
  show ?case
  proof (cases "p < length s")
    case True
    with 1 show ?thesis
      by (subst scan_while.simps) (auto simp: drop_eq_Cons [of p s])
  next
    case False
    then show ?thesis by (subst scan_while.simps) simp
  qed
qed

lemma scan_while_ge: "p \<le> scan_while ok s p"
  by (simp add: scan_while_eq)

lemma scan_while_le: "p \<le> length s \<Longrightarrow> scan_while ok s p \<le> length s"
  using length_takeWhile_le [of ok "drop p s"] by (simp add: scan_while_eq)

lemma scan_while_stop:
  "scan_while ok s p < length s \<Longrightarrow> \<not> ok (s ! scan_while ok s p)"
proof (induction ok s p rule: scan_while.induct)
  case (1 ok s p)
  then show ?case
    by (cases "p < length s \<and> ok (s ! p)") (simp_all add: scan_while.simps [of ok s p])
qed

lemma scan_while_id: "\<not> (p < length s \<and> ok (s ! p)) \<Longrightarrow> scan_while ok s p = p"
  by (subst scan_while.simps) (rule if_not_P)

lemma scan_while_idem [simp]: "scan_while ok s (scan_while ok s p) = scan_while ok s p"
  using scan_while_stop [of ok s p] by (intro scan_while_id) auto

end
