(* ===== verification/GoText.thy ===== *)
theory GoText
  imports Prelude GoUnicode
begin

text \<open>
  Go strings and the part of the packages \<^verbatim>\<open>strings\<close>, \<^verbatim>\<open>unicode/utf8\<close> and \<^verbatim>\<open>strconv\<close> the
  components use. A Go string is its list of bytes (\<open>string\<close>, a list of \<open>char\<close>); the
  conversion \<^verbatim>\<open>[]rune(s)\<close> decodes UTF-8 and puts U+FFFD for each byte that is not part of a
  valid encoding.
\<close>

subsection \<open>UTF-8\<close>

definition rune_error :: rune where
  "rune_error = 65533"

definition is_cont :: "nat \<Rightarrow> bool" where
  "is_cont b \<longleftrightarrow> 128 \<le> b \<and> b \<le> 191"

text \<open>\<^verbatim>\<open>utf8.DecodeRuneInString\<close>: the first rune and how many bytes it takes.\<close>

definition decode_rune :: "string \<Rightarrow> rune \<times> nat" where
  "decode_rune s =
     (case s of
        [] \<Rightarrow> (rune_error, 0)
      | c0 # s1 \<Rightarrow>
          (let b0 = of_char c0 in
           if b0 < 128 then (b0, 1)
           else if 194 \<le> b0 \<and> b0 \<le> 223 then
             (case s1 of
                c1 # _ \<Rightarrow>
                  (let b1 = of_char c1 in
                   if is_cont b1 then ((b0 - 192) * 64 + (b1 - 128), 2) else (rune_error, 1))
              | _ \<Rightarrow> (rune_error, 1))
           else if 224 \<le> b0 \<and> b0 \<le> 239 then
             (case s1 of
                c1 # c2 # _ \<Rightarrow>
                  (let b1 = of_char c1; b2 = of_char c2 in
                   if (if b0 = 224 then 160 else 128) \<le> b1 \<and> b1 \<le> (if b0 = 237 then 159 else 191)
                      \<and> is_cont b2
                   then ((b0 - 224) * 4096 + (b1 - 128) * 64 + (b2 - 128), 3)
                   else (rune_error, 1))
              | _ \<Rightarrow> (rune_error, 1))
           else if 240 \<le> b0 \<and> b0 \<le> 244 then
             (case s1 of
                c1 # c2 # c3 # _ \<Rightarrow>
                  (let b1 = of_char c1; b2 = of_char c2; b3 = of_char c3 in
                   if (if b0 = 240 then 144 else 128) \<le> b1 \<and> b1 \<le> (if b0 = 244 then 143 else 191)
                      \<and> is_cont b2 \<and> is_cont b3
                   then ((b0 - 240) * 262144 + (b1 - 128) * 4096 + (b2 - 128) * 64 + (b3 - 128), 4)
                   else (rune_error, 1))
              | _ \<Rightarrow> (rune_error, 1))
           else (rune_error, 1)))"

lemma decode_rune_size:
  "s \<noteq> [] \<Longrightarrow> 0 < snd (decode_rune s) \<and> snd (decode_rune s) \<le> length s"
  by (auto simp: decode_rune_def Let_def split: list.splits)

lemma decode_rune_ascii [simp]: "of_char c < (128::nat) \<Longrightarrow> decode_rune (c # s) = (of_char c, 1)"
  by (simp add: decode_rune_def)

function runes :: "string \<Rightarrow> rune list" where
  "runes s =
     (if s = [] then [] else fst (decode_rune s) # runes (drop (snd (decode_rune s)) s))"
  by pat_completeness auto
termination
  by (relation "measure length") (use decode_rune_size in fastforce)+

declare runes.simps [simp del]

lemma runes_Nil [simp]: "runes [] = []"
  by (simp add: runes.simps)

lemma runes_ascii_Cons [simp]: "of_char c < (128::nat) \<Longrightarrow> runes (c # s) = of_char c # runes s"
  by (subst runes.simps) simp

text \<open>A string of ASCII characters as runes.\<close>

abbreviation lit :: "string \<Rightarrow> rune list" where
  "lit s \<equiv> map of_char s"

definition ascii :: "string \<Rightarrow> bool" where
  "ascii s = list_all (\<lambda>c. of_char c < (128::nat)) s"

lemma ascii_Cons [simp]: "ascii (c # s) \<longleftrightarrow> of_char c < (128::nat) \<and> ascii s"
  and ascii_Nil [simp]: "ascii []"
  and ascii_append [simp]: "ascii (s @ t) \<longleftrightarrow> ascii s \<and> ascii t"
  by (auto simp: ascii_def)

lemma runes_ascii [text_simps]: "ascii s \<Longrightarrow> runes s = lit s"
  by (induction s) auto

text \<open>\<^verbatim>\<open>utf8.AppendRune\<close>.\<close>

definition encode_rune :: "rune \<Rightarrow> string" where
  "encode_rune r =
     (if r < 128 then [char_of r]
      else if r < 2048 then [char_of (192 + r div 64), char_of (128 + r mod 64)]
      else if 1114112 \<le> r \<or> 55296 \<le> r \<and> r \<le> 57343 then map char_of [239, 191, 189 :: nat]
      else if r < 65536 then
        [char_of (224 + r div 4096), char_of (128 + r div 64 mod 64), char_of (128 + r mod 64)]
      else [char_of (240 + r div 262144), char_of (128 + r div 4096 mod 64),
            char_of (128 + r div 64 mod 64), char_of (128 + r mod 64)])"

definition encode :: "rune list \<Rightarrow> string" where
  "encode rs = concat (map encode_rune rs)"

definition valid_rune :: "rune \<Rightarrow> bool" where
  "valid_rune r \<longleftrightarrow> r < 1114112 \<and> \<not> (55296 \<le> r \<and> r \<le> 57343)"

lemma decode_encode_rune:
  assumes "valid_rune r"
  shows "decode_rune (encode_rune r @ s) = (r, length (encode_rune r))"
proof -
  consider "r < 128" | "128 \<le> r" "r < 2048" | "2048 \<le> r" "r < 65536" | "65536 \<le> r" "r < 1114112"
    using assms unfolding valid_rune_def by linarith
  then show ?thesis
  proof cases
    case 1
    then show ?thesis by (simp add: encode_rune_def decode_rune_def)
  next
    case 2
    then have b: "2 \<le> r div 64" "r div 64 \<le> 31" by auto
    have "r mod 64 \<le> 63" using mod_less_divisor [of 64 r] by simp
    with 2 b show ?thesis
      by (simp add: encode_rune_def decode_rune_def is_cont_def Let_def)
  next
    case 3
    define a where "a = r div 4096"
    define m where "m = r div 64 mod 64"
    have a: "a \<le> 15" using 3 by (simp add: a_def)
    have "a * 64 + m = r div 64"
      using div_mult_mod_eq [of "r div 64" 64] by (simp add: a_def m_def div_mult2_eq [symmetric])
    then have eq: "a * 4096 + m * 64 + r mod 64 = r"
      using div_mult_mod_eq [of r 64] by linarith
    have m: "m < 64" by (simp add: m_def)
    have lo: "a = 0 \<Longrightarrow> 32 \<le> m"
      using 3 eq by (cases "32 \<le> m") (use mod_less_divisor [of 64 r] in simp_all)
    have hi: "a = 13 \<Longrightarrow> m \<le> 31"
      using assms eq m mod_less_divisor [of 64 r] unfolding valid_rune_def by linarith
    have "r mod 64 \<le> 63" using mod_less_divisor [of 64 r] by simp
    then show ?thesis
      using 3 assms a m lo hi eq
      by (simp add: encode_rune_def decode_rune_def is_cont_def Let_def valid_rune_def
          a_def [symmetric] m_def [symmetric])
  next
    case 4
    define a where "a = r div 262144"
    define m where "m = r div 4096 mod 64"
    define k where "k = r div 64 mod 64"
    have a: "a \<le> 4" using 4 by (simp add: a_def)
    have "a * 64 + m = r div 4096"
      using div_mult_mod_eq [of "r div 4096" 64]
      by (simp add: a_def m_def div_mult2_eq [symmetric])
    moreover have "r div 4096 * 64 + k = r div 64"
      using div_mult_mod_eq [of "r div 64" 64] by (simp add: k_def div_mult2_eq [symmetric])
    ultimately have eq: "a * 262144 + m * 4096 + k * 64 + r mod 64 = r"
      using div_mult_mod_eq [of r 64] by linarith
    have m: "m < 64" "k < 64" by (simp_all add: m_def k_def)
    have lo: "a = 0 \<Longrightarrow> 16 \<le> m"
      using 4 eq m by (cases "16 \<le> m") (use mod_less_divisor [of 64 r] in simp_all)
    have hi: "a = 4 \<Longrightarrow> m \<le> 15"
      using 4 eq by (cases "m \<le> 15") simp_all
    have "r mod 64 \<le> 63" using mod_less_divisor [of 64 r] by simp
    then show ?thesis
      using 4 a m lo hi eq
      by (simp add: encode_rune_def decode_rune_def is_cont_def Let_def valid_rune_def
          a_def [symmetric] m_def [symmetric] k_def [symmetric])
  qed
qed

lemma encode_rune_nonempty [simp]: "encode_rune r \<noteq> []"
  by (simp add: encode_rune_def)

text \<open>Converting runes to a string and back gives the runes, when they are Unicode scalars.\<close>

lemma runes_encode: "list_all valid_rune rs \<Longrightarrow> runes (encode rs) = rs"
proof (induction rs)
  case Nil
  then show ?case by (simp add: encode_def)
next
  case (Cons r rs)
  then show ?case
    by (subst runes.simps) (simp add: encode_def decode_encode_rune)
qed

subsection \<open>White space\<close>

text \<open>The size of the white space character a string starts with, or 0.\<close>

definition space_prefix :: "string \<Rightarrow> nat" where
  "space_prefix s =
     (if s \<noteq> [] \<and> is_space (fst (decode_rune s)) then snd (decode_rune s) else 0)"

text \<open>\<^verbatim>\<open>utf8.DecodeLastRuneInString\<close>: the last rune and how many bytes it takes.\<close>

definition last_bytes :: "nat \<Rightarrow> string \<Rightarrow> string" where
  "last_bytes k s = drop (length s - k) s"

definition decode_last_rune :: "string \<Rightarrow> rune \<times> nat" where
  "decode_last_rune s =
     (if s = [] then (rune_error, 0)
      else if of_char (last s) < (128::nat) then (of_char (last s), 1)
      else if 2 \<le> length s \<and> snd (decode_rune (last_bytes 2 s)) = 2
        then decode_rune (last_bytes 2 s)
      else if 3 \<le> length s \<and> snd (decode_rune (last_bytes 3 s)) = 3
        then decode_rune (last_bytes 3 s)
      else if 4 \<le> length s \<and> snd (decode_rune (last_bytes 4 s)) = 4
        then decode_rune (last_bytes 4 s)
      else (rune_error, 1))"

definition space_suffix :: "string \<Rightarrow> nat" where
  "space_suffix s =
     (if s \<noteq> [] \<and> is_space (fst (decode_last_rune s)) then snd (decode_last_rune s) else 0)"

lemma space_prefix_le: "space_prefix s \<le> length s"
  using decode_rune_size [of s] by (auto simp: space_prefix_def)

lemma space_suffix_le: "space_suffix s \<le> length s"
  by (auto simp: space_suffix_def decode_last_rune_def Suc_le_eq)

text \<open>\<^verbatim>\<open>strings.TrimLeftFunc\<close> and \<^verbatim>\<open>strings.TrimRightFunc\<close> with \<^verbatim>\<open>unicode.IsSpace\<close>.\<close>

function trim_left :: "string \<Rightarrow> string" where
  "trim_left s = (if space_prefix s = 0 then s else trim_left (drop (space_prefix s) s))"
  by pat_completeness auto
termination
  by (relation "measure length") (auto simp: space_prefix_def split: if_splits)

function trim_right :: "string \<Rightarrow> string" where
  "trim_right s =
     (if space_suffix s = 0 then s else trim_right (take (length s - space_suffix s) s))"
  by pat_completeness auto
termination
  by (relation "measure length") (auto simp: space_suffix_def split: if_splits)

declare trim_left.simps [simp del] trim_right.simps [simp del]

text \<open>\<^verbatim>\<open>strings.TrimSpace\<close>.\<close>

definition trim_space :: "string \<Rightarrow> string" where
  "trim_space s = trim_right (trim_left s)"

lemma trim_left_Nil [simp]: "trim_left [] = []"
  and trim_right_Nil [simp]: "trim_right [] = []"
  by (simp_all add: trim_left.simps trim_right.simps space_prefix_def space_suffix_def)

lemma trim_left_suffix: "\<exists>n. trim_left s = drop n s"
proof (induction s rule: trim_left.induct)
  case (1 s)
  show ?case
  proof (cases "space_prefix s = 0")
    case True
    then show ?thesis by (intro exI [of _ 0]) (simp add: trim_left.simps)
  next
    case False
    with 1 obtain n where "trim_left (drop (space_prefix s) s) = drop n (drop (space_prefix s) s)"
      by blast
    with False show ?thesis
      by (intro exI [of _ "n + space_prefix s"]) (simp add: trim_left.simps [of s])
  qed
qed

lemma trim_right_prefix: "\<exists>n. trim_right s = take n s"
proof (induction s rule: trim_right.induct)
  case (1 s)
  show ?case
  proof (cases "space_suffix s = 0")
    case True
    then show ?thesis by (intro exI [of _ "length s"]) (simp add: trim_right.simps)
  next
    case False
    with 1 obtain n where
      "trim_right (take (length s - space_suffix s) s) = take n (take (length s - space_suffix s) s)"
      by blast
    with False show ?thesis
      by (intro exI [of _ "min n (length s - space_suffix s)"])
         (simp add: trim_right.simps [of s])
  qed
qed

lemma length_trim_left: "length (trim_left s) \<le> length s"
  using trim_left_suffix [of s] by auto

lemma length_trim_space: "length (trim_space s) \<le> length s"
  using trim_right_prefix [of "trim_left s"] length_trim_left [of s]
  by (auto simp: trim_space_def)

lemma set_trim_space: "set (trim_space s) \<subseteq> set s"
  using trim_right_prefix [of "trim_left s"] trim_left_suffix [of s]
  by (auto simp: trim_space_def dest!: in_set_takeD in_set_dropD)

text \<open>On a string that starts (ends) with an ASCII character, trimming is decided by it.\<close>

lemma space_prefix_ascii [text_simps]:
  "of_char c < (128::nat) \<Longrightarrow> space_prefix (c # s) = (if is_space (of_char c) then 1 else 0)"
  by (simp add: space_prefix_def)

lemma trim_left_ascii [text_simps]:
  "of_char c < (128::nat) \<Longrightarrow>
     trim_left (c # s) = (if is_space (of_char c) then trim_left s else c # s)"
  by (subst trim_left.simps) (simp add: space_prefix_ascii)

lemma trim_right_ascii [text_simps]:
  "of_char c < (128::nat) \<Longrightarrow>
     trim_right (s @ [c]) = (if is_space (of_char c) then trim_right s else s @ [c])"
  by (subst trim_right.simps) (simp add: space_suffix_def decode_last_rune_def)

text \<open>On ASCII text, trimming drops characters at the ends.\<close>

abbreviation ascii_space :: "char \<Rightarrow> bool" where
  "ascii_space c \<equiv> is_space (of_char c)"

lemma trim_left_ascii_eq: "ascii s \<Longrightarrow> trim_left s = dropWhile ascii_space s"
  by (induction s) (simp_all add: trim_left_ascii)

lemma trim_right_ascii_eq: "ascii s \<Longrightarrow> trim_right s = rev (dropWhile ascii_space (rev s))"
  by (induction s rule: rev_induct) (simp_all add: trim_right_ascii)

lemma ascii_dropWhile: "ascii s \<Longrightarrow> ascii (dropWhile P s)"
  by (auto simp: ascii_def list_all_iff dest: set_dropWhileD)

lemma trim_space_ascii [text_simps]:
  "ascii s \<Longrightarrow> trim_space s = rev (dropWhile ascii_space (rev (dropWhile ascii_space s)))"
  by (simp add: trim_space_def trim_left_ascii_eq trim_right_ascii_eq ascii_dropWhile)

text \<open>
  \<^verbatim>\<open>strings.TrimLeft\<close>, \<^verbatim>\<open>strings.TrimRight\<close> and \<^verbatim>\<open>strings.Trim\<close> with a set of ASCII
  characters.
\<close>

definition trim_left_set :: "string \<Rightarrow> string \<Rightarrow> string" where
  "trim_left_set cset s = dropWhile (\<lambda>c. c \<in> set cset) s"

definition trim_right_set :: "string \<Rightarrow> string \<Rightarrow> string" where
  "trim_right_set cset s = rev (dropWhile (\<lambda>c. c \<in> set cset) (rev s))"

lemma trim_right_set_append:
  "trim_right_set cset s @ drop (length (trim_right_set cset s)) s = s"
  unfolding trim_right_set_def
  by (metis append_eq_conv_conj length_rev rev_append rev_rev_ident takeWhile_dropWhile_id)

lemma trim_right_set_Nil [simp]: "trim_right_set cset [] = []"
  and trim_right_set_snoc [simp]:
    "trim_right_set cset (s @ [c]) = (if c \<in> set cset then trim_right_set cset s else s @ [c])"
  by (simp_all add: trim_right_set_def)

lemma length_trim_right_set: "length (trim_right_set cset s) \<le> length s"
  unfolding trim_right_set_def by (metis length_dropWhile_le length_rev)

subsection \<open>Case\<close>

text \<open>
  \<^verbatim>\<open>strings.ToLower\<close> and \<^verbatim>\<open>strings.ToUpper\<close> map every rune by its simple case mapping
  (a byte outside UTF-8 becomes U+FFFD).
\<close>

definition to_lower :: "string \<Rightarrow> string" where
  "to_lower s = encode (map to_lower_rune (runes s))"

definition to_upper :: "string \<Rightarrow> string" where
  "to_upper s = encode (map to_upper_rune (runes s))"

lemma encode_ascii: "list_all (\<lambda>r. r < 128) rs \<Longrightarrow> encode rs = map char_of rs"
  by (induction rs) (simp_all add: encode_def encode_rune_def)

lemma to_lower_ascii [text_simps]:
  "ascii s \<Longrightarrow> to_lower s = map (\<lambda>c. char_of (to_lower_rune (of_char c))) s"
proof -
  assume a: "ascii s"
  then have "list_all (\<lambda>r. r < 128) (map to_lower_rune (lit s))"
    by (auto simp: ascii_def list_all_iff to_lower_rune_def)
  then show ?thesis by (simp add: to_lower_def runes_ascii [OF a] encode_ascii comp_def)
qed

subsection \<open>Decimal numbers\<close>

text \<open>\<^verbatim>\<open>strconv.Itoa\<close> and the decimal form of \<^verbatim>\<open>big.Int\<close>.\<close>

definition digit_char :: "nat \<Rightarrow> char" where
  "digit_char d = char_of (48 + d)"

fun nat_string :: "nat \<Rightarrow> string" where
  "nat_string n =
     (if n < 10 then [digit_char n] else nat_string (n div 10) @ [digit_char (n mod 10)])"

declare nat_string.simps [simp del]

definition int_string :: "int \<Rightarrow> string" where
  "int_string i = (if i < 0 then CHR ''-'' # nat_string (nat (- i)) else nat_string (nat i))"

text \<open>The value of a string of ASCII digits, most significant first.\<close>

definition digit_value :: "char \<Rightarrow> nat" where
  "digit_value c = of_char c - 48"

definition is_ascii_digit :: "char \<Rightarrow> bool" where
  "is_ascii_digit c \<longleftrightarrow> 48 \<le> (of_char c :: nat) \<and> (of_char c :: nat) \<le> 57"

definition digits_value :: "string \<Rightarrow> nat" where
  "digits_value s = foldl (\<lambda>n c. 10 * n + digit_value c) 0 s"

lemma is_ascii_digit_cases: "is_ascii_digit c \<Longrightarrow> c \<in> set ''0123456789''"
proof -
  assume "is_ascii_digit c"
  then have "of_char c \<in> set [48 ..< 58 :: nat]" by (simp only: is_ascii_digit_def set_upt) auto
  then have "char_of (of_char c :: nat) \<in> set (map char_of [48 ..< 58 :: nat])" unfolding list.set_map by (rule imageI)
  moreover have "map char_of [48 ..< 58 :: nat] = ''0123456789''" by code_simp
  ultimately show ?thesis by simp
qed

lemma digit_char_digit [simp]: "d < 10 \<Longrightarrow> is_ascii_digit (digit_char d)"
  and digit_value_char [simp]: "d < 10 \<Longrightarrow> digit_value (digit_char d) = d"
  by (simp_all add: is_ascii_digit_def digit_char_def digit_value_def)

lemma nat_string_digits: "list_all is_ascii_digit (nat_string n)"
  by (induction n rule: nat_string.induct) (subst nat_string.simps, simp)

lemma nat_string_nonempty [simp]: "nat_string n \<noteq> []"
  by (subst nat_string.simps) simp

lemma digits_value_snoc [simp]: "digits_value (s @ [c]) = 10 * digits_value s + digit_value c"
  and digits_value_Nil [simp]: "digits_value [] = 0"
  by (simp_all add: digits_value_def)

lemma digits_value_nat_string [simp]: "digits_value (nat_string n) = n"
proof (induction n rule: nat_string.induct)
  case (1 n)
  show ?case
  proof (cases "n < 10")
    case True
    then show ?thesis
      by (subst nat_string.simps) (simp add: digits_value_def)
  next
    case False
    then show ?thesis
      using 1 by (subst nat_string.simps) simp
  qed
qed

lemma nat_string_no_leading_zero: "10 \<le> n \<Longrightarrow> hd (nat_string n) \<noteq> CHR ''0''"
proof (induction n rule: nat_string.induct)
  case (1 n)
  have "hd (nat_string (n div 10)) \<noteq> CHR ''0''"
  proof (cases "n div 10 < 10")
    case True
    moreover have "0 < n div 10" using "1.prems" by (simp add: div_greater_zero_iff)
    moreover have "of_char (char_of (48 + n div 10) :: char) \<noteq> (of_char CHR ''0'' :: nat)"
      using calculation by simp
    ultimately show ?thesis
      by (subst nat_string.simps) (auto simp: digit_char_def simp del: of_char_of)
  next
    case False
    then show ?thesis using 1 by simp
  qed
  with "1.prems" show ?case by (subst nat_string.simps) simp
qed

end
