(* ===== verification/Calc.thy ===== *)
theory Calc
  imports Complex_Main GoText
begin

text \<open>
  The exact arithmetic of the \<^verbatim>\<open>calculate\<close> tool (\<^verbatim>\<open>internal/tools/calc.go\<close>): a recursive
  descent parser that evaluates while it parses, on \<^verbatim>\<open>big.Rat\<close> values, and the decimal
  rendering of its results. \<^verbatim>\<open>*big.Rat\<close> is \<open>rat\<close>; its numerator and denominator in lowest terms
  with a positive denominator are \<open>quotient_of\<close>. The parser state (\<^verbatim>\<open>exprParser.pos\<close>) is
  passed explicitly; an error carries the position \<^verbatim>\<open>p.errorf\<close> prints.
\<close>

subsection \<open>Errors, limits and the integer operations of math/big\<close>

definition max_expressions :: nat where "max_expressions = 200"
definition max_expr_len :: nat where "max_expr_len = 2000"
definition max_exponent :: int where "max_exponent = 1000"
definition default_precision :: int where "default_precision = 10"

datatype calc_error =
    EmptyExpression
  | ExpressionTooLong
  | UnexpectedRune rune
  | DivisionByZero
  | RemainderByZero
  | NonIntegerExponent
  | ExponentTooLarge
  | ZeroToNegativePower
  | UnexpectedEnd
  | MissingParenthesis
  | ThousandSeparators "rune list"
  | TwoNumbersInARow
  | LiteralExponentTooLarge "rune list"
  | InvalidNumber "rune list"
  | UnknownName "rune list"
  | ExpectedCommaOrParen "rune list"
  | WrongArity "rune list"
  | RoundDigitsOutOfRange
  | UnknownFunction "rune list"

text \<open>An error and the position printed with it (0 for the errors without one).\<close>

type_synonym calc_fail = "calc_error \<times> nat"

definition errorf :: "nat \<Rightarrow> calc_error \<Rightarrow> calc_fail" where
  "errorf pos e = (e, pos + 1)"

definition num :: "rat \<Rightarrow> int" where "num r = fst (quotient_of r)"
definition denom :: "rat \<Rightarrow> int" where "denom r = snd (quotient_of r)"

definition is_int :: "rat \<Rightarrow> bool" where "is_int r \<longleftrightarrow> denom r = 1"

text \<open>\<^verbatim>\<open>big.Int.Quo\<close> truncates towards zero; \<^verbatim>\<open>big.Int.Div\<close> floors for a positive divisor.\<close>

definition quo :: "int \<Rightarrow> int \<Rightarrow> int" where
  "quo a b = sgn a * sgn b * (\<bar>a\<bar> div \<bar>b\<bar>)"

definition rat_trunc :: "rat \<Rightarrow> rat" where
  "rat_trunc r = of_int (quo (num r) (denom r))"

definition rat_floor :: "rat \<Rightarrow> rat" where
  "rat_floor r = of_int (num r div denom r)"

definition rat_mod :: "rat \<Rightarrow> rat \<Rightarrow> rat" where
  "rat_mod a b = (let q = a / b; t = rat_trunc q in a - t * b)"

definition rat_round :: "rat \<Rightarrow> int \<Rightarrow> rat" where
  "rat_round r digits =
     (let scale = 10 ^ nat \<bar>digits\<bar>;
          x = (if 0 \<le> digits then r * scale else r / scale);
          x = (if x < 0 then x - 1 / 2 else x + 1 / 2);
          x = rat_trunc x
      in if 0 \<le> digits then x / scale else x * scale)"

definition calc_pow :: "nat \<Rightarrow> rat \<Rightarrow> rat \<Rightarrow> calc_fail + rat" where
  "calc_pow pos base ex =
     (if \<not> is_int ex then Inl (errorf pos NonIntegerExponent)
      else if max_exponent < \<bar>num ex\<bar> then Inl (errorf pos ExponentTooLarge)
      else
        (let n = nat \<bar>num ex\<bar>; a = num base ^ n; b = denom base ^ n in
         if num ex < 0 then
           (if a = 0 then Inl (errorf pos ZeroToNegativePower) else Inr (of_int b / of_int a))
         else Inr (of_int a / of_int b)))"

subsection \<open>Reading numbers\<close>

definition skip_space :: "rune list \<Rightarrow> nat \<Rightarrow> nat" where
  "skip_space src pos = scan_while is_space src pos"

text \<open>\<^verbatim>\<open>p.peek()\<close>: the position after white space, and the rune there (0 at the end).\<close>

definition peek_rune :: "rune list \<Rightarrow> nat \<Rightarrow> rune" where
  "peek_rune src pos =
     (let p = skip_space src pos in if length src \<le> p then 0 else src ! p)"

definition is_ascii_digit_rune :: "rune \<Rightarrow> bool" where
  "is_ascii_digit_rune r \<longleftrightarrow> 48 \<le> r \<and> r \<le> 57"

definition runes_value :: "rune list \<Rightarrow> nat" where
  "runes_value ds = foldl (\<lambda>n d. 10 * n + (d - 48)) 0 ds"

text \<open>\<^verbatim>\<open>big.Int.SetString(s, 10)\<close>: an optional sign, then ASCII digits.\<close>

definition int_of_runes :: "rune list \<Rightarrow> int option" where
  "int_of_runes s =
     (let (neg, ds) =
        (case s of [] \<Rightarrow> (False, [])
         | c # t \<Rightarrow> if c = of_char CHR ''-'' then (True, t)
                   else if c = of_char CHR ''+'' then (False, t) else (False, s))
      in if ds \<noteq> [] \<and> list_all is_ascii_digit_rune ds
         then Some (if neg then - int (runes_value ds) else int (runes_value ds)) else None)"

definition is_exp_mark :: "rune \<Rightarrow> bool" where
  "is_exp_mark c \<longleftrightarrow> c = of_char CHR ''e'' \<or> c = of_char CHR ''E''"

definition ten_to :: "int \<Rightarrow> rat" where
  "ten_to e = (if 0 \<le> e then 10 ^ nat e else 1 / 10 ^ nat (- e))"

text \<open>
  \<^verbatim>\<open>big.Rat.SetString\<close> on the literals \<^verbatim>\<open>parseNumber\<close> builds: digits with at most one decimal
  point (at least one digit, ASCII only) and an optional decimal exponent.
\<close>

definition rat_set_string :: "rune list \<Rightarrow> rat option" where
  "rat_set_string s =
     (let mant = takeWhile (\<lambda>c. \<not> is_exp_mark c) s;
          ex = drop (length mant) s;
          whole = takeWhile (\<lambda>c. c \<noteq> of_char CHR ''.'') mant;
          frac = drop (Suc (length whole)) mant;
          ds = whole @ frac
      in if ds = [] \<or> \<not> list_all is_ascii_digit_rune ds then None
         else case ex of
             [] \<Rightarrow> Some (of_nat (runes_value ds) * ten_to (- int (length frac)))
           | _ # e \<Rightarrow>
               (case int_of_runes e of
                  None \<Rightarrow> None
                | Some x \<Rightarrow> Some (of_nat (runes_value ds) * ten_to (x - int (length frac)))))"

definition number_end :: "rune list \<Rightarrow> nat \<Rightarrow> nat" where
  "number_end src start =
     (let p = scan_while (\<lambda>c. is_digit c \<or> c = of_char CHR ''.'' \<or> c = of_char CHR ''_'') src start
      in if p < length src \<and> is_exp_mark (src ! p) then
           (let q = p + 1;
                q = (if q < length src \<and> (src ! q = of_char CHR ''+'' \<or> src ! q = of_char CHR ''-'')
                     then q + 1 else q)
            in if q < length src \<and> is_digit (src ! q) then scan_while is_digit src q else p)
         else p)"

definition parse_number :: "rune list \<Rightarrow> nat \<Rightarrow> calc_fail + rat \<times> nat" where
  "parse_number src start =
     (let p = number_end src start;
          text = filter (\<lambda>c. c \<noteq> of_char CHR ''_'') (drop start (take p src))
      in if 1 < length (filter (\<lambda>c. c = of_char CHR ''.'') text)
         then Inl (errorf start (ThousandSeparators text))
         else
           (let p = skip_space src p in
            if p < length src \<and> is_digit (src ! p) then Inl (errorf p TwoNumbersInARow)
            else
              (let ex = dropWhile (\<lambda>c. \<not> is_exp_mark c) text;
                   digits = (case tl ex of c # t \<Rightarrow> if c = of_char CHR ''+'' then t else c # t | [] \<Rightarrow> [])
               in if ex \<noteq> [] \<and>
                     (case int_of_runes digits of None \<Rightarrow> True | Some e \<Rightarrow> max_exponent < \<bar>e\<bar>)
                  then Inl (errorf p (LiteralExponentTooLarge text))
                  else case rat_set_string text of
                      None \<Rightarrow> Inl (errorf p (InvalidNumber text))
                    | Some v \<Rightarrow> Inr (v, p))))"

subsection \<open>Function calls\<close>

definition need_args :: "nat \<Rightarrow> rune list \<Rightarrow> rat list \<Rightarrow> nat \<Rightarrow> nat option \<Rightarrow> calc_fail option" where
  "need_args pos name args lo hi =
     (if length args < lo \<or> (case hi of None \<Rightarrow> False | Some h \<Rightarrow> h < length args)
      then Some (errorf pos (WrongArity name)) else None)"

fun best_of :: "(rat \<Rightarrow> rat \<Rightarrow> bool) \<Rightarrow> rat \<Rightarrow> rat list \<Rightarrow> rat" where
  "best_of better best [] = best"
| "best_of better best (a # rest) = best_of better (if better a best then a else best) rest"

definition call_func :: "nat \<Rightarrow> rune list \<Rightarrow> rat list \<Rightarrow> calc_fail + rat" where
  "call_func pos name args =
     (if name = lit ''abs'' then
        (case need_args pos name args 1 (Some 1) of Some e \<Rightarrow> Inl e | None \<Rightarrow> Inr \<bar>args ! 0\<bar>)
      else if name = lit ''floor'' \<or> name = lit ''ceil'' then
        (case need_args pos name args 1 (Some 1) of
           Some e \<Rightarrow> Inl e
         | None \<Rightarrow>
             Inr (if name = lit ''ceil'' \<and> \<not> is_int (args ! 0)
                  then rat_floor (args ! 0) + 1 else rat_floor (args ! 0)))
      else if name = lit ''round'' then
        (case need_args pos name args 1 (Some 2) of
           Some e \<Rightarrow> Inl e
         | None \<Rightarrow>
             (if length args = 2 then
                (if \<not> is_int (args ! 1) \<or> 50 < \<bar>num (args ! 1)\<bar>
                 then Inl (errorf pos RoundDigitsOutOfRange)
                 else Inr (rat_round (args ! 0) (num (args ! 1))))
              else Inr (rat_round (args ! 0) 0)))
      else if name = lit ''min'' \<or> name = lit ''max'' then
        (case need_args pos name args 1 None of
           Some e \<Rightarrow> Inl e
         | None \<Rightarrow>
             Inr (best_of (\<lambda>a best. (name = lit ''min'' \<and> a < best) \<or> (name = lit ''max'' \<and> best < a))
                    (hd args) (tl args)))
      else if name = lit ''sum'' \<or> name = lit ''avg'' then
        (case need_args pos name args 1 None of
           Some e \<Rightarrow> Inl e
         | None \<Rightarrow>
             (let total = foldl (+) 0 args in
              Inr (if name = lit ''avg'' then total / of_nat (length args) else total)))
      else Inl (errorf pos (UnknownFunction name)))"

definition name_end :: "rune list \<Rightarrow> nat \<Rightarrow> nat" where
  "name_end src start =
     scan_while (\<lambda>c. is_letter c \<or> is_digit c \<or> c = of_char CHR ''_'') src start"

definition call_name :: "rune list \<Rightarrow> nat \<Rightarrow> rune list" where
  "call_name src start = map to_lower_rune (drop start (take (name_end src start) src))"

subsection \<open>The parser\<close>

text \<open>
  One function per method of \<^verbatim>\<open>exprParser\<close>; a loop of a method is a function of its own. Each
  call spends one unit of fuel.
\<close>

type_synonym 'a parsed = "(calc_fail + 'a \<times> nat) option"

function (sequential) parse_expr :: "nat \<Rightarrow> rune list \<Rightarrow> nat \<Rightarrow> rat parsed"
  and expr_loop :: "nat \<Rightarrow> rune list \<Rightarrow> rat \<Rightarrow> nat \<Rightarrow> rat parsed"
  and parse_term :: "nat \<Rightarrow> rune list \<Rightarrow> nat \<Rightarrow> rat parsed"
  and term_loop :: "nat \<Rightarrow> rune list \<Rightarrow> rat \<Rightarrow> nat \<Rightarrow> rat parsed"
  and parse_unary :: "nat \<Rightarrow> rune list \<Rightarrow> nat \<Rightarrow> rat parsed"
  and parse_power :: "nat \<Rightarrow> rune list \<Rightarrow> nat \<Rightarrow> rat parsed"
  and parse_primary :: "nat \<Rightarrow> rune list \<Rightarrow> nat \<Rightarrow> rat parsed"
  and parse_call :: "nat \<Rightarrow> rune list \<Rightarrow> nat \<Rightarrow> rat parsed"
  and call_args :: "nat \<Rightarrow> rune list \<Rightarrow> rune list \<Rightarrow> rat list \<Rightarrow> nat \<Rightarrow> rat list parsed"
where
  "parse_expr 0 src pos = None"
| "parse_expr (Suc n) src pos =
     and_then (parse_term n src pos) (\<lambda>(left, p). expr_loop n src left p)"
| "expr_loop 0 src left pos = None"
| "expr_loop (Suc n) src left pos =
     (let p = skip_space src pos; c = peek_rune src pos in
      if c = of_char CHR ''+'' then
        and_then (parse_term n src (p + 1)) (\<lambda>(right, p). expr_loop n src (left + right) p)
      else if c = of_char CHR ''-'' then
        and_then (parse_term n src (p + 1)) (\<lambda>(right, p). expr_loop n src (left - right) p)
      else Some (Inr (left, p)))"
| "parse_term 0 src pos = None"
| "parse_term (Suc n) src pos =
     and_then (parse_unary n src pos) (\<lambda>(left, p). term_loop n src left p)"
| "term_loop 0 src left pos = None"
| "term_loop (Suc n) src left pos =
     (let p = skip_space src pos; c = peek_rune src pos in
      if c \<noteq> of_char CHR ''*'' \<and> c \<noteq> of_char CHR ''/'' \<and> c \<noteq> of_char CHR ''%''
      then Some (Inr (left, p))
      else
        and_then (parse_unary n src (p + 1))
          (\<lambda>(right, p).
             if c = of_char CHR ''*'' then term_loop n src (left * right) p
             else if c = of_char CHR ''/'' then
               (if right = 0 then Some (Inl (errorf p DivisionByZero))
                else term_loop n src (left / right) p)
             else
               (if right = 0 then Some (Inl (errorf p RemainderByZero))
                else term_loop n src (rat_mod left right) p)))"
| "parse_unary 0 src pos = None"
| "parse_unary (Suc n) src pos =
     (let p = skip_space src pos; c = peek_rune src pos in
      if c = of_char CHR ''-'' then
        and_then (parse_unary n src (p + 1)) (\<lambda>(v, p). Some (Inr (- v, p)))
      else if c = of_char CHR ''+'' then parse_unary n src (p + 1)
      else parse_power n src p)"
| "parse_power 0 src pos = None"
| "parse_power (Suc n) src pos =
     and_then (parse_primary n src pos)
       (\<lambda>(base, p).
          let p' = skip_space src p in
          if peek_rune src p \<noteq> of_char CHR ''^'' then Some (Inr (base, p'))
          else
            and_then (parse_unary n src (p' + 1))
              (\<lambda>(ex, p).
                 case calc_pow p base ex of
                   Inl e \<Rightarrow> Some (Inl e)
                 | Inr v \<Rightarrow> Some (Inr (v, p))))"
| "parse_primary 0 src pos = None"
| "parse_primary (Suc n) src pos =
     (let p = skip_space src pos; c = peek_rune src pos in
      if c = 0 then Some (Inl (errorf p UnexpectedEnd))
      else if c = of_char CHR ''('' then
        and_then (parse_expr n src (p + 1))
          (\<lambda>(v, p).
             let p' = skip_space src p in
             if peek_rune src p \<noteq> of_char CHR '')'' then Some (Inl (errorf p' MissingParenthesis))
             else Some (Inr (v, p' + 1)))
      else if is_digit c \<or> c = of_char CHR ''.'' then Some (parse_number src p)
      else if is_letter c then parse_call n src p
      else Some (Inl (errorf p (UnexpectedRune c))))"
| "parse_call 0 src start = None"
| "parse_call (Suc n) src start =
     (let p = name_end src start; name = call_name src start; p' = skip_space src p in
      if peek_rune src p \<noteq> of_char CHR ''('' then Some (Inl (errorf start (UnknownName name)))
      else
        and_then
          (if peek_rune src (p' + 1) = of_char CHR '')''
           then Some (Inr ([], skip_space src (p' + 1) + 1))
           else call_args n src name [] (p' + 1))
          (\<lambda>(args, p).
             case call_func p name args of Inl e \<Rightarrow> Some (Inl e) | Inr v \<Rightarrow> Some (Inr (v, p))))"
| "call_args 0 src name args pos = None"
| "call_args (Suc n) src name args pos =
     and_then (parse_expr n src pos)
       (\<lambda>(v, p).
          let c = peek_rune src p; p' = skip_space src p in
          if c = of_char CHR '','' \<or> c = of_char CHR '';''
          then call_args n src name (args @ [v]) (p' + 1)
          else if c = of_char CHR '')'' then Some (Inr (args @ [v], p' + 1))
          else Some (Inl (errorf p' (ExpectedCommaOrParen name))))"
  by pat_completeness auto
termination
  by (relation "measure (case_sum (case_sum (case_sum fst fst) (case_sum fst fst))
        (case_sum (case_sum fst fst) (case_sum fst (case_sum fst fst))))") simp_all

definition calc_fuel :: "rune list \<Rightarrow> nat" where
  "calc_fuel src = 8 * length src + 6"

definition eval_expr :: "string \<Rightarrow> (calc_fail + rat) option" where
  "eval_expr s =
     (let t = trim_space s in
      if t = [] then Some (Inl (EmptyExpression, 0))
      else if max_expr_len < length t then Some (Inl (ExpressionTooLong, 0))
      else
        (let src = runes t in
         and_then (parse_expr (calc_fuel src) src 0)
           (\<lambda>(v, pos).
              let p = skip_space src pos in
              if p < length src then Some (Inl (errorf p (UnexpectedRune (src ! p))))
              else Some (Inr v))))"

subsection \<open>Rendering results\<close>

text \<open>\<^verbatim>\<open>big.Rat.FloatString\<close>: rounds half away from zero to \<open>prec\<close> decimals.\<close>

definition pad_left :: "nat \<Rightarrow> string \<Rightarrow> string" where
  "pad_left n s = replicate (n - length s) CHR ''0'' @ s"

definition float_string :: "rat \<Rightarrow> nat \<Rightarrow> string" where
  "float_string r prec =
     (let a = num r; b = denom r in
      if b = 1 then int_string a @ (if 0 < prec then CHR ''.'' # replicate prec CHR ''0'' else [])
      else
        (let p = 10 ^ prec;
             q = \<bar>a\<bar> div b;
             m = (\<bar>a\<bar> mod b) * p;
             d = m div b;
             up = b \<le> 2 * (m mod b);
             q = (if up \<and> p \<le> d + 1 then q + 1 else q);
             d = (if up then (if p \<le> d + 1 then d + 1 - p else d + 1) else d)
         in (if a < 0 then ''-'' else []) @ nat_string (nat q) @
            (if 0 < prec then CHR ''.'' # pad_left prec (nat_string (nat d)) else [])))"

text \<open>Dividing a prime factor out: the loops of \<^verbatim>\<open>decimalsNeeded\<close> and \<^verbatim>\<open>terminates\<close>.\<close>

function strip_factor :: "int \<Rightarrow> int \<Rightarrow> nat \<Rightarrow> int \<times> nat" where
  "strip_factor p x n =
     (if 1 < p \<and> 0 < x \<and> x mod p = 0 then strip_factor p (x div p) (n + 1) else (x, n))"
  by pat_completeness auto
termination
  by (relation "measure (\<lambda>(p, x, n). nat x)") (auto simp: int_div_less_self)

declare strip_factor.simps [simp del]

definition decimals_needed :: "int \<Rightarrow> nat" where
  "decimals_needed d =
     (let (x, a) = strip_factor 2 d 0; (y, b) = strip_factor 5 x 0 in max a b)"

definition terminates :: "int \<Rightarrow> bool" where
  "terminates d = (let x = fst (strip_factor 2 d 0); y = fst (strip_factor 5 x 0) in y = 1)"

definition trim_decimal :: "string \<Rightarrow> string" where
  "trim_decimal s =
     (if CHR ''.'' \<notin> set s then s
      else
        (let t = trim_right_set ''0'' s;
             t = (if t \<noteq> [] \<and> last t = CHR ''.'' then butlast t else t)
         in if t = ''-0'' \<or> t = [] then ''0'' else t))"

definition format_rat :: "rat \<Rightarrow> nat \<Rightarrow> string \<times> bool" where
  "format_rat r prec =
     (if is_int r then (int_string (num r), True)
      else if terminates (denom r)
        then (trim_decimal (float_string r (decimals_needed (denom r))), True)
      else (trim_decimal (float_string r prec), False))"

definition eval_number :: "string \<Rightarrow> (calc_fail + string) option" where
  "eval_number s =
     and_then (eval_expr s) (\<lambda>v. Some (Inr (fst (format_rat v (nat default_precision)))))"

subsection \<open>The tool\<close>

record calc_result =
  cr_expression :: string
  cr_result :: string
  cr_exact :: bool
  cr_error :: "calc_fail option"

datatype calc_call_error = NoExpressions | TooManyExpressions nat

definition calc_precision :: "int \<Rightarrow> nat" where
  "calc_precision p = nat (min 50 (if p \<le> 0 then default_precision else p))"

definition calculate_one :: "nat \<Rightarrow> string \<Rightarrow> calc_result option" where
  "calculate_one prec src =
     (case eval_expr src of
        None \<Rightarrow> None
      | Some (Inl e) \<Rightarrow>
          Some \<lparr>cr_expression = src, cr_result = [], cr_exact = False, cr_error = Some e\<rparr>
      | Some (Inr v) \<Rightarrow>
          Some \<lparr>cr_expression = src, cr_result = fst (format_rat v prec),
                cr_exact = snd (format_rat v prec), cr_error = None\<rparr>)"

definition calculate :: "string list \<Rightarrow> int \<Rightarrow> calc_call_error + calc_result list option" where
  "calculate exprs precision =
     (if exprs = [] then Inl NoExpressions
      else if max_expressions < length exprs then Inl (TooManyExpressions (length exprs))
      else Inr (those (map (calculate_one (calc_precision precision)) exprs)))"

subsection \<open>The parser always returns\<close>

text \<open>More fuel extends every result.\<close>

lemmas calc_parser_simps =
  parse_expr.simps expr_loop.simps parse_term.simps term_loop.simps parse_unary.simps
  parse_power.simps parse_primary.simps parse_call.simps call_args.simps

declare calc_parser_simps [simp del]

lemma parse_more:
  shows "extends (parse_expr n src pos) (parse_expr (Suc n) src pos)"
    and "extends (expr_loop n src v pos) (expr_loop (Suc n) src v pos)"
    and "extends (parse_term n src pos) (parse_term (Suc n) src pos)"
    and "extends (term_loop n src v pos) (term_loop (Suc n) src v pos)"
    and "extends (parse_unary n src pos) (parse_unary (Suc n) src pos)"
    and "extends (parse_power n src pos) (parse_power (Suc n) src pos)"
    and "extends (parse_primary n src pos) (parse_primary (Suc n) src pos)"
    and "extends (parse_call n src pos) (parse_call (Suc n) src pos)"
    and "extends (call_args n src name args pos) (call_args (Suc n) src name args pos)"
proof (induction n arbitrary: pos v name args)
  case 0
  show "extends (parse_expr 0 src pos) (parse_expr (Suc 0) src pos)"
    and "extends (expr_loop 0 src v pos) (expr_loop (Suc 0) src v pos)"
    and "extends (parse_term 0 src pos) (parse_term (Suc 0) src pos)"
    and "extends (term_loop 0 src v pos) (term_loop (Suc 0) src v pos)"
    and "extends (parse_unary 0 src pos) (parse_unary (Suc 0) src pos)"
    and "extends (parse_power 0 src pos) (parse_power (Suc 0) src pos)"
    and "extends (parse_primary 0 src pos) (parse_primary (Suc 0) src pos)"
    and "extends (parse_call 0 src pos) (parse_call (Suc 0) src pos)"
    and "extends (call_args 0 src name args pos) (call_args (Suc 0) src name args pos)"
    for pos v name args
    by (simp_all add: calc_parser_simps)
next
  case (Suc n)
  note step = calc_parser_simps(2,4,6,8,10,12,14,16,18) [of "Suc n"] calc_parser_simps(2,4,6,8,10,12,14,16,18) [of n]
  show "extends (parse_expr (Suc n) src pos) (parse_expr (Suc (Suc n)) src pos)"
    and "extends (expr_loop (Suc n) src v pos) (expr_loop (Suc (Suc n)) src v pos)"
    and "extends (parse_term (Suc n) src pos) (parse_term (Suc (Suc n)) src pos)"
    and "extends (term_loop (Suc n) src v pos) (term_loop (Suc (Suc n)) src v pos)"
    and "extends (parse_unary (Suc n) src pos) (parse_unary (Suc (Suc n)) src pos)"
    and "extends (parse_power (Suc n) src pos) (parse_power (Suc (Suc n)) src pos)"
    and "extends (parse_primary (Suc n) src pos) (parse_primary (Suc (Suc n)) src pos)"
    and "extends (parse_call (Suc n) src pos) (parse_call (Suc (Suc n)) src pos)"
    and "extends (call_args (Suc n) src name args pos) (call_args (Suc (Suc n)) src name args pos)"
    for pos v name args
    by (subst (1 2) calc_parser_simps, auto simp: Let_def split: sum.splits intro!: extends_and_then Suc.IH)+
qed

lemma skip_space_ge [simp]: "pos \<le> skip_space src pos"
  by (simp add: skip_space_def scan_while_ge)

lemma peek_rune_inside: "peek_rune src pos \<noteq> 0 \<Longrightarrow> skip_space src pos < length src"
  by (auto simp: peek_rune_def Let_def split: if_splits)

lemma peek_rune_at: "peek_rune src pos \<noteq> 0 \<Longrightarrow> peek_rune src pos = src ! skip_space src pos"
  by (auto simp: peek_rune_def Let_def split: if_splits)

lemma number_end_ge: "start \<le> number_end src start"
  unfolding number_end_def Let_def
  using scan_while_ge [of start _ src]
  by (auto intro: le_trans [OF _ scan_while_ge] le_SucI)

lemma parse_number_advances: "parse_number src start = Inr (v, p) \<Longrightarrow> start \<le> p"
  using number_end_ge [of start src]
  by (auto simp: parse_number_def Let_def split: if_splits option.splits
      intro: le_trans [OF _ skip_space_ge])

lemma parse_advances:
  shows "parse_expr n src pos = Some (Inr (w, p)) \<Longrightarrow> pos \<le> p"
    and "expr_loop n src v pos = Some (Inr (w, p)) \<Longrightarrow> pos \<le> p"
    and "parse_term n src pos = Some (Inr (w, p)) \<Longrightarrow> pos \<le> p"
    and "term_loop n src v pos = Some (Inr (w, p)) \<Longrightarrow> pos \<le> p"
    and "parse_unary n src pos = Some (Inr (w, p)) \<Longrightarrow> pos \<le> p"
    and "parse_power n src pos = Some (Inr (w, p)) \<Longrightarrow> pos \<le> p"
    and "parse_primary n src pos = Some (Inr (w, p)) \<Longrightarrow> pos \<le> p"
    and "parse_call n src pos = Some (Inr (w, p)) \<Longrightarrow> pos \<le> p"
    and "call_args n src name args pos = Some (Inr (ws, p)) \<Longrightarrow> pos \<le> p"
proof (induction n arbitrary: pos v w p name args ws)
  case 0
  show "parse_expr 0 src pos = Some (Inr (w, p)) \<Longrightarrow> pos \<le> p"
    and "expr_loop 0 src v pos = Some (Inr (w, p)) \<Longrightarrow> pos \<le> p"
    and "parse_term 0 src pos = Some (Inr (w, p)) \<Longrightarrow> pos \<le> p"
    and "term_loop 0 src v pos = Some (Inr (w, p)) \<Longrightarrow> pos \<le> p"
    and "parse_unary 0 src pos = Some (Inr (w, p)) \<Longrightarrow> pos \<le> p"
    and "parse_power 0 src pos = Some (Inr (w, p)) \<Longrightarrow> pos \<le> p"
    and "parse_primary 0 src pos = Some (Inr (w, p)) \<Longrightarrow> pos \<le> p"
    and "parse_call 0 src pos = Some (Inr (w, p)) \<Longrightarrow> pos \<le> p"
    and "call_args 0 src name args pos = Some (Inr (ws, p)) \<Longrightarrow> pos \<le> p"
    for pos v w p name args ws
    by (simp_all add: calc_parser_simps)
next
  case (Suc n)
  have sk: "skip_space src q \<le> r \<Longrightarrow> q \<le> r" "Suc (skip_space src q) \<le> r \<Longrightarrow> q \<le> r"
    "q \<le> r \<Longrightarrow> q \<le> skip_space src r" "q \<le> r \<Longrightarrow> q \<le> Suc (skip_space src r)" for q r
    using skip_space_ge [of q src] skip_space_ge [of r src] by linarith+
  have nm: "q \<le> name_end src q" for q
    by (simp add: name_end_def scan_while_ge)
  note adv = Suc.IH parse_number_advances
  show "parse_expr (Suc n) src pos = Some (Inr (w, p)) \<Longrightarrow> pos \<le> p"
    and "expr_loop (Suc n) src v pos = Some (Inr (w, p)) \<Longrightarrow> pos \<le> p"
    and "parse_term (Suc n) src pos = Some (Inr (w, p)) \<Longrightarrow> pos \<le> p"
    and "term_loop (Suc n) src v pos = Some (Inr (w, p)) \<Longrightarrow> pos \<le> p"
    and "parse_unary (Suc n) src pos = Some (Inr (w, p)) \<Longrightarrow> pos \<le> p"
    and "parse_power (Suc n) src pos = Some (Inr (w, p)) \<Longrightarrow> pos \<le> p"
    and "parse_primary (Suc n) src pos = Some (Inr (w, p)) \<Longrightarrow> pos \<le> p"
    and "call_args (Suc n) src name args pos = Some (Inr (ws, p)) \<Longrightarrow> pos \<le> p"
    for pos v w p name args ws
    by (auto simp: calc_parser_simps Let_def elim!: and_then_InrE split: if_splits sum.splits
        dest!: adv sk(1,2) intro!: sk(3,4))
  show "parse_call (Suc n) src pos = Some (Inr (w, p)) \<Longrightarrow> pos \<le> p" for pos w p
    using nm [of pos]
    by (auto simp: calc_parser_simps Let_def elim!: and_then_InrE split: if_splits sum.splits
        dest!: adv sk(1,2) intro!: sk(3,4))
qed
text \<open>How much fuel is left to spend at a position.\<close>

definition room :: "rune list \<Rightarrow> nat \<Rightarrow> nat" where
  "room src pos = 8 * (length src - pos)"

lemma room_mono: "p \<le> q \<Longrightarrow> room src q \<le> room src p"
  by (simp add: room_def)

lemma room_step: "p < q \<Longrightarrow> p < length src \<Longrightarrow> room src q + 8 \<le> room src p"
  by (simp add: room_def)

lemma room_after_peek:
  "peek_rune src pos \<noteq> 0 \<Longrightarrow> skip_space src pos < q \<Longrightarrow> room src q + 8 \<le> room src pos"
  using room_step [OF _ peek_rune_inside] room_mono [OF skip_space_ge] by (meson le_trans)


lemma room_after:
  "peek_rune src pos \<noteq> 0 \<Longrightarrow> room src (Suc (skip_space src pos)) + 8 \<le> room src pos"
  by (intro room_after_peek) auto

lemma name_end_ge: "start \<le> name_end src start"
  by (simp add: name_end_def scan_while_ge)

lemma room_skip: "room src (skip_space src pos) \<le> room src pos"
  by (intro room_mono) simp

lemma parse_room:
  shows "parse_expr n src pos = Some (Inr (w, p)) \<Longrightarrow> room src p \<le> room src pos"
    and "parse_term n src pos = Some (Inr (w, p)) \<Longrightarrow> room src p \<le> room src pos"
    and "parse_unary n src pos = Some (Inr (w, p)) \<Longrightarrow> room src p \<le> room src pos"
    and "parse_primary n src pos = Some (Inr (w, p)) \<Longrightarrow> room src p \<le> room src pos"
  by (auto dest!: parse_advances intro: room_mono)

lemma parse_total:
  shows "room src pos + 5 \<le> n \<Longrightarrow> parse_expr n src pos \<noteq> None"
    and "room src pos + 1 \<le> n \<Longrightarrow> expr_loop n src v pos \<noteq> None"
    and "room src pos + 4 \<le> n \<Longrightarrow> parse_term n src pos \<noteq> None"
    and "room src pos + 1 \<le> n \<Longrightarrow> term_loop n src v pos \<noteq> None"
    and "room src pos + 3 \<le> n \<Longrightarrow> parse_unary n src pos \<noteq> None"
    and "room src pos + 2 \<le> n \<Longrightarrow> parse_power n src pos \<noteq> None"
    and "room src pos + 1 \<le> n \<Longrightarrow> parse_primary n src pos \<noteq> None"
    and "room src pos \<le> n \<Longrightarrow> pos < length src \<Longrightarrow> parse_call n src pos \<noteq> None"
    and "room src pos + 6 \<le> n \<Longrightarrow> call_args n src name args pos \<noteq> None"
proof (induction n arbitrary: pos v name args)
  case 0
  show "room src pos + 5 \<le> 0 \<Longrightarrow> parse_expr 0 src pos \<noteq> None"
    and "room src pos + 1 \<le> 0 \<Longrightarrow> expr_loop 0 src v pos \<noteq> None"
    and "room src pos + 4 \<le> 0 \<Longrightarrow> parse_term 0 src pos \<noteq> None"
    and "room src pos + 1 \<le> 0 \<Longrightarrow> term_loop 0 src v pos \<noteq> None"
    and "room src pos + 3 \<le> 0 \<Longrightarrow> parse_unary 0 src pos \<noteq> None"
    and "room src pos + 2 \<le> 0 \<Longrightarrow> parse_power 0 src pos \<noteq> None"
    and "room src pos + 1 \<le> 0 \<Longrightarrow> parse_primary 0 src pos \<noteq> None"
    and "room src pos \<le> 0 \<Longrightarrow> pos < length src \<Longrightarrow> parse_call 0 src pos \<noteq> None"
    and "room src pos + 6 \<le> 0 \<Longrightarrow> call_args 0 src name args pos \<noteq> None"
    for pos v name args
    by (simp_all add: room_def)
next
  case (Suc n)
  show "parse_expr (Suc n) src pos \<noteq> None" if "room src pos + 5 \<le> Suc n" for pos
    using that
    by (auto simp: calc_parser_simps and_then_not_None iff del: not_None_eq
        dest!: parse_room intro!: Suc.IH)
  show "parse_term (Suc n) src pos \<noteq> None" if "room src pos + 4 \<le> Suc n" for pos
    using that
    by (auto simp: calc_parser_simps and_then_not_None iff del: not_None_eq
        dest!: parse_room intro!: Suc.IH)
  show "expr_loop (Suc n) src v pos \<noteq> None" if "room src pos + 1 \<le> Suc n" for v pos
    using that room_after [of src pos]
    by (auto simp: calc_parser_simps and_then_not_None Let_def iff del: not_None_eq
        dest!: parse_room intro!: Suc.IH)
  show "term_loop (Suc n) src v pos \<noteq> None" if "room src pos + 1 \<le> Suc n" for v pos
    using that room_after [of src pos]
    by (auto simp: calc_parser_simps and_then_not_None Let_def iff del: not_None_eq
        dest!: parse_room intro!: Suc.IH)
  show "parse_unary (Suc n) src pos \<noteq> None" if "room src pos + 3 \<le> Suc n" for pos
    using that room_after [of src pos] room_skip [of src pos]
    by (auto simp: calc_parser_simps and_then_not_None Let_def iff del: not_None_eq
        dest!: parse_room intro!: Suc.IH)
  show "parse_power (Suc n) src pos \<noteq> None" if "room src pos + 2 \<le> Suc n" for pos
  proof -
    have "room src (Suc (skip_space src q)) + 3 \<le> n"
      if "peek_rune src q = 94" "room src q \<le> room src pos" for q
      using room_after [of src q] that \<open>room src pos + 2 \<le> Suc n\<close> by simp
    then show ?thesis
      using that
      by (auto simp: calc_parser_simps and_then_not_None Let_def iff del: not_None_eq
          dest!: parse_room intro!: Suc.IH split: sum.splits)
  qed
  show "parse_primary (Suc n) src pos \<noteq> None" if "room src pos + 1 \<le> Suc n" for pos
    using that room_after [of src pos] room_skip [of src pos] peek_rune_inside [of src pos]
    by (auto simp: calc_parser_simps and_then_not_None Let_def Suc.IH(8) iff del: not_None_eq
        dest!: parse_room intro!: Suc.IH)
  show "call_args (Suc n) src name args pos \<noteq> None" if "room src pos + 6 \<le> Suc n" for pos name args
  proof -
    have "room src (Suc (skip_space src q)) + 6 \<le> n"
      if "0 < peek_rune src q" "room src q \<le> room src pos" for q
      using room_after [of src q] that \<open>room src pos + 6 \<le> Suc n\<close> by simp
    then show ?thesis
      using that
      by (auto simp: calc_parser_simps and_then_not_None Let_def iff del: not_None_eq
          dest!: parse_room intro!: Suc.IH)
  qed
  show "parse_call (Suc n) src pos \<noteq> None" if "room src pos \<le> Suc n" "pos < length src" for pos
    using that room_after [of src "name_end src pos"]
      room_mono [OF name_end_ge [of pos src], of src]
    by (auto simp: calc_parser_simps and_then_not_None Let_def iff del: not_None_eq
        dest!: parse_room intro!: Suc.IH split: sum.splits)
qed

text \<open>Each parser meets the interface of a parser with enough fuel.\<close>

interpretation expr_run: fuelled "\<lambda>n (src, pos). parse_expr n src pos" "\<lambda>(src, pos). room src pos + 5"
  by unfold_locales (auto simp: parse_total intro: parse_more iff del: not_None_eq)
interpretation expr_loop_run: fuelled
  "\<lambda>n (src, v, pos). expr_loop n src v pos" "\<lambda>(src, v, pos). room src pos + 1"
  by unfold_locales (auto simp: parse_total intro: parse_more iff del: not_None_eq)
interpretation term_run: fuelled "\<lambda>n (src, pos). parse_term n src pos" "\<lambda>(src, pos). room src pos + 4"
  by unfold_locales (auto simp: parse_total intro: parse_more iff del: not_None_eq)
interpretation term_loop_run: fuelled
  "\<lambda>n (src, v, pos). term_loop n src v pos" "\<lambda>(src, v, pos). room src pos + 1"
  by unfold_locales (auto simp: parse_total intro: parse_more iff del: not_None_eq)
interpretation unary_run: fuelled "\<lambda>n (src, pos). parse_unary n src pos" "\<lambda>(src, pos). room src pos + 3"
  by unfold_locales (auto simp: parse_total intro: parse_more iff del: not_None_eq)
interpretation power_run: fuelled "\<lambda>n (src, pos). parse_power n src pos" "\<lambda>(src, pos). room src pos + 2"
  by unfold_locales (auto simp: parse_total intro: parse_more iff del: not_None_eq)
interpretation primary_run: fuelled "\<lambda>n (src, pos). parse_primary n src pos" "\<lambda>(src, pos). room src pos + 1"
  by unfold_locales (auto simp: parse_total intro: parse_more iff del: not_None_eq)

lemma eval_expr_decided: "eval_expr s \<noteq> None"
proof -
  have "parse_expr (calc_fuel src) src 0 \<noteq> None" for src
    by (intro parse_total) (simp add: calc_fuel_def room_def)
  then show ?thesis
    unfolding eval_expr_def Let_def
    by (simp add: and_then_not_None split: prod.splits del: not_None_eq)
qed

end
