(* ===== verification/CalcNumbers.thy ===== *)
theory CalcNumbers
  imports Calc
begin

text \<open>
  What the operations and the rendering of \<^verbatim>\<open>calc.go\<close> compute: truncation, remainder and
  rounding on rationals, and the decimal strings of \<^verbatim>\<open>formatRat\<close>.
\<close>

subsection \<open>Numerators and denominators\<close>

lemma rat_eq_num_denom: "r = of_int (num r) / of_int (denom r)"
  by (rule quotient_of_div) (simp add: num_def denom_def)

lemma denom_pos [simp]: "0 < denom r"
  by (simp add: denom_def quotient_of_denom_pos')

lemma is_int_iff: "is_int r \<longleftrightarrow> r = of_int (num r)"
proof
  assume "is_int r"
  then show "r = of_int (num r)" using rat_eq_num_denom [of r] by (simp add: is_int_def)
next
  assume "r = of_int (num r)"
  then have "denom r = denom (of_int (num r))" by simp
  then show "is_int r" by (simp add: is_int_def denom_def)
qed

lemma num_of_int [simp]: "num (of_int i) = i" and denom_of_int [simp]: "denom (of_int i) = 1"
  by (simp_all add: num_def denom_def)

lemma num_nonneg: "0 \<le> num r \<longleftrightarrow> 0 \<le> r"
proof -
  have "0 \<le> r \<longleftrightarrow> 0 \<le> (of_int (num r) / of_int (denom r) :: rat)"
    using rat_eq_num_denom [of r] by simp
  then show ?thesis using denom_pos [of r] by (simp add: zero_le_divide_iff)
qed

subsection \<open>Truncation, remainder and rounding\<close>

lemma quo_pos: "0 < b \<Longrightarrow> quo a b = (if 0 \<le> a then a div b else - ((- a) div b))"
  by (auto simp: quo_def sgn_if)

text \<open>Truncation is the floor of a non-negative number and the ceiling of a negative one.\<close>

lemma floor_num_denom: "\<lfloor>r\<rfloor> = num r div denom r"
  using rat_eq_num_denom [of r] by (metis floor_divide_of_int_eq)

lemma rat_trunc_eq: "rat_trunc r = (if 0 \<le> r then of_int \<lfloor>r\<rfloor> else of_int \<lceil>r\<rceil>)"
proof -
  have c: "- ((- num r) div denom r) = \<lceil>r\<rceil>"
    using rat_eq_num_denom [of r] by (metis ceiling_divide_eq_div)
  show ?thesis
    using c by (simp add: rat_trunc_def quo_pos floor_num_denom num_nonneg)
qed

lemma rat_trunc_bounds: "\<bar>rat_trunc r\<bar> \<le> \<bar>r\<bar> \<and> \<bar>r - rat_trunc r\<bar> < 1"
proof (cases "0 \<le> r")
  case True
  then show ?thesis
    using floor_correct [of r] by (simp add: rat_trunc_eq)
next
  case False
  then have "(of_int \<lceil>r\<rceil> :: rat) \<le> 0" by (simp add: ceiling_le_zero)
  with False show ?thesis
    using ceiling_correct [of r] by (simp add: rat_trunc_eq)
qed

lemma rat_floor_eq: "rat_floor r = of_int \<lfloor>r\<rfloor>"
  by (simp add: rat_floor_def floor_num_denom)


lemma rat_mod_eq: "b \<noteq> 0 \<Longrightarrow> a = rat_trunc (a / b) * b + rat_mod a b"
  by (simp add: rat_mod_def Let_def)

lemma rat_mod_scaled: "b \<noteq> 0 \<Longrightarrow> rat_mod a b = (a / b - rat_trunc (a / b)) * b"
  by (simp add: rat_mod_def Let_def algebra_simps)

lemma rat_mod_bound: "b \<noteq> 0 \<Longrightarrow> \<bar>rat_mod a b\<bar> < \<bar>b\<bar>"
  using rat_trunc_bounds [of "a / b"]
  by (simp add: rat_mod_scaled abs_mult)

lemma rat_trunc_rest_sign: "0 \<le> r * (r - rat_trunc r)"
proof (cases "0 \<le> r")
  case True
  then show ?thesis
    using floor_correct [of r] by (simp add: rat_trunc_eq mult_nonneg_nonneg)
next
  case False
  then show ?thesis
    using ceiling_correct [of r] by (intro mult_nonpos_nonpos) (simp_all add: rat_trunc_eq)
qed

lemma rat_mod_sign: "b \<noteq> 0 \<Longrightarrow> 0 \<le> a * rat_mod a b"
proof -
  assume b: "b \<noteq> 0"
  have "a * rat_mod a b = (a / b * (a / b - rat_trunc (a / b))) * (b * b)"
    using b by (simp add: rat_mod_scaled)
  also have "0 \<le> \<dots>"
    by (rule mult_nonneg_nonneg [OF rat_trunc_rest_sign zero_le_square])
  finally show ?thesis .
qed

lemma ten_to_pos [simp]: "0 < ten_to e"
  by (simp add: ten_to_def)

lemma ten_to_nonneg [simp]: "0 \<le> ten_to e"
  by (simp add: less_imp_le)

lemma abs_ten_to [simp]: "\<bar>ten_to e\<bar> = ten_to e"
  by (rule abs_of_pos) simp

lemma ten_to_minus: "ten_to (- e) = 1 / ten_to e"
  by (auto simp: ten_to_def)

text \<open>The integer \<open>rat_round\<close> keeps, in units of \<open>10 ^ (- digits)\<close>.\<close>

definition rounded_units :: "rat \<Rightarrow> int \<Rightarrow> int" where
  "rounded_units r digits =
     (if r < 0 then \<lceil>r * ten_to digits - 1 / 2\<rceil> else \<lfloor>r * ten_to digits + 1 / 2\<rfloor>)"

lemma rat_round_units: "rat_round r digits = of_int (rounded_units r digits) * ten_to (- digits)"
proof -
  define x where "x = r * ten_to digits"
  have x: "(if 0 \<le> digits then r * 10 ^ nat \<bar>digits\<bar> else r / 10 ^ nat \<bar>digits\<bar>) = x"
    by (simp add: x_def ten_to_def)
  have unscale: "(if 0 \<le> digits then y / 10 ^ nat \<bar>digits\<bar> else y * 10 ^ nat \<bar>digits\<bar>) = y * ten_to (- digits)"
    for y :: rat
    by (auto simp: ten_to_def)
  have neg: "x < 0 \<longleftrightarrow> r < 0"
    by (simp add: x_def mult_less_0_iff less_le_not_le [of _ "ten_to digits"])
       (metis linorder_not_le mult_neg_pos mult_nonneg_nonneg order_less_imp_le ten_to_pos)
  have t: "rat_trunc (if x < 0 then x - 1 / 2 else x + 1 / 2) = of_int (rounded_units r digits)"
    unfolding rounded_units_def x_def [symmetric] neg [symmetric] by (simp add: rat_trunc_eq)
  show ?thesis
    unfolding rat_round_def Let_def x unscale t ..
qed

lemma rounded_units_near: "\<bar>of_int (rounded_units r digits) - r * ten_to digits\<bar> \<le> (1 / 2 :: rat)"
proof (rule abs_leI)
  note bounds = floor_correct [of "r * ten_to digits + 1 / 2"]
    ceiling_correct [of "r * ten_to digits - 1 / 2"]
  show "of_int (rounded_units r digits) - r * ten_to digits \<le> (1 / 2 :: rat)"
    and "- (of_int (rounded_units r digits) - r * ten_to digits) \<le> (1 / 2 :: rat)"
    unfolding rounded_units_def using bounds by (cases "r < 0"; simp; linarith)+
qed

lemma rat_round_near: "\<bar>rat_round r digits - r\<bar> \<le> ten_to (- digits) / 2"
proof -
  have "rat_round r digits - r
        = (of_int (rounded_units r digits) - r * ten_to digits) * ten_to (- digits)"
    using ten_to_pos [of digits]
    by (simp add: rat_round_units ten_to_minus field_simps less_imp_neq [symmetric])
  then have "\<bar>rat_round r digits - r\<bar>
        = \<bar>of_int (rounded_units r digits) - r * ten_to digits\<bar> * ten_to (- digits)"
    using ten_to_pos [of "- digits"] by (simp add: abs_mult)
  also have "\<dots> \<le> 1 / 2 * ten_to (- digits)"
    using rounded_units_near [of r digits] ten_to_pos [of "- digits"]
    by (intro mult_right_mono) simp_all
  finally show ?thesis by simp
qed


subsection \<open>Rendering\<close>

text \<open>The number a plain decimal string denotes.\<close>

definition decimal_value :: "string \<Rightarrow> rat" where
  "decimal_value s =
     (let neg = s \<noteq> [] \<and> hd s = CHR ''-'';
          t = (if neg then tl s else s);
          w = takeWhile (\<lambda>c. c \<noteq> CHR ''.'') t;
          f = drop (Suc (length w)) t;
          v = of_nat (digits_value (w @ f)) / 10 ^ length f
      in if neg then - v else v)"

lemma digits_value_append:
  "digits_value (s @ t) = digits_value s * 10 ^ length t + digits_value t"
proof (induction t rule: rev_induct)
  case (snoc c t)
  have "digits_value (s @ t @ [c]) = digits_value ((s @ t) @ [c])" by simp
  also have "\<dots> = 10 * digits_value (s @ t) + digit_value c" by (rule digits_value_snoc)
  finally show ?case using snoc by (simp add: algebra_simps)
qed simp

lemma digit_value_zero [simp]: "digit_value CHR ''0'' = 0"
  by (simp add: digit_value_def)

lemma digits_value_zeros [simp]: "digits_value (replicate k CHR ''0'') = 0"
proof (induction k)
  case (Suc k)
  have "replicate (Suc k) CHR ''0'' = replicate k CHR ''0'' @ [CHR ''0'']"
    by (simp add: replicate_append_same)
  then show ?case using Suc by (simp only: digits_value_snoc digit_value_zero)
qed simp

lemma length_nat_string_le: "d < 10 ^ n \<Longrightarrow> 0 < n \<Longrightarrow> length (nat_string d) \<le> n"
proof (induction d arbitrary: n rule: nat_string.induct)
  case (1 d)
  show ?case
  proof (cases "d < 10")
    case True
    then show ?thesis using "1.prems" by (subst nat_string.simps) simp
  next
    case False
    obtain m where n: "n = Suc m" using "1.prems"(2) by (cases n) auto
    have "0 < m" using False "1.prems"(1) n by (cases m) auto
    moreover have "d div 10 < 10 ^ m" using "1.prems"(1) n by (simp add: less_mult_imp_div_less mult.commute)
    ultimately have "length (nat_string (d div 10)) \<le> m" using "1.IH" False by blast
    then show ?thesis using False n by (subst nat_string.simps) simp
  qed
qed

lemma length_pad_left: "length s \<le> n \<Longrightarrow> length (pad_left n s) = n"
  by (simp add: pad_left_def)

lemma digits_value_pad_left [simp]: "digits_value (pad_left n s) = digits_value s"
  by (simp add: pad_left_def digits_value_append)

lemma digit_not_special: "is_ascii_digit c \<Longrightarrow> c \<noteq> CHR ''.'' \<and> c \<noteq> CHR ''-''"
  by (auto simp: is_ascii_digit_def)

lemma digits_takeWhile:
  "list_all is_ascii_digit w \<Longrightarrow> takeWhile (\<lambda>c. c \<noteq> CHR ''.'') (w @ CHR ''.'' # f) = w"
  "list_all is_ascii_digit w \<Longrightarrow> takeWhile (\<lambda>c. c \<noteq> CHR ''.'') w = w"
  by (induction w) (auto dest: digit_not_special)

lemma digits_hd: "list_all is_ascii_digit w \<Longrightarrow> w \<noteq> [] \<Longrightarrow> hd w \<noteq> CHR ''-''"
  by (cases w) (auto dest: digit_not_special)

text \<open>The value of a rendered number: whole part, point, decimals, sign.\<close>

lemma decimal_value_whole:
  "list_all is_ascii_digit w \<Longrightarrow> w \<noteq> [] \<Longrightarrow> decimal_value w = of_nat (digits_value w)"
  "list_all is_ascii_digit w \<Longrightarrow> decimal_value (CHR ''-'' # w) = - of_nat (digits_value w)"
  using digits_hd [of w] by (simp_all add: decimal_value_def Let_def digits_takeWhile)

lemma decimal_value_point:
  assumes "list_all is_ascii_digit w" "w \<noteq> []"
  shows "decimal_value (w @ CHR ''.'' # f) = of_nat (digits_value (w @ f)) / 10 ^ length f"
    and "decimal_value (CHR ''-'' # w @ CHR ''.'' # f)
         = - (of_nat (digits_value (w @ f)) / 10 ^ length f)"
  using assms digits_hd [of w]
  by (simp_all add: decimal_value_def Let_def digits_takeWhile hd_append)

lemma decimal_value_int_string [simp]: "decimal_value (int_string i) = of_int i"
  by (simp add: int_string_def decimal_value_whole nat_string_digits)


text \<open>
  The integer \<open>FloatString\<close> writes, in units of \<open>10 ^ (- prec)\<close>: the absolute value rounded
  half up.
\<close>

definition decimal_units :: "rat \<Rightarrow> nat \<Rightarrow> int" where
  "decimal_units r prec =
     (let a = \<bar>num r\<bar>; b = denom r; m = (a mod b) * 10 ^ prec
      in a div b * 10 ^ prec + m div b + (if b \<le> 2 * (m mod b) then 1 else 0))"

lemma decimal_units_near: "\<bar>2 * (decimal_units r prec * denom r - \<bar>num r\<bar> * 10 ^ prec)\<bar> \<le> denom r"
proof -
  define a b p m where "a = \<bar>num r\<bar>" and "b = denom r" and "p = (10 :: int) ^ prec"
    and "m = (a mod b) * p"
  have b: "0 < b" by (simp add: b_def)
  have "a * p = (a div b * b + a mod b) * p" by simp
  also have "\<dots> = (a div b * p) * b + m" by (simp only: m_def distrib_right) (simp add: mult_ac)
  also have "\<dots> = (a div b * p + m div b) * b + m mod b" by (simp add: distrib_right)
  finally have eq: "a * p = (a div b * p + m div b) * b + m mod b" .
  define c t where "c = a div b * p + m div b" and "t = m mod b"
  have t: "0 \<le> t" "t < b" using b by (simp_all add: t_def)
  have "\<bar>2 * ((c + (if b \<le> 2 * t then 1 else 0)) * b - (c * b + t))\<bar> \<le> b"
    using t by (auto simp: distrib_right abs_le_iff)
  then show ?thesis
    unfolding decimal_units_def Let_def a_def [symmetric] b_def [symmetric] p_def [symmetric]
      m_def [symmetric] eq c_def [symmetric] t_def [symmetric] .
qed

lemma float_string_shape:
  assumes "\<not> is_int r"
  obtains n w f where "w = nat_string n" "list_all is_ascii_digit f" "length f = prec"
    "float_string r prec = (if r < 0 then ''-'' else []) @ w @ (if 0 < prec then CHR ''.'' # f else [])"
    "int (digits_value (w @ f)) = decimal_units r prec"
proof -
  define a b p m where "a = \<bar>num r\<bar>" and "b = denom r" and "p = (10 :: int) ^ prec"
    and "m = (a mod b) * p"
  define d q where "d = m div b" and "q = a div b"
  define up where "up \<longleftrightarrow> b \<le> 2 * (m mod b)"
  define q' where "q' = (if up \<and> p \<le> d + 1 then q + 1 else q)"
  define d' where "d' = (if up then (if p \<le> d + 1 then d + 1 - p else d + 1) else d)"
  have b: "0 < b" and p: "0 < p" and b1: "b \<noteq> 1"
    using assms by (simp_all add: b_def p_def is_int_def)
  have "m < b * p" using b p by (simp add: m_def)
  moreover have "b * (m div b) \<le> m" using b mult_div_mod_eq [of b m] pos_mod_sign [of b m] by linarith
  ultimately have "b * d < b * p" by (simp add: d_def)
  then have d: "0 \<le> d" "d < p"
    using b p by (simp_all add: d_def m_def pos_imp_zdiv_nonneg_iff)
  have d': "0 \<le> d'" "d' < p" using d p by (auto simp: d'_def)
  have q': "0 \<le> q'" using b by (auto simp: q'_def q_def a_def pos_imp_zdiv_nonneg_iff)
  have units: "q' * p + d' = decimal_units r prec"
    using d by (simp add: decimal_units_def Let_def q'_def d'_def q_def d_def up_def m_def a_def b_def p_def
        distrib_right)
  define w f where "w = nat_string (nat q')" and "f = (if 0 < prec then pad_left prec (nat_string (nat d')) else [])"
  have dn: "nat d' < 10 ^ prec"
    using d' by (simp add: p_def nat_less_iff)
  have f: "length f = prec" "digits_value f = nat d'"
    using length_nat_string_le [OF dn] dn by (auto simp: f_def length_pad_left)
  show thesis
  proof (rule that [of w "nat q'" f])
    show "w = nat_string (nat q')" by (simp add: w_def)
    show "list_all is_ascii_digit f"
      by (auto simp: f_def pad_left_def nat_string_digits list_all_iff is_ascii_digit_def
          dest: nat_string_digits [unfolded list_all_iff, rule_format])
    show "length f = prec" by (rule f)
    have neg: "num r < 0 \<longleftrightarrow> r < 0" using num_nonneg [of r] by (simp add: not_le [symmetric])
    show "float_string r prec = (if r < 0 then ''-'' else []) @ w @ (if 0 < prec then CHR ''.'' # f else [])"
      using b1 by (simp add: float_string_def Let_def w_def f_def q'_def d'_def q_def d_def up_def m_def
          a_def b_def p_def neg)
    show "int (digits_value (w @ f)) = decimal_units r prec"
      unfolding units [symmetric] using f d' q'
      by (simp add: digits_value_append w_def p_def)
  qed
qed

lemma decimal_value_float_string:
  assumes "\<not> is_int r"
  shows "decimal_value (float_string r prec)
         = (if r < 0 then - 1 else 1) * (of_int (decimal_units r prec) / 10 ^ prec)"
proof -
  obtain n w f where s: "w = nat_string n" "list_all is_ascii_digit f" "length f = prec"
    "float_string r prec = (if r < 0 then ''-'' else []) @ w @ (if 0 < prec then CHR ''.'' # f else [])"
    and v: "int (digits_value (w @ f)) = decimal_units r prec"
    using float_string_shape [OF assms] by metis
  have v': "(of_nat (digits_value (w @ f)) :: rat) = of_int (decimal_units r prec)"
    by (metis of_int_of_nat_eq v)
  show ?thesis
    using s v' nat_string_digits [of n]
    by (cases "prec = 0") (auto simp: decimal_value_whole decimal_value_point)
qed

lemma decimal_units_exact:
  assumes "denom r dvd \<bar>num r\<bar> * 10 ^ prec"
  shows "decimal_units r prec * denom r = \<bar>num r\<bar> * 10 ^ prec"
proof -
  define e where "e = decimal_units r prec * denom r - \<bar>num r\<bar> * 10 ^ prec"
  obtain k where k: "e = denom r * k"
    using assms unfolding e_def by (metis dvdE dvd_diff dvd_triv_right)
  have "2 * \<bar>e\<bar> \<le> denom r"
    using decimal_units_near [of r prec] unfolding e_def [symmetric] by (simp add: abs_mult)
  then have "denom r * (2 * \<bar>k\<bar>) \<le> denom r * 1"
    using k by (simp add: abs_mult mult_ac abs_of_pos [OF denom_pos])
  then have "2 * \<bar>k\<bar> \<le> 1"
    using denom_pos [of r] mult_le_cancel_left_pos by blast
  then have "k = 0" by linarith
  then show ?thesis using k by (simp add: e_def)
qed

lemma strip_factor_spec:
  "1 < p \<Longrightarrow> 0 < x \<Longrightarrow>
     \<exists>y k. strip_factor p x n = (y, n + k) \<and> x = y * p ^ k \<and> \<not> p dvd y \<and> 0 < y"
proof (induction p x n rule: strip_factor.induct)
  case (1 p x n)
  show ?case
  proof (cases "x mod p = 0")
    case True
    then have x: "x = (x div p) * p" using mod_0_imp_dvd by fastforce
    moreover have "0 < x div p"
      using "1.prems" x by (metis pos_imp_zdiv_nonneg_iff order_le_less mult_zero_left less_trans zero_less_one less_irrefl)
    ultimately obtain y k where
      "strip_factor p (x div p) (n + 1) = (y, n + 1 + k)" "x div p = y * p ^ k" "\<not> p dvd y" "0 < y"
      using "1.IH" True "1.prems" by blast
    moreover have "strip_factor p x n = strip_factor p (x div p) (n + 1)"
      using True "1.prems" by (subst strip_factor.simps) simp
    moreover have "x = y * p ^ Suc k" using x calculation by (simp add: mult_ac)
    ultimately show ?thesis
      by (intro exI [of _ y] exI [of _ "Suc k"]) simp
  next
    case False
    then show ?thesis
      using "1.prems" by (intro exI [of _ x] exI [of _ 0]) (simp add: strip_factor.simps dvd_eq_mod_eq_0)
  qed
qed

lemma coprime_5:
  assumes "\<not> (5::int) dvd z"
  shows "coprime z 5"
proof -
  define g where "g = gcd z 5"
  have g: "g dvd 5" "g dvd z" "0 < g" by (simp_all add: g_def)
  then have "g \<le> 5" by (simp add: zdvd_imp_le)
  with g(3) have "g = 1 \<or> g = 2 \<or> g = 3 \<or> g = 4 \<or> g = 5" by presburger
  with g(1,2) assms have "g = 1" by auto
  then show ?thesis by (simp add: g_def coprime_iff_gcd_eq_1)
qed

lemma coprime_pow10:
  assumes "\<not> (2::int) dvd z" "\<not> (5::int) dvd z"
  shows "coprime z (10 ^ n)"
proof -
  have "coprime z 2" "coprime z 5"
    using assms coprime_5 by simp_all
  then have "coprime z (2 * 5)" by (simp only: coprime_mult_right_iff)
  then show ?thesis by simp
qed

lemma terminates_iff:
  assumes "0 < d"
  shows "terminates d \<longleftrightarrow> (\<exists>n. d dvd 10 ^ n)"
    and "terminates d \<Longrightarrow> d dvd 10 ^ decimals_needed d"
proof -
  obtain y a where y: "strip_factor 2 d 0 = (y, a)" "d = y * 2 ^ a" "\<not> 2 dvd y" "0 < y"
    using strip_factor_spec [of 2 d 0] assms by auto
  obtain z b where z: "strip_factor 5 y 0 = (z, b)" "y = z * 5 ^ b" "\<not> 5 dvd z" "0 < z"
    using strip_factor_spec [of 5 y 0] y by auto
  have t: "terminates d \<longleftrightarrow> z = 1" and n: "decimals_needed d = max a b"
    using y z by (simp_all add: terminates_def decimals_needed_def)
  have dvd: "(2::int) ^ a * 5 ^ b dvd 10 ^ max a b"
  proof -
    have "(2::int) ^ a * 5 ^ b dvd 2 ^ max a b * 5 ^ max a b"
      by (intro mult_dvd_mono le_imp_power_dvd) simp_all
    then show ?thesis by (simp add: power_mult_distrib [symmetric])
  qed
  then show "terminates d \<Longrightarrow> d dvd 10 ^ decimals_needed d"
    using t n y z by (simp add: mult.commute)
  have "z = 1" if "d dvd 10 ^ k" for k
  proof -
    have "z dvd 10 ^ k" using that y z by (metis dvd_mult_left mult.assoc)
    moreover have "\<not> 2 dvd z" using y z by auto
    ultimately show ?thesis
      using coprime_pow10 [of z k] z by (metis coprime_absorb_left zdvd1_eq abs_of_pos)
  qed
  then show "terminates d \<longleftrightarrow> (\<exists>n. d dvd 10 ^ n)"
    using t dvd y z by (metis mult.commute mult_1)
qed


text \<open>Trimming trailing zeros keeps the number and leaves a plain decimal.\<close>

definition plain_decimal :: "string \<Rightarrow> bool" where
  "plain_decimal s \<longleftrightarrow>
     (\<exists>neg n f. s = (if neg then ''-'' else []) @ nat_string n @ (if f = [] then [] else CHR ''.'' # f)
        \<and> list_all is_ascii_digit f)"

lemma trim_right_set_keep:
  "y \<notin> set cset \<Longrightarrow> trim_right_set cset (xs @ y # f) = xs @ y # trim_right_set cset f"
  by (simp add: trim_right_set_def dropWhile_append)

lemma trim_zeros: "\<exists>k. f = trim_right_set ''0'' f @ replicate k CHR ''0''"
proof (induction f rule: rev_induct)
  case (snoc c f)
  then obtain k where k: "f = trim_right_set ''0'' f @ replicate k CHR ''0''" ..
  show ?case
  proof (cases "c = CHR ''0''")
    case True
    have "f @ [c] = trim_right_set ''0'' f @ replicate k CHR ''0'' @ [CHR ''0'']"
      using k True by (metis append_assoc)
    also have "replicate k CHR ''0'' @ [CHR ''0''] = replicate (Suc k) CHR ''0''"
      by (simp add: replicate_append_same)
    finally have "f @ [c] = trim_right_set ''0'' f @ replicate (Suc k) CHR ''0''" .
    moreover have "trim_right_set ''0'' (f @ [c]) = trim_right_set ''0'' f" using True by simp
    ultimately show ?thesis by metis
  qed (simp add: exI [of _ 0])
qed (simp add: exI [of _ 0])

lemma nat_string_no_point: "CHR ''.'' \<notin> set (nat_string n)"
  using nat_string_digits [of n] by (auto simp: list_all_iff dest: digit_not_special)

lemma minus_not_nat_string: "nat_string n \<noteq> CHR ''-'' # s"
  using digits_hd [OF nat_string_digits nat_string_nonempty] by (metis list.sel(1))

lemma decimal_value_trim:
  assumes w: "w = nat_string n" and f: "list_all is_ascii_digit f" "f \<noteq> []"
    and s: "s = (if neg then ''-'' else []) @ w @ CHR ''.'' # f"
  shows "decimal_value (trim_decimal s) = decimal_value s" and "plain_decimal (trim_decimal s)"
proof -
  define sg where "sg = (if neg then ''-'' else [])"
  define g where "g = trim_right_set ''0'' f"
  obtain k where k: "f = g @ replicate k CHR ''0''"
    using trim_zeros [of f] by (auto simp: g_def)
  have g: "list_all is_ascii_digit g" using f k by (metis list_all_append)
  have wd: "list_all is_ascii_digit w" "w \<noteq> []" by (simp_all add: w nat_string_digits)
  have trim: "trim_right_set ''0'' s = (sg @ w) @ CHR ''.'' # g"
    using trim_right_set_keep [of "CHR ''.''" "''0''" "sg @ w" f] by (simp add: s sg_def g_def)
  define t where "t = (if g = [] then sg @ w else sg @ w @ CHR ''.'' # g)"
  have td: "trim_decimal s = (if t = ''-0'' \<or> t = [] then ''0'' else t)"
  proof -
    have "(sg @ w @ CHR ''.'' # g = [] \<or> last (sg @ w @ CHR ''.'' # g) \<noteq> CHR ''.'') \<longleftrightarrow> g \<noteq> []"
      using g by (cases g rule: rev_cases) (auto dest: digit_not_special)
    moreover have "butlast (sg @ w @ [CHR ''.'']) = sg @ w"
      by (simp add: butlast_append)
    ultimately show ?thesis
      using trim s by (auto simp: trim_decimal_def Let_def t_def)
  qed
  have vs: "decimal_value s = (if neg then -1 else 1) * (of_nat (digits_value (w @ f)) / 10 ^ length f)"
    using wd by (auto simp: s decimal_value_point)
  have shift: "(of_nat (digits_value (w @ f)) / 10 ^ length f :: rat) = of_nat (digits_value (w @ g)) / 10 ^ length g"
    by (simp add: k digits_value_append [of _ "replicate k _"] power_add append_assoc [symmetric]
        del: append_assoc)
  have vt: "decimal_value t = (if neg then -1 else 1) * (of_nat (digits_value (w @ g)) / 10 ^ length g)"
    using wd by (auto simp: t_def sg_def decimal_value_whole decimal_value_point)
  have t0: "t \<noteq> []" using wd by (simp add: t_def)
  show "decimal_value (trim_decimal s) = decimal_value s"
  proof (cases "t = ''-0''")
    case True
    have "decimal_value ''-0'' = decimal_value ''0''" by (simp add: decimal_value_def digits_value_def digit_value_def)
    then show ?thesis using td True vs vt shift by simp
  next
    case False
    then show ?thesis using td t0 vs vt shift by simp
  qed
  have "nat_string 0 = ''0''" by (subst nat_string.simps) (simp add: digit_char_def, code_simp)
  moreover have "plain_decimal t"
    unfolding plain_decimal_def t_def sg_def using g w by (intro exI [of _ neg] exI [of _ n] exI [of _ g]) simp
  moreover have "plain_decimal ''0''"
    unfolding plain_decimal_def using calculation(1)
    by (intro exI [of _ False] exI [of _ 0] exI [of _ "[]"]) simp
  ultimately show "plain_decimal (trim_decimal s)" using td by auto
qed


lemma plain_decimal_int_string: "plain_decimal (int_string i)"
  unfolding plain_decimal_def int_string_def
  by (cases "i < 0") (auto intro: exI [of _ True] exI [of _ False] exI [of _ "[]"])

lemma trim_decimal_float_string:
  assumes "\<not> is_int r"
  shows "decimal_value (trim_decimal (float_string r prec)) = decimal_value (float_string r prec)"
    and "plain_decimal (trim_decimal (float_string r prec))"
proof -
  obtain n w f where s: "w = nat_string n" "list_all is_ascii_digit f" "length f = prec"
    "float_string r prec = (if r < 0 then ''-'' else []) @ w @ (if 0 < prec then CHR ''.'' # f else [])"
    using float_string_shape [OF assms] by metis
  have "decimal_value (trim_decimal (float_string r prec)) = decimal_value (float_string r prec)
        \<and> plain_decimal (trim_decimal (float_string r prec))"
  proof (cases "prec = 0")
    case True
    then have fs: "float_string r prec = (if r < 0 then ''-'' else []) @ nat_string n"
      using s by simp
    then have "CHR ''.'' \<notin> set (float_string r prec)" by (simp add: nat_string_no_point)
    then have "trim_decimal (float_string r prec) = float_string r prec" by (simp add: trim_decimal_def)
    moreover have "plain_decimal (float_string r prec)"
      unfolding plain_decimal_def fs by (intro exI [of _ "r < 0"] exI [of _ n] exI [of _ "[]"]) simp
    ultimately show ?thesis by simp
  next
    case False
    then have "f \<noteq> []" "float_string r prec = (if r < 0 then ''-'' else []) @ w @ CHR ''.'' # f"
      using s by auto
    then show ?thesis using decimal_value_trim s by blast
  qed
  then show "decimal_value (trim_decimal (float_string r prec)) = decimal_value (float_string r prec)"
    and "plain_decimal (trim_decimal (float_string r prec))" by simp_all
qed

lemma float_string_units:
  assumes "\<not> is_int r"
  shows "\<bar>decimal_value (float_string r prec) - r\<bar>
         = \<bar>of_int (decimal_units r prec) / 10 ^ prec - \<bar>r\<bar>\<bar>"
proof -
  have "r = (if r < 0 then - 1 else 1) * \<bar>r\<bar>" by simp
  then have "decimal_value (float_string r prec) - r
    = (if r < 0 then - 1 else 1) * (of_int (decimal_units r prec) / 10 ^ prec - \<bar>r\<bar>)"
    using decimal_value_float_string [OF assms, of prec] by (cases "r < 0") simp_all
  then show ?thesis by (simp add: abs_mult)
qed

lemma abs_rat_num_denom: "\<bar>r\<bar> = of_int \<bar>num r\<bar> / of_int (denom r)"
  using rat_eq_num_denom [of r] denom_pos [of r]
  by (metis abs_divide abs_of_pos of_int_0_less_iff of_int_abs)

lemma abs_divide_le: "\<bar>x\<bar> \<le> c \<Longrightarrow> 0 < y \<Longrightarrow> \<bar>x / y\<bar> \<le> c / (y :: rat)"
  by (simp add: abs_divide divide_right_mono)

lemma float_string_near:
  assumes "\<not> is_int r"
  shows "\<bar>decimal_value (float_string r prec) - r\<bar> \<le> 1 / (2 * 10 ^ prec)"
proof -
  have d: "(0::rat) < of_int (denom r)" by simp
  have p: "(0::rat) < 10 ^ prec" by simp
  define u a b where "u = decimal_units r prec" and "a = \<bar>num r\<bar>" and "b = denom r"
  have b: "0 < b" by (simp add: b_def)
  have "\<bar>2 * (u * b - a * 10 ^ prec)\<bar> \<le> b"
    using decimal_units_near [of r prec] by (simp only: u_def a_def b_def)
  then have "\<bar>2 * (of_int u * of_int b - of_int a * 10 ^ prec)\<bar> \<le> (of_int b :: rat)"
    by (metis (no_types, opaque_lifting) of_int_abs of_int_diff of_int_le_iff of_int_mult of_int_numeral of_int_power)
  moreover have "of_int u / 10 ^ prec - of_int a / of_int b
      = (2 * (of_int u * of_int b - of_int a * 10 ^ prec)) / (2 * of_int b * 10 ^ prec :: rat)"
    using b p by (simp add: field_simps)
  ultimately have "\<bar>of_int u / 10 ^ prec - of_int a / of_int b\<bar> \<le> (of_int b :: rat) / (2 * of_int b * 10 ^ prec)"
    using b p by (simp only:) (intro abs_divide_le, simp_all)
  also have "\<dots> = 1 / (2 * 10 ^ prec)" using b by simp
  finally show ?thesis
    using float_string_units [OF assms, of prec] abs_rat_num_denom [of r] by (simp add: u_def a_def b_def)
qed

lemma float_string_exact:
  assumes "\<not> is_int r" "denom r dvd 10 ^ prec"
  shows "decimal_value (float_string r prec) = r"
proof -
  have "decimal_units r prec * denom r = \<bar>num r\<bar> * 10 ^ prec"
    using assms(2) by (intro decimal_units_exact) simp
  then have "(of_int (decimal_units r prec) * of_int (denom r) :: rat) = of_int \<bar>num r\<bar> * 10 ^ prec"
    by (metis of_int_mult of_int_numeral of_int_power)
  moreover have "(of_int (denom r) :: rat) \<noteq> 0" using denom_pos [of r] by linarith
  ultimately have "of_int (decimal_units r prec) / 10 ^ prec = \<bar>r\<bar>"
    by (simp add: abs_rat_num_denom [of r] field_simps)
  then show ?thesis using float_string_units [OF assms(1), of prec] by simp
qed

lemma format_rat_exact_iff: "snd (format_rat r prec) \<longleftrightarrow> (\<exists>n. denom r dvd 10 ^ n)"
  using terminates_iff(1) [OF denom_pos [of r]]
  by (auto simp: format_rat_def is_int_def)

lemma format_rat_plain: "plain_decimal (fst (format_rat r prec))"
  by (auto simp: format_rat_def plain_decimal_int_string trim_decimal_float_string)

lemma format_rat_exact: "snd (format_rat r prec) \<Longrightarrow> decimal_value (fst (format_rat r prec)) = r"
  using terminates_iff(2) [OF denom_pos [of r]]
  by (auto simp: format_rat_def trim_decimal_float_string float_string_exact is_int_iff [THEN iffD1, symmetric]
      split: if_splits)

lemma format_rat_near:
  "\<bar>decimal_value (fst (format_rat r prec)) - r\<bar> \<le> 1 / (2 * 10 ^ prec)"
proof (cases "snd (format_rat r prec)")
  case True
  then show ?thesis using format_rat_exact [OF True] by simp
next
  case False
  then show ?thesis
    using float_string_near [of r prec]
    by (auto simp: format_rat_def trim_decimal_float_string split: if_splits)
qed

subsection \<open>What the calculator promises\<close>

text \<open>
  C23: The renderer of the calculate tool never misreports. Its text is always a plain decimal
  (an optional minus sign, digits, and decimals after a point, no exponent and no separators);
  the \<^verbatim>\<open>exact\<close> flag is set exactly for the numbers that have a finite decimal expansion; a
  result with the flag denotes the number itself, and one without it is within half a unit of
  the last requested decimal.
\<close>

theorem format_rat_faithful:
  "plain_decimal (fst (format_rat r prec))
   \<and> (snd (format_rat r prec) \<longleftrightarrow> (\<exists>n. denom r dvd 10 ^ n))
   \<and> (if snd (format_rat r prec) then decimal_value (fst (format_rat r prec)) = r
      else \<bar>decimal_value (fst (format_rat r prec)) - r\<bar> \<le> 1 / (2 * 10 ^ prec))"
  by (intro conjI format_rat_plain format_rat_exact_iff) (simp add: format_rat_exact format_rat_near)

lemma calculate_one_total: "\<exists>r. calculate_one prec s = Some r \<and> cr_expression r = s"
  using eval_expr_decided [of s] by (auto simp: calculate_one_def split: sum.splits)

lemma calculate_all: "\<exists>rs. those (map (calculate_one prec) exprs) = Some rs \<and> map cr_expression rs = exprs"
proof (induction exprs)
  case (Cons s exprs)
  then show ?case using calculate_one_total [of prec s] by fastforce
qed simp

text \<open>
  C24: Evaluation always returns: whatever text the model writes, the parser ends with a value or
  an error, never by looping, so the tool returns one result per expression (or refuses the whole
  call).
\<close>

theorem calculate_returns:
  "(\<exists>r. eval_expr s = Some r)
   \<and> (case calculate exprs prec of
        Inl e \<Rightarrow> exprs = [] \<or> max_expressions < length exprs
      | Inr None \<Rightarrow> False
      | Inr (Some rs) \<Rightarrow> map cr_expression rs = exprs)"
  using eval_expr_decided [of s] calculate_all [of "calc_precision prec" exprs]
  by (auto simp: calculate_def)

lemma rounded_units_minus: "rounded_units (- r) digits = - rounded_units r digits"
proof -
  have "\<lceil>- x - 1 / 2\<rceil> = - \<lfloor>x + 1 / 2\<rfloor>" for x :: rat
    by (simp add: ceiling_def add.commute)
  moreover have "\<lfloor>- x + 1 / 2\<rfloor> = - \<lceil>x - 1 / 2\<rceil>" for x :: rat
    by (simp add: ceiling_def)
  moreover have "\<lfloor>1 / 2 :: rat\<rfloor> = 0" by (simp add: floor_eq_iff)
  ultimately show ?thesis
    by (cases "r = 0") (auto simp: rounded_units_def)
qed

lemma rounded_units_tie: "rounded_units ((of_nat n + 1 / 2) * ten_to (- digits)) digits = int n + 1"
proof -
  have "(of_nat n + 1 / 2) * ten_to (- digits) * ten_to digits = (of_nat n + 1 / 2 :: rat)"
    using ten_to_pos [of digits] by (simp add: ten_to_minus less_imp_neq [symmetric])
  moreover have "\<not> (of_nat n + 1 / 2 :: rat) * ten_to (- digits) < 0"
    by (simp add: not_less)
  moreover have "\<lfloor>of_nat n + 1 / 2 + 1 / 2 :: rat\<rfloor> = int n + 1"
    by (simp add: floor_eq_iff)
  ultimately show ?thesis by (simp only: rounded_units_def if_False)
qed

text \<open>
  \<^verbatim>\<open>round\<close> rounds to the nearest multiple of \<open>10 ^ (- digits)\<close>, for negative digits too; a
  tie goes away from zero, and rounding is symmetric in the sign.
\<close>

theorem rat_round_nearest:
  "(\<exists>k::int. rat_round r digits = of_int k * ten_to (- digits))
   \<and> \<bar>rat_round r digits - r\<bar> \<le> ten_to (- digits) / 2
   \<and> rat_round (- r) digits = - rat_round r digits
   \<and> rat_round ((of_nat n + 1 / 2) * ten_to (- digits)) digits = (of_nat n + 1) * ten_to (- digits)"
  using rat_round_near [of r digits]
  by (auto simp: rat_round_units rounded_units_minus rounded_units_tie intro: exI [of _ "rounded_units r digits"])

text \<open>
  \<^verbatim>\<open>%\<close> is the truncated remainder on rationals: the quotient is an integer, the remainder is
  smaller than the divisor and has the sign of the dividend.
\<close>

theorem rat_mod_truncated:
  assumes "b \<noteq> 0"
  shows "(\<exists>k::int. a = of_int k * b + rat_mod a b) \<and> \<bar>rat_mod a b\<bar> < \<bar>b\<bar> \<and> 0 \<le> a * rat_mod a b"
  using rat_mod_eq [OF assms, of a] rat_mod_bound [OF assms] rat_mod_sign [OF assms]
  by (metis rat_trunc_def)

lemma rat_mod_truncated_witness:
  "(\<exists>k::int. (- 7 / 2 :: rat) = of_int k * 2 + rat_mod (- 7 / 2) 2)
   \<and> \<bar>rat_mod (- 7 / 2) 2\<bar> < \<bar>2::rat\<bar> \<and> 0 \<le> (- 7 / 2) * rat_mod (- 7 / 2) 2"
  by (rule rat_mod_truncated) simp

end
