(* ===== verification/JsonRepair.thy ===== *)
theory JsonRepair
  imports CalcNumbers
begin

text \<open>
  The repair of arithmetic in JSON documents (\<^verbatim>\<open>internal/agent/jsonrepair.go\<close>). The Go loop
  runs over an index into the text; here every scanner takes the text from that index on and
  returns what it consumed and the rest.
\<close>

subsection \<open>The scanners\<close>

definition json_space :: "char \<Rightarrow> bool" where
  "json_space c \<longleftrightarrow> c = CHR '' '' \<or> c = CHR 0x09 \<or> c = CHR 0x0D \<or> c = CHR 0x0A"

text \<open>The regular expression \<^verbatim>\<open>plainJSONNumber\<close>.\<close>

fun json_int_part :: "string \<Rightarrow> string option" where
  "json_int_part [] = None"
| "json_int_part (c # t) =
     (if c = CHR ''0'' then Some t
      else if is_ascii_digit c then Some (dropWhile is_ascii_digit t) else None)"

fun json_fraction :: "string \<Rightarrow> string" where
  "json_fraction (p # d # t) =
     (if p = CHR ''.'' \<and> is_ascii_digit d then dropWhile is_ascii_digit t else p # d # t)"
| "json_fraction t = t"

definition json_exponent :: "string \<Rightarrow> string" where
  "json_exponent s =
     (case s of
        e # t \<Rightarrow>
          (let t = (case t of c # t' \<Rightarrow> if c = CHR ''+'' \<or> c = CHR ''-'' then t' else t | [] \<Rightarrow> t)
           in if (e = CHR ''e'' \<or> e = CHR ''E'') \<and> t \<noteq> [] \<and> is_ascii_digit (hd t)
              then dropWhile is_ascii_digit t else s)
      | [] \<Rightarrow> s)"

definition plain_json_number :: "string \<Rightarrow> bool" where
  "plain_json_number s =
     (case json_int_part (if s \<noteq> [] \<and> hd s = CHR ''-'' then tl s else s) of
        None \<Rightarrow> False
      | Some t \<Rightarrow> json_exponent (json_fraction t) = [])"

definition expr_chars :: "string" where
  "expr_chars = ''0123456789+-*/%^().eE '' @ [CHR 0x09, CHR 0x0D, CHR 0x0A]"

text \<open>
  \<^verbatim>\<open>skipJSONString\<close> after the opening quote: a backslash takes the next byte with it, also when
  there is none.
\<close>

fun skip_json_string :: "string \<Rightarrow> string \<times> string" where
  "skip_json_string [] = ([], [])"
| "skip_json_string (c # t) =
     (if c = CHR 0x5C then
        (case t of
           [] \<Rightarrow> ([c], [])
         | d # t' \<Rightarrow> (let (body, rest) = skip_json_string t' in (c # d # body, rest)))
      else if c = CHR 0x22 then ([c], t)
      else (let (body, rest) = skip_json_string t in (c # body, rest)))"

text \<open>\<^verbatim>\<open>scanExprValue\<close>: the token, the rest, and whether the token can be an expression.\<close>

fun scan_expr_value :: "nat \<Rightarrow> string \<Rightarrow> string \<times> string \<times> bool" where
  "scan_expr_value depth [] = ([], [], True)"
| "scan_expr_value depth (c # t) =
     (if c = CHR ''('' then
        (let (tok, rest, ok) = scan_expr_value (depth + 1) t in (c # tok, rest, ok))
      else if c = CHR '')'' then
        (if depth = 0 then ([], c # t, False)
         else (let (tok, rest, ok) = scan_expr_value (depth - 1) t in (c # tok, rest, ok)))
      else if depth = 0 \<and> (c = CHR '','' \<or> c = CHR ''}'' \<or> c = CHR '']'') then ([], c # t, True)
      else if c \<notin> set expr_chars then ([], c # t, False)
      else (let (tok, rest, ok) = scan_expr_value depth t in (c # tok, rest, ok)))"

definition value_position :: "string \<Rightarrow> char \<Rightarrow> bool" where
  "value_position stack prev =
     (if prev = CHR '':'' \<or> prev = CHR ''['' then True
      else if prev = CHR '','' then stack \<noteq> [] \<and> hd stack = CHR ''[''
      else False)"

definition value_start :: "char \<Rightarrow> bool" where
  "value_start c \<longleftrightarrow> is_ascii_digit c \<or> c = CHR ''-'' \<or> c = CHR ''+'' \<or> c = CHR ''('' \<or> c = CHR ''.''"

text \<open>
  What a value token becomes: the exact number when it is an expression that is not a number
  already and that evaluates, itself otherwise.
\<close>

definition repair_token :: "string \<Rightarrow> bool \<Rightarrow> string option" where
  "repair_token tok ok =
     (let trimmed = trim_right_set ('' '' @ [CHR 0x09, CHR 0x0D, CHR 0x0A]) tok in
      if ok \<and> \<not> plain_json_number trimmed then
        (case eval_number trimmed of
           Some (Inr v) \<Rightarrow> Some (v @ drop (length trimmed) tok)
         | _ \<Rightarrow> None)
      else None)"

lemma skip_json_string_split: "skip_json_string s = (body, rest) \<Longrightarrow> s = body @ rest"
  by (induction s arbitrary: body rest rule: skip_json_string.induct)
     (auto split: if_splits list.splits prod.splits)

lemma scan_expr_value_split: "scan_expr_value d s = (tok, rest, ok) \<Longrightarrow> s = tok @ rest"
  by (induction d s arbitrary: tok rest ok rule: scan_expr_value.induct)
     (auto split: if_splits prod.splits)

lemma value_start_cases: "value_start c \<Longrightarrow> c \<in> set ''0123456789-+(.''"
  using is_ascii_digit_cases [of c] by (auto simp: value_start_def)

lemma scan_expr_value_start:
  "value_start c \<Longrightarrow> scan_expr_value 0 (c # t) = (tok, rest, ok) \<Longrightarrow> \<exists>tok'. tok = c # tok'"
proof -
  assume c: "value_start c" and scan: "scan_expr_value 0 (c # t) = (tok, rest, ok)"
  have "set ''0123456789-+(.'' \<subseteq> set expr_chars" by (simp add: expr_chars_def)
  moreover have "x \<notin> set ''0123456789-+(.''" if "x \<in> set '')}],''" for x
    using that by auto
  ultimately have "c \<in> set expr_chars" "c \<notin> set '')}],''"
    using value_start_cases [OF c] by blast+
  then show "\<exists>tok'. tok = c # tok'"
    using scan by (auto split: if_splits prod.splits)
qed

declare scan_expr_value.simps [simp del]

lemma skip_json_string_shorter: "(body, rest) = skip_json_string t \<Longrightarrow> length rest \<le> length t"
  by (drule sym) (auto dest: skip_json_string_split)

lemma scan_expr_value_shorter:
  "(tok, rest, ok) = scan_expr_value 0 (c # t) \<Longrightarrow> value_start c \<Longrightarrow> length rest \<le> length t"
  by (drule sym) (auto dest!: scan_expr_value_start dest: scan_expr_value_split)

text \<open>The loop of \<^verbatim>\<open>repairJSONExpressions\<close>.\<close>

function repair_from :: "string \<Rightarrow> char \<Rightarrow> string \<Rightarrow> string \<times> nat" where
  "repair_from stack prev [] = ([], 0)"
| "repair_from stack prev (c # t) =
     (if c = CHR 0x22 then
        (let (body, rest) = skip_json_string t; (out, n) = repair_from stack CHR 0x22 rest
         in (c # body @ out, n))
      else if json_space c then
        (let (out, n) = repair_from stack prev t in (c # out, n))
      else if c = CHR ''{'' \<or> c = CHR ''['' then
        (let (out, n) = repair_from (c # stack) c t in (c # out, n))
      else if c = CHR ''}'' \<or> c = CHR '']'' then
        (let (out, n) = repair_from (if stack = [] then [] else tl stack) c t in (c # out, n))
      else if c = CHR '','' \<or> c = CHR '':'' then
        (let (out, n) = repair_from stack c t in (c # out, n))
      else if value_position stack prev \<and> value_start c then
        (let (tok, rest, ok) = scan_expr_value 0 (c # t);
             (out, n) = repair_from stack CHR ''0'' rest
         in case repair_token tok ok of
              Some new \<Rightarrow> (new @ out, Suc n)
            | None \<Rightarrow> (tok @ out, n))
      else
        (let (out, n) = repair_from stack c t in (c # out, n)))"
  by pat_completeness auto
termination
  by (relation "measure (\<lambda>(stack, prev, s). length s)")
     (auto simp: less_Suc_eq_le dest: skip_json_string_shorter scan_expr_value_shorter)

definition repair_json_expressions :: "string \<Rightarrow> string \<times> nat" where
  "repair_json_expressions s = repair_from [] CHR 0x00 s"


subsection \<open>Repairing twice\<close>

lemma skip_json_string_again:
  "skip_json_string s = (body, rest) \<Longrightarrow> (rest = [] \<Longrightarrow> rest' = []) \<Longrightarrow>
     skip_json_string (body @ rest') = (body, rest')"
proof (induction s arbitrary: body rest rule: skip_json_string.induct)
  case 1
  then show ?case by simp
next
  case (2 c t)
  show ?case
  proof (cases "c = CHR 0x5C")
    case True
    with 2 show ?thesis by (auto split: list.splits prod.splits)
  next
    case False
    with 2 show ?thesis by (auto split: if_splits prod.splits)
  qed
qed

lemma scan_expr_value_again:
  "scan_expr_value d s = (tok, rest, ok) \<Longrightarrow> take 1 rest' = take 1 rest \<Longrightarrow>
     scan_expr_value d (tok @ rest') = (tok, rest', ok)"
proof (induction d s arbitrary: tok ok rule: scan_expr_value.induct)
  case (1 d)
  then show ?case by (auto simp: scan_expr_value.simps take_Suc split: if_splits)
next
  case (2 d c t)
  show ?case
  proof (cases "\<exists>tok'. tok = c # tok'")
    case True
    then show ?thesis
      using 2 by (auto simp: scan_expr_value.simps split: if_splits prod.splits)
  next
    case False
    then have "tok = [] \<and> rest = c # t"
      using "2.prems" by (auto simp: scan_expr_value.simps split: if_splits prod.splits)
    moreover from this obtain t' where "rest' = c # t'"
      using "2.prems" by (cases rest') auto
    ultimately show ?thesis
      using "2.prems" by (auto simp: scan_expr_value.simps split: if_splits prod.splits)
  qed
qed

lemma scan_expr_value_ok:
  "scan_expr_value d s = (tok, rest, True) \<Longrightarrow> rest = [] \<or> hd rest \<in> set '',}]''"
  by (induction d s arbitrary: tok rule: scan_expr_value.induct)
     (auto simp: scan_expr_value.simps split: if_splits prod.splits)

definition flat_expr_char :: "char \<Rightarrow> bool" where
  "flat_expr_char c \<longleftrightarrow> c \<in> set expr_chars \<and> c \<notin> set ''(),}]''"

lemma scan_expr_value_flat:
  "list_all flat_expr_char tok \<Longrightarrow> rest = [] \<or> hd rest \<in> set '',}]'' \<Longrightarrow>
     scan_expr_value 0 (tok @ rest) = (tok, rest, True)"
proof (induction tok)
  case Nil
  then show ?case by (cases rest) (auto simp: scan_expr_value.simps)
next
  case (Cons c tok)
  then show ?case by (simp add: scan_expr_value.simps flat_expr_char_def)
qed

lemma digit_flat: "is_ascii_digit c \<Longrightarrow> flat_expr_char c"
  using is_ascii_digit_cases [of c] by (auto simp: flat_expr_char_def expr_chars_def)

lemma space_flat: "c \<in> set ('' '' @ [CHR 0x09, CHR 0x0D, CHR 0x0A]) \<Longrightarrow> flat_expr_char c"
  by (auto simp: flat_expr_char_def expr_chars_def)

lemma digits_flat: "list_all is_ascii_digit s \<Longrightarrow> list_all flat_expr_char s"
  by (erule list.pred_mono_strong) (rule digit_flat)

lemma plain_decimal_flat: "plain_decimal s \<Longrightarrow> list_all flat_expr_char s"
proof -
  assume "plain_decimal s"
  then obtain neg n f where
    s: "s = (if neg then ''-'' else []) @ nat_string n @ (if f = [] then [] else CHR ''.'' # f)"
    and f: "list_all is_ascii_digit f"
    unfolding plain_decimal_def by blast
  have "flat_expr_char CHR ''-''" "flat_expr_char CHR ''.''"
    by (simp_all add: flat_expr_char_def expr_chars_def)
  then show ?thesis
    using digits_flat [OF f] digits_flat [OF nat_string_digits [of n]] by (simp add: s)
qed

lemma dropWhile_digits: "list_all is_ascii_digit w \<Longrightarrow> dropWhile is_ascii_digit (w @ t) = dropWhile is_ascii_digit t"
  by (induction w) auto

lemma nat_string_int_part:
  "rest = [] \<or> \<not> is_ascii_digit (hd rest) \<Longrightarrow> json_int_part (nat_string n @ rest) = Some rest"
proof -
  assume rest: "rest = [] \<or> \<not> is_ascii_digit (hd rest)"
  then have drop: "dropWhile is_ascii_digit rest = rest" by (cases rest) auto
  obtain c t where ct: "nat_string n = c # t" by (cases "nat_string n") auto
  have dig: "is_ascii_digit c" "list_all is_ascii_digit t"
    using nat_string_digits [of n] ct by simp_all
  show ?thesis
  proof (cases "c = CHR ''0''")
    case True
    then have "n < 10" using nat_string_no_leading_zero [of n] ct by (cases "10 \<le> n") auto
    then have "nat_string n = [digit_char n]" by (subst nat_string.simps) simp
    then have "t = []" using ct by simp
    then show ?thesis using True ct by simp
  next
    case False
    then show ?thesis using ct dig drop by (simp add: dropWhile_digits)
  qed
qed

lemma plain_decimal_number: "plain_decimal s \<Longrightarrow> plain_json_number s"
proof -
  assume "plain_decimal s"
  then obtain neg n f where
    s: "s = (if neg then ''-'' else []) @ nat_string n @ (if f = [] then [] else CHR ''.'' # f)"
    and f: "list_all is_ascii_digit f"
    unfolding plain_decimal_def by blast
  have "hd (nat_string n) \<noteq> CHR ''-''"
    using digits_hd [OF nat_string_digits nat_string_nonempty] .
  then have sign: "(if s \<noteq> [] \<and> hd s = CHR ''-'' then tl s else s)
      = nat_string n @ (if f = [] then [] else CHR ''.'' # f)"
    by (simp add: s hd_append)
  have "json_int_part (nat_string n @ (if f = [] then [] else CHR ''.'' # f))
      = Some (if f = [] then [] else CHR ''.'' # f)"
    by (rule nat_string_int_part) (simp add: is_ascii_digit_def)
  moreover have "json_fraction (if f = [] then [] else CHR ''.'' # f) = []"
    using f by (cases f) (simp_all add: list_all_iff)
  ultimately show ?thesis
    by (simp only: plain_json_number_def sign) (simp add: json_exponent_def)
qed

lemma eval_number_plain: "eval_number s = Some (Inr v) \<Longrightarrow> plain_decimal v"
  by (auto simp: eval_number_def format_rat_plain elim!: and_then_InrE)


definition json_blank :: "string" where
  "json_blank = '' '' @ [CHR 0x09, CHR 0x0D, CHR 0x0A]"

lemma repair_token_trimmed:
  "repair_token tok ok = Some new \<Longrightarrow>
     \<exists>v ws. new = v @ ws \<and> plain_decimal v \<and> set ws \<subseteq> set json_blank \<and> ok"
proof -
  assume r: "repair_token tok ok = Some new"
  define t where "t = trim_right_set json_blank tok"
  obtain v where v: "eval_number t = Some (Inr v)" "new = v @ drop (length t) tok" "ok"
    using r by (auto simp: repair_token_def Let_def t_def json_blank_def split: if_splits option.splits sum.splits)
  moreover have "set (drop (length t) tok) \<subseteq> set json_blank"
  proof -
    have "rev (takeWhile (\<lambda>c. c \<in> set json_blank) (rev tok)) = drop (length t) tok"
      unfolding t_def trim_right_set_def
      by (metis append_eq_conv_conj length_rev rev_append rev_rev_ident takeWhile_dropWhile_id)
    then show ?thesis by (metis set_rev set_takeWhileD subsetI)
  qed
  ultimately show ?thesis using eval_number_plain by blast
qed

lemma trim_right_set_ends:
  "v \<noteq> [] \<Longrightarrow> last v \<notin> set cs \<Longrightarrow> set ws \<subseteq> set cs \<Longrightarrow> trim_right_set cs (v @ ws) = v"
proof (induction ws rule: rev_induct)
  case Nil
  then show ?case by (cases v rule: rev_cases) auto
next
  case (snoc c ws)
  have "trim_right_set cs (v @ ws @ [c]) = trim_right_set cs ((v @ ws) @ [c])" by simp
  also have "\<dots> = trim_right_set cs (v @ ws)" using snoc.prems by (simp only: trim_right_set_snoc) simp
  finally show ?case using snoc by simp
qed

lemma digit_not_blank: "is_ascii_digit c \<Longrightarrow> c \<notin> set json_blank"
  using is_ascii_digit_cases [of c] by (auto simp: json_blank_def)

lemma plain_decimal_ends:
  assumes "plain_decimal v"
  shows "v \<noteq> []" "is_ascii_digit (last v)" "value_start (hd v)"
proof -
  obtain neg n f where
    s: "v = (if neg then ''-'' else []) @ nat_string n @ (if f = [] then [] else CHR ''.'' # f)"
    and f: "list_all is_ascii_digit f"
    using assms unfolding plain_decimal_def by blast
  have n: "is_ascii_digit (last (nat_string n))" "is_ascii_digit (hd (nat_string n))"
    using nat_string_digits [of n] by (simp_all add: list_all_iff)
  show "v \<noteq> []" by (simp add: s)
  show "is_ascii_digit (last v)"
    using n f by (cases "f = []") (simp_all add: s list_all_iff)
  show "value_start (hd v)"
    using n by (simp add: s value_start_def hd_append)
qed

lemma repair_token_again:
  assumes "repair_token tok ok = Some new"
  shows "repair_token new True = None" "list_all flat_expr_char new"
    "new \<noteq> [] \<and> value_start (hd new)"
proof -
  obtain v ws where new: "new = v @ ws" "plain_decimal v" "set ws \<subseteq> set json_blank"
    using repair_token_trimmed [OF assms] by blast
  then have "trim_right_set json_blank new = v"
    using plain_decimal_ends [OF new(2)] digit_not_blank by (auto intro!: trim_right_set_ends)
  then show "repair_token new True = None"
    using plain_decimal_number [OF new(2)] by (simp add: repair_token_def json_blank_def)
  show "list_all flat_expr_char new"
    using new plain_decimal_flat [OF new(2)] space_flat
    by (auto simp: json_blank_def list_all_iff)
  show "new \<noteq> [] \<and> value_start (hd new)"
    using plain_decimal_ends [OF new(2)] by (simp add: new)
qed

text \<open>After a value, the text up to the next separator is copied.\<close>

lemma repair_from_first:
  "take 1 (fst (repair_from stack CHR ''0'' s)) = take 1 s"
  by (cases s) (auto simp: value_position_def split: prod.splits)

lemma value_start_not_other:
  "value_start c \<Longrightarrow> c \<noteq> CHR 0x22 \<and> \<not> json_space c \<and> c \<notin> set ''{[}],:''"
  using value_start_cases [of c] by (auto simp: json_space_def)

lemma repair_from_value:
  assumes "value_position stack prev" "value_start c"
  shows "repair_from stack prev (c # t) =
     (let (tok, rest, ok) = scan_expr_value 0 (c # t);
          (out, n) = repair_from stack CHR ''0'' rest
      in case repair_token tok ok of
           Some new \<Rightarrow> (new @ out, Suc n)
         | None \<Rightarrow> (tok @ out, n))"
  using assms value_start_not_other [OF assms(2)] by (subst repair_from.simps) (simp del: repair_from.simps)

lemma repair_from_string:
  "repair_from stack prev (CHR 0x22 # t) =
     (let (body, rest) = skip_json_string t; (out, n) = repair_from stack CHR 0x22 rest
      in (CHR 0x22 # body @ out, n))"
  by simp

text \<open>Outside strings and values the loop copies a byte and moves its state on.\<close>

definition repair_state :: "string \<Rightarrow> char \<Rightarrow> char \<Rightarrow> string \<times> char" where
  "repair_state stack prev c =
     (if json_space c then (stack, prev)
      else if c = CHR ''{'' \<or> c = CHR ''['' then (c # stack, c)
      else if c = CHR ''}'' \<or> c = CHR '']'' then (if stack = [] then [] else tl stack, c)
      else (stack, c))"

lemma repair_from_copy:
  assumes "c \<noteq> CHR 0x22" "\<not> (value_position stack prev \<and> value_start c)"
  shows "repair_from stack prev (c # t) =
     (let (out, n) = repair_from (fst (repair_state stack prev c)) (snd (repair_state stack prev c)) t
      in (c # out, n))"
  using assms by (subst repair_from.simps) (auto simp: repair_state_def simp del: repair_from.simps)

declare repair_from.simps [simp del]

lemma repair_from_again:
  "repair_from stack prev (fst (repair_from stack prev s)) = (fst (repair_from stack prev s), 0)"
proof (induction s arbitrary: stack prev rule: length_induct)
  case (1 s)
  show ?case
  proof (cases s)
    case Nil
    then show ?thesis by (simp add: repair_from.simps)
  next
  case (Cons c t)
  have IH: "repair_from st p (fst (repair_from st p r)) = (fst (repair_from st p r), 0)"
    if "length r \<le> length t" for st p r
    using 1 Cons that by (simp add: less_Suc_eq_le)
  consider "c = CHR 0x22" | "c \<noteq> CHR 0x22" "\<not> (value_position stack prev \<and> value_start c)"
    | "c \<noteq> CHR 0x22" "value_position stack prev" "value_start c" by blast
  then show ?thesis
  proof cases
    case 1
    obtain body rest where sk: "skip_json_string t = (body, rest)" by fastforce
    obtain out n where out: "repair_from stack CHR 0x22 rest = (out, n)" by fastforce
    have "repair_from stack CHR 0x22 out = (out, 0)"
      using IH [of rest stack "CHR 0x22"] out skip_json_string_split [OF sk] by simp
    moreover have "skip_json_string (body @ out) = (body, out)"
      using out by (intro skip_json_string_again [OF sk]) (simp add: repair_from.simps)
    ultimately show ?thesis using 1 Cons sk out by (simp add: repair_from_string)
  next
    case 2
    then show ?thesis
      using Cons IH [of t] by (simp add: repair_from_copy case_prod_unfold Let_def)
  next
    case 3
    note True = 3
    note other = value_start_not_other [of c]
    obtain tok rest ok where scan: "scan_expr_value 0 (c # t) = (tok, rest, ok)"
      by (metis prod_cases3)
    obtain out n where out: "repair_from stack CHR ''0'' rest = (out, n)" by fastforce
    have again: "repair_from stack CHR ''0'' out = (out, 0)"
      using IH [of rest stack "CHR ''0''"] out scan_expr_value_shorter [OF scan [symmetric] True(3)] by simp
    have first: "take 1 out = take 1 rest"
      using repair_from_first [of stack rest] out by simp
    show ?thesis
    proof (cases "repair_token tok ok")
      case None
      obtain tok' where tok': "tok = c # tok'"
        using scan_expr_value_start [OF _ scan] True by blast
      have "scan_expr_value 0 (c # tok' @ out) = (tok, out, ok)"
        using scan_expr_value_again [OF scan first] tok' by simp
      then show ?thesis
        using Cons True None again out scan tok' by (simp add: repair_from_value)
    next
      case (Some new)
      then have "ok" using repair_token_trimmed by blast
      then have "rest = [] \<or> hd rest \<in> set '',}]''"
        using scan_expr_value_ok [of 0 "c # t" tok rest] scan by simp
      then have "out = [] \<or> hd out \<in> set '',}]''"
        using first by (cases out; cases rest) auto
      then have "scan_expr_value 0 (new @ out) = (new, out, True)"
        using repair_token_again(2) [OF Some] by (intro scan_expr_value_flat)
      moreover obtain d new' where "new = d # new'" "value_start d"
        using repair_token_again(3) [OF Some] by (cases new) auto
      ultimately show ?thesis
        using Cons True Some again out scan repair_token_again(1) [OF Some]
        by (simp add: repair_from_value)
    qed
  qed
  qed
qed


subsection \<open>What is rewritten\<close>

text \<open>The output as pieces of the input, each kept or replaced by its value.\<close>

datatype piece = Kept string | Evaluated string string

fun piece_in :: "piece \<Rightarrow> string" where
  "piece_in (Kept s) = s"
| "piece_in (Evaluated s v) = s"

fun piece_out :: "piece \<Rightarrow> string" where
  "piece_out (Kept s) = s"
| "piece_out (Evaluated s v) = v"

fun sound_piece :: "piece \<Rightarrow> bool" where
  "sound_piece (Kept s) = True"
| "sound_piece (Evaluated s v) =
     (eval_number s = Some (Inr v) \<and> \<not> plain_json_number s \<and> plain_json_number v)"

definition evaluates_to :: "string \<Rightarrow> string \<Rightarrow> nat \<Rightarrow> bool" where
  "evaluates_to s out n \<longleftrightarrow>
     (\<exists>ps. s = concat (map piece_in ps) \<and> out = concat (map piece_out ps)
        \<and> list_all sound_piece ps \<and> n = length (filter (\<lambda>p. \<exists>a b. p = Evaluated a b) ps))"

lemma evaluates_to_keep: "evaluates_to s out n \<Longrightarrow> evaluates_to (t @ s) (t @ out) n"
  unfolding evaluates_to_def
  apply (elim exE conjE)
  subgoal for ps by (rule exI [of _ "Kept t # ps"]) simp
  done

lemma evaluates_to_evaluate:
  "evaluates_to s out n \<Longrightarrow> eval_number t = Some (Inr v) \<Longrightarrow> \<not> plain_json_number t \<Longrightarrow>
     evaluates_to (t @ s) (v @ out) (Suc n)"
  unfolding evaluates_to_def
  apply (elim exE conjE)
  subgoal for ps
    by (rule exI [of _ "Evaluated t v # ps"]) (simp add: plain_decimal_number eval_number_plain)
  done

lemma repair_token_evaluates_to:
  assumes "repair_token tok ok = Some new" "evaluates_to s out n"
  shows "evaluates_to (tok @ s) (new @ out) (Suc n)"
proof -
  define t where "t = trim_right_set json_blank tok"
  obtain v where v: "eval_number t = Some (Inr v)" "new = v @ drop (length t) tok" "\<not> plain_json_number t"
    using assms(1) by (auto simp: repair_token_def Let_def t_def json_blank_def split: if_splits option.splits sum.splits)
  have tok: "tok = t @ drop (length t) tok"
    using trim_right_set_append [of json_blank tok] by (simp add: t_def)
  have "evaluates_to (t @ (drop (length t) tok @ s)) (v @ (drop (length t) tok @ out)) (Suc n)"
    using assms(2) v by (intro evaluates_to_evaluate evaluates_to_keep)
  then show ?thesis using tok v(2) by (metis append.assoc)
qed

lemma repair_from_evaluates_to: "evaluates_to s (fst (repair_from stack prev s)) (snd (repair_from stack prev s))"
proof (induction s arbitrary: stack prev rule: length_induct)
  case (1 s)
  show ?case
  proof (cases s)
    case Nil
    then show ?thesis by (auto simp: repair_from.simps evaluates_to_def intro: exI [of _ "[]"])
  next
    case (Cons c t)
    have IH: "evaluates_to r (fst (repair_from st p r)) (snd (repair_from st p r))"
      if "length r \<le> length t" for st p r
      using 1 Cons that by (simp add: less_Suc_eq_le)
    consider "c = CHR 0x22" | "c \<noteq> CHR 0x22" "\<not> (value_position stack prev \<and> value_start c)"
      | "value_position stack prev" "value_start c" by blast
    then show ?thesis
    proof cases
      case 1
      obtain body rest where sk: "skip_json_string t = (body, rest)" by fastforce
      have "evaluates_to ((c # body) @ rest) ((c # body) @ fst (repair_from stack CHR 0x22 rest))
          (snd (repair_from stack CHR 0x22 rest))"
        using skip_json_string_split [OF sk] by (intro evaluates_to_keep IH) simp
      then show ?thesis
        using Cons 1 sk skip_json_string_split [OF sk]
        by (simp add: repair_from_string case_prod_unfold Let_def)
    next
      case 2
      then show ?thesis
        using Cons evaluates_to_keep [where t = "[c]", OF IH [of t]]
        by (simp add: repair_from_copy case_prod_unfold Let_def)
    next
      case 3
      obtain tok rest ok where scan: "scan_expr_value 0 (c # t) = (tok, rest, ok)"
        by (metis prod_cases3)
      have r: "evaluates_to rest (fst (repair_from stack CHR ''0'' rest)) (snd (repair_from stack CHR ''0'' rest))"
        using scan_expr_value_shorter [OF scan [symmetric] 3(2)] by (intro IH)
      have s: "s = tok @ rest" using Cons scan_expr_value_split [OF scan] by simp
      have eq: "repair_from stack prev s =
          (let (out, n) = repair_from stack CHR ''0'' rest
           in case repair_token tok ok of Some new \<Rightarrow> (new @ out, Suc n) | None \<Rightarrow> (tok @ out, n))"
        using Cons scan repair_from_value [OF 3, of t] by simp
      show ?thesis
        using evaluates_to_keep [OF r, of tok] repair_token_evaluates_to [OF _ r, of tok ok]
        unfolding eq case_prod_unfold Let_def by (cases "repair_token tok ok") (simp_all add: s)
    qed
  qed
qed

lemma evaluates_to_0: "evaluates_to s out 0 \<Longrightarrow> out = s"
proof -
  assume "evaluates_to s out 0"
  then obtain ps where ps: "s = concat (map piece_in ps)" "out = concat (map piece_out ps)"
    "filter (\<lambda>p. \<exists>a b. p = Evaluated a b) ps = []"
    unfolding evaluates_to_def by auto
  have "map piece_out ps = map piece_in ps"
    using ps(3)
  proof (induction ps)
    case (Cons p ps)
    then show ?case by (cases p) auto
  qed simp
  then show ?thesis using ps(1,2) by (simp only:)
qed

subsection \<open>JSON documents are left alone\<close>

inductive string_tail :: "string \<Rightarrow> bool" where
  closing: "string_tail [CHR 0x22]"
| plain: "string_tail t \<Longrightarrow> c \<noteq> CHR 0x22 \<Longrightarrow> c \<noteq> CHR 0x5C \<Longrightarrow> string_tail (c # t)"
| escaped: "string_tail t \<Longrightarrow> string_tail (CHR 0x5C # c # t)"

definition blanks :: "string \<Rightarrow> bool" where
  "blanks w \<longleftrightarrow> list_all json_space w"

inductive json_value :: "string \<Rightarrow> bool"
  and json_elements :: "string \<Rightarrow> bool"
  and json_members :: "string \<Rightarrow> bool"
where
  num_lit: "plain_json_number s \<Longrightarrow> json_value s"
| str: "string_tail b \<Longrightarrow> json_value (CHR 0x22 # b)"
| word: "s \<in> {''true'', ''false'', ''null''} \<Longrightarrow> json_value s"
| empty_array: "blanks w \<Longrightarrow> json_value (CHR ''['' # w @ '']'')"
| array: "json_elements e \<Longrightarrow> json_value (CHR ''['' # e @ '']'')"
| empty_object: "blanks w \<Longrightarrow> json_value (CHR ''{'' # w @ ''}'')"
| object: "json_members m \<Longrightarrow> json_value (CHR ''{'' # m @ ''}'')"
| last_element: "json_value v \<Longrightarrow> blanks a \<Longrightarrow> blanks b \<Longrightarrow> json_elements (a @ v @ b)"
| element:
    "json_value v \<Longrightarrow> blanks a \<Longrightarrow> blanks b \<Longrightarrow> json_elements e \<Longrightarrow>
       json_elements (a @ v @ b @ CHR '','' # e)"
| last_member:
    "string_tail k \<Longrightarrow> blanks a \<Longrightarrow> blanks b \<Longrightarrow> json_value v \<Longrightarrow> blanks c \<Longrightarrow> blanks d \<Longrightarrow>
       json_members (a @ CHR 0x22 # k @ b @ CHR '':'' # c @ v @ d)"
| member:
    "string_tail k \<Longrightarrow> blanks a \<Longrightarrow> blanks b \<Longrightarrow> json_value v \<Longrightarrow> blanks c \<Longrightarrow> blanks d \<Longrightarrow>
       json_members m \<Longrightarrow>
       json_members (a @ CHR 0x22 # k @ b @ CHR '':'' # c @ v @ d @ CHR '','' # m)"


definition closed_prev :: "char \<Rightarrow> bool" where
  "closed_prev p \<longleftrightarrow> p \<notin> set '':[,''"

definition value_ends :: "string \<Rightarrow> bool" where
  "value_ends r \<longleftrightarrow> dropWhile json_space r = [] \<or> hd (dropWhile json_space r) \<in> set '',}]''"

definition copies :: "string \<Rightarrow> char \<Rightarrow> string \<Rightarrow> string \<Rightarrow> char \<Rightarrow> string \<Rightarrow> bool" where
  "copies st p s st' p' r \<longleftrightarrow>
     repair_from st p (s @ r) = (s @ fst (repair_from st' p' r), snd (repair_from st' p' r))"

lemma copies_Nil [simp]: "copies st p [] st p r"
  by (simp add: copies_def)

lemma copies_trans:
  "copies st p s st' p' (t @ r) \<Longrightarrow> copies st' p' t st'' p'' r \<Longrightarrow> copies st p (s @ t) st'' p'' r"
  by (simp add: copies_def)

lemma copies_char:
  assumes "c \<noteq> CHR 0x22" "\<not> (value_position st p \<and> value_start c)"
  shows "copies st p [c] (fst (repair_state st p c)) (snd (repair_state st p c)) r"
  using assms by (simp add: copies_def repair_from_copy case_prod_unfold Let_def)

lemma copies_Cons:
  assumes "copies (fst (repair_state st p c)) (snd (repair_state st p c)) s st' p' r"
    "c \<noteq> CHR 0x22" "\<not> (value_position st p \<and> value_start c)"
  shows "copies st p (c # s) st' p' r"
  using copies_trans [OF copies_char [OF assms(2,3)] assms(1)] by simp

lemma value_start_not_space: "json_space c \<Longrightarrow> \<not> value_start c \<and> c \<noteq> CHR 0x22"
  using value_start_not_other [of c] by (auto simp: json_space_def)

lemma copies_blanks: "blanks w \<Longrightarrow> copies st p w st p r"
proof (induction w)
  case (Cons c w)
  then show ?case
    using value_start_not_space [of c]
    by (intro copies_Cons) (simp_all add: blanks_def repair_state_def)
qed simp

lemma closed_no_value: "closed_prev p \<Longrightarrow> \<not> value_position st p"
  by (auto simp: closed_prev_def value_position_def)

definition word_char :: "char \<Rightarrow> bool" where
  "word_char c \<longleftrightarrow> c \<noteq> CHR 0x22 \<and> \<not> json_space c \<and> c \<notin> set ''{[}],:''"

lemma word_char_state: "word_char c \<Longrightarrow> repair_state st p c = (st, c) \<and> closed_prev c"
  by (auto simp: word_char_def repair_state_def closed_prev_def)

lemma copies_word:
  "list_all word_char s \<Longrightarrow> closed_prev p \<or> s \<noteq> [] \<and> \<not> value_start (hd s) \<Longrightarrow>
     \<exists>p'. closed_prev p' \<and> (\<forall>r. copies st p s st p' r)"
proof (induction s arbitrary: p)
  case (Cons c s)
  obtain p' where p': "closed_prev p'" "\<forall>r. copies st c s st p' r"
    using Cons.IH [of c] Cons.prems word_char_state [of c st p] by auto
  have "copies st p (c # s) st p' r" for r
    using Cons.prems p' word_char_state [of c st p] closed_no_value [of p st]
    by (intro copies_Cons) (auto simp: word_char_def)
  then show ?case using p' by blast
qed auto

definition number_char :: "char \<Rightarrow> bool" where
  "number_char c \<longleftrightarrow> c \<in> set ''0123456789-+.eE''"

lemma number_char_facts:
  "number_char c \<Longrightarrow> flat_expr_char c" "number_char c \<Longrightarrow> word_char c" "number_char c \<Longrightarrow> c \<notin> set json_blank"
  unfolding number_char_def
  by (auto simp: flat_expr_char_def expr_chars_def word_char_def json_space_def json_blank_def)

lemma digit_number_char: "is_ascii_digit c \<Longrightarrow> number_char c"
  using is_ascii_digit_cases [of c] by (auto simp: number_char_def)

lemma digits_prefix: "\<exists>u. s = u @ dropWhile is_ascii_digit s \<and> list_all number_char u"
  using digit_number_char
  by (intro exI [of _ "takeWhile is_ascii_digit s"]) (auto simp: list_all_iff dest!: set_takeWhileD)

lemma json_int_part_chars:
  assumes "json_int_part s = Some t"
  shows "\<exists>u. s = u @ t \<and> list_all number_char u \<and> u \<noteq> [] \<and> is_ascii_digit (hd u)"
proof (cases s)
  case (Cons c s')
  obtain u where u: "s' = u @ dropWhile is_ascii_digit s'" "list_all number_char u"
    using digits_prefix by blast
  have z: "is_ascii_digit CHR ''0''" by (simp add: is_ascii_digit_def)
  show ?thesis
  proof (cases "c = CHR ''0''")
    case True
    then show ?thesis using assms Cons z digit_number_char [OF z] by (intro exI [of _ "[c]"]) simp
  next
    case False
    then show ?thesis
      using assms Cons u digit_number_char by (intro exI [of _ "c # u"]) (auto split: if_splits)
  qed
qed (use assms in simp)

lemma json_fraction_chars: "\<exists>u. s = u @ json_fraction s \<and> list_all number_char u"
proof (cases s rule: json_fraction.cases)
  case (1 p d t)
  obtain u where u: "t = u @ dropWhile is_ascii_digit t" "list_all number_char u"
    using digits_prefix by blast
  show ?thesis
  proof (cases "p = CHR ''.'' \<and> is_ascii_digit d")
    case True
    then show ?thesis
      using 1 u digit_number_char [of d] by (intro exI [of _ "p # d # u"]) (simp add: number_char_def)
  qed (auto simp: 1 intro: exI [of _ "[]"])
qed (auto intro: exI [of _ "[]"])

lemma json_exponent_chars: "\<exists>u. s = u @ json_exponent s \<and> list_all number_char u"
proof (cases s)
  case (Cons e t)
  define t' where "t' = (case t of c # t' \<Rightarrow> if c = CHR ''+'' \<or> c = CHR ''-'' then t' else t | [] \<Rightarrow> t)"
  have "\<exists>v. t = v @ t' \<and> list_all number_char v"
  proof (cases t)
    case (Cons c t2)
    show ?thesis
    proof (cases "c = CHR ''+'' \<or> c = CHR ''-''")
      case True
      then show ?thesis using Cons by (intro exI [of _ "[c]"]) (auto simp: t'_def number_char_def)
    qed (use Cons in \<open>simp add: t'_def exI [of _ "[]"]\<close>)
  qed (simp add: t'_def)
  then obtain v where v: "t = v @ t'" "list_all number_char v" by blast
  obtain u where u: "t' = u @ dropWhile is_ascii_digit t'" "list_all number_char u"
    using digits_prefix by blast
  have eq: "json_exponent s = (if (e = CHR ''e'' \<or> e = CHR ''E'') \<and> t' \<noteq> [] \<and> is_ascii_digit (hd t')
      then dropWhile is_ascii_digit t' else s)"
    by (simp add: json_exponent_def Cons t'_def Let_def)
  show ?thesis
  proof (cases "(e = CHR ''e'' \<or> e = CHR ''E'') \<and> t' \<noteq> [] \<and> is_ascii_digit (hd t')")
    case True
    then show ?thesis
      using Cons u v unfolding eq
      by (intro exI [of _ "e # v @ u"]) (auto simp: number_char_def)
  next
    case False
    then show ?thesis
      unfolding eq by (intro exI [of _ "[]"]) (simp only: if_False, simp)
  qed
qed (simp add: json_exponent_def)

lemma plain_json_number_chars:
  assumes "plain_json_number s"
  shows "list_all number_char s \<and> s \<noteq> [] \<and> value_start (hd s)"
proof -
  define t where "t = (if s \<noteq> [] \<and> hd s = CHR ''-'' then tl s else s)"
  obtain r where r: "json_int_part t = Some r" "json_exponent (json_fraction r) = []"
    using assms by (auto simp: plain_json_number_def t_def split: option.splits)
  then obtain u v w where "t = u @ v @ w" "list_all number_char (u @ v @ w)" "u \<noteq> []" "is_ascii_digit (hd u)"
    using json_int_part_chars [OF r(1)] json_fraction_chars [of r] json_exponent_chars [of "json_fraction r"]
    by (metis append_Nil2 list_all_append)
  then have t: "list_all number_char t" "t \<noteq> []" "is_ascii_digit (hd t)" by simp_all
  show ?thesis
  proof (cases "s \<noteq> [] \<and> hd s = CHR ''-''")
    case True
    then have "s = CHR ''-'' # t" by (cases s) (simp_all add: t_def)
    then show ?thesis using t by (simp add: value_start_def number_char_def)
  next
    case False
    then have "s = t" by (simp only: t_def if_False)
    then show ?thesis using t by (simp add: value_start_def)
  qed
qed


lemma blanks_flat: "blanks w \<Longrightarrow> list_all flat_expr_char w \<and> set w \<subseteq> set json_blank"
  using space_flat by (auto simp: blanks_def list_all_iff json_space_def json_blank_def)

lemma copies_number:
  assumes s: "plain_json_number s" and p: "value_position st p \<or> closed_prev p" and r: "value_ends r"
  shows "\<exists>p'. closed_prev p' \<and> copies st p s st p' r"
proof (cases "value_position st p")
  case False
  have "list_all word_char s"
    using plain_json_number_chars [OF s] number_char_facts by (auto simp: list_all_iff)
  then show ?thesis using copies_word [of s p st] p False by blast
next
  case True
  obtain c t where ct: "s = c # t" "value_start c" "list_all number_char s"
    using plain_json_number_chars [OF s] by (cases s) auto
  define w q where "w = takeWhile json_space r" and "q = dropWhile json_space r"
  have wq: "r = w @ q" "blanks w"
    by (auto simp: w_def q_def blanks_def list_all_iff dest: set_takeWhileD)
  have flat: "list_all flat_expr_char (s @ w)"
    using ct blanks_flat [OF wq(2)] number_char_facts(1) by (auto simp: list_all_iff)
  have scan: "scan_expr_value 0 (s @ r) = (s @ w, q, True)"
    using scan_expr_value_flat [OF flat, of q] r unfolding value_ends_def q_def [symmetric]
    by (simp add: wq(1))
  have "last s \<notin> set json_blank"
    using ct number_char_facts(3) by (metis last_in_set list.distinct(1) list_all_iff)
  then have "trim_right_set json_blank (s @ w) = s"
    using ct blanks_flat [OF wq(2)] by (intro trim_right_set_ends) auto
  then have none: "repair_token (s @ w) True = None"
    using s by (simp add: repair_token_def json_blank_def)
  have "repair_from st p (s @ r) = (s @ w @ fst (repair_from st CHR ''0'' q), snd (repair_from st CHR ''0'' q))"
    using repair_from_value [OF True ct(2), of "t @ r"] scan none ct(1)
    by (simp add: case_prod_unfold Let_def)
  moreover have "copies st CHR ''0'' w st CHR ''0'' q" by (rule copies_blanks [OF wq(2)])
  ultimately show ?thesis
    by (intro exI [of _ "CHR ''0''"]) (simp add: copies_def closed_prev_def wq)
qed

lemma string_tail_skip: "string_tail b \<Longrightarrow> skip_json_string (b @ r) = (b, r)"
  by (induction b rule: string_tail.induct) simp_all

lemma copies_string: "string_tail b \<Longrightarrow> copies st p (CHR 0x22 # b) st CHR 0x22 r"
  by (simp add: copies_def repair_from_string string_tail_skip case_prod_unfold Let_def)

lemma copies_word_char:
  "word_char c \<Longrightarrow> closed_prev p \<or> \<not> value_start c \<Longrightarrow> copies st p [c] st c r"
  using copies_Cons [of st p c "[]" st c r] closed_no_value [of p st] word_char_state [of c st p]
  by (auto simp: word_char_def)

lemma copies_open:
  "c \<in> set ''{['' \<Longrightarrow> copies st p [c] (c # st) c r"
  using copies_Cons [of st p c "[]" "c # st" c r]
  by (auto simp: repair_state_def value_start_def is_ascii_digit_def json_space_def)

lemma copies_close:
  "c \<in> set ''}]'' \<Longrightarrow> copies (b # st) p [c] st c r"
  using copies_Cons [of "b # st" p c "[]" st c r]
  by (auto simp: repair_state_def value_start_def is_ascii_digit_def json_space_def)

lemma copies_separator:
  "c \<in> set '',:'' \<Longrightarrow> copies st p [c] st c r"
  using copies_Cons [of st p c "[]" st c r]
  by (auto simp: repair_state_def value_start_def is_ascii_digit_def json_space_def)

lemma value_ends_close: "blanks w \<Longrightarrow> c \<in> set '',}]'' \<Longrightarrow> value_ends (w @ c # r)"
proof -
  assume w: "blanks w" and c: "c \<in> set '',}]''"
  have "\<not> json_space c" using c by (auto simp: json_space_def)
  then have "dropWhile json_space (w @ c # r) = c # r"
    using w by (intro dropWhile_split) (simp_all add: blanks_def)
  then show ?thesis using c by (simp add: value_ends_def)
qed

lemma json_copies:
  shows "json_value v \<Longrightarrow> (\<forall>st p r. value_position st p \<or> closed_prev p \<longrightarrow> value_ends r \<longrightarrow>
           (\<exists>p'. closed_prev p' \<and> copies st p v st p' r))"
    and "json_elements e \<Longrightarrow> (\<forall>st p r. p \<in> set ''[,'' \<longrightarrow>
           copies (CHR ''['' # st) p (e @ '']'') st CHR '']'' r)"
    and "json_members m \<Longrightarrow> (\<forall>st p r.
           copies (CHR ''{'' # st) p (m @ ''}'') st CHR ''}'' r)"
proof (induction rule: json_value_json_elements_json_members.inducts)
  case (num_lit s)
  then show ?case using copies_number by blast
next
  case (str b)
  then show ?case
    by (intro allI impI exI [of _ "CHR 0x22"]) (simp add: copies_string closed_prev_def)
next
  case (word s)
  then have "list_all word_char s \<and> s \<noteq> [] \<and> \<not> value_start (hd s)"
    by (auto simp: word_char_def value_start_def is_ascii_digit_def json_space_def)
  then show ?case using copies_word by blast
next
  case (empty_array w)
  show ?case
  proof (intro allI impI exI conjI)
    fix st p r
    show "closed_prev CHR '']''" by (simp add: closed_prev_def)
    have "copies st p (''['' @ w @ '']'') st CHR '']'' r"
      by (rule copies_trans [OF copies_open copies_trans [OF copies_blanks copies_close]])
        (use empty_array in simp_all)
    then show "copies st p (CHR ''['' # w @ '']'') st CHR '']'' r" by simp
  qed
next
  case (array e)
  show ?case
  proof (intro allI impI exI conjI)
    fix st p r
    show "closed_prev CHR '']''" by (simp add: closed_prev_def)
    have "copies st p (''['' @ (e @ '']'')) st CHR '']'' r"
      by (rule copies_trans [OF copies_open]) (use array in simp_all)
    then show "copies st p (CHR ''['' # e @ '']'') st CHR '']'' r" by simp
  qed
next
  case (empty_object w)
  show ?case
  proof (intro allI impI exI conjI)
    fix st p r
    show "closed_prev CHR ''}''" by (simp add: closed_prev_def)
    have "copies st p (''{'' @ w @ ''}'') st CHR ''}'' r"
      by (rule copies_trans [OF copies_open copies_trans [OF copies_blanks copies_close]])
        (use empty_object in simp_all)
    then show "copies st p (CHR ''{'' # w @ ''}'') st CHR ''}'' r" by simp
  qed
next
  case (object m)
  show ?case
  proof (intro allI impI exI conjI)
    fix st p r
    show "closed_prev CHR ''}''" by (simp add: closed_prev_def)
    have "copies st p (''{'' @ (m @ ''}'')) st CHR ''}'' r"
      by (rule copies_trans [OF copies_open]) (use object in simp_all)
    then show "copies st p (CHR ''{'' # m @ ''}'') st CHR ''}'' r" by simp
  qed
next
  case (last_element v a b)
  show ?case
  proof (intro allI impI)
    fix st p r
    assume p: "p \<in> set ''[,''"
    have "value_ends (b @ '']'' @ r)" using last_element value_ends_close [of b "CHR '']''"] by simp
    moreover have "value_position (CHR ''['' # st) p" using p by (auto simp: value_position_def)
    ultimately obtain p' where v: "copies (CHR ''['' # st) p v (CHR ''['' # st) p' (b @ '']'' @ r)"
      using last_element.IH by blast
    have "copies (CHR ''['' # st) p (a @ v @ b @ '']'') st CHR '']'' r"
      by (rule copies_trans [OF copies_blanks copies_trans [OF _ copies_trans [OF copies_blanks copies_close]]])
        (use last_element v in simp_all)
    then show "copies (CHR ''['' # st) p ((a @ v @ b) @ '']'') st CHR '']'' r" by simp
  qed
next
  case (element v a b e)
  show ?case
  proof (intro allI impI)
    fix st p r
    assume p: "p \<in> set ''[,''"
    have "value_ends (b @ ('','' @ e @ '']'') @ r)" using element value_ends_close [of b "CHR '',''"] by simp
    moreover have "value_position (CHR ''['' # st) p" using p by (auto simp: value_position_def)
    ultimately obtain p' where v: "copies (CHR ''['' # st) p v (CHR ''['' # st) p' (b @ ('','' @ e @ '']'') @ r)"
      using element.IH by blast
    have e: "copies (CHR ''['' # st) CHR '','' (e @ '']'') st CHR '']'' r"
      by (intro element.IH(2) [rule_format]) simp
    have "copies (CHR ''['' # st) p (a @ v @ b @ '','' @ (e @ '']'')) st CHR '']'' r"
      by (rule copies_trans [OF copies_blanks copies_trans [OF _ copies_trans [OF copies_blanks
              copies_trans [OF copies_separator]]]])
        (use element.hyps v e in simp_all)
    then show "copies (CHR ''['' # st) p ((a @ v @ b @ CHR '','' # e) @ '']'') st CHR '']'' r" by simp
  qed
next
  case (last_member k a b v c d)
  show ?case
  proof (intro allI)
    fix st p r
    have "value_ends (d @ ''}'' @ r)" using last_member value_ends_close [of d "CHR ''}''"] by simp
    moreover have "value_position (CHR ''{'' # st) CHR '':''" by (simp add: value_position_def)
    ultimately obtain p' where v: "copies (CHR ''{'' # st) CHR '':'' v (CHR ''{'' # st) p' (d @ ''}'' @ r)"
      using last_member.IH by blast
    have "copies (CHR ''{'' # st) p (a @ (CHR 0x22 # k) @ b @ '':'' @ c @ v @ d @ ''}'') st CHR ''}'' r"
      by (rule copies_trans [OF copies_blanks copies_trans [OF copies_string copies_trans [OF copies_blanks
              copies_trans [OF copies_separator copies_trans [OF copies_blanks copies_trans [OF _
                copies_trans [OF copies_blanks copies_close]]]]]]])
        (use last_member v in simp_all)
    then show "copies (CHR ''{'' # st) p ((a @ CHR 0x22 # k @ b @ CHR '':'' # c @ v @ d) @ ''}'') st CHR ''}'' r"
      by simp
  qed
next
  case (member k a b v c d m)
  show ?case
  proof (intro allI)
    fix st p r
    have "value_ends (d @ ('','' @ m @ ''}'') @ r)" using member value_ends_close [of d "CHR '',''"] by simp
    moreover have "value_position (CHR ''{'' # st) CHR '':''" by (simp add: value_position_def)
    ultimately obtain p' where
      v: "copies (CHR ''{'' # st) CHR '':'' v (CHR ''{'' # st) p' (d @ ('','' @ m @ ''}'') @ r)"
      using member.IH by blast
    have m: "copies (CHR ''{'' # st) CHR '','' (m @ ''}'') st CHR ''}'' r"
      using member.IH(2) by blast
    have "copies (CHR ''{'' # st) p (a @ (CHR 0x22 # k) @ b @ '':'' @ c @ v @ d @ '','' @ (m @ ''}'')) st CHR ''}'' r"
      by (rule copies_trans [OF copies_blanks copies_trans [OF copies_string copies_trans [OF copies_blanks
              copies_trans [OF copies_separator copies_trans [OF copies_blanks copies_trans [OF _
                copies_trans [OF copies_blanks copies_trans [OF copies_separator]]]]]]]])
        (use member.hyps v m in simp_all)
    then show "copies (CHR ''{'' # st) p ((a @ CHR 0x22 # k @ b @ CHR '':'' # c @ v @ d @ CHR '','' # m) @ ''}'')
        st CHR ''}'' r"
      by simp
  qed
qed


definition json_document :: "string \<Rightarrow> bool" where
  "json_document s \<longleftrightarrow> (\<exists>a v b. s = a @ v @ b \<and> blanks a \<and> json_value v \<and> blanks b)"

lemma repair_json_document: "json_document s \<Longrightarrow> repair_json_expressions s = (s, 0)"
proof -
  assume "json_document s"
  then obtain a v b where s: "s = a @ v @ b" "blanks a" "json_value v" "blanks b"
    unfolding json_document_def by blast
  have b: "dropWhile json_space b = []" using s(4) by (simp add: blanks_def list_all_iff)
  then have "value_ends b" by (simp add: value_ends_def)
  moreover have p: "closed_prev CHR 0x00" by (simp add: closed_prev_def)
  ultimately obtain p' where "copies [] CHR 0x00 v [] p' (b @ [])"
    using json_copies(1) [OF s(3)] by fastforce
  then have "copies [] CHR 0x00 (a @ v @ b) [] p' []"
    by (rule copies_trans [OF copies_blanks [OF s(2)] copies_trans [OF _ copies_blanks [OF s(4)]]])
  then show ?thesis by (simp add: copies_def s repair_json_expressions_def repair_from.simps(1))
qed

subsection \<open>An example, evaluated\<close>

text \<open>The steps of the calculator on \<^verbatim>\<open>1+1\<close>, for any fuel that is enough.\<close>

lemma one_plus_one_scan:
  "peek_rune [49, 43, 49] 0 = 49" "peek_rune [49, 43, 49] (Suc 0) = 43"
  "peek_rune [49, 43, 49] 2 = 49" "peek_rune [49, 43, 49] 3 = 0"
  "skip_space [49, 43, 49] 0 = 0" "skip_space [49, 43, 49] (Suc 0) = Suc 0"
  "skip_space [49, 43, 49] 2 = 2" "skip_space [49, 43, 49] 3 = 3"
  by (simp_all add: peek_rune_def skip_space_def scan_while_eq is_space_ascii)

lemma one_plus_one_numbers:
  "parse_number [49, 43, 49] 0 = Inr (1, Suc 0)" "parse_number [49, 43, 49] 2 = Inr (1, 3)"
  by (simp_all add: parse_number_def number_end_def rat_set_string_def skip_space_def scan_while_eq
      is_space_ascii is_digit_ascii is_exp_mark_def is_ascii_digit_rune_def runes_value_def ten_to_def)

lemma one_plus_one_terms:
  "parse_term (Suc (Suc (Suc (Suc (Suc n))))) [49, 43, 49] 0 = Some (Inr (1, Suc 0))"
  "parse_term (Suc (Suc (Suc (Suc (Suc n))))) [49, 43, 49] 2 = Some (Inr (1, 3))"
  by (simp_all add: calc_parser_simps(6,8,10,12,14) one_plus_one_scan one_plus_one_numbers is_digit_ascii)

lemma one_plus_one_expr: "7 \<le> n \<Longrightarrow> parse_expr n [49, 43, 49] 0 = Some (Inr (2, 3))"
proof -
  assume "7 \<le> n"
  then obtain m where "n = m + 7" by (metis le_add_diff_inverse2)
  then have "n = Suc (Suc (Suc (Suc (Suc (Suc (Suc m))))))" by simp
  then show ?thesis
    by (simp add: calc_parser_simps(2,4) one_plus_one_terms one_plus_one_scan numeral_2_eq_2 [symmetric])
qed

lemma one_plus_one: "eval_number ''1+1'' = Some (Inr ''2'')"
proof -
  have t: "trim_space ''1+1'' = ''1+1''" "runes ''1+1'' = [49, 43, 49]"
    by (simp_all add: text_simps is_space_ascii)
  have "parse_expr (calc_fuel [49, 43, 49]) [49, 43, 49] 0 = Some (Inr (2, 3))"
    by (rule one_plus_one_expr) (simp add: calc_fuel_def)
  then have "eval_expr ''1+1'' = Some (Inr 2)"
    by (simp add: eval_expr_def t max_expr_len_def one_plus_one_scan)
  moreover have "num 2 = 2" "denom 2 = 1"
    using num_of_int [of 2] denom_of_int [of 2] by simp_all
  ultimately show ?thesis
    by (simp add: eval_number_def format_rat_def is_int_def int_string_def nat_string.simps digit_char_def
        char_of_eq_iff)
qed

lemma repair_example:
  "repair_json_expressions (''[1+1]'' @ [CHR 0x0A]) = (''[2]'' @ [CHR 0x0A], 1)"
  by (simp add: repair_json_expressions_def repair_from.simps scan_expr_value.simps repair_token_def
      trim_right_set_def one_plus_one plain_json_number_def json_exponent_def value_position_def
      value_start_def is_ascii_digit_def json_space_def expr_chars_def)

subsection \<open>What the repair promises\<close>


text \<open>
  A repair is complete: a second pass over the repaired text changes nothing, so no value that
  could be evaluated is left in it.
\<close>

theorem repair_idempotent:
  "repair_json_expressions (fst (repair_json_expressions s)) = (fst (repair_json_expressions s), 0)"
  by (simp add: repair_json_expressions_def repair_from_again)

text \<open>
  C21: A document of the JSON grammar (RFC 8259: nested objects and arrays, strings with escapes,
  numbers, white space anywhere it may stand) is returned byte for byte, with nothing counted.
\<close>

theorem repair_keeps_json:
  assumes "json_document s"
  shows "repair_json_expressions s = (s, 0)"
  using assms by (rule repair_json_document)

lemma repair_keeps_json_witness:
  "repair_json_expressions (''[-2.5e3, '' @ [CHR 0x22] @ ''1+1'' @ [CHR 0x22] @ '' ]'')
   = (''[-2.5e3, '' @ [CHR 0x22] @ ''1+1'' @ [CHR 0x22] @ '' ]'', 0)"
proof -
  have "plain_json_number ''-2.5e3''"
    by (simp add: plain_json_number_def json_exponent_def is_ascii_digit_def)
  then have n: "json_value ''-2.5e3''" by (rule num_lit)
  have "string_tail (''1+1'' @ [CHR 0x22])"
    by (auto intro!: string_tail.plain string_tail.closing)
  then have t: "json_value (CHR 0x22 # ''1+1'' @ [CHR 0x22])" by (rule str)
  have sp: "blanks '' ''" "blanks []" by (simp_all add: blanks_def json_space_def)
  have "json_elements ([] @ ''-2.5e3'' @ [] @ CHR '','' # ('' '' @ (CHR 0x22 # ''1+1'' @ [CHR 0x22]) @ '' ''))"
    by (rule element [OF n sp(2) sp(2) last_element [OF t sp(1) sp(1)]])
  then have "json_value (CHR ''['' # ([] @ ''-2.5e3'' @ [] @ CHR '','' # ('' '' @ (CHR 0x22 # ''1+1'' @ [CHR 0x22]) @ '' '')) @ '']'')"
    by (rule array)
  then have "json_document (''[-2.5e3, '' @ [CHR 0x22] @ ''1+1'' @ [CHR 0x22] @ '' ]'')"
    using sp(2) unfolding json_document_def by (intro exI [of _ "[]"] exI [of _ "''[-2.5e3, '' @ [CHR 0x22] @ ''1+1'' @ [CHR 0x22] @ '' ]''"] conjI) simp_all
  then show ?thesis by (rule repair_keeps_json)
qed

end
