(* ===== verification/Streaming.thy ===== *)
theory Streaming
  imports Prelude
begin

text \<open>
  The interface of the filters that sit on the streamed text of a reply: text arrives in chunks,
  \<open>feed\<close> returns what may be sent now, and a flush at the end releases what is still held. A filter
  states which streams it admits in which state; on those the output does not depend on how the
  text is cut into chunks.
\<close>

text \<open>A whole stream: the chunks one after the other.\<close>

fun feed_all :: "('st \<Rightarrow> 'a list \<Rightarrow> 'st \<times> 'b list) \<Rightarrow> 'st \<Rightarrow> 'a list list \<Rightarrow> 'st \<times> 'b list" where
  "feed_all feed g [] = (g, [])"
| "feed_all feed g (s # ss) =
     (let (g', o1) = feed g s; (g'', o2) = feed_all feed g' ss in (g'', o1 @ o2))"

locale stream_filter =
  fixes feed :: "'st \<Rightarrow> 'a list \<Rightarrow> 'st \<times> 'b list"
    and admits :: "'st \<Rightarrow> 'a list \<Rightarrow> bool"
  assumes feed_Nil: "admits g [] \<Longrightarrow> feed g [] = (g, [])"
    and feed_append: "admits g (s @ t) \<Longrightarrow>
      feed g (s @ t) = (let (g', o1) = feed g s; (g'', o2) = feed g' t in (g'', o1 @ o2))"
    and admits_rest: "admits g (s @ t) \<Longrightarrow> admits (fst (feed g s)) t"
begin

lemma feed_all_eq: "admits g (concat ss) \<Longrightarrow> feed_all feed g ss = feed g (concat ss)"
proof (induction ss arbitrary: g)
  case Nil
  then show ?case by (simp add: feed_Nil)
next
  case (Cons s ss)
  then have "admits (fst (feed g s)) (concat ss)" by (intro admits_rest) simp
  then have "feed_all feed (fst (feed g s)) ss = feed (fst (feed g s)) (concat ss)" by (rule Cons.IH)
  then show ?case
    using Cons.prems feed_append [of g s "concat ss"] by (simp add: case_prod_unfold Let_def)
qed

lemma chunking_irrelevant:
  "admits g (concat ss) \<Longrightarrow> concat ss = concat ts \<Longrightarrow> feed_all feed g ss = feed_all feed g ts"
  by (simp add: feed_all_eq)

end

end
