(* ===== verification/TextGuard.thy ===== *)
theory TextGuard
  imports JsonRepair Streaming
begin

text \<open>
  The guard on the streamed text (\<^verbatim>\<open>internal/agent/textguard.go\<close>): a state machine over lines that
  passes prose through, holds JSON regions until they are complete and releases them repaired.
\<close>

subsection \<open>The guard\<close>

datatype guard_mode = ModePass | ModeFenced | ModeRaw

record text_guard =
  g_mode :: guard_mode
  g_line :: string
  g_partial :: bool
  in_fence :: bool
  region_open :: string
  g_region :: string
  g_depth :: int
  in_str :: bool
  g_esc :: bool
  g_fixes :: nat

definition new_guard :: text_guard where
  "new_guard =
     \<lparr>g_mode = ModePass, g_line = [], g_partial = False, in_fence = False, region_open = [],
      g_region = [], g_depth = 0, in_str = False, g_esc = False, g_fixes = 0\<rparr>"

abbreviation newline :: char where "newline \<equiv> CHR 0x0A"

definition fence :: string where "fence = [CHR 0x60, CHR 0x60, CHR 0x60]"

definition might_start_region :: "text_guard \<Rightarrow> string \<Rightarrow> bool" where
  "might_start_region g line =
     (let t = trim_left_set ('' '' @ [CHR 0x09]) line in
      if t = [] \<or> prefix t fence \<or> prefix fence t then True
      else \<not> in_fence g \<and> (hd t = CHR ''{'' \<or> hd t = CHR ''[''))"

definition starts_raw_json :: "string \<Rightarrow> bool" where
  "starts_raw_json t =
     (if t \<noteq> [] \<and> hd t = CHR ''{'' then True
      else if t \<noteq> [] \<and> hd t = CHR ''['' then
        (let rest = trim_space (tl t) in rest = [] \<or> hd rest \<in> {CHR ''{'', CHR ''['', CHR 0x22})
      else False)"

fun scan_raw :: "text_guard \<Rightarrow> string \<Rightarrow> text_guard" where
  "scan_raw g [] = g"
| "scan_raw g (c # line) =
     scan_raw
       (if in_str g then
          (if g_esc g then g\<lparr>g_esc := False\<rparr>
           else if c = CHR 0x5C then g\<lparr>g_esc := True\<rparr>
           else if c = CHR 0x22 then g\<lparr>in_str := False\<rparr> else g)
        else if c = CHR 0x22 then g\<lparr>in_str := True\<rparr>
        else if c = CHR ''{'' \<or> c = CHR ''['' then g\<lparr>g_depth := g_depth g + 1\<rparr>
        else if c = CHR ''}'' \<or> c = CHR '']'' then g\<lparr>g_depth := g_depth g - 1\<rparr>
        else g) line"

definition end_raw :: "text_guard \<Rightarrow> text_guard \<times> string" where
  "end_raw g =
     (let (fixed, n) = repair_json_expressions (g_region g)
      in (g\<lparr>g_fixes := g_fixes g + n, g_region := [], g_mode := ModePass\<rparr>, fixed))"

definition end_fenced :: "text_guard \<Rightarrow> string \<Rightarrow> text_guard \<times> string" where
  "end_fenced g close_line =
     (let t = trim_space (g_region g);
          (body, n) = (if t \<noteq> [] \<and> (hd t = CHR ''{'' \<or> hd t = CHR ''['')
                       then repair_json_expressions (g_region g) else (g_region g, 0))
      in (g\<lparr>g_fixes := g_fixes g + n, g_region := [], region_open := [], g_mode := ModePass\<rparr>,
          region_open g @ body @ close_line))"

text \<open>A complete line of a raw region: it joins the region, which ends when its brackets close.\<close>

definition raw_line :: "text_guard \<Rightarrow> string \<Rightarrow> text_guard \<times> string" where
  "raw_line g line =
     (let g = scan_raw (g\<lparr>g_region := g_region g @ line\<rparr>) line
      in if g_depth g \<le> 0 then end_raw g else (g, []))"

definition start_or_pass :: "text_guard \<Rightarrow> string \<Rightarrow> text_guard \<times> string" where
  "start_or_pass g line =
     (let t = trim_space line in
      if prefix fence t then
        (if in_fence g then (g\<lparr>in_fence := False\<rparr>, line)
         else if to_lower (trim_space (drop 3 t)) \<in> {[], ''json'', ''jsonc'', ''json5''}
         then (g\<lparr>g_mode := ModeFenced, region_open := line, g_region := []\<rparr>, [])
         else (g\<lparr>in_fence := True\<rparr>, line))
      else if \<not> in_fence g \<and> starts_raw_json t then
        raw_line (g\<lparr>g_mode := ModeRaw, g_region := [], g_depth := 0, in_str := False, g_esc := False\<rparr>) line
      else (g, line))"

definition consume :: "text_guard \<Rightarrow> string \<Rightarrow> bool \<Rightarrow> text_guard \<times> string" where
  "consume g seg whole =
     (case g_mode g of
        ModeFenced \<Rightarrow>
          (if \<not> whole then (g\<lparr>g_line := g_line g @ seg\<rparr>, [])
           else
             (let line = g_line g @ seg; g = g\<lparr>g_line := []\<rparr>
              in if trim_space line = fence then end_fenced g line
                 else (g\<lparr>g_region := g_region g @ line\<rparr>, [])))
      | ModeRaw \<Rightarrow>
          (if \<not> whole then (g\<lparr>g_line := g_line g @ seg\<rparr>, [])
           else raw_line (g\<lparr>g_line := []\<rparr>) (g_line g @ seg))
      | ModePass \<Rightarrow>
          (if g_partial g then (g\<lparr>g_partial := \<not> whole\<rparr>, seg)
           else if \<not> whole then
             (if might_start_region g (g_line g @ seg) then (g\<lparr>g_line := g_line g @ seg\<rparr>, [])
              else (g\<lparr>g_line := [], g_partial := True\<rparr>, g_line g @ seg))
           else start_or_pass (g\<lparr>g_line := []\<rparr>) (g_line g @ seg)))"

text \<open>The next segment of a chunk: up to its first newline, with it, or the whole chunk.\<close>

definition segment :: "string \<Rightarrow> string \<times> bool" where
  "segment chunk =
     (let w = takeWhile (\<lambda>c. c \<noteq> newline) chunk in
      if w = chunk then (chunk, False) else (w @ [newline], True))"

lemma segment_size: "chunk \<noteq> [] \<Longrightarrow> length (drop (length (fst (segment chunk))) chunk) < length chunk"
  by (cases chunk) (auto simp: segment_def Let_def)

function guard_feed :: "text_guard \<Rightarrow> string \<Rightarrow> text_guard \<times> string" where
  "guard_feed g chunk =
     (if chunk = [] then (g, [])
      else
        (let (seg, whole) = segment chunk;
             (g', o1) = consume g seg whole;
             (g'', o2) = guard_feed g' (drop (length seg) chunk)
         in (g'', o1 @ o2)))"
  by pat_completeness auto
termination
  by (relation "measure (\<lambda>(g, chunk). length chunk)")
     (auto simp del: length_drop dest: segment_size simp: split_pairs)

declare guard_feed.simps [simp del]

definition guard_flush :: "text_guard \<Rightarrow> text_guard \<times> string" where
  "guard_flush g =
     (let (g', out) =
        (case g_mode g of
           ModePass \<Rightarrow> (g, g_line g)
         | ModeFenced \<Rightarrow> end_fenced (g\<lparr>g_region := g_region g @ g_line g\<rparr>) []
         | ModeRaw \<Rightarrow> end_raw (g\<lparr>g_region := g_region g @ g_line g\<rparr>))
      in (g'\<lparr>g_line := [], g_partial := False\<rparr>, out))"

text \<open>A whole text block: every chunk, then the flush.\<close>

definition guard_block :: "text_guard \<Rightarrow> string list \<Rightarrow> text_guard \<times> string" where
  "guard_block g chunks =
     (let (g', o1) = feed_all guard_feed g chunks; (g'', o2) = guard_flush g' in (g'', o1 @ o2))"


subsection \<open>The chunks do not matter\<close>

text \<open>
  A line is indented plainly when trimming blanks and tabs and trimming all white space leave the
  same text on the left, or nothing at all is left.
\<close>

definition plain_indent :: "string \<Rightarrow> bool" where
  "plain_indent line \<longleftrightarrow>
     trim_left line = trim_left_set ('' '' @ [CHR 0x09]) line \<or> trim_space line = []"

fun complete_lines :: "string \<Rightarrow> string list" where
  "complete_lines [] = []"
| "complete_lines (c # t) =
     (if c = newline then [c] # complete_lines t
      else if newline \<in> set t
        then (case complete_lines t of [] \<Rightarrow> [] | l # ls \<Rightarrow> (c # l) # ls)
      else [])"

definition guard_inv :: "text_guard \<Rightarrow> bool" where
  "guard_inv g \<longleftrightarrow>
     newline \<notin> set (g_line g)
     \<and> (if g_mode g = ModePass
         then (if g_partial g then g_line g = [] else might_start_region g (g_line g))
         else \<not> g_partial g)"

text \<open>The complete lines the guard will see: the line it holds is the start of the first.\<close>

definition lines_ahead :: "text_guard \<Rightarrow> string \<Rightarrow> string list" where
  "lines_ahead g s = (if g_partial g then tl (complete_lines s) else complete_lines (g_line g @ s))"

definition guard_admits :: "text_guard \<Rightarrow> string \<Rightarrow> bool" where
  "guard_admits g s \<longleftrightarrow> guard_inv g \<and> list_all plain_indent (lines_ahead g s)"

lemma complete_lines_none: "newline \<notin> set s \<Longrightarrow> complete_lines s = []"
  by (cases s) auto

lemma complete_lines_line:
  "newline \<notin> set w \<Longrightarrow> complete_lines (w @ newline # s) = (w @ [newline]) # complete_lines s"
  by (induction w) auto

lemma complete_lines_append:
  "\<exists>ls. complete_lines (s @ t) = complete_lines s @ ls"
proof (induction s)
  case (Cons c s)
  show ?case
  proof (cases "c = newline")
    case False
    show ?thesis
    proof (cases "newline \<in> set s")
      case True
      then have "complete_lines s \<noteq> []"
        by (metis complete_lines_line list.distinct(1) split_list_first)
      then show ?thesis using Cons True False by (cases "complete_lines s") auto
    qed (use False in \<open>simp add: complete_lines_none\<close>)
  qed (use Cons in auto)
qed simp

lemma might_start_append:
  assumes "\<not> might_start_region g p"
  shows "\<not> might_start_region g (p @ q)"
    and "trim_left_set ('' '' @ [CHR 0x09]) (p @ q) = trim_left_set ('' '' @ [CHR 0x09]) p @ q"
    and "trim_left_set ('' '' @ [CHR 0x09]) p \<noteq> []"
proof -
  define t where "t = trim_left_set ('' '' @ [CHR 0x09]) p"
  have t: "t \<noteq> []" "\<not> prefix t fence" "\<not> prefix fence t"
    "\<not> (\<not> in_fence g \<and> (hd t = CHR ''{'' \<or> hd t = CHR ''[''))"
    using assms by (auto simp: might_start_region_def Let_def t_def split: if_splits)
  have app: "trim_left_set ('' '' @ [CHR 0x09]) (p @ q) = t @ q"
  proof -
    obtain x where "x \<in> set p" "\<not> x \<in> set ('' '' @ [CHR 0x09])"
      using t(1) unfolding t_def trim_left_set_def by (metis dropWhile_eq_Nil_conv)
    then show ?thesis unfolding t_def trim_left_set_def by (rule dropWhile_append1)
  qed
  show "trim_left_set ('' '' @ [CHR 0x09]) (p @ q) = trim_left_set ('' '' @ [CHR 0x09]) p @ q"
    using app by (simp only: t_def)
  show "trim_left_set ('' '' @ [CHR 0x09]) p \<noteq> []" using t(1) unfolding t_def .
  have "\<not> prefix (t @ q) fence" "\<not> prefix fence (t @ q)"
    using t(2,3) by (meson append_prefixD, metis prefix_same_cases prefixI)
  then show "\<not> might_start_region g (p @ q)"
    using t unfolding might_start_region_def app Let_def by simp
qed

lemma trim_space_prefix: "prefix (trim_space s) (trim_left s)"
  using trim_right_prefix [of "trim_left s"] by (auto simp: trim_space_def take_is_prefix)

lemma starts_raw_json_head: "starts_raw_json t \<Longrightarrow> t \<noteq> [] \<and> (hd t = CHR ''{'' \<or> hd t = CHR ''['')"
  by (auto simp: starts_raw_json_def split: if_splits)

text \<open>A line whose start could be released opens no region.\<close>

lemma start_or_pass_released:
  assumes "\<not> might_start_region g p" "plain_indent (p @ q)" "in_fence g' = in_fence g"
  shows "start_or_pass g' (p @ q) = (g', p @ q)"
proof -
  define t where "t = trim_space (p @ q)"
  define u where "u = trim_left_set ('' '' @ [CHR 0x09]) (p @ q)"
  have u: "\<not> prefix fence u" "\<not> (\<not> in_fence g \<and> (hd u = CHR ''{'' \<or> hd u = CHR ''[''))"
    using might_start_append(1) [OF assms(1), of q]
    by (auto simp: might_start_region_def Let_def u_def split: if_splits)
  have "prefix t u \<or> t = []"
    using assms(2) trim_space_prefix [of "p @ q"] by (auto simp: plain_indent_def t_def u_def)
  moreover have "fence \<noteq> []" by (simp add: fence_def)
  ultimately have "\<not> prefix fence t" "\<not> (\<not> in_fence g \<and> starts_raw_json t)"
    using u starts_raw_json_head [of t] by (auto simp: prefix_def hd_append)
  then show ?thesis
    using assms(3) by (auto simp: start_or_pass_def Let_def t_def [symmetric])
qed

lemma consume_join:
  assumes inv: "guard_inv g" and u: "newline \<notin> set u"
    and ok: "whole \<Longrightarrow> \<not> g_partial g \<Longrightarrow> plain_indent (g_line g @ u @ v)"
  shows "consume g (u @ v) whole =
    (let (g', o1) = consume g u False; (g'', o2) = consume g' v whole in (g'', o1 @ o2))"
proof (cases "g_mode g")
  case ModePass
  show ?thesis
  proof (cases "g_partial g")
    case True
    then show ?thesis using ModePass by (simp add: consume_def)
  next
    case False
    show ?thesis
    proof (cases "might_start_region g (g_line g @ u)")
      case True
      then show ?thesis using ModePass False by (simp add: consume_def might_start_region_def)
    next
      case not: False
      then show ?thesis
        using ModePass False might_start_append(1) [OF not, of v]
          start_or_pass_released [OF not, of v "g\<lparr>g_line := []\<rparr>"] ok
        by (auto simp: consume_def)
    qed
  qed
qed (simp_all add: consume_def Let_def case_prod_unfold)


lemma segment_line: "newline \<notin> set w \<Longrightarrow> segment (w @ newline # s) = (w @ [newline], True)"
proof -
  assume "newline \<notin> set w"
  then have "takeWhile (\<lambda>c. c \<noteq> newline) (w @ newline # s) = w" by (induction w) auto
  then show ?thesis by (simp add: segment_def)
qed

lemma segment_rest: "newline \<notin> set w \<Longrightarrow> segment w = (w, False)"
  by (auto simp: segment_def)

lemma guard_feed_line:
  "newline \<notin> set w \<Longrightarrow>
     guard_feed g (w @ newline # s) =
       (let (g', o1) = consume g (w @ [newline]) True; (g'', o2) = guard_feed g' s in (g'', o1 @ o2))"
  by (subst guard_feed.simps) (simp add: segment_line)

lemma consume_Nil: "guard_inv g \<Longrightarrow> consume g [] False = (g, [])"
  by (cases "g_mode g") (auto simp: consume_def guard_inv_def split: if_splits)

lemma guard_feed_rest:
  "newline \<notin> set w \<Longrightarrow> guard_inv g \<Longrightarrow> guard_feed g w = consume g w False"
  by (cases "w = []") (simp_all add: guard_feed.simps [of _ w] guard_feed.simps [of _ "[]"] segment_rest consume_Nil case_prod_unfold Let_def)

text \<open>The invariant and what the steps do to the fields the lines depend on.\<close>

lemma scan_raw_fields [simp]:
  "g_mode (scan_raw g s) = g_mode g" "g_line (scan_raw g s) = g_line g"
  "g_partial (scan_raw g s) = g_partial g" "in_fence (scan_raw g s) = in_fence g"
  "g_region (scan_raw g s) = g_region g" "g_fixes (scan_raw g s) = g_fixes g"
  "region_open (scan_raw g s) = region_open g"
  by (induction s arbitrary: g) auto

lemma might_start_Nil [simp]: "might_start_region g []"
  by (simp add: might_start_region_def trim_left_set_def)

lemma end_raw_fields [simp]:
  "g_mode (fst (end_raw g)) = ModePass" "g_line (fst (end_raw g)) = g_line g"
  "g_partial (fst (end_raw g)) = g_partial g"
  by (simp_all add: end_raw_def case_prod_unfold Let_def)

lemma end_fenced_fields [simp]:
  "g_mode (fst (end_fenced g l)) = ModePass" "g_line (fst (end_fenced g l)) = g_line g"
  "g_partial (fst (end_fenced g l)) = g_partial g"
  by (simp_all add: end_fenced_def case_prod_unfold Let_def)

lemma raw_line_fields [simp]:
  "g_line (fst (raw_line g l)) = g_line g" "g_partial (fst (raw_line g l)) = g_partial g"
  by (simp_all add: raw_line_def Let_def)

lemma start_or_pass_fields [simp]:
  "g_line (fst (start_or_pass g l)) = g_line g" "g_partial (fst (start_or_pass g l)) = g_partial g"
  by (simp_all add: start_or_pass_def Let_def)

lemma consume_line:
  "guard_inv g \<Longrightarrow> guard_inv (fst (consume g seg True))
     \<and> g_line (fst (consume g seg True)) = [] \<and> \<not> g_partial (fst (consume g seg True))"
  by (cases "g_mode g") (auto simp: consume_def guard_inv_def Let_def)

lemma consume_rest:
  "guard_inv g \<Longrightarrow> newline \<notin> set w \<Longrightarrow> guard_inv (fst (consume g w False))"
  by (cases "g_mode g") (auto simp: consume_def guard_inv_def might_start_region_def Let_def)

lemma consume_rest_line:
  "guard_inv g \<Longrightarrow> newline \<notin> set w \<Longrightarrow>
     (if g_partial (fst (consume g w False)) then True
      else \<not> g_partial g \<and> g_line (fst (consume g w False)) = g_line g @ w)"
  by (cases "g_mode g") (auto simp: consume_def guard_inv_def Let_def)

lemma lines_ahead_line:
  "guard_inv g \<Longrightarrow> newline \<notin> set w \<Longrightarrow>
     lines_ahead g (w @ newline # s)
     = (if g_partial g then [] else [g_line g @ w @ [newline]]) @ complete_lines s"
  using complete_lines_line [of "g_line g @ w" s]
  by (simp add: lines_ahead_def complete_lines_line guard_inv_def)

lemma guard_admits_line:
  assumes "guard_admits g (w @ newline # s)" "newline \<notin> set w"
  shows "guard_admits (fst (consume g (w @ [newline]) True)) s"
proof -
  have inv: "guard_inv g" using assms by (simp add: guard_admits_def)
  then have "list_all plain_indent (complete_lines s)"
    using assms lines_ahead_line [OF inv assms(2), of s] by (simp add: guard_admits_def)
  then show ?thesis
    using consume_line [OF inv, of "w @ [newline]"] by (simp add: guard_admits_def lines_ahead_def)
qed

lemma guard_admits_rest:
  assumes "guard_admits g (w @ t)" "newline \<notin> set w"
  shows "guard_admits (fst (consume g w False)) t"
proof -
  have inv: "guard_inv g" and ok: "list_all plain_indent (lines_ahead g (w @ t))"
    using assms(1) by (simp_all add: guard_admits_def)
  have "list_all plain_indent (lines_ahead (fst (consume g w False)) t)"
  proof (cases "newline \<in> set t")
    case False
    then have "complete_lines t = []" "complete_lines (g_line g @ w @ t) = []"
      using inv assms(2) by (auto simp: guard_inv_def intro: complete_lines_none)
    then show ?thesis
      using consume_rest_line [OF inv assms(2)] by (auto simp: lines_ahead_def split: if_splits)
  next
    case True
    then obtain v s where t: "t = v @ newline # s" "newline \<notin> set v" by (metis split_list_first)
    have "lines_ahead g ((w @ v) @ newline # s)
        = (if g_partial g then [] else [g_line g @ (w @ v) @ [newline]]) @ complete_lines s"
      using t assms(2) by (intro lines_ahead_line [OF inv]) simp
    moreover have "lines_ahead (fst (consume g w False)) (v @ newline # s)
        = (if g_partial (fst (consume g w False)) then []
           else [g_line (fst (consume g w False)) @ v @ [newline]]) @ complete_lines s"
      using t by (intro lines_ahead_line consume_rest [OF inv assms(2)])
    ultimately show ?thesis
      using ok t consume_rest_line [OF inv assms(2)] by (auto split: if_splits)
  qed
  then show ?thesis using consume_rest [OF inv assms(2)] by (simp add: guard_admits_def)
qed

lemma guard_feed_append:
  "guard_admits g (s @ t) \<Longrightarrow>
     guard_feed g (s @ t) =
       (let (g', o1) = guard_feed g s; (g'', o2) = guard_feed g' t in (g'', o1 @ o2))
     \<and> guard_admits (fst (guard_feed g s)) t"
proof (induction "length s" arbitrary: g s rule: less_induct)
  case less
  have inv: "guard_inv g" using less.prems by (simp add: guard_admits_def)
  show ?case
  proof (cases "newline \<in> set s")
    case True
    then obtain w r where s: "s = w @ newline # r" "newline \<notin> set w" by (metis split_list_first)
    define g1 where "g1 = fst (consume g (w @ [newline]) True)"
    have "guard_admits g1 (r @ t)"
      using guard_admits_line [of g w "r @ t"] less.prems s by (simp add: g1_def)
    then have "guard_feed g1 (r @ t) =
        (let (g', o1) = guard_feed g1 r; (g'', o2) = guard_feed g' t in (g'', o1 @ o2))
        \<and> guard_admits (fst (guard_feed g1 r)) t"
      using s by (intro less.hyps) simp
    then show ?thesis
      using s by (simp add: guard_feed_line case_prod_unfold Let_def g1_def [symmetric])
  next
    case False
    note rest = guard_feed_rest [OF False inv]
    have adm: "guard_admits (fst (consume g s False)) t"
      using guard_admits_rest [OF less.prems False] .
    have inv1: "guard_inv (fst (consume g s False))" using adm by (simp add: guard_admits_def)
    have "guard_feed g (s @ t) =
        (let (g', o1) = consume g s False; (g'', o2) = guard_feed g' t in (g'', o1 @ o2))"
    proof (cases "newline \<in> set t")
      case t: False
      then show ?thesis
        using False inv inv1 consume_join [OF inv False, of False t]
        by (simp add: guard_feed_rest case_prod_unfold Let_def)
    next
      case True
      then obtain v r where t: "t = v @ newline # r" "newline \<notin> set v" by (metis split_list_first)
      have "plain_indent (g_line g @ s @ v @ [newline])" if "\<not> g_partial g"
        using less.prems t False inv that lines_ahead_line [OF inv, of "s @ v" r]
        by (simp add: guard_admits_def)
      then have "consume g (s @ v @ [newline]) True =
          (let (g', o1) = consume g s False; (g'', o2) = consume g' (v @ [newline]) True in (g'', o1 @ o2))"
        using False by (intro consume_join [OF inv]) auto
      then show ?thesis
        using t False guard_feed_line [of "s @ v" g r]
        by (simp add: guard_feed_line case_prod_unfold Let_def)
    qed
    then show ?thesis using rest adm by simp
  qed
qed

interpretation guard_stream: stream_filter guard_feed guard_admits
proof
  show "guard_feed g [] = (g, [])" for g by (simp add: guard_feed.simps)
  show "guard_feed g (s @ t) = (let (g', o1) = guard_feed g s; (g'', o2) = guard_feed g' t in (g'', o1 @ o2))"
    and "guard_admits (fst (guard_feed g s)) t"
    if "guard_admits g (s @ t)" for g s t
    using guard_feed_append [OF that] by simp_all
qed


subsection \<open>Nothing is lost\<close>

definition pending :: "text_guard \<Rightarrow> string" where
  "pending g =
     (case g_mode g of
        ModePass \<Rightarrow> g_line g
      | ModeFenced \<Rightarrow> region_open g @ g_region g @ g_line g
      | ModeRaw \<Rightarrow> g_region g @ g_line g)"

lemma evaluates_to_append:
  "evaluates_to a o1 n1 \<Longrightarrow> evaluates_to b o2 n2 \<Longrightarrow> evaluates_to (a @ b) (o1 @ o2) (n1 + n2)"
  unfolding evaluates_to_def
  apply (elim exE conjE)
  subgoal for ps qs by (rule exI [of _ "ps @ qs"]) simp
  done

lemma evaluates_to_self: "evaluates_to s s 0"
  using evaluates_to_keep [of "[]" "[]" 0 s] by (auto simp: evaluates_to_def intro: exI [of _ "[Kept s]"])

lemma evaluates_to_repair:
  "evaluates_to s (fst (repair_json_expressions s)) (snd (repair_json_expressions s))"
  using repair_from_evaluates_to [of s "[]" "CHR 0x00"] by (simp add: repair_json_expressions_def)

text \<open>One step: some of what was pending has been sent, evaluated, and the rest is pending.\<close>

definition passes_on :: "string \<Rightarrow> text_guard \<Rightarrow> text_guard \<times> string \<Rightarrow> bool" where
  "passes_on s g r \<longleftrightarrow>
     (\<exists>a k. s = a @ pending (fst r) \<and> evaluates_to a (snd r) k \<and> g_fixes (fst r) = g_fixes g + k)"

lemma passes_on_hold: "pending g' = s \<Longrightarrow> g_fixes g' = g_fixes g \<Longrightarrow> passes_on s g (g', [])"
  using evaluates_to_self [of "[]"] by (auto simp: passes_on_def)

lemma passes_on_pass: "pending g' = [] \<Longrightarrow> g_fixes g' = g_fixes g \<Longrightarrow> passes_on s g (g', s)"
  using evaluates_to_self [of s] by (auto simp: passes_on_def)

lemma end_raw_passes: "g_line g = [] \<Longrightarrow> passes_on (g_region g) g (end_raw g)"
  using evaluates_to_repair [of "g_region g"]
  by (auto simp: passes_on_def end_raw_def pending_def case_prod_unfold Let_def)

lemma end_fenced_passes: "g_line g = [] \<Longrightarrow> passes_on (region_open g @ g_region g @ l) g (end_fenced g l)"
proof -
  assume g: "g_line g = []"
  define r where "r = (if trim_space (g_region g) \<noteq> [] \<and>
      (hd (trim_space (g_region g)) = CHR ''{'' \<or> hd (trim_space (g_region g)) = CHR ''['')
      then repair_json_expressions (g_region g) else (g_region g, 0))"
  have "evaluates_to (g_region g) (fst r) (snd r)"
    using evaluates_to_repair evaluates_to_self by (simp add: r_def)
  then have "evaluates_to (region_open g @ g_region g @ l) (region_open g @ fst r @ l) (0 + (snd r + 0))"
    using evaluates_to_self by (intro evaluates_to_append) simp_all
  then show ?thesis
    using g unfolding passes_on_def end_fenced_def Let_def r_def [symmetric]
    by (intro exI [of _ "region_open g @ g_region g @ l"] exI [of _ "snd r"])
       (simp add: pending_def case_prod_unfold)
qed

lemma passes_on_fixes: "passes_on s g' r \<Longrightarrow> g_fixes g' = g_fixes g \<Longrightarrow> passes_on s g r"
  by (simp add: passes_on_def)

lemma raw_line_passes:
  "g_line g = [] \<Longrightarrow> g_mode g = ModeRaw \<Longrightarrow> passes_on (g_region g @ l) g (raw_line g l)"
  using end_raw_passes [of "scan_raw (g\<lparr>g_region := g_region g @ l\<rparr>) l"]
  by (auto simp: raw_line_def Let_def passes_on_hold pending_def intro: passes_on_fixes)

lemma start_or_pass_passes:
  "g_line g = [] \<Longrightarrow> g_mode g = ModePass \<Longrightarrow> passes_on l g (start_or_pass g l)"
  using raw_line_passes [of "g\<lparr>g_mode := ModeRaw, g_region := [], g_depth := 0, in_str := False, g_esc := False\<rparr>" l]
  by (auto simp: start_or_pass_def Let_def pending_def passes_on_pass passes_on_hold intro: passes_on_fixes)

lemma consume_passes: "guard_inv g \<Longrightarrow> passes_on (pending g @ seg) g (consume g seg whole)"
  using start_or_pass_passes [of "g\<lparr>g_line := []\<rparr>" "g_line g @ seg"]
    raw_line_passes [of "g\<lparr>g_line := []\<rparr>" "g_line g @ seg"]
    end_fenced_passes [of "g\<lparr>g_line := []\<rparr>" "g_line g @ seg"]
  by (cases "g_mode g")
     (auto simp: consume_def Let_def pending_def guard_inv_def passes_on_pass passes_on_hold
       intro: passes_on_fixes split: if_splits)

lemma passes_on_trans:
  assumes "passes_on (pending g @ s) g r1" "passes_on (pending (fst r1) @ t) (fst r1) r2"
  shows "passes_on (pending g @ s @ t) g (fst r2, snd r1 @ snd r2)"
proof -
  obtain a k b j where a: "pending g @ s = a @ pending (fst r1)" "evaluates_to a (snd r1) k"
      "g_fixes (fst r1) = g_fixes g + k"
    and b: "pending (fst r1) @ t = b @ pending (fst r2)" "evaluates_to b (snd r2) j"
      "g_fixes (fst r2) = g_fixes (fst r1) + j"
    using assms unfolding passes_on_def by blast
  have "pending g @ s @ t = (a @ b) @ pending (fst r2)"
    using a(1) b(1) by (metis append.assoc)
  then show ?thesis
    unfolding passes_on_def using evaluates_to_append [OF a(2) b(2)] a(3) b(3)
    by (intro exI [of _ "a @ b"] exI [of _ "k + j"]) simp
qed

lemma guard_feed_passes:
  "guard_inv g \<Longrightarrow> passes_on (pending g @ s) g (guard_feed g s) \<and> guard_inv (fst (guard_feed g s))"
proof (induction "length s" arbitrary: g s rule: less_induct)
  case less
  show ?case
  proof (cases "newline \<in> set s")
    case False
    then show ?thesis
      using consume_passes [OF less.prems] consume_rest [OF less.prems False] guard_feed_rest [OF False less.prems]
      by simp
  next
    case True
    then obtain w r where s: "s = w @ newline # r" "newline \<notin> set w" by (metis split_list_first)
    define r1 where "r1 = consume g (w @ [newline]) True"
    have r1: "guard_inv (fst r1)" "passes_on (pending g @ w @ [newline]) g r1"
      using consume_line [OF less.prems] consume_passes [OF less.prems] by (simp_all add: r1_def)
    have "passes_on (pending (fst r1) @ r) (fst r1) (guard_feed (fst r1) r) \<and> guard_inv (fst (guard_feed (fst r1) r))"
      using r1 s by (intro less.hyps) simp_all
    then show ?thesis
      using passes_on_trans [OF r1(2), of r "guard_feed (fst r1) r"] s
      by (simp add: guard_feed_line case_prod_unfold Let_def r1_def [symmetric])
  qed
qed

lemma guard_feed_all_passes:
  "guard_inv g \<Longrightarrow> passes_on (pending g @ concat ss) g (feed_all guard_feed g ss)
     \<and> guard_inv (fst (feed_all guard_feed g ss))"
proof (induction ss arbitrary: g)
  case Nil
  then show ?case by (simp add: passes_on_hold)
next
  case (Cons s ss)
  then show ?case
    using guard_feed_passes [OF Cons.prems, of s] passes_on_trans [of g s "guard_feed g s" "concat ss"]
    by (simp add: case_prod_unfold Let_def)
qed

lemma guard_flush_passes:
  "guard_inv g \<Longrightarrow> passes_on (pending g) g (guard_flush g) \<and> pending (fst (guard_flush g)) = []"
proof -
  assume inv: "guard_inv g"
  define g' where "g' = g\<lparr>g_region := g_region g @ g_line g, g_line := []\<rparr>"
  have e: "end_fenced g' [] = (fst (end_fenced (g\<lparr>g_region := g_region g @ g_line g\<rparr>) [])\<lparr>g_line := []\<rparr>,
      snd (end_fenced (g\<lparr>g_region := g_region g @ g_line g\<rparr>) []))"
    "end_raw g' = (fst (end_raw (g\<lparr>g_region := g_region g @ g_line g\<rparr>))\<lparr>g_line := []\<rparr>,
      snd (end_raw (g\<lparr>g_region := g_region g @ g_line g\<rparr>)))"
    by (simp_all add: g'_def end_fenced_def end_raw_def case_prod_unfold Let_def)
  have "passes_on (region_open g @ g_region g @ g_line g) g (end_fenced g' [])"
    "passes_on (g_region g @ g_line g) g (end_raw g')"
    using end_fenced_passes [of g' "[]"] end_raw_passes [of g'] by (auto simp: g'_def intro: passes_on_fixes)
  then show ?thesis
    using inv e evaluates_to_self
    by (cases "g_mode g")
       (auto simp: guard_flush_def passes_on_def pending_def case_prod_unfold Let_def guard_inv_def)
qed


lemma new_guard_fields [simp]:
  "g_mode new_guard = ModePass" "g_line new_guard = []" "\<not> g_partial new_guard"
  "\<not> in_fence new_guard" "g_fixes new_guard = 0" "pending new_guard = []"
  by (simp_all add: new_guard_def pending_def)

lemma new_guard_inv [simp]: "guard_inv new_guard"
  by (simp add: guard_inv_def)

lemma guard_block_evaluates:
  "evaluates_to (concat chunks) (snd (guard_block new_guard chunks)) (g_fixes (fst (guard_block new_guard chunks)))"
proof -
  define r where "r = feed_all guard_feed new_guard chunks"
  have r: "passes_on (concat chunks) new_guard r" "guard_inv (fst r)"
    using guard_feed_all_passes [of new_guard chunks] by (simp_all add: r_def)
  then obtain a k where a: "concat chunks = a @ pending (fst r)" "evaluates_to a (snd r) k" "g_fixes (fst r) = k"
    by (auto simp: passes_on_def)
  obtain j where b: "evaluates_to (pending (fst r)) (snd (guard_flush (fst r))) j"
      "g_fixes (fst (guard_flush (fst r))) = k + j"
    using guard_flush_passes [OF r(2)] a(3) by (auto simp: passes_on_def)
  show ?thesis
    using evaluates_to_append [OF a(2) b(1)] b(2) a(1)
    by (simp add: guard_block_def r_def [symmetric] case_prod_unfold Let_def)
qed

subsection \<open>Regions\<close>

text \<open>Without a newline the guard never leaves its pass mode.\<close>

lemma guard_feed_no_newline:
  assumes "guard_inv g" "g_mode g = ModePass" "newline \<notin> set s"
  shows "g_mode (fst (guard_feed g s)) = ModePass \<and> guard_inv (fst (guard_feed g s))
    \<and> snd (guard_feed g s) @ g_line (fst (guard_feed g s)) = g_line g @ s"
  using assms consume_rest [OF assms(1,3)] unfolding guard_feed_rest [OF assms(3,1)]
  by (auto simp: consume_def guard_inv_def)

lemma feed_all_no_newline:
  "guard_inv g \<Longrightarrow> g_mode g = ModePass \<Longrightarrow> newline \<notin> set (concat ss) \<Longrightarrow>
     g_mode (fst (feed_all guard_feed g ss)) = ModePass
     \<and> snd (feed_all guard_feed g ss) @ g_line (fst (feed_all guard_feed g ss)) = g_line g @ concat ss"
proof (induction ss arbitrary: g)
  case (Cons s ss)
  then have f: "g_mode (fst (guard_feed g s)) = ModePass" "guard_inv (fst (guard_feed g s))"
    "snd (guard_feed g s) @ g_line (fst (guard_feed g s)) = g_line g @ s"
    using guard_feed_no_newline [of g s] by auto
  then show ?case
    using Cons.IH [OF f(2) f(1)] Cons.prems(3) by (simp add: case_prod_unfold Let_def)
qed simp

text \<open>A fenced region: the opening line, lines that are not a closing fence, the closing line.\<close>

lemma fenced_lines:
  "g_mode g = ModeFenced \<Longrightarrow> g_line g = [] \<Longrightarrow> \<not> g_partial g \<Longrightarrow>
     list_all (\<lambda>w. newline \<notin> set w \<and> trim_space (w @ [newline]) \<noteq> fence) ws \<Longrightarrow>
     guard_feed g (concat (map (\<lambda>w. w @ [newline]) ws) @ s) =
       guard_feed (g\<lparr>g_region := g_region g @ concat (map (\<lambda>w. w @ [newline]) ws)\<rparr>) s"
proof (induction ws arbitrary: g)
  case (Cons w ws)
  have "consume g (w @ [newline]) True = (g\<lparr>g_region := g_region g @ w @ [newline]\<rparr>, [])"
    using Cons.prems by (simp add: consume_def Let_def)
  then show ?case
    using Cons.IH [of "g\<lparr>g_region := g_region g @ w @ [newline]\<rparr>"] Cons.prems
      guard_feed_line [of w g "concat (map (\<lambda>w. w @ [newline]) ws) @ s"]
    by simp
qed simp

lemma guard_feed_Nil [simp]: "guard_feed g [] = (g, [])"
  by (simp add: guard_feed.simps)

definition json_open :: "string \<Rightarrow> bool" where
  "json_open l \<longleftrightarrow> newline \<notin> set l \<and> prefix fence (trim_space (l @ [newline]))
     \<and> to_lower (trim_space (drop 3 (trim_space (l @ [newline])))) \<in> {[], ''json'', ''jsonc'', ''json5''}"

definition fence_close :: "string \<Rightarrow> bool" where
  "fence_close l \<longleftrightarrow> newline \<notin> set l \<and> trim_space (l @ [newline]) = fence"

lemma fenced_region:
  assumes open_l: "json_open l" and close_l: "fence_close c"
    and ws: "list_all (\<lambda>w. newline \<notin> set w \<and> trim_space (w @ [newline]) \<noteq> fence) ws"
    and body: "body = concat (map (\<lambda>w. w @ [newline]) ws)"
      "trim_space body \<noteq> []" "hd (trim_space body) \<in> set ''{[''"
    and g: "g_mode g = ModePass" "g_line g = []" "\<not> g_partial g" "\<not> in_fence g"
  shows "\<exists>g'. guard_feed g (l @ newline # body @ c @ [newline])
      = (g', l @ newline # fst (repair_json_expressions body) @ c @ [newline])
    \<and> g_mode g' = ModePass \<and> g_line g' = [] \<and> \<not> g_partial g' \<and> \<not> in_fence g'"
proof -
  define g1 where "g1 = g\<lparr>g_mode := ModeFenced, region_open := l @ [newline], g_region := []\<rparr>"
  have line: "x\<lparr>g_line := []\<rparr> = x" if "g_line x = []" for x :: text_guard
    using that by (cases x) simp
  define g2 where "g2 = g1\<lparr>g_region := body\<rparr>"
  have end_f: "end_fenced (g2\<lparr>g_line := []\<rparr>) l' = end_fenced g2 l'" for l'
    by (subst line) (simp_all add: g2_def g1_def g)
  have g2: "g_mode g2 = ModeFenced" "g_line g2 = []" using g by (simp_all add: g1_def g2_def)
  have "consume g (l @ [newline]) True = (g1, [])"
    using open_l g by (simp add: consume_def start_or_pass_def Let_def json_open_def g1_def line)
  then have "guard_feed g (l @ newline # body @ c @ [newline]) = guard_feed g1 (body @ c @ [newline])"
    using guard_feed_line [of l g "body @ c @ [newline]"] open_l by (simp add: json_open_def)
  also have "\<dots> = guard_feed g2 (c @ [newline])"
    using fenced_lines [OF _ _ _ ws, of g1 "c @ [newline]"] g by (simp add: g1_def g2_def body(1))
  also have "\<dots> = consume g2 (c @ [newline]) True"
    using guard_feed_line [of c g2 "[]"] close_l
    by (simp add: fence_close_def case_prod_unfold Let_def)
  also have "\<dots> = end_fenced g2 (c @ [newline])"
    using close_l g2 end_f by (simp add: consume_def fence_close_def Let_def)
  finally show ?thesis
    using body(2,3) g by (auto simp: end_fenced_def g1_def g2_def case_prod_unfold Let_def)
qed

subsection \<open>What the guard promises\<close>


text \<open>
  C19: Chunking is irrelevant: two ways to cut the same text give the same output and the same
  final state, for every text in which no complete line starts with white space other than
  blanks and tabs (unless the line is all white space).
\<close>

theorem guard_chunking:
  assumes "concat ss = concat ts" "list_all plain_indent (complete_lines (concat ss))"
  shows "guard_block new_guard ss = guard_block new_guard ts"
proof -
  have "guard_admits new_guard (concat ss)"
    using assms(2) by (simp add: guard_admits_def lines_ahead_def)
  then show ?thesis
    using guard_stream.chunking_irrelevant [OF _ assms(1)] by (simp add: guard_block_def)
qed

lemma guard_chunking_witness:
  "guard_block new_guard [''a: '', ''b'', [newline] @ ''c''] = guard_block new_guard [''a: b'' @ [newline], ''c'']"
proof -
  have "ascii (''a: b'' @ [newline])" by simp
  then have "plain_indent (''a: b'' @ [newline])"
    by (simp add: plain_indent_def trim_left_ascii_eq trim_left_set_def is_space_ascii)
  then show ?thesis
    by (intro guard_chunking) simp_all
qed

text \<open>
  A fenced JSON region is repaired: from the start of a line, an opening fence with an empty or
  a JSON label, any body that starts as an object or an array and has no closing fence in it, and
  the closing fence leave as the same fence lines around the repaired body.
\<close>

theorem guard_repairs_fence:
  assumes "json_open l" "fence_close c"
    and "list_all (\<lambda>w. newline \<notin> set w \<and> trim_space (w @ [newline]) \<noteq> fence) ws"
    and "trim_space (concat (map (\<lambda>w. w @ [newline]) ws)) \<noteq> []"
    and "hd (trim_space (concat (map (\<lambda>w. w @ [newline]) ws))) \<in> set ''{[''"
  shows "snd (guard_block new_guard [l @ newline # concat (map (\<lambda>w. w @ [newline]) ws) @ c @ [newline]])
    = l @ newline # fst (repair_json_expressions (concat (map (\<lambda>w. w @ [newline]) ws))) @ c @ [newline]"
  using fenced_region [OF assms(1-3) refl assms(4,5), of new_guard]
  by (auto simp: guard_block_def guard_flush_def)

lemma guard_repairs_fence_witness:
  "snd (guard_block new_guard [(fence @ ''json'') @ newline # concat (map (\<lambda>w. w @ [newline]) [''[1+1]'']) @ fence @ [newline]])
   = (fence @ ''json'') @ newline # fst (repair_json_expressions (concat (map (\<lambda>w. w @ [newline]) [''[1+1]'']))) @ fence @ [newline]"
proof (rule guard_repairs_fence)
  show "json_open (fence @ ''json'')"
    by (simp add: json_open_def fence_def text_simps is_space_ascii to_lower_rune_def char_of_eq_iff)
  show "fence_close fence"
    by (simp add: fence_close_def fence_def text_simps is_space_ascii)
qed (simp_all add: fence_def text_simps is_space_ascii)

text \<open>
  A text block without a newline is never repaired: whatever it holds, a JSON document with
  arithmetic included, it leaves as it came.
\<close>

theorem guard_single_line_unrepaired:
  assumes "newline \<notin> set (concat chunks)"
  shows "snd (guard_block new_guard chunks) = concat chunks"
  using feed_all_no_newline [OF new_guard_inv _ assms]
  by (auto simp: guard_block_def guard_flush_def case_prod_unfold Let_def)


lemma guard_single_line_unrepaired_witness:
  "snd (guard_block new_guard [''[1+1'', '', 2*3]'']) = ''[1+1, 2*3]''"
  using guard_single_line_unrepaired [of "[''[1+1'', '', 2*3]'']"] by simp


text \<open>
  Without the condition on white space, chunking does matter: a fenced region whose opening
  line starts with a vertical tab is repaired when its text arrives at once, and is not when the
  first byte arrives alone.
\<close>

theorem guard_chunking_counterexample:
  "concat [CHR 0x0B # fence @ ''json'' @ newline # ''[1+1]'' @ newline # fence @ [newline]]
   = concat [[CHR 0x0B], fence @ ''json'' @ newline # ''[1+1]'' @ newline # fence @ [newline]]
   \<and> snd (guard_block new_guard [CHR 0x0B # fence @ ''json'' @ newline # ''[1+1]'' @ newline # fence @ [newline]])
     = CHR 0x0B # fence @ ''json'' @ newline # ''[2]'' @ newline # fence @ [newline]
   \<and> snd (guard_block new_guard [[CHR 0x0B], fence @ ''json'' @ newline # ''[1+1]'' @ newline # fence @ [newline]])
     = CHR 0x0B # fence @ ''json'' @ newline # ''[1+1]'' @ newline # fence @ [newline]"
proof (intro conjI)
  show "snd (guard_block new_guard [CHR 0x0B # fence @ ''json'' @ newline # ''[1+1]'' @ newline # fence @ [newline]])
     = CHR 0x0B # fence @ ''json'' @ newline # ''[2]'' @ newline # fence @ [newline]"
    using fenced_region [of "CHR 0x0B # fence @ ''json''" fence "[''[1+1]'']" "''[1+1]'' @ [newline]" new_guard]
      repair_example
    by (auto simp: guard_block_def guard_flush_def json_open_def fence_close_def fence_def text_simps is_space_ascii
        to_lower_rune_def char_of_eq_iff)
  define g1 where "g1 = new_guard\<lparr>g_line := [], g_partial := True\<rparr>"
  have c1: "guard_feed new_guard [CHR 0x0B] = (g1, [CHR 0x0B])"
    by (simp add: guard_feed_rest consume_def might_start_region_def trim_left_set_def fence_def g1_def)
  define g2 where "g2 = g1\<lparr>g_partial := False\<rparr>"
  define g3 where "g3 = g2\<lparr>g_line := [], g_mode := ModeFenced, region_open := fence @ [newline], g_region := []\<rparr>"
  have c2: "consume g1 ((fence @ ''json'') @ [newline]) True = (g2, (fence @ ''json'') @ [newline])"
    by (simp add: consume_def g1_def g2_def)
  have c3: "consume g2 (''[1+1]'' @ [newline]) True = (g2\<lparr>g_line := []\<rparr>, ''[1+1]'' @ [newline])"
    by (simp add: consume_def start_or_pass_def starts_raw_json_def g1_def g2_def fence_def text_simps
        is_space_ascii)
  have c4: "consume (g2\<lparr>g_line := []\<rparr>) (fence @ [newline]) True = (g3, [])"
    by (simp add: consume_def start_or_pass_def g1_def g2_def g3_def fence_def text_simps is_space_ascii)
  have n: "newline \<notin> set (fence @ ''json'')" "newline \<notin> set ''[1+1]''" "newline \<notin> set fence"
    by (simp_all add: fence_def)
  have "guard_feed g1 ((fence @ ''json'') @ newline # (''[1+1]'' @ newline # (fence @ newline # [])))
      = (g3, (fence @ ''json'') @ [newline] @ ''[1+1]'' @ [newline])"
    unfolding guard_feed_line [OF n(1)] guard_feed_line [OF n(2)] guard_feed_line [OF n(3)]
    by (simp only: c2 c3 c4 Let_def case_prod_conv guard_feed_Nil) simp
  moreover have "guard_flush g3 = (g3\<lparr>g_region := [], region_open := [], g_mode := ModePass, g_line := [], g_partial := False\<rparr>,
      fence @ [newline])"
    by (simp add: guard_flush_def end_fenced_def g3_def g2_def g1_def trim_space_def)
  ultimately show "snd (guard_block new_guard [[CHR 0x0B], fence @ ''json'' @ newline # ''[1+1]'' @ newline # fence @ [newline]])
     = CHR 0x0B # fence @ ''json'' @ newline # ''[1+1]'' @ newline # fence @ [newline]"
    by (simp add: guard_block_def c1)
qed simp

end
