(* ===== verification/CiteRefs.thy ===== *)
theory CiteRefs
  imports GoText Streaming
begin

text \<open>
  The rewriting of case refs in citations (\<^verbatim>\<open>internal/agent/citerefs.go\<close>): ids like
  \<^verbatim>\<open>doc:d2:\<close> and \<^verbatim>\<open>doc:d1.n4:\<close> become \<^verbatim>\<open>doc:<document id>:\<close> while the text streams by.
\<close>

subsection \<open>The regular expressions\<close>

text \<open>
  \<^verbatim>\<open>refCite\<close> at the start of a text: the ref and the text after the match. The expression leaves
  no choice: a run of digits ends where the next byte is no digit.
\<close>

definition cite_end :: "string \<Rightarrow> string option" where
  "cite_end s =
     (if s \<noteq> [] \<and> hd s = CHR '':'' then Some (tl s)
      else if prefix ''.n'' s then
        (let ds = takeWhile is_ascii_digit (drop 2 s); r = dropWhile is_ascii_digit (drop 2 s)
         in if ds \<noteq> [] \<and> r \<noteq> [] \<and> hd r = CHR '':'' then Some (tl r) else None)
      else None)"

definition cite_at :: "string \<Rightarrow> (string \<times> string) option" where
  "cite_at s =
     (if prefix ''doc:d'' s then
        (let ds = takeWhile is_ascii_digit (drop 5 s)
         in if ds = [] then None
            else map_option (Pair (CHR ''d'' # ds)) (cite_end (dropWhile is_ascii_digit (drop 5 s))))
      else None)"

text \<open>\<^verbatim>\<open>refTail\<close>: the whole text may still become a match.\<close>

definition cite_start :: "string \<Rightarrow> bool" where
  "cite_start t =
     (if t \<in> {''d'', ''do'', ''doc'', ''doc:'', ''doc:d''} then True
      else if prefix ''doc:d'' t \<and> is_ascii_digit (hd (drop 5 t)) then
        (let r = dropWhile is_ascii_digit (drop 5 t)
         in r = [] \<or> r = ''.'' \<or> prefix ''.n'' r \<and> list_all is_ascii_digit (drop 2 r))
      else False)"

text \<open>\<^verbatim>\<open>FindStringIndex\<close> with \<^verbatim>\<open>refTail\<close>: the text cut where its leftmost match starts.\<close>

fun cut_tail :: "string \<Rightarrow> string \<times> string" where
  "cut_tail [] = ([], [])"
| "cut_tail (c # t) =
     (if cite_start (c # t) then ([], c # t) else (let (a, h) = cut_tail t in (c # a, h)))"

subsection \<open>The rewriter\<close>

record cite_refs =
  cr_refs :: "(string \<times> string) list"
  cr_held :: string

lemma cite_end_shorter: "cite_end s = Some rest \<Longrightarrow> length rest < length s"
proof -
  assume "cite_end s = Some rest"
  moreover have "length (dropWhile is_ascii_digit (drop 2 s)) \<le> length s"
    using length_dropWhile_le [of is_ascii_digit "drop 2 s"] by simp
  ultimately show ?thesis
    by (cases s; cases "dropWhile is_ascii_digit (drop 2 s)")
       (auto simp: cite_end_def Let_def split: if_splits)
qed

lemma cite_at_shorter: "cite_at s = Some (ref, rest) \<Longrightarrow> length rest < length s"
  using length_dropWhile_le [of is_ascii_digit "drop 5 s"]
  by (auto simp: cite_at_def Let_def dest!: cite_end_shorter split: if_splits)

function rewrite_refs :: "(string \<times> string) list \<Rightarrow> string \<Rightarrow> string" where
  "rewrite_refs refs s =
     (case cite_at s of
        Some (ref, rest) \<Rightarrow>
          (case map_of refs ref of
             Some d \<Rightarrow> ''doc:'' @ d @ '':'' @ rewrite_refs refs rest
           | None \<Rightarrow> take (length s - length rest) s @ rewrite_refs refs rest)
      | None \<Rightarrow> (case s of [] \<Rightarrow> [] | c # t \<Rightarrow> c # rewrite_refs refs t))"
  by pat_completeness auto
termination
  by (relation "measure (\<lambda>(refs, s). length s)") (auto dest: cite_at_shorter)

declare rewrite_refs.simps [simp del]

definition cite_feed :: "cite_refs \<Rightarrow> string \<Rightarrow> cite_refs \<times> string" where
  "cite_feed c s =
     (if cr_refs c = [] then (c, s)
      else
        (let (a, h) = cut_tail (cr_held c @ s)
         in (c\<lparr>cr_held := h\<rparr>, rewrite_refs (cr_refs c) a)))"

definition cite_flush :: "cite_refs \<Rightarrow> cite_refs \<times> string" where
  "cite_flush c = (c\<lparr>cr_held := []\<rparr>, rewrite_refs (cr_refs c) (cr_held c))"

definition cite_block :: "(string \<times> string) list \<Rightarrow> string list \<Rightarrow> string" where
  "cite_block refs chunks =
     (let (c, o1) = feed_all cite_feed \<lparr>cr_refs = refs, cr_held = []\<rparr> chunks; (c', o2) = cite_flush c
      in o1 @ o2)"

subsection \<open>Matches\<close>

definition cite_text :: "string \<Rightarrow> string \<Rightarrow> bool" where
  "cite_text ref m \<longleftrightarrow>
     (\<exists>ds. ref = CHR ''d'' # ds \<and> ds \<noteq> [] \<and> list_all is_ascii_digit ds
        \<and> (m = ''doc:d'' @ ds @ '':''
           \<or> (\<exists>es. es \<noteq> [] \<and> list_all is_ascii_digit es \<and> m = ''doc:d'' @ ds @ ''.n'' @ es @ '':'')))"

lemma not_digits: "\<not> is_ascii_digit CHR '':''" "\<not> is_ascii_digit CHR ''.''"
  by (simp_all add: is_ascii_digit_def)

lemma digits_split:
  "list_all is_ascii_digit ds \<Longrightarrow> r = [] \<or> \<not> is_ascii_digit (hd r) \<Longrightarrow>
     takeWhile is_ascii_digit (ds @ r) = ds \<and> dropWhile is_ascii_digit (ds @ r) = r"
  using takeWhile_split [of is_ascii_digit ds r] dropWhile_split [of is_ascii_digit ds r]
  by (cases r) auto

lemma cite_at_matches: "cite_text ref m \<Longrightarrow> cite_at (m @ rest) = Some (ref, rest)"
proof -
  assume "cite_text ref m"
  then obtain ds where ds: "ref = CHR ''d'' # ds" "ds \<noteq> []" "list_all is_ascii_digit ds"
    and m: "m = ''doc:d'' @ ds @ '':''
      \<or> (\<exists>es. es \<noteq> [] \<and> list_all is_ascii_digit es \<and> m = ''doc:d'' @ ds @ ''.n'' @ es @ '':'')"
    unfolding cite_text_def by blast
  from m show ?thesis
  proof (elim disjE exE conjE)
    assume "m = ''doc:d'' @ ds @ '':''"
    then show ?thesis
      using ds digits_split [of ds "CHR '':'' # rest"] not_digits
      by (simp add: cite_at_def cite_end_def)
  next
    fix es
    assume es: "es \<noteq> []" "list_all is_ascii_digit es" "m = ''doc:d'' @ ds @ ''.n'' @ es @ '':''"
    then show ?thesis
      using ds digits_split [of ds "''.n'' @ es @ CHR '':'' # rest"] digits_split [of es "CHR '':'' # rest"] not_digits
      by (simp add: cite_at_def cite_end_def)
  qed
qed

lemma digits_taken: "list_all is_ascii_digit (takeWhile is_ascii_digit s)"
  by (auto simp: list_all_iff dest: set_takeWhileD)

lemma cite_at_text: "cite_at s = Some (ref, rest) \<Longrightarrow> \<exists>m. s = m @ rest \<and> cite_text ref m"
proof -
  assume c: "cite_at s = Some (ref, rest)"
  define u where "u = drop 5 s"
  define ds where "ds = takeWhile is_ascii_digit u"
  define r where "r = dropWhile is_ascii_digit u"
  have s: "s = ''doc:d'' @ ds @ r" "ref = CHR ''d'' # ds" "ds \<noteq> []" "cite_end r = Some rest"
    using c by (auto simp: cite_at_def Let_def u_def ds_def r_def prefix_def split: if_splits)
  have dig: "list_all is_ascii_digit ds" by (simp add: ds_def digits_taken)
  define es where "es = takeWhile is_ascii_digit (drop 2 r)"
  define q where "q = dropWhile is_ascii_digit (drop 2 r)"
  have es: "list_all is_ascii_digit es" "drop 2 r = es @ q" by (simp_all add: es_def q_def digits_taken)
  have "r = '':'' @ rest \<or> (es \<noteq> [] \<and> r = ''.n'' @ es @ '':'' @ rest)"
    using s(4) es(2) unfolding cite_end_def Let_def es_def [symmetric] q_def [symmetric]
    by (cases r; cases q) (auto simp: prefix_def split: if_splits)
  then show ?thesis
  proof (elim disjE conjE)
    assume "r = '':'' @ rest"
    then show ?thesis
      using s dig by (intro exI [of _ "''doc:d'' @ ds @ '':''"]) (auto simp: cite_text_def)
  next
    assume "es \<noteq> []" "r = ''.n'' @ es @ '':'' @ rest"
    then show ?thesis
      using s dig es by (intro exI [of _ "''doc:d'' @ ds @ ''.n'' @ es @ '':''"]) (auto simp: cite_text_def)
  qed
qed

lemma cite_at_iff: "cite_at s = Some (ref, rest) \<longleftrightarrow> (\<exists>m. s = m @ rest \<and> cite_text ref m)"
  using cite_at_text cite_at_matches by blast

lemma cite_at_append: "cite_at x = Some (ref, rest) \<Longrightarrow> cite_at (x @ b) = Some (ref, rest @ b)"
  by (auto simp: cite_at_iff)

text \<open>A proper, non-empty beginning of a match is a start.\<close>

lemma cite_start_digits:
  assumes "list_all is_ascii_digit ds" "ds \<noteq> []"
    "r = [] \<or> r = ''.'' \<or> (\<exists>es. r = ''.n'' @ es \<and> list_all is_ascii_digit es)"
  shows "cite_start (''doc:d'' @ ds @ r)"
proof -
  have "r = [] \<or> \<not> is_ascii_digit (hd r)" using assms(3) not_digits by auto
  then have "dropWhile is_ascii_digit (ds @ r) = r" using digits_split assms(1) by blast
  moreover have "is_ascii_digit (hd (ds @ r))" using assms(1,2) by (cases ds) auto
  ultimately show ?thesis using assms(2,3) by (auto simp: cite_start_def)
qed

lemma cite_text_prefix:
  assumes m: "cite_text ref m" and x: "prefix x m" "x \<noteq> m" "x \<noteq> []"
  shows "cite_start x"
proof (cases "prefix x ''doc:d''")
  case True
  then have "x \<in> {''d'', ''do'', ''doc'', ''doc:'', ''doc:d''}"
    using x(3) by (auto simp: prefix_Cons)
  then show ?thesis by (simp add: cite_start_def)
next
  case False
  obtain ds r where ds: "ds \<noteq> []" "list_all is_ascii_digit ds" "m = ''doc:d'' @ ds @ r"
    and r: "r = '':'' \<or> (\<exists>es. es \<noteq> [] \<and> list_all is_ascii_digit es \<and> r = ''.n'' @ es @ '':'')"
    using m unfolding cite_text_def by blast
  obtain us where us: "x = ''doc:d'' @ us" "prefix us (ds @ r)" "us \<noteq> []"
    using x(1) False unfolding ds(3) prefix_append by auto
  consider "prefix us ds" | vs where "us = ds @ vs" "prefix vs r" "vs \<noteq> []"
    using us(2) unfolding prefix_append by fastforce
  then show ?thesis
  proof cases
    case 1
    then have "list_all is_ascii_digit us" using ds(2) by (auto simp: prefix_def)
    then show ?thesis using cite_start_digits [of us "[]"] us by simp
  next
    case 2
    have "vs \<noteq> r" using x(2) us(1) 2(1) ds(3) by auto
    then have "vs = ''.'' \<or> (\<exists>es. vs = ''.n'' @ es \<and> list_all is_ascii_digit es)"
    proof -
      obtain zs where zs: "r = vs @ zs" "zs \<noteq> []" using 2(2) \<open>vs \<noteq> r\<close> by (auto simp: prefix_def)
      then have "butlast r = vs @ butlast zs" by (simp add: butlast_append)
      then have p: "prefix vs (butlast r)" by (simp add: prefix_def)
      from r show ?thesis
      proof (elim disjE exE conjE)
        fix es assume es: "list_all is_ascii_digit es" "r = ''.n'' @ es @ '':''"
        then have "prefix vs (''.n'' @ es)" using p by (simp add: butlast_append)
        then show ?thesis using 2(3) es(1) by (auto simp: prefix_Cons) (auto simp: prefix_def)
      qed (use p 2(3) in simp)
    qed
    then show ?thesis using cite_start_digits [OF ds(2,1), of vs] us 2 by auto
  qed
qed


lemma cite_at_straddles:
  assumes "cite_at x = None" "cite_at (x @ b) = Some r" "x \<noteq> []"
  shows "cite_start x"
proof -
  obtain ref rest where r: "r = (ref, rest)" by fastforce
  then obtain m where m: "x @ b = m @ rest" "cite_text ref m"
    using cite_at_text assms(2) by blast
  have "\<not> (\<exists>us. x = m @ us)" using assms(1) m(2) cite_at_matches by (metis option.distinct(1))
  then obtain us where "m = x @ us" "us \<noteq> []" using m(1) by (auto simp: append_eq_append_conv2)
  then show ?thesis using cite_text_prefix [OF m(2)] assms(3) by simp
qed

definition doc_head :: "string \<Rightarrow> bool" where
  "doc_head h \<longleftrightarrow> h \<noteq> [] \<and> hd h = CHR ''d'' \<and> (tl h = [] \<or> hd (tl h) = CHR ''o'')"

lemma cite_start_head: "cite_start h \<Longrightarrow> doc_head h"
  by (auto simp: cite_start_def doc_head_def prefix_def split: if_splits)

lemma digit_not_d: "is_ascii_digit c \<Longrightarrow> c \<noteq> CHR ''d'' \<and> c \<noteq> CHR ''o''"
  by (auto simp: is_ascii_digit_def)

lemma no_d: "list_all is_ascii_digit ds \<Longrightarrow> CHR ''d'' \<notin> set ds"
  by (auto simp: list_all_iff dest: digit_not_d)

text \<open>A start never begins inside a match.\<close>

lemma cite_start_not_inside:
  assumes m: "cite_text ref m" and x: "x @ h = m @ rest" "x \<noteq> []" and h: "doc_head h"
  shows "\<exists>us. x = m @ us"
proof (rule ccontr)
  assume "\<not> ?thesis"
  then obtain v where v: "m = x @ v" "h = v @ rest" "v \<noteq> []"
    using x(1) by (auto simp: append_eq_append_conv2)
  obtain ds r where ds: "ds \<noteq> []" "list_all is_ascii_digit ds" "m = ''doc:d'' @ ds @ r"
    and r: "CHR ''d'' \<notin> set r" "r \<noteq> []"
    using m unfolding cite_text_def by (auto simp: no_d)
  have hv: "hd v = CHR ''d''" "tl h = [] \<or> hd (tl h) = CHR ''o''"
    using h v by (simp_all add: doc_head_def hd_append)
  have "CHR ''d'' \<notin> set (ds @ r)" using no_d ds r by simp
  then have nv: "ds @ r \<noteq> w @ v" for w
    using v(3) hv(1) by (metis UnI2 hd_in_set set_append)
  obtain c x' where "x = c # x'" using x(2) by (cases x) auto
  then have "x = ''doc:'' \<and> v = CHR ''d'' # ds @ r"
    using v(1) ds(3) hv(1) nv by (auto simp: Cons_eq_append_conv append_eq_Cons_conv)
  then have "tl h = ds @ r @ rest" using v(2) by simp
  moreover have "ds @ r @ rest \<noteq> []" "is_ascii_digit (hd (ds @ r @ rest))"
    using ds(1,2) by (cases ds; simp)+
  ultimately show False using hv(2) digit_not_d by auto
qed

subsection \<open>Holding back\<close>

lemma cut_tail_split: "cut_tail s = (a, h) \<Longrightarrow> s = a @ h"
  by (induction s arbitrary: a h) (auto split: if_splits prod.splits)

lemma cut_tail_start: "cut_tail s = (a, h) \<Longrightarrow> h = [] \<or> cite_start h"
  by (induction s arbitrary: a h) (auto split: if_splits prod.splits)

lemma cut_tail_leftmost: "cut_tail s = (a, h) \<Longrightarrow> a = u @ x \<Longrightarrow> x \<noteq> [] \<Longrightarrow> \<not> cite_start (x @ h)"
proof (induction s arbitrary: a u)
  case (Cons c s)
  then obtain a' where a': "a = c # a'" "cut_tail s = (a', h)" "\<not> cite_start (c # s)"
    by (auto split: if_splits prod.splits)
  show ?case
  proof (cases u)
    case Nil
    then show ?thesis using a' Cons.prems cut_tail_split [OF a'(2)] by simp
  next
    case (Cons d u')
    then show ?thesis using Cons.IH [OF a'(2), of u'] Cons.prems a' by simp
  qed
qed simp

text \<open>Nothing that was let through belongs to a match that goes on behind it.\<close>

lemma no_straddle:
  assumes "cut_tail s = (a, h)" "a = u @ x" "x \<noteq> []" "cite_at x = None"
  shows "cite_at (x @ h @ b) = None"
proof (rule ccontr)
  assume c: "cite_at (x @ h @ b) \<noteq> None"
  show False
  proof (cases "cite_at (x @ h)")
    case None
    then show False
      using cite_at_straddles [of "x @ h" b] c cut_tail_leftmost [OF assms(1,2,3)] assms(3) by auto
  next
    case (Some r)
    then obtain ref rest m where m: "x @ h = m @ rest" "cite_text ref m"
      using cite_at_text by (cases r) blast
    have "\<exists>us. x = m @ us"
      using cut_tail_start [OF assms(1)]
    proof
      assume "cite_start h"
      then show ?thesis using cite_start_not_inside [OF m(2,1) assms(3)] cite_start_head by blast
    qed (use m in auto)
    then show False using assms(4) cite_at_matches [OF m(2)] by auto
  qed
qed

lemma rewrite_refs_append:
  "(\<And>u x. a = u @ x \<Longrightarrow> x \<noteq> [] \<Longrightarrow> cite_at x = None \<Longrightarrow> cite_at (x @ b) = None) \<Longrightarrow>
     rewrite_refs refs (a @ b) = rewrite_refs refs a @ rewrite_refs refs b"
proof (induction a rule: length_induct)
  case (1 a)
  note hyp = "1.prems"
  show ?case
  proof (cases "cite_at a")
    case None
    show ?thesis
    proof (cases a)
      case Nil
      then show ?thesis by (simp add: rewrite_refs.simps [of refs "[]"] cite_at_def)
    next
      case (Cons c t)
      have "rewrite_refs refs (t @ b) = rewrite_refs refs t @ rewrite_refs refs b"
        using "1.IH" hyp [of "c # _"] Cons by auto
      moreover have "cite_at (a @ b) = None" using hyp [of "[]" a] None Cons by simp
      ultimately show ?thesis
        using None Cons by (simp add: rewrite_refs.simps [of refs "c # _"])
    qed
  next
    case (Some r)
    obtain ref rest where r: "r = (ref, rest)" by fastforce
    obtain m where m: "a = m @ rest" "cite_text ref m" using Some r cite_at_text by blast
    have "length rest < length a" using cite_at_shorter Some r by blast
    moreover have "cite_at (x @ b) = None" if "rest = u @ x" "x \<noteq> []" "cite_at x = None" for u x
      using hyp [of "m @ u" x] that m by simp
    ultimately have "rewrite_refs refs (rest @ b) = rewrite_refs refs rest @ rewrite_refs refs b"
      using "1.IH" by blast
    then show ?thesis
      using Some r cite_at_append [of a ref rest b] m
      by (simp add: rewrite_refs.simps [of refs "m @ rest"] rewrite_refs.simps [of refs "m @ rest @ b"]
          split: option.split)
  qed
qed

lemma cut_tail_rewrite:
  "cut_tail s = (a, h) \<Longrightarrow> rewrite_refs refs (s @ t) = rewrite_refs refs a @ rewrite_refs refs (h @ t)"
  using rewrite_refs_append [of a "h @ t" refs] no_straddle cut_tail_split by force

lemma rewrite_refs_Nil [simp]: "rewrite_refs refs [] = []"
  by (subst rewrite_refs.simps) (simp add: cite_at_def)

lemma rewrite_no_refs: "rewrite_refs [] s = s"
proof (induction s rule: length_induct)
  case (1 s)
  show ?case
  proof (cases "cite_at s")
    case None
    then show ?thesis using 1 by (subst rewrite_refs.simps) (auto split: list.splits)
  next
    case (Some r)
    obtain ref rest where r: "r = (ref, rest)" by fastforce
    then obtain m where m: "s = m @ rest" using Some cite_at_text by blast
    have "rewrite_refs [] rest = rest" using 1 cite_at_shorter Some r by blast
    then show ?thesis using Some r m by (subst rewrite_refs.simps) simp
  qed
qed

subsection \<open>The rewriter as a stream filter\<close>

text \<open>A start is the beginning of some match, so the beginnings of a start are starts.\<close>

lemma cite_start_completes: "cite_start t \<Longrightarrow> \<exists>ref m b. cite_text ref m \<and> m = t @ b \<and> b \<noteq> []"
proof -
  assume t: "cite_start t"
  have one: "cite_text ''d1'' ''doc:d1:''"
    by (auto simp: cite_text_def is_ascii_digit_def)
  show ?thesis
  proof (cases "t \<in> {''d'', ''do'', ''doc'', ''doc:'', ''doc:d''}")
    case True
    then obtain b where "''doc:d1:'' = t @ b" "b \<noteq> []" by auto
    then show ?thesis using one by metis
  next
    case False
    define ds where "ds = takeWhile is_ascii_digit (drop 5 t)"
    define r where "r = dropWhile is_ascii_digit (drop 5 t)"
    have p: "prefix ''doc:d'' t" "is_ascii_digit (hd (drop 5 t))"
      and r: "r = [] \<or> r = ''.'' \<or> prefix ''.n'' r \<and> list_all is_ascii_digit (drop 2 r)"
      using t False unfolding cite_start_def r_def Let_def by (simp_all split: if_splits)
    have t5: "t = ''doc:d'' @ ds @ r" using p(1) by (auto simp: prefix_def ds_def r_def)
    have ds: "ds \<noteq> []" "list_all is_ascii_digit ds"
      using t False p(2) by (auto simp: ds_def digits_taken takeWhile_eq_Nil_iff cite_start_def prefix_def split: if_splits)
    have d1: "is_ascii_digit CHR ''1''" by (simp add: is_ascii_digit_def)
    from r show ?thesis
    proof (elim disjE conjE)
      assume "r = []"
      then show ?thesis using t5 ds
        by (intro exI [of _ "CHR ''d'' # ds"] exI [of _ "t @ '':''"] exI [of _ "'':''"]) (auto simp: cite_text_def)
    next
      assume "r = ''.''"
      then show ?thesis using t5 ds d1
        by (intro exI [of _ "CHR ''d'' # ds"] exI [of _ "t @ ''n1:''"] exI [of _ "''n1:''"])
           (auto simp: cite_text_def intro: exI [of _ "''1''"])
    next
      assume "prefix ''.n'' r" "list_all is_ascii_digit (drop 2 r)"
      then obtain es where "r = ''.n'' @ es" "list_all is_ascii_digit es" by (auto simp: prefix_def)
      then show ?thesis using t5 ds d1
        by (intro exI [of _ "CHR ''d'' # ds"] exI [of _ "t @ ''1:''"] exI [of _ "''1:''"])
           (auto simp: cite_text_def intro: exI [of _ "es @ ''1''"])
    qed
  qed
qed

lemma cite_start_prefix: "cite_start (x @ y) \<Longrightarrow> x \<noteq> [] \<Longrightarrow> cite_start x"
  using cite_start_completes [of "x @ y"] by (auto intro: cite_text_prefix)

lemma cut_tail_append:
  "cut_tail s = (a, h) \<Longrightarrow> cut_tail (s @ t) = (let (a', h') = cut_tail (h @ t) in (a @ a', h'))"
proof (induction s arbitrary: a)
  case Nil
  then show ?case by (simp add: case_prod_unfold Let_def)
next
  case (Cons c s)
  show ?case
  proof (cases "cite_start (c # s)")
    case True
    then show ?thesis using Cons.prems by (simp add: case_prod_unfold Let_def)
  next
    case False
    then obtain a' where "a = c # a'" "cut_tail s = (a', h)"
      using Cons.prems by (auto split: prod.splits)
    moreover have "\<not> cite_start (c # s @ t)"
      using False cite_start_prefix [of "c # s" t] by auto
    ultimately show ?thesis using Cons.IH by (simp add: case_prod_unfold Let_def)
  qed
qed

definition cite_admits :: "cite_refs \<Rightarrow> string \<Rightarrow> bool" where
  "cite_admits c s \<longleftrightarrow> cr_held c = [] \<or> cite_start (cr_held c)"

interpretation cite_stream: stream_filter cite_feed cite_admits
proof
  fix c s t
  assume adm: "cite_admits c (s @ t)"
  obtain a h where cut: "cut_tail (cr_held c @ s) = (a, h)" by fastforce
  obtain a' h' where cut': "cut_tail (h @ t) = (a', h')" by fastforce
  have all: "cut_tail (cr_held c @ s @ t) = (a @ a', h')"
    using cut_tail_append [OF cut, of t] cut' by simp
  have "rewrite_refs refs (a @ a') = rewrite_refs refs a @ rewrite_refs refs a'" for refs
  proof (rule rewrite_refs_append)
    fix u x
    assume x: "a = u @ x" "x \<noteq> []" "cite_at x = None"
    have "cite_at (x @ h @ t) = None" by (rule no_straddle [OF cut x])
    then have "cite_at ((x @ a') @ h') = None" using cut_tail_split [OF cut'] by simp
    then show "cite_at (x @ a') = None"
      using cite_at_append [of "x @ a'" _ _ h'] by (metis option.exhaust prod.exhaust option.distinct(1))
  qed
  then show "cite_feed c (s @ t) = (let (g', o1) = cite_feed c s; (g'', o2) = cite_feed g' t in (g'', o1 @ o2))"
    using cut cut' all by (simp add: cite_feed_def)
  show "cite_admits (fst (cite_feed c s)) t"
    using adm cut cut_tail_start [OF cut] by (auto simp: cite_feed_def cite_admits_def)
next
  fix c :: cite_refs
  assume "cite_admits c []"
  then have "cut_tail (cr_held c) = ([], cr_held c)"
    by (cases "cr_held c") (auto simp: cite_admits_def)
  then show "cite_feed c [] = (c, [])" by (simp add: cite_feed_def)
qed

subsection \<open>What the rewriter promises\<close>

text \<open>
  C20: The streaming rewriter is the rewriting of the whole text: for every map of refs and however
  the text is cut into chunks, a citation split over chunks included, what leaves the server over
  the block is the text with every ref citation of the case replaced, and nothing else changed.
\<close>

theorem cite_block_rewrites: "cite_block refs chunks = rewrite_refs refs (concat chunks)"
proof -
  define c where "c = \<lparr>cr_refs = refs, cr_held = []\<rparr>"
  obtain a h where cut: "cut_tail (concat chunks) = (a, h)" by fastforce
  have "feed_all cite_feed c chunks = cite_feed c (concat chunks)"
    by (rule cite_stream.feed_all_eq) (simp add: cite_admits_def c_def)
  then have "cite_block refs chunks = (if refs = [] then concat chunks
      else rewrite_refs refs a @ rewrite_refs refs h)"
    using cut by (simp add: cite_block_def c_def [symmetric] cite_feed_def cite_flush_def case_prod_unfold Let_def)
      (simp add: c_def)
  then show ?thesis
    using cut_tail_rewrite [OF cut, of refs "[]"] cut_tail_split [OF cut] by (simp add: rewrite_no_refs)
qed


text \<open>
  Every ref citation of the case resolves: wherever \<^verbatim>\<open>doc:d<n>:\<close> or \<^verbatim>\<open>doc:d<n>.n<m>:\<close> with a
  known ref stands in the text, it becomes \<^verbatim>\<open>doc:\<close>, the document id and a colon, and the text before
  and behind it is rewritten as if it stood alone.
\<close>

theorem rewrite_refs_resolves:
  assumes "cite_text ref m" "map_of refs ref = Some d"
  shows "rewrite_refs refs (a @ m @ b) = rewrite_refs refs a @ ''doc:'' @ d @ '':'' @ rewrite_refs refs b"
proof -
  have "rewrite_refs refs (a @ m @ b) = rewrite_refs refs a @ rewrite_refs refs (m @ b)"
  proof (rule rewrite_refs_append, rule ccontr)
    fix u x
    assume x: "x \<noteq> []" "cite_at x = None" and c: "cite_at (x @ m @ b) \<noteq> None"
    obtain ref' rest m' where m': "x @ m @ b = m' @ rest" "cite_text ref' m'"
      using c cite_at_text by (metis not_Some_eq prod.exhaust)
    have "doc_head (m @ b)" using assms(1) by (auto simp: cite_text_def doc_head_def)
    then show False
      using cite_start_not_inside [OF m'(2,1) x(1)] x(2) cite_at_matches [OF m'(2)] by auto
  qed
  also have "rewrite_refs refs (m @ b) = ''doc:'' @ d @ '':'' @ rewrite_refs refs b"
    using cite_at_matches [OF assms(1), of b] assms(2) by (subst rewrite_refs.simps) simp
  finally show ?thesis .
qed

lemma rewrite_refs_resolves_witness:
  "rewrite_refs [(''d2'', ''9f-1'')] (''see '' @ ''doc:d2.n4:'' @ ''p1:l3'')
   = rewrite_refs [(''d2'', ''9f-1'')] ''see '' @ ''doc:'' @ ''9f-1'' @ '':'' @ rewrite_refs [(''d2'', ''9f-1'')] ''p1:l3''"
proof (rule rewrite_refs_resolves)
  show "cite_text ''d2'' ''doc:d2.n4:''"
    by (auto simp: cite_text_def is_ascii_digit_def intro: exI [of _ "''4''"])
qed simp

end
