(* ===== verification/Messages.thy ===== *)
theory Messages
  imports GoText
begin

text \<open>
  The transcript the agent exchanges with a chat model. The message type is eino's
  \<^verbatim>\<open>schema.Message\<close>, a third-party type: the record has the fields the repository reads and
  writes, and nothing else is assumed of it.
\<close>

datatype chat_role = SystemRole | UserRole | AssistantRole | ToolRole

record tool_call =
  tc_index :: "int option"
  tc_id :: string
  tc_name :: string
  tc_args :: string

record token_usage =
  prompt_tokens :: int
  completion_tokens :: int

record response_meta =
  finish_reason :: string
  rm_usage :: "token_usage option"

record chat_msg =
  m_role :: chat_role
  m_content :: string
  m_reasoning :: string
  m_tool_calls :: "tool_call list"
  m_tool_call_id :: string
  m_tool_name :: string
  m_meta :: "response_meta option"

definition user_message :: "string \<Rightarrow> chat_msg" where
  "user_message s =
     \<lparr>m_role = UserRole, m_content = s, m_reasoning = [], m_tool_calls = [], m_tool_call_id = [],
      m_tool_name = [], m_meta = None\<rparr>"

definition assistant_message :: "string \<Rightarrow> tool_call list \<Rightarrow> chat_msg" where
  "assistant_message s calls =
     \<lparr>m_role = AssistantRole, m_content = s, m_reasoning = [], m_tool_calls = calls,
      m_tool_call_id = [], m_tool_name = [], m_meta = None\<rparr>"

lemma message_fields [simp]:
  "m_role (user_message s) = UserRole" "m_content (user_message s) = s"
  "m_tool_calls (user_message s) = []"
  "m_role (assistant_message s cs) = AssistantRole" "m_content (assistant_message s cs) = s"
  "m_tool_calls (assistant_message s cs) = cs"
  by (simp_all add: user_message_def assistant_message_def)

text \<open>\<^verbatim>\<open>strings.FieldsFunc\<close> on runes: the maximal runs of runes that are no separators.\<close>

fun fields_from :: "(rune \<Rightarrow> bool) \<Rightarrow> rune list \<Rightarrow> rune list \<Rightarrow> rune list list" where
  "fields_from sep word [] = (if word = [] then [] else [word])"
| "fields_from sep word (r # rs) =
     (if sep r then (if word = [] then [] else [word]) @ fields_from sep [] rs
      else fields_from sep (word @ [r]) rs)"

definition fields_func :: "(rune \<Rightarrow> bool) \<Rightarrow> rune list \<Rightarrow> rune list list" where
  "fields_func sep rs = fields_from sep [] rs"

lemma fields_from_words:
  "list_all (\<lambda>r. \<not> sep r) word \<Longrightarrow>
     list_all (\<lambda>w. w \<noteq> [] \<and> list_all (\<lambda>r. \<not> sep r) w) (fields_from sep word rs)"
proof (induction rs arbitrary: word)
  case (Cons r rs)
  then show ?case by (cases "sep r") simp_all
qed simp

end
