(* ===== verification/Steer.thy ===== *)
theory Steer
  imports Messages
begin

text \<open>
  Messages that arrive while a turn runs (\<^verbatim>\<open>internal/agent/steer.go\<close>): the inbox of a running
  turn, the registry of running turns, and the test for a request to stop. The mutex makes each
  method one step; the order in which other requests interleave is the order of the steps.
\<close>

subsection \<open>The inbox of a turn\<close>

definition steer_notice :: string where
  "steer_notice = ''[New message from the user, sent while you were still working on the previous request. Take it into account from now on: if it changes or narrows the task, adapt and carry on; if it is a question, answer it briefly in your next reply and then continue the task. Do not start over.]'' @ [CHR 0x0A]"

text \<open>\<^verbatim>\<open>steerMsg\<close>: the text and the stored row, kept as its id.\<close>

record steer_msg =
  sm_text :: string
  sm_row :: string

record placed_msg =
  placed_at :: nat
  placed_text :: chat_msg

record steerer =
  st_closed :: bool
  st_pending :: "steer_msg list"
  st_placed :: "placed_msg list"
  st_taken :: nat

definition new_steerer :: steerer where
  "new_steerer = \<lparr>st_closed = False, st_pending = [], st_placed = [], st_taken = 0\<rparr>"

definition push :: "steerer \<Rightarrow> steer_msg \<Rightarrow> steerer \<times> bool" where
  "push s m =
     (if st_closed s then (s, False)
      else (s\<lparr>st_pending := st_pending s @ [m], st_taken := st_taken s + 1\<rparr>, True))"

definition accepted :: "steerer \<Rightarrow> nat" where
  "accepted s = st_taken s"

definition close_inbox :: "steerer \<Rightarrow> steerer \<times> steer_msg list" where
  "close_inbox s = (s\<lparr>st_closed := True, st_pending := []\<rparr>, st_pending s)"

text \<open>The loop of \<^verbatim>\<open>apply\<close> from index \<open>i\<close> on, over the messages and the placed ones that are left.\<close>

fun splice_placed :: "nat \<Rightarrow> placed_msg list \<Rightarrow> chat_msg list \<Rightarrow> chat_msg list" where
  "splice_placed i ps [] = map placed_text (takeWhile (\<lambda>p. placed_at p \<le> i) ps)"
| "splice_placed i ps (x # xs) =
     map placed_text (takeWhile (\<lambda>p. placed_at p \<le> i) ps)
     @ x # splice_placed (Suc i) (dropWhile (\<lambda>p. placed_at p \<le> i) ps) xs"

definition place :: "nat \<Rightarrow> steer_msg \<Rightarrow> placed_msg" where
  "place n m = \<lparr>placed_at = n, placed_text = user_message (steer_notice @ sm_text m)\<rparr>"

definition apply_steer :: "steerer \<Rightarrow> chat_msg list \<Rightarrow> steerer \<times> chat_msg list" where
  "apply_steer s msgs =
     (let s = s\<lparr>st_placed := st_placed s @ map (place (length msgs)) (st_pending s), st_pending := []\<rparr>
      in if st_placed s = [] then (s, msgs) else (s, splice_placed 0 (st_placed s) msgs))"

subsection \<open>Every accepted message is delivered once, in order\<close>

datatype steer_op = Push steer_msg | Apply "chat_msg list" | Close

text \<open>A run of the inbox: the accepted messages and those handed back by \<^verbatim>\<open>close\<close>.\<close>

fun steer_run :: "steerer \<Rightarrow> steer_op list \<Rightarrow> steerer \<times> steer_msg list \<times> steer_msg list" where
  "steer_run s [] = (s, [], [])"
| "steer_run s (Push m # ops) =
     (let (s, ok) = push s m; (s, acc, ret) = steer_run s ops in (s, (if ok then m # acc else acc), ret))"
| "steer_run s (Apply msgs # ops) = (let (s, _) = apply_steer s msgs in steer_run s ops)"
| "steer_run s (Close # ops) =
     (let (s, left) = close_inbox s; (s, acc, ret) = steer_run s ops in (s, acc, left @ ret))"

lemma apply_steer_state:
  "fst (apply_steer s msgs)
   = s\<lparr>st_placed := st_placed s @ map (place (length msgs)) (st_pending s), st_pending := []\<rparr>"
  by (simp add: apply_steer_def Let_def)

definition inbox_texts :: "steerer \<Rightarrow> chat_msg list" where
  "inbox_texts s = map placed_text (st_placed s)"

abbreviation notice_of :: "steer_msg \<Rightarrow> chat_msg" where
  "notice_of m \<equiv> user_message (steer_notice @ sm_text m)"

lemma placed_text_place [simp]: "placed_text (place n m) = notice_of m"
  by (simp add: place_def)

lemma steer_run_closed:
  "steer_run s ops = (s', acc, ret) \<Longrightarrow> st_closed s \<Longrightarrow> st_pending s = [] \<Longrightarrow>
     acc = [] \<and> ret = [] \<and> st_closed s' \<and> st_pending s' = [] \<and> st_placed s' = st_placed s \<and> st_taken s' = st_taken s"
proof (induction ops arbitrary: s s' acc ret)
  case (Cons op ops)
  show ?case
  proof (cases op)
    case (Push m)
    then show ?thesis using Cons by (auto simp: push_def split: prod.splits)
  next
    case (Apply msgs)
    have "steer_run (fst (apply_steer s msgs)) ops = (s', acc, ret)"
      using Apply Cons.prems(1) by (simp add: case_prod_unfold Let_def)
    then show ?thesis
      using Cons.IH [of "fst (apply_steer s msgs)"] Cons.prems by (simp add: apply_steer_state)
  next
    case Close
    obtain s2 acc2 ret2 where r: "steer_run (fst (close_inbox s)) ops = (s2, acc2, ret2)"
      by (metis prod_cases3)
    then show ?thesis
      using Close Cons.IH [OF r] Cons.prems by (auto simp: case_prod_unfold Let_def close_inbox_def)
  qed
qed simp

lemma steer_run_conserves:
  "steer_run s ops = (s', acc, ret) \<Longrightarrow>
     inbox_texts s @ map notice_of (st_pending s) @ map notice_of acc
       = inbox_texts s' @ map notice_of ret @ map notice_of (st_pending s')
     \<and> st_taken s' = st_taken s + length acc"
proof (induction ops arbitrary: s s' acc ret)
  case (Cons op ops)
  show ?case
  proof (cases op)
    case (Push m)
    obtain s2 acc2 ret2 where r: "steer_run (fst (push s m)) ops = (s2, acc2, ret2)"
      by (metis prod_cases3)
    then show ?thesis
      using Push Cons.IH [OF r] Cons.prems
      by (auto simp: push_def inbox_texts_def case_prod_unfold Let_def split: if_splits)
  next
    case (Apply msgs)
    have r: "steer_run (fst (apply_steer s msgs)) ops = (s', acc, ret)"
      using Apply Cons.prems(1) by (simp add: case_prod_unfold Let_def)
    show ?thesis
      using Cons.IH [OF r] by (simp add: apply_steer_state inbox_texts_def comp_def)
  next
    case Close
    obtain s2 acc2 ret2 where r: "steer_run (fst (close_inbox s)) ops = (s2, acc2, ret2)"
      by (metis prod_cases3)
    then show ?thesis
      using Close steer_run_closed [OF r] Cons.prems
      by (auto simp: case_prod_unfold Let_def close_inbox_def inbox_texts_def)
  qed
qed simp

subsection \<open>The transcript the model sees only grows\<close>

definition placed_sorted :: "steerer \<Rightarrow> nat \<Rightarrow> bool" where
  "placed_sorted s n \<longleftrightarrow> sorted (map placed_at (st_placed s)) \<and> (\<forall>p \<in> set (st_placed s). placed_at p \<le> n)"

lemma splice_texts:
  "sorted (map placed_at ps) \<Longrightarrow> \<forall>p \<in> set ps. placed_at p \<le> i + length xs \<Longrightarrow>
     subseq (map placed_text ps) (splice_placed i ps xs) \<and> subseq xs (splice_placed i ps xs)
     \<and> length (splice_placed i ps xs) = length ps + length xs"
proof (induction i ps xs rule: splice_placed.induct)
  case (1 i ps)
  then have "takeWhile (\<lambda>p. placed_at p \<le> i) ps = ps" by simp
  then show ?case by (simp only: splice_placed.simps) simp
next
  case (2 i ps x xs)
  define now later where "now = takeWhile (\<lambda>p. placed_at p \<le> i) ps" and "later = dropWhile (\<lambda>p. placed_at p \<le> i) ps"
  have ps: "ps = now @ later" by (simp add: now_def later_def)
  have "sorted (map placed_at later)" "\<forall>p \<in> set later. placed_at p \<le> Suc i + length xs"
    using "2.prems" ps by (auto simp: sorted_append)
  then have IH: "subseq (map placed_text later) (splice_placed (Suc i) later xs) \<and> subseq xs (splice_placed (Suc i) later xs)
      \<and> length (splice_placed (Suc i) later xs) = length later + length xs"
    using "2.IH" by (simp add: later_def)
  have sp: "splice_placed i ps (x # xs) = map placed_text now @ x # splice_placed (Suc i) later xs"
    by (simp add: now_def later_def)
  have "subseq (map placed_text now @ map placed_text later) (map placed_text now @ x # splice_placed (Suc i) later xs)"
    using IH by (intro list_emb_append_mono) auto
  moreover have "subseq (x # xs) (map placed_text now @ x # splice_placed (Suc i) later xs)"
    using IH by (intro list_emb_append2) simp
  ultimately show ?case using IH unfolding sp by (simp add: ps)
qed

lemma splice_prefix:
  "\<forall>p \<in> set ps. placed_at p \<le> i + length xs \<Longrightarrow> \<forall>p \<in> set new. placed_at p \<ge> i + length xs \<Longrightarrow>
     prefix (splice_placed i ps xs) (splice_placed i (ps @ new) (xs @ ext))"
proof (induction i ps xs rule: splice_placed.induct)
  case (1 i ps)
  then have all: "takeWhile (\<lambda>p. placed_at p \<le> i) ps = ps" by simp
  have "takeWhile (\<lambda>p. placed_at p \<le> i) (ps @ new) = ps @ takeWhile (\<lambda>p. placed_at p \<le> i) new"
    using 1 by (simp add: takeWhile_append2)
  then show ?case by (cases ext) (simp_all only: splice_placed.simps all append.simps map_append append_assoc prefixI)
next
  case (2 i ps x xs)
  define now later where "now = takeWhile (\<lambda>p. placed_at p \<le> i) ps" and "later = dropWhile (\<lambda>p. placed_at p \<le> i) ps"
  have ps: "ps = now @ later" "\<forall>p \<in> set now. placed_at p \<le> i"
    by (auto simp: now_def later_def dest: set_takeWhileD)
  have new: "takeWhile (\<lambda>p. placed_at p \<le> i) new = []" "dropWhile (\<lambda>p. placed_at p \<le> i) new = new"
    using "2.prems"(2) by (cases new; auto)+
  have split: "takeWhile (\<lambda>p. placed_at p \<le> i) (ps @ new) = now \<and> dropWhile (\<lambda>p. placed_at p \<le> i) (ps @ new) = later @ new"
  proof (cases "later = []")
    case True
    then have "\<forall>p \<in> set ps. placed_at p \<le> i" using ps by simp
    then show ?thesis using True ps(1) new by simp
  next
    case False
    then obtain q where "q \<in> set ps" "\<not> placed_at q \<le> i" unfolding later_def by auto
    then show ?thesis by (simp add: takeWhile_append1 dropWhile_append1 now_def later_def)
  qed
  have "prefix (splice_placed (Suc i) later xs) (splice_placed (Suc i) (later @ new) (xs @ ext))"
    using "2.IH" "2.prems" ps unfolding later_def [symmetric] by simp
  then show ?case using split by (simp add: now_def [symmetric] later_def [symmetric])
qed

lemma apply_steer_sorted:
  "placed_sorted s n \<Longrightarrow> n \<le> length msgs \<Longrightarrow> placed_sorted (fst (apply_steer s msgs)) (length msgs)"
  by (auto simp: placed_sorted_def apply_steer_state sorted_append place_def comp_def map_replicate_const)

lemma splice_none: "splice_placed i [] xs = xs"
  by (induction xs arbitrary: i) auto

lemma apply_steer_result:
  "snd (apply_steer s msgs) = splice_placed 0 (st_placed (fst (apply_steer s msgs))) msgs"
  by (simp add: apply_steer_def Let_def splice_none)

subsection \<open>At most one running turn per session\<close>

record active_run =
  ar_steer :: steerer
  ar_interrupted :: bool
  ar_cancelled :: bool
  ar_done :: bool
  ar_left :: "steer_msg list"

text \<open>Pointers to runs are numbers; \<open>reg_next\<close> is the next unused one.\<close>

record run_registry =
  reg_runs :: "string \<rightharpoonup> nat"
  reg_store :: "nat \<Rightarrow> active_run"
  reg_next :: nat

definition new_run :: active_run where
  "new_run = \<lparr>ar_steer = new_steerer, ar_interrupted = False, ar_cancelled = False, ar_done = False, ar_left = []\<rparr>"

definition new_run_registry :: run_registry where
  "new_run_registry = \<lparr>reg_runs = Map.empty, reg_store = (\<lambda>_. new_run), reg_next = 0\<rparr>"

definition interrupt_run :: "run_registry \<Rightarrow> nat \<Rightarrow> run_registry" where
  "interrupt_run g r =
     g\<lparr>reg_store := (reg_store g)(r := (reg_store g r)\<lparr>ar_interrupted := True, ar_cancelled := True\<rparr>)\<rparr>"

definition acquire :: "run_registry \<Rightarrow> string \<Rightarrow> run_registry \<times> nat \<times> bool" where
  "acquire g sid =
     (case reg_runs g sid of
        Some cur \<Rightarrow> (g, cur, False)
      | None \<Rightarrow>
          (g\<lparr>reg_runs := (reg_runs g)(sid \<mapsto> reg_next g), reg_store := (reg_store g)(reg_next g := new_run),
             reg_next := reg_next g + 1\<rparr>, reg_next g, True))"

text \<open>\<open>None\<close> is the panic of closing a channel twice.\<close>

definition release_run :: "run_registry \<Rightarrow> string \<Rightarrow> nat \<Rightarrow> run_registry option" where
  "release_run g sid r =
     (let g' = (if reg_runs g sid = Some r then g\<lparr>reg_runs := (reg_runs g)(sid := None)\<rparr> else g)
      in if ar_done (reg_store g' r) then None
         else Some (g'\<lparr>reg_store := (reg_store g')(r := (reg_store g' r)\<lparr>ar_done := True\<rparr>)\<rparr>))"

text \<open>
  The turns of the server: a request acquires a run for its session; the owner of a run releases
  it, once. \<open>live\<close> is the list of runs owned and not yet released.
\<close>

inductive turn_step :: "run_registry \<times> (string \<times> nat) list \<Rightarrow> run_registry \<times> (string \<times> nat) list \<Rightarrow> bool" where
  start: "acquire g sid = (g', r, True) \<Longrightarrow> turn_step (g, live) (g', (sid, r) # live)"
| join: "acquire g sid = (g', r, False) \<Longrightarrow> turn_step (g, live) (g', live)"
| stop: "turn_step (g, live) (interrupt_run g r, live)"
| finish: "(sid, r) \<in> set live \<Longrightarrow> release_run g sid r = Some g' \<Longrightarrow> turn_step (g, live) (g', remove1 (sid, r) live)"

inductive_cases turn_stepE: "turn_step s s'"

definition turns_inv :: "run_registry \<times> (string \<times> nat) list \<Rightarrow> bool" where
  "turns_inv s \<longleftrightarrow>
     (case s of (g, live) \<Rightarrow>
        distinct (map fst live) \<and> distinct (map snd live) \<and> reg_runs g = map_of live
        \<and> (\<forall>(sid, r) \<in> set live. r < reg_next g \<and> \<not> ar_done (reg_store g r)))"


lemma turns_inv_step: "turn_step s s' \<Longrightarrow> turns_inv s \<Longrightarrow> turns_inv s'"
proof (induction rule: turn_step.induct)
  case (start g sid g' r live)
  then have "sid \<notin> fst ` set live"
    by (auto simp: acquire_def turns_inv_def map_of_eq_None_iff split: option.splits)
  then show ?case
    using start
    by (fastforce simp: acquire_def turns_inv_def new_run_def split: option.splits)
next
  case (join g sid g' r live)
  then show ?case by (auto simp: acquire_def split: option.splits)
next
  case (stop g live r)
  then show ?case by (auto simp: turns_inv_def interrupt_run_def)
next
  case (finish sid r live g g')
  then have inv: "distinct (map fst live)" "distinct (map snd live)" "reg_runs g = map_of live"
    "\<forall>(sid, r) \<in> set live. r < reg_next g \<and> \<not> ar_done (reg_store g r)"
    by (simp_all add: turns_inv_def)
  have g': "g' = g\<lparr>reg_runs := (map_of live)(sid := None), reg_store := (reg_store g)(r := (reg_store g r)\<lparr>ar_done := True\<rparr>)\<rparr>"
    using finish inv by (auto simp: release_run_def Let_def split: if_splits)
  have distinct_live: "distinct live" using inv(1) by (simp add: distinct_map)
  have rest: "set (remove1 (sid, r) live) = set live - {(sid, r)}"
    using distinct_live by (simp add: set_remove1_eq)
  have fst': "distinct (map fst (remove1 (sid, r) live))" "distinct (map snd (remove1 (sid, r) live))"
    using inv(1,2) distinct_live by (simp_all add: distinct_map set_remove1_eq inj_on_diff)
  have "map_of (remove1 (sid, r) live) = (map_of live)(sid := None)"
  proof
    fix x
    show "map_of (remove1 (sid, r) live) x = ((map_of live)(sid := None)) x"
    proof (cases "x = sid")
      case True
      have "sid \<notin> fst ` set (remove1 (sid, r) live)"
        using eq_key_imp_eq_value [OF inv(1) finish.hyps(1)] rest by auto
      then show ?thesis using True by (simp add: map_of_eq_None_iff)
    next
      case False
      then have "map_of (remove1 (sid, r) live) x = Some y \<longleftrightarrow> map_of live x = Some y" for y
        using map_of_eq_Some_iff [OF fst'(1)] map_of_eq_Some_iff [OF inv(1)] rest by auto
      then show ?thesis using False by (metis fun_upd_apply option.exhaust)
    qed
  qed
  moreover have "r' \<noteq> r" if "(sid', r') \<in> set (remove1 (sid, r) live)" for sid' r'
    using that rest inv(2) finish.hyps(1) inj_onD [of snd "set live" "(sid, r)" "(sid', r')"]
    by (auto simp: distinct_map)
  ultimately show ?case
    using inv rest fst' by (auto simp: turns_inv_def g')
qed

interpretation turns: preserved turn_step "(new_run_registry, [])" turns_inv
proof
  show "turns_inv (new_run_registry, [])" by (simp add: turns_inv_def new_run_registry_def)
qed (rule turns_inv_step)

subsection \<open>Requests to stop\<close>

text \<open>
  The stop words as runes; the Vietnamese ones hold U+1EEB, U+1EE7 and U+1EF7.
\<close>

definition stop_words :: "rune list list" where
  "stop_words =
     [lit ''stop'', lit ''cancel'', lit ''abort'', lit ''halt'',
      [100, 7915, 110, 103], lit ''dung'', [104, 7911, 121], [104, 117, 7927], lit ''huy'']"

definition max_stop_words :: nat where "max_stop_words = 3"

definition is_stop_request :: "string \<Rightarrow> bool" where
  "is_stop_request text =
     (let words = fields_func (\<lambda>r. \<not> is_letter r \<and> \<not> is_digit r) (map to_lower_rune (runes text))
      in if words = [] \<or> max_stop_words < length words then False else hd words \<in> set stop_words)"

subsection \<open>What steering promises\<close>


text \<open>
  What the model has seen stays as it was: when the transcript of a later call extends the one
  of an earlier call, the spliced transcript of the later call extends the earlier spliced one, with
  every message of both in order and each placed message once, whatever was pushed in between.
\<close>

theorem apply_steer_grows:
  assumes "placed_sorted s (length msgs)"
  shows "let (s1, seen) = apply_steer s msgs; (s2, seen2) = apply_steer (s1\<lparr>st_pending := later\<rparr>) (msgs @ ext)
    in prefix seen seen2 \<and> subseq (msgs @ ext) seen2 \<and> subseq (inbox_texts s2) seen2
       \<and> length seen2 = length (msgs @ ext) + length (st_placed s2)"
proof -
  define s1 where "s1 = fst (apply_steer s msgs)"
  define s2 where "s2 = fst (apply_steer (s1\<lparr>st_pending := later\<rparr>) (msgs @ ext))"
  have 1: "placed_sorted s1 (length msgs)" using apply_steer_sorted [OF assms] by (simp add: s1_def)
  then have "placed_sorted (s1\<lparr>st_pending := later\<rparr>) (length msgs)" by (simp add: placed_sorted_def)
  then have 2: "placed_sorted s2 (length (msgs @ ext))" unfolding s2_def by (rule apply_steer_sorted) simp
  have placed: "st_placed s2 = st_placed s1 @ map (place (length (msgs @ ext))) later"
    by (simp add: s2_def apply_steer_state)
  have "prefix (splice_placed 0 (st_placed s1) msgs) (splice_placed 0 (st_placed s2) (msgs @ ext))"
    using 1 unfolding placed by (intro splice_prefix) (auto simp: placed_sorted_def place_def)
  moreover have "subseq (map placed_text (st_placed s2)) (splice_placed 0 (st_placed s2) (msgs @ ext))
     \<and> subseq (msgs @ ext) (splice_placed 0 (st_placed s2) (msgs @ ext))
     \<and> length (splice_placed 0 (st_placed s2) (msgs @ ext)) = length (st_placed s2) + length (msgs @ ext)"
    using 2 by (intro splice_texts) (auto simp: placed_sorted_def)
  ultimately show ?thesis
    using apply_steer_result [of s msgs] apply_steer_result [of "s1\<lparr>st_pending := later\<rparr>" "msgs @ ext"]
    by (simp add: case_prod_unfold Let_def s1_def [symmetric] s2_def [symmetric] inbox_texts_def)
qed

lemma apply_steer_grows_witness:
  "let (s1, seen) = apply_steer new_steerer [user_message ''a''];
       (s2, seen2) = apply_steer (s1\<lparr>st_pending := [\<lparr>sm_text = ''b'', sm_row = ''1''\<rparr>]\<rparr>) ([user_message ''a''] @ [])
   in prefix seen seen2 \<and> subseq ([user_message ''a''] @ []) seen2 \<and> subseq (inbox_texts s2) seen2
      \<and> length seen2 = length ([user_message ''a''] @ []) + length (st_placed s2)"
  by (rule apply_steer_grows) (simp add: placed_sorted_def new_steerer_def)

text \<open>
  C17: At most one turn runs per session: in every reachable state, two runs that are owned and not
  released belong to different sessions, the registry holds exactly those runs, and releasing any
  of them succeeds (its channel is closed once).
\<close>

theorem one_turn_per_session:
  assumes "turn_step\<^sup>*\<^sup>* (new_run_registry, []) (g, live)"
  shows "distinct (map fst live) \<and> reg_runs g = map_of live
    \<and> list_all (\<lambda>(sid, r). release_run g sid r \<noteq> None) live"
  using turns.always [OF assms] by (auto simp: turns_inv_def release_run_def list_all_iff Let_def)


lemma one_turn_per_session_witness:
  "distinct (map fst [(''s1'', 0::nat)])
   \<and> reg_runs (fst (acquire new_run_registry ''s1'')) = map_of [(''s1'', 0)]
   \<and> list_all (\<lambda>(sid, r). release_run (fst (acquire new_run_registry ''s1'')) sid r \<noteq> None) [(''s1'', 0)]"
proof (rule one_turn_per_session)
  have "acquire new_run_registry ''s1'' = (fst (acquire new_run_registry ''s1''), 0, True)"
    by (simp add: acquire_def new_run_registry_def)
  then show "turn_step\<^sup>*\<^sup>* (new_run_registry, []) (fst (acquire new_run_registry ''s1''), [(''s1'', 0)])"
    by (intro r_into_rtranclp turn_step.start)
qed

end
