(* ===== verification/ModelCalls.thy ===== *)
theory ModelCalls
  imports Steer
begin

text \<open>
  The wrappers around a chat model: the call budget of a turn (\<^verbatim>\<open>internal/agent/budget.go\<close>), the
  continuation of replies cut off by the output limit (\<^verbatim>\<open>internal/agent/continue.go\<close>), the retries
  (\<^verbatim>\<open>internal/llm/retry.go\<close>) and the metering (\<^verbatim>\<open>internal/llm/meter.go\<close>). The provider's model is
  third-party code: a parameter that maps a transcript and the state of the outside world to a
  reply or an error and the next state. Nothing is assumed of it.
\<close>

type_synonym 'w chat_model = "chat_msg list \<Rightarrow> 'w \<Rightarrow> (string + chat_msg) \<times> 'w"

subsection \<open>The call budget\<close>

definition wrap_up_notice :: string where
  "wrap_up_notice = ''[Notice from the system] You have used all the tool calls available for this turn, so no tools can be called now. Write your final answer to the user now, in the user's language, using what you have gathered so far. If part of the request could not be completed, say exactly which part and why.''"

definition budget_warn_calls :: int where "budget_warn_calls = 3"

definition budget_warn_notice :: "int \<Rightarrow> string" where
  "budget_warn_notice left =
     ''[Notice from the system] Only '' @ int_string left @ '' model calls remain in this turn, this one included, and the final call has no tools. Stop exploring: do what is still essential (batch independent tool calls into one step) and get ready to give a complete final answer. Put the most important part first; if something will not fit, say what is left.''"

definition graph_steps_for :: "int \<Rightarrow> int" where
  "graph_steps_for n = 2 * n + 10"

text \<open>Which of the two models the call goes to: \<open>Base\<close> has no tools bound.\<close>

datatype model_choice = Base | Bound

record budget_model =
  bm_bound :: bool
  bm_calls :: int
  bm_max :: int
  bm_steer :: "steerer option"

definition new_budget_model :: "int \<Rightarrow> steerer option \<Rightarrow> budget_model" where
  "new_budget_model max_calls steer =
     \<lparr>bm_bound = False, bm_calls = 0, bm_max = max_calls, bm_steer = steer\<rparr>"

text \<open>\<^verbatim>\<open>WithTools\<close> when the provider accepts the tools; the counter is shared by the copies.\<close>

definition with_tools :: "budget_model \<Rightarrow> budget_model" where
  "with_tools b = b\<lparr>bm_bound := True\<rparr>"

definition pick :: "budget_model \<Rightarrow> chat_msg list \<Rightarrow> budget_model \<times> model_choice \<times> chat_msg list" where
  "pick b msgs =
     (let n = bm_calls b + 1;
          (steer, msgs) =
            (case bm_steer b of
               None \<Rightarrow> (None, msgs)
             | Some s \<Rightarrow> (let (s, msgs) = apply_steer s msgs in (Some s, msgs)));
          b = b\<lparr>bm_calls := n, bm_steer := steer\<rparr>
      in if \<not> bm_bound b then (b, Base, msgs)
         else if bm_max b \<le> n then (b, Base, msgs @ [user_message wrap_up_notice])
         else
           (let left = bm_max b - n + 1 in
            if left \<le> budget_warn_calls \<and> budget_warn_calls + 1 < bm_max b
            then (b, Bound, msgs @ [user_message (budget_warn_notice left)])
            else (b, Bound, msgs)))"

text \<open>The calls of a turn, one after the other.\<close>

fun pick_all :: "budget_model \<Rightarrow> chat_msg list list \<Rightarrow> (model_choice \<times> chat_msg list) list" where
  "pick_all b [] = []"
| "pick_all b (msgs # rest) = (let (b, c, out) = pick b msgs in (c, out) # pick_all b rest)"

lemma pick_state:
  "bm_calls (fst (pick b msgs)) = bm_calls b + 1 \<and> bm_max (fst (pick b msgs)) = bm_max b
   \<and> bm_bound (fst (pick b msgs)) = bm_bound b"
  by (simp add: pick_def case_prod_unfold Let_def split: option.split)

lemma pick_choice:
  "bm_bound b \<Longrightarrow> fst (snd (pick b msgs)) = (if bm_max b \<le> bm_calls b + 1 then Base else Bound)"
  by (simp add: pick_def case_prod_unfold Let_def split: option.split)

lemma pick_last:
  "bm_bound b \<Longrightarrow> bm_max b \<le> bm_calls b + 1 \<Longrightarrow>
     snd (snd (pick b msgs)) \<noteq> [] \<and> last (snd (snd (pick b msgs))) = user_message wrap_up_notice"
  by (simp add: pick_def case_prod_unfold Let_def split: option.split)

lemma pick_all_nth:
  "bm_bound b \<Longrightarrow> i < length ms \<Longrightarrow>
     (case pick_all b ms ! i of (c, out) \<Rightarrow>
        c = (if bm_max b \<le> bm_calls b + int i + 1 then Base else Bound)
        \<and> (if bm_max b \<le> bm_calls b + int i + 1
           then out \<noteq> [] \<and> last out = user_message wrap_up_notice else True))"
proof (induction ms arbitrary: b i)
  case (Cons msgs rest)
  show ?case
  proof (cases i)
    case 0
    then show ?thesis
      using Cons.prems pick_choice [of b msgs] pick_last [of b msgs] by (simp add: case_prod_unfold Let_def)
  next
    case (Suc j)
    have "bm_bound (fst (pick b msgs))" using pick_state Cons.prems by blast
    then show ?thesis
      using Cons.IH [of "fst (pick b msgs)" j] Cons.prems Suc
        pick_state [of b msgs]
      by (simp add: case_prod_unfold Let_def algebra_simps)
  qed
qed simp

lemma length_pick_all [simp]: "length (pick_all b ms) = length ms"
  by (induction ms arbitrary: b) (auto simp: case_prod_unfold Let_def)

subsection \<open>Replies cut off by the output limit\<close>

definition continue_notice :: string where
  "continue_notice = ''[Notice from the system] Your previous reply was cut off by the output length limit. Continue it from the exact character where it stopped: no preamble, no apology, and do not repeat anything you already wrote. If you were inside a JSON document, a code block or a table, carry on inside it.''"

definition max_continuations :: nat where "max_continuations = 4"

definition hit_output_limit :: "string \<Rightarrow> bool \<Rightarrow> bool" where
  "hit_output_limit finish saw_tool_call =
     (if saw_tool_call then False else to_lower finish \<in> {''length'', ''max_tokens''})"

definition finish_of :: "chat_msg \<Rightarrow> string" where
  "finish_of m = (case m_meta m of None \<Rightarrow> [] | Some r \<Rightarrow> finish_reason r)"

definition resume_transcript :: "chat_msg list \<Rightarrow> string \<Rightarrow> chat_msg list" where
  "resume_transcript msgs partial =
     msgs @ [assistant_message partial [], user_message continue_notice]"

text \<open>\<open>gone w\<close> is \<^verbatim>\<open>ctx.Err() != nil\<close> in the state \<open>w\<close>; \<open>k\<close> is how many continuations are left.\<close>

fun resume_loop ::
  "'w chat_model \<Rightarrow> ('w \<Rightarrow> bool) \<Rightarrow> nat \<Rightarrow> chat_msg list \<Rightarrow> chat_msg \<Rightarrow> string \<Rightarrow> 'w \<Rightarrow> (string + chat_msg) \<times> 'w"
where
  "resume_loop model gone 0 msgs msg sofar w = (Inr msg, w)"
| "resume_loop model gone (Suc k) msgs msg sofar w =
     (if hit_output_limit (finish_of msg) (m_tool_calls msg \<noteq> []) \<and> \<not> gone w then
        (case model (resume_transcript msgs sofar) w of
           (Inl e, w') \<Rightarrow> (Inl e, w')
         | (Inr next_msg, w') \<Rightarrow>
             (let sofar = sofar @ m_content next_msg
              in resume_loop model gone k msgs (next_msg\<lparr>m_content := sofar\<rparr>) sofar w'))
      else (Inr msg, w))"

definition generate_resuming ::
  "'w chat_model \<Rightarrow> ('w \<Rightarrow> bool) \<Rightarrow> chat_msg list \<Rightarrow> 'w \<Rightarrow> (string + chat_msg) \<times> 'w" where
  "generate_resuming model gone msgs w =
     (case model msgs w of
        (Inl e, w') \<Rightarrow> (Inl e, w')
      | (Inr msg, w') \<Rightarrow> resume_loop model gone max_continuations msgs msg (m_content msg) w')"

definition budget_generate ::
  "'w chat_model \<Rightarrow> 'w chat_model \<Rightarrow> ('w \<Rightarrow> bool) \<Rightarrow> budget_model \<Rightarrow> chat_msg list \<Rightarrow> 'w
     \<Rightarrow> budget_model \<times> (string + chat_msg) \<times> 'w" where
  "budget_generate base bound gone b msgs w =
     (let (b, c, msgs) = pick b msgs
      in (b, generate_resuming (case c of Base \<Rightarrow> base | Bound \<Rightarrow> bound) gone msgs w))"

text \<open>
  The pieces of a reply: the first call, then calls on the transcript with what was written so far
  and the notice, each after a piece that hit the limit. \<open>sofar\<close> is what was written before.
\<close>

inductive pieces :: "'w chat_model \<Rightarrow> chat_msg list \<Rightarrow> string \<Rightarrow> 'w \<Rightarrow> chat_msg list \<Rightarrow> 'w \<Rightarrow> bool" where
  none: "pieces model msgs sofar w [] w"
| piece: "model (resume_transcript msgs sofar) w = (Inr m, w') \<Longrightarrow>
    pieces model msgs (sofar @ m_content m) w' ms w'' \<Longrightarrow> pieces model msgs sofar w (m # ms) w''"

lemma resume_loop_pieces:
  "resume_loop model gone k msgs msg sofar w = (Inr r, w') \<Longrightarrow> m_content msg = sofar \<Longrightarrow>
     \<exists>ms. length ms \<le> k \<and> pieces model msgs sofar w ms w'
       \<and> m_content r = sofar @ concat (map m_content ms)
       \<and> (if ms = [] then r = msg else m_tool_calls r = m_tool_calls (last ms) \<and> m_meta r = m_meta (last ms))
       \<and> (length ms = k \<or> gone w' \<or> \<not> hit_output_limit (finish_of r) (m_tool_calls r \<noteq> []))"
proof (induction k arbitrary: msg sofar w)
  case 0
  then show ?case by (auto intro!: exI [of _ "[]"] pieces.none)
next
  case (Suc k)
  show ?case
  proof (cases "hit_output_limit (finish_of msg) (m_tool_calls msg \<noteq> []) \<and> \<not> gone w")
    case False
    then show ?thesis using Suc.prems by (auto intro!: exI [of _ "[]"] pieces.none)
  next
    case True
    obtain m w1 where m: "model (resume_transcript msgs sofar) w = (Inr m, w1)"
      "resume_loop model gone k msgs (m\<lparr>m_content := sofar @ m_content m\<rparr>) (sofar @ m_content m) w1 = (Inr r, w')"
      using Suc.prems True by (auto simp: Let_def split: prod.splits sum.splits)
    obtain ms where ms: "length ms \<le> k" "pieces model msgs (sofar @ m_content m) w1 ms w'"
      "m_content r = (sofar @ m_content m) @ concat (map m_content ms)"
      "if ms = [] then r = m\<lparr>m_content := sofar @ m_content m\<rparr>
       else m_tool_calls r = m_tool_calls (last ms) \<and> m_meta r = m_meta (last ms)"
      "length ms = k \<or> gone w' \<or> \<not> hit_output_limit (finish_of r) (m_tool_calls r \<noteq> [])"
      using Suc.IH [OF m(2)] by auto
    have "pieces model msgs sofar w (m # ms) w'" by (rule piece [OF m(1) ms(2)])
    then show ?thesis using ms by (intro exI [of _ "m # ms"]) (auto split: if_splits)
  qed
qed


subsection \<open>Streamed calls\<close>

text \<open>A stream: its chunks (\<open>None\<close> is a nil chunk) and the error it ends with, if any.\<close>

type_synonym msg_stream = "chat_msg option list \<times> string option"
type_synonym 'w stream_model = "chat_msg list \<Rightarrow> 'w \<Rightarrow> (string + msg_stream) \<times> 'w"

record forwarded =
  fw_sent :: "chat_msg list"
  fw_text :: string
  fw_finish :: string
  fw_saw_tool :: bool
  fw_closed :: bool
  fw_err :: "string option"

text \<open>\<open>away sent\<close>: the consumer is found gone when the last message of \<open>sent\<close> is sent.\<close>

fun forward :: "(chat_msg list \<Rightarrow> bool) \<Rightarrow> msg_stream \<Rightarrow> forwarded \<Rightarrow> forwarded" where
  "forward away ([], e) f = f\<lparr>fw_err := e\<rparr>"
| "forward away (None # cs, e) f = forward away (cs, e) f"
| "forward away (Some c # cs, e) f =
     (let f = f\<lparr>fw_sent := fw_sent f @ [c], fw_text := fw_text f @ m_content c,
                fw_saw_tool := fw_saw_tool f \<or> m_tool_calls c \<noteq> [],
                fw_finish := (if finish_of c \<noteq> [] then finish_of c else fw_finish f)\<rparr>
      in if away (fw_sent f) then f\<lparr>fw_closed := True\<rparr> else forward away (cs, e) f)"

definition forward_start :: "chat_msg list \<Rightarrow> string \<Rightarrow> forwarded" where
  "forward_start sent sofar =
     \<lparr>fw_sent = sent, fw_text = sofar, fw_finish = [], fw_saw_tool = False, fw_closed = False, fw_err = None\<rparr>"

text \<open>The rounds of \<^verbatim>\<open>streamResuming\<close>: what was sent, and the error sent last, if any.\<close>

fun stream_loop ::
  "'w stream_model \<Rightarrow> ('w \<Rightarrow> bool) \<Rightarrow> (chat_msg list \<Rightarrow> bool) \<Rightarrow> nat \<Rightarrow> chat_msg list \<Rightarrow> msg_stream
     \<Rightarrow> chat_msg list \<Rightarrow> string \<Rightarrow> 'w \<Rightarrow> chat_msg list \<times> string option \<times> 'w"
where
  "stream_loop model gone away k msgs cur sent sofar w =
     (let f = forward away cur (forward_start sent sofar) in
      if fw_err f \<noteq> None then (fw_sent f, fw_err f, w)
      else if fw_closed f \<or> k = 0 \<or> \<not> hit_output_limit (fw_finish f) (fw_saw_tool f) \<or> gone w
        then (fw_sent f, None, w)
      else
        (case model (resume_transcript msgs (fw_text f)) w of
           (Inl e, w') \<Rightarrow> (fw_sent f, Some e, w')
         | (Inr next_stream, w') \<Rightarrow>
             stream_loop model gone away (k - 1) msgs next_stream (fw_sent f) (fw_text f) w'))"

declare stream_loop.simps [simp del]

definition stream_resuming ::
  "'w stream_model \<Rightarrow> ('w \<Rightarrow> bool) \<Rightarrow> (chat_msg list \<Rightarrow> bool) \<Rightarrow> chat_msg list \<Rightarrow> 'w
     \<Rightarrow> (string + chat_msg list \<times> string option) \<times> 'w" where
  "stream_resuming model gone away msgs w =
     (case model msgs w of
        (Inl e, w') \<Rightarrow> (Inl e, w')
      | (Inr cur, w') \<Rightarrow>
          (let (sent, err, w'') = stream_loop model gone away max_continuations msgs cur [] [] w'
           in (Inr (sent, err), w'')))"

definition stream_text :: "chat_msg list \<Rightarrow> string" where
  "stream_text sent = concat (map m_content sent)"

fun chunks_of :: "chat_msg option list \<Rightarrow> chat_msg list" where
  "chunks_of [] = []"
| "chunks_of (None # cs) = chunks_of cs"
| "chunks_of (Some c # cs) = c # chunks_of cs"

lemma forward_stays:
  "\<not> fw_closed f \<Longrightarrow>
     fw_sent (forward (\<lambda>_. False) (cs, e) f) = fw_sent f @ chunks_of cs
     \<and> fw_text (forward (\<lambda>_. False) (cs, e) f) = fw_text f @ stream_text (chunks_of cs)
     \<and> \<not> fw_closed (forward (\<lambda>_. False) (cs, e) f) \<and> fw_err (forward (\<lambda>_. False) (cs, e) f) = e"
proof (induction cs arbitrary: f)
  case (Cons c cs)
  then show ?case by (cases c) (simp_all add: Let_def stream_text_def)
qed (simp add: stream_text_def)

text \<open>The streams of a reply, each asked for with the text of those before it.\<close>

inductive stream_pieces ::
  "'w stream_model \<Rightarrow> chat_msg list \<Rightarrow> string \<Rightarrow> 'w \<Rightarrow> chat_msg list list \<Rightarrow> 'w \<Rightarrow> bool" where
  no_stream: "stream_pieces model msgs sofar w [] w"
| one_stream: "model (resume_transcript msgs sofar) w = (Inr (cs, e), w') \<Longrightarrow>
    stream_pieces model msgs (sofar @ stream_text (chunks_of cs)) w' ss w'' \<Longrightarrow>
    stream_pieces model msgs sofar w (chunks_of cs # ss) w''"

text \<open>When the consumer stays, it gets every chunk of every stream.\<close>

lemma stream_loop_pieces:
  "stream_loop model gone (\<lambda>_. False) k msgs cur sent sofar w = (out, None, w') \<Longrightarrow>
     \<exists>ss. length ss \<le> k \<and> stream_pieces model msgs (sofar @ stream_text (chunks_of (fst cur))) w ss w'
       \<and> out = sent @ chunks_of (fst cur) @ concat ss"
proof (induction k arbitrary: cur sent sofar w)
  case 0
  obtain cs e where cur: "cur = (cs, e)" by fastforce
  note f = forward_stays [of "forward_start sent sofar" cs e]
  have "out = sent @ chunks_of cs \<and> w' = w"
    using 0 f by (subst (asm) stream_loop.simps) (simp add: cur forward_start_def Let_def split: if_splits)
  then show ?case by (intro exI [of _ "[]"]) (simp add: cur no_stream)
next
  case (Suc k)
  obtain cs e where cur: "cur = (cs, e)" by fastforce
  define f where "f = forward (\<lambda>_. False) (cs, e) (forward_start sent sofar)"
  have f: "fw_sent f = sent @ chunks_of cs" "fw_text f = sofar @ stream_text (chunks_of cs)"
    "\<not> fw_closed f" "fw_err f = e"
    using forward_stays [of "forward_start sent sofar" cs e] by (simp_all add: f_def forward_start_def)
  show ?case
  proof (cases "e \<noteq> None \<or> \<not> hit_output_limit (fw_finish f) (fw_saw_tool f) \<or> gone w")
    case True
    then have "out = sent @ chunks_of cs \<and> w' = w"
      using Suc.prems f by (subst (asm) stream_loop.simps) (auto simp: cur f_def [symmetric] Let_def split: if_splits)
    then show ?thesis by (intro exI [of _ "[]"]) (simp add: cur no_stream)
  next
    case False
    then have "(case model (resume_transcript msgs (fw_text f)) w of
           (Inl e, w') \<Rightarrow> (fw_sent f, Some e, w')
         | (Inr next_stream, w') \<Rightarrow>
             stream_loop model gone (\<lambda>_. False) k msgs next_stream (fw_sent f) (fw_text f) w') = (out, None, w')"
      using Suc.prems f(3,4)
      by (subst (asm) stream_loop.simps) (simp only: cur f_def [symmetric] Let_def diff_Suc_1, simp)
    then obtain cs2 e2 w2 where m: "model (resume_transcript msgs (fw_text f)) w = (Inr (cs2, e2), w2)"
      "stream_loop model gone (\<lambda>_. False) k msgs (cs2, e2) (fw_sent f) (fw_text f) w2 = (out, None, w')"
      by (auto split: prod.splits sum.splits)
    obtain ss where ss: "length ss \<le> k"
      "stream_pieces model msgs (fw_text f @ stream_text (chunks_of cs2)) w2 ss w'"
      "out = fw_sent f @ chunks_of cs2 @ concat ss"
      using Suc.IH [OF m(2)] by auto
    have "stream_pieces model msgs (fw_text f) w (chunks_of cs2 # ss) w'"
      by (rule one_stream [OF m(1) ss(2)])
    then show ?thesis using ss f by (intro exI [of _ "chunks_of cs2 # ss"]) (simp add: cur)
  qed
qed

subsection \<open>Retries\<close>

definition model_retries :: nat where "model_retries = 2"

text \<open>
  \<open>sleep\<close> is \<^verbatim>\<open>sleepBackoff\<close>: it waits before the next attempt and says whether the caller is
  still there. \<open>left\<close> is how many attempts may follow.
\<close>

fun retry_from ::
  "('w \<Rightarrow> (string + 'r) \<times> 'w) \<Rightarrow> ('w \<Rightarrow> bool) \<Rightarrow> (nat \<Rightarrow> 'w \<Rightarrow> bool \<times> 'w) \<Rightarrow> nat \<Rightarrow> nat \<Rightarrow> 'w \<Rightarrow> (string + 'r) \<times> 'w"
where
  "retry_from call gone sleep left attempt w =
     (case call w of
        (Inr r, w') \<Rightarrow> (Inr r, w')
      | (Inl e, w') \<Rightarrow>
          (if left = 0 \<or> gone w' then (Inl e, w')
           else
             (let (woke, w'') = sleep attempt w' in
              if \<not> woke then (Inl e, w'') else retry_from call gone sleep (left - 1) (attempt + 1) w'')))"

declare retry_from.simps [simp del]

definition retry_generate ::
  "'w chat_model \<Rightarrow> ('w \<Rightarrow> bool) \<Rightarrow> (nat \<Rightarrow> 'w \<Rightarrow> bool \<times> 'w) \<Rightarrow> 'w chat_model" where
  "retry_generate inner gone sleep msgs w = retry_from (inner msgs) gone sleep model_retries 0 w"

definition drain_for_error :: "msg_stream \<Rightarrow> string option" where
  "drain_for_error st = snd st"

text \<open>A streamed attempt fails when the stream cannot be opened or does not end cleanly.\<close>

definition stream_attempt :: "'w stream_model \<Rightarrow> chat_msg list \<Rightarrow> 'w \<Rightarrow> (string + msg_stream) \<times> 'w" where
  "stream_attempt inner msgs w =
     (case inner msgs w of
        (Inl e, w') \<Rightarrow> (Inl e, w')
      | (Inr st, w') \<Rightarrow> (case drain_for_error st of Some e \<Rightarrow> (Inl e, w') | None \<Rightarrow> (Inr st, w')))"

definition retry_stream ::
  "'w stream_model \<Rightarrow> ('w \<Rightarrow> bool) \<Rightarrow> (nat \<Rightarrow> 'w \<Rightarrow> bool \<times> 'w) \<Rightarrow> 'w stream_model" where
  "retry_stream inner gone sleep msgs w = retry_from (stream_attempt inner msgs) gone sleep model_retries 0 w"

text \<open>The attempts of a call: the state each one started in, in order.\<close>

inductive attempts ::
  "('w \<Rightarrow> (string + 'r) \<times> 'w) \<Rightarrow> (nat \<Rightarrow> 'w \<Rightarrow> bool \<times> 'w) \<Rightarrow> nat \<Rightarrow> 'w \<Rightarrow> 'w list \<Rightarrow> (string + 'r) \<times> 'w \<Rightarrow> bool"
  for call sleep
where
  success: "call w = (Inr r, w') \<Longrightarrow> attempts call sleep n w [w] (Inr r, w')"
| give_up: "call w = (Inl e, w') \<Longrightarrow> attempts call sleep n w [w] (Inl e, w')"
| cancelled: "call w = (Inl e, w') \<Longrightarrow> sleep n w' = (False, w'') \<Longrightarrow> attempts call sleep n w [w] (Inl e, w'')"
| again: "call w = (Inl e, w') \<Longrightarrow> sleep n w' = (True, w'') \<Longrightarrow>
    attempts call sleep (n + 1) w'' ws res \<Longrightarrow> attempts call sleep n w (w # ws) res"

lemma retry_from_attempts:
  "\<exists>ws. attempts call sleep n w ws (retry_from call gone sleep left n w) \<and> length ws \<le> Suc left"
proof (induction left arbitrary: n w)
  case 0
  show ?case
    by (subst retry_from.simps)
       (auto simp: Let_def intro!: exI [of _ "[w]"] attempts.success attempts.give_up split: prod.splits sum.splits)
next
  case (Suc left)
  obtain res w' where c: "call w = (res, w')" by fastforce
  show ?case
  proof (cases res)
    case (Inr r)
    then show ?thesis
      using c by (subst retry_from.simps) (auto intro!: exI [of _ "[w]"] attempts.success)
  next
    case (Inl e)
    obtain woke w'' where sl: "sleep n w' = (woke, w'')" by fastforce
    obtain ws where ws: "attempts call sleep (n + 1) w'' ws (retry_from call gone sleep left (n + 1) w'')"
      "length ws \<le> Suc left"
      using Suc.IH by blast
    consider "gone w'" | "\<not> gone w'" "\<not> woke" | "\<not> gone w'" "woke" by blast
    then show ?thesis
    proof cases
      case 1
      then show ?thesis
        using c Inl by (subst retry_from.simps) (auto intro!: exI [of _ "[w]"] attempts.give_up)
    next
      case 2
      then show ?thesis
        using c Inl sl by (subst retry_from.simps) (auto intro!: exI [of _ "[w]"] attempts.cancelled)
    next
      case 3
      then have eq: "retry_from call gone sleep (Suc left) n w = retry_from call gone sleep left (n + 1) w''"
        using c Inl sl by (subst retry_from.simps) simp
      have "attempts call sleep n w (w # ws) (retry_from call gone sleep left (n + 1) w'')"
        using c Inl sl 3 ws by (intro attempts.again) simp_all
      then show ?thesis unfolding eq using ws(2) by (intro exI [of _ "w # ws"]) simp
    qed
  qed
qed

lemma attempts_success:
  "attempts call sleep n w ws res \<Longrightarrow> fst res = Inr r \<Longrightarrow> call (last ws) = res \<and> (\<forall>v \<in> set (butlast ws). \<exists>e v'. call v = (Inl e, v'))"
  by (induction rule: attempts.induct) (auto elim: attempts.cases)


subsection \<open>Metering\<close>

text \<open>The caller a call is made for (user and case ids, and the kind of work).\<close>

record caller =
  ca_user :: "string option"
  ca_case :: "string option"
  ca_kind :: string

text \<open>\<^verbatim>\<open>CallerFrom\<close>: the caller of a context, if it has one.\<close>

definition caller_from :: "caller option \<Rightarrow> caller" where
  "caller_from ctx =
     (let c = (case ctx of None \<Rightarrow> \<lparr>ca_user = None, ca_case = None, ca_kind = []\<rparr> | Some c \<Rightarrow> c)
      in if ca_kind c = [] then c\<lparr>ca_kind := ''chat''\<rparr> else c)"

definition estimate :: "chat_msg list \<Rightarrow> int" where
  "estimate msgs = (int (sum_list (map (\<lambda>m. length (m_content m)) msgs)) + 3) div 4"

definition estimate_text :: "chat_msg \<Rightarrow> int" where
  "estimate_text m = (int (length (m_content m)) + 3) div 4"

text \<open>
  The meter is an interface of the repository; its two operations act on the world. \<open>allow\<close> is the
  budget check, \<open>bill\<close> records a call.
\<close>

definition usage_of :: "chat_msg list \<Rightarrow> chat_msg \<Rightarrow> int \<times> int" where
  "usage_of msgs out =
     (case m_meta out of
        Some r \<Rightarrow>
          (case rm_usage r of
             Some u \<Rightarrow> (prompt_tokens u, completion_tokens u)
           | None \<Rightarrow> (estimate msgs, estimate_text out))
      | None \<Rightarrow> (estimate msgs, estimate_text out))"

definition metered_generate ::
  "(caller \<Rightarrow> 'w \<Rightarrow> string option \<times> 'w) \<Rightarrow> (caller \<Rightarrow> string \<Rightarrow> int \<times> int \<Rightarrow> 'w \<Rightarrow> 'w)
     \<Rightarrow> string \<Rightarrow> caller option \<Rightarrow> 'w chat_model \<Rightarrow> 'w chat_model" where
  "metered_generate allow bill model_id ctx inner msgs w =
     (let c = caller_from ctx in
      case allow c w of
        (Some e, w') \<Rightarrow> (Inl e, w')
      | (None, w') \<Rightarrow>
          (case inner msgs w' of
             (Inl e, w'') \<Rightarrow> (Inl e, w'')
           | (Inr out, w'') \<Rightarrow> (Inr out, bill c model_id (usage_of msgs out) w'')))"

text \<open>The goroutine of a streamed call: the usage it finds while it drains the stream.\<close>

record stream_usage =
  su_in :: int
  su_out :: int
  su_text :: nat

definition chunk_usage :: "stream_usage \<Rightarrow> chat_msg \<Rightarrow> stream_usage" where
  "chunk_usage u c =
     (let u = u\<lparr>su_text := su_text u + length (m_content c)\<rparr> in
      case m_meta c of
        None \<Rightarrow> u
      | Some r \<Rightarrow>
          (case rm_usage r of
             None \<Rightarrow> u
           | Some t \<Rightarrow> u\<lparr>su_in := max (su_in u) (prompt_tokens t), su_out := max (su_out u) (completion_tokens t)\<rparr>))"

definition drained_usage :: "chat_msg option list \<Rightarrow> stream_usage" where
  "drained_usage cs = foldl chunk_usage \<lparr>su_in = 0, su_out = 0, su_text = 0\<rparr> (chunks_of cs)"

definition stream_bill :: "chat_msg list \<Rightarrow> msg_stream \<Rightarrow> (int \<times> int) option" where
  "stream_bill msgs st =
     (let u = drained_usage (fst st) in
      if snd st \<noteq> None \<and> su_in u = 0 \<and> su_out u = 0 \<and> su_text u = 0 then None
      else if su_in u = 0 \<and> su_out u = 0 then Some (estimate msgs, (int (su_text u) + 3) div 4)
      else Some (su_in u, su_out u))"

definition metered_stream ::
  "(caller \<Rightarrow> 'w \<Rightarrow> string option \<times> 'w) \<Rightarrow> (caller \<Rightarrow> string \<Rightarrow> int \<times> int \<Rightarrow> 'w \<Rightarrow> 'w)
     \<Rightarrow> string \<Rightarrow> caller option \<Rightarrow> 'w stream_model \<Rightarrow> 'w stream_model" where
  "metered_stream allow bill model_id ctx inner msgs w =
     (let c = caller_from ctx in
      case allow c w of
        (Some e, w') \<Rightarrow> (Inl e, w')
      | (None, w') \<Rightarrow>
          (case inner msgs w' of
             (Inl e, w'') \<Rightarrow> (Inl e, w'')
           | (Inr st, w'') \<Rightarrow>
               (Inr st, case stream_bill msgs st of None \<Rightarrow> w'' | Some u \<Rightarrow> bill c model_id u w'')))"

lemma chunk_usage_mono:
  "su_in u \<le> su_in (foldl chunk_usage u cs) \<and> su_out u \<le> su_out (foldl chunk_usage u cs)
   \<and> su_text (foldl chunk_usage u cs) = su_text u + length (stream_text cs)"
proof (induction cs arbitrary: u)
  case (Cons c cs)
  have "su_in u \<le> su_in (chunk_usage u c)" "su_out u \<le> su_out (chunk_usage u c)"
    "su_text (chunk_usage u c) = su_text u + length (m_content c)"
    by (simp_all add: chunk_usage_def Let_def split: option.split)
  then show ?case using Cons.IH [of "chunk_usage u c"] by (auto simp: stream_text_def intro: order_trans)
qed (simp add: stream_text_def)

lemma foldl_usage_reported:
  "c \<in> set cs \<Longrightarrow> m_meta c = Some r \<Longrightarrow> rm_usage r = Some t \<Longrightarrow>
     prompt_tokens t \<le> su_in (foldl chunk_usage u cs) \<and> completion_tokens t \<le> su_out (foldl chunk_usage u cs)"
proof (induction cs arbitrary: u)
  case (Cons d cs)
  show ?case
  proof (cases "c = d")
    case True
    then have "prompt_tokens t \<le> su_in (chunk_usage u d) \<and> completion_tokens t \<le> su_out (chunk_usage u d)"
      using Cons.prems by (simp add: chunk_usage_def Let_def)
    then show ?thesis using chunk_usage_mono [of "chunk_usage u d" cs] by auto
  qed (use Cons in auto)
qed simp

subsection \<open>The shared key\<close>

record keyed_provider =
  kp_configured :: string
  kp_override :: "string option"

definition effective_key :: "keyed_provider \<Rightarrow> string" where
  "effective_key p =
     (case kp_override p of Some k \<Rightarrow> if k \<noteq> [] then k else kp_configured p | None \<Rightarrow> kp_configured p)"

text \<open>
  The registry: the default provider's name and the providers; \<open>None\<close> is a provider without a
  replaceable key.
\<close>

definition set_shared_key ::
  "string \<Rightarrow> (string \<rightharpoonup> keyed_provider option) \<Rightarrow> string \<Rightarrow> string \<rightharpoonup> keyed_provider option" where
  "set_shared_key def providers key =
     (case providers def of
        Some (Some d) \<Rightarrow>
          (\<lambda>n. case providers n of
             Some (Some p) \<Rightarrow>
               Some (Some (if n = def \<or> kp_configured p = kp_configured d then p\<lparr>kp_override := Some key\<rparr> else p))
           | r \<Rightarrow> r)
      | _ \<Rightarrow> providers)"

text \<open>A bullet (U+2022) in UTF-8, and \<^verbatim>\<open>Mask\<close>.\<close>

definition bullet :: string where "bullet = [CHR 0xE2, CHR 0x80, CHR 0xA2]"

definition mask_key :: "string \<Rightarrow> string" where
  "mask_key key =
     (if key = [] then []
      else if length key \<le> 4 then concat (replicate 4 bullet)
      else concat (replicate 8 bullet) @ drop (length key - 4) key)"

subsection \<open>What the wrappers promise\<close>



text \<open>
  A cut-off reply arrives whole: the content of the result is the content of the first reply
  followed by that of at most four continuations, each asked for with exactly the text written so
  far; and the result still ends on the output limit only when all four were used or the caller
  has gone.
\<close>

theorem generate_resuming_joins:
  assumes "generate_resuming model gone msgs w = (Inr r, w')"
  shows "\<exists>first w1 ms. model msgs w = (Inr first, w1) \<and> length ms \<le> max_continuations
    \<and> pieces model msgs (m_content first) w1 ms w'
    \<and> m_content r = concat (map m_content (first # ms))
    \<and> (length ms = max_continuations \<or> gone w' \<or> \<not> hit_output_limit (finish_of r) (m_tool_calls r \<noteq> []))"
proof -
  obtain first w1 where f: "model msgs w = (Inr first, w1)"
    "resume_loop model gone max_continuations msgs first (m_content first) w1 = (Inr r, w')"
    using assms by (auto simp: generate_resuming_def split: prod.splits sum.splits)
  show ?thesis
    using resume_loop_pieces [OF f(2) refl] f(1) by fastforce
qed

text \<open>A model that is cut off once, for the witness.\<close>

definition example_reply :: "string \<Rightarrow> string \<Rightarrow> chat_msg" where
  "example_reply content finish =
     (assistant_message content [])\<lparr>m_meta := Some \<lparr>finish_reason = finish, rm_usage = None\<rparr>\<rparr>"

definition example_cut :: "nat chat_model" where
  "example_cut msgs w = (Inr (example_reply ''ab'' (if w = 0 then ''length'' else ''stop'')), w + 1)"

lemma generate_resuming_joins_witness:
  "\<exists>first w1 ms. example_cut [] 0 = (Inr first, w1) \<and> length ms \<le> max_continuations
    \<and> pieces example_cut [] (m_content first) w1 ms 2
    \<and> m_content (example_reply ''abab'' ''stop'') = concat (map m_content (first # ms))
    \<and> (length ms = max_continuations \<or> False
       \<or> \<not> hit_output_limit (finish_of (example_reply ''abab'' ''stop''))
            (m_tool_calls (example_reply ''abab'' ''stop'') \<noteq> []))"
proof (rule generate_resuming_joins)
  have "hit_output_limit ''length'' False" "\<not> hit_output_limit ''stop'' False"
    by (simp_all add: hit_output_limit_def text_simps to_lower_rune_def char_of_eq_iff)
  then show "generate_resuming example_cut (\<lambda>_. False) [] 0 = (Inr (example_reply ''abab'' ''stop''), 2)"
    by (simp add: generate_resuming_def example_cut_def max_continuations_def numeral_eq_Suc example_reply_def
        finish_of_def assistant_message_def)
qed

text \<open>
  C32: The continuation of a streamed reply is one uninterrupted stream: when the consumer stays and
  no error is sent, it has received every chunk of the first stream and then every chunk of at most
  four continuations, in order, each continuation asked for with exactly the text received so far.
\<close>

theorem stream_resuming_uninterrupted:
  assumes "stream_resuming model gone (\<lambda>_. False) msgs w = (Inr (sent, None), w')"
  shows "\<exists>cs e w1 ss. model msgs w = (Inr (cs, e), w1) \<and> length ss \<le> max_continuations
    \<and> stream_pieces model msgs (stream_text (chunks_of cs)) w1 ss w' \<and> sent = chunks_of cs @ concat ss"
proof -
  obtain cs e w1 where f: "model msgs w = (Inr (cs, e), w1)"
    "stream_loop model gone (\<lambda>_. False) max_continuations msgs (cs, e) [] [] w1 = (sent, None, w')"
    using assms by (auto simp: stream_resuming_def split: prod.splits sum.splits)
  show ?thesis using stream_loop_pieces [OF f(2)] f(1) by auto
qed

definition example_stream :: "nat stream_model" where
  "example_stream msgs w = (Inr ([Some (user_message ''x''), None], None), w + 1)"

lemma stream_resuming_uninterrupted_witness:
  "\<exists>cs e w1 ss. example_stream [] 0 = (Inr (cs, e), w1) \<and> length ss \<le> max_continuations
    \<and> stream_pieces example_stream [] (stream_text (chunks_of cs)) w1 ss 1
    \<and> [user_message ''x''] = chunks_of cs @ concat ss"
proof (rule stream_resuming_uninterrupted)
  show "stream_resuming example_stream (\<lambda>_. False) (\<lambda>_. False) [] 0 = (Inr ([user_message ''x''], None), 1)"
    by (simp add: stream_resuming_def example_stream_def stream_loop.simps forward_start_def hit_output_limit_def
        finish_of_def user_message_def text_simps)
qed

text \<open>
  C33: A failed stream never leaks: whatever the provider does, at most three attempts are made, a
  stream is returned only from an attempt that ended cleanly, after attempts that all failed, and
  otherwise the error of an attempt is returned.
\<close>

theorem retry_stream_clean:
  "\<exists>ws. attempts (stream_attempt inner msgs) sleep 0 w ws (retry_stream inner gone sleep msgs w) \<and> length ws \<le> 3
    \<and> (case fst (retry_stream inner gone sleep msgs w) of
         Inl e \<Rightarrow> True
       | Inr st \<Rightarrow> snd st = None \<and> fst (inner msgs (last ws)) = Inr st
           \<and> list_all (\<lambda>v. case fst (inner msgs v) of Inl e \<Rightarrow> True | Inr st' \<Rightarrow> snd st' \<noteq> None) (butlast ws))"
proof -
  define res where "res = retry_stream inner gone sleep msgs w"
  obtain ws where ws: "attempts (stream_attempt inner msgs) sleep 0 w ws res" "length ws \<le> 3"
    using retry_from_attempts [of "stream_attempt inner msgs" sleep 0 w gone model_retries]
    by (auto simp: res_def retry_stream_def model_retries_def)
  have clean: "snd st = None \<and> fst (inner msgs v) = Inr st" if "fst (stream_attempt inner msgs v) = Inr st" for v st
    using that by (auto simp: stream_attempt_def drain_for_error_def split: prod.splits sum.splits option.splits)
  have failed: "case fst (inner msgs v) of Inl e \<Rightarrow> True | Inr st' \<Rightarrow> snd st' \<noteq> None"
    if "stream_attempt inner msgs v = (Inl e, v')" for v e v'
    using that by (auto simp: stream_attempt_def drain_for_error_def split: prod.splits sum.splits option.splits)
  show ?thesis
    using ws clean failed attempts_success [OF ws(1)] unfolding res_def [symmetric]
    by (intro exI [of _ ws]) (cases "fst res"; fastforce simp: list_all_iff)
qed


text \<open>
  Replacing the shared key reaches every provider that used it and no other: afterwards a
  provider resolves to the new key exactly when it is the default one or was configured with the
  default one's key; the others resolve as before.
\<close>

theorem shared_key_reaches:
  assumes "providers def = Some (Some d)" "providers n = Some (Some p)" "key \<noteq> []"
  shows "map_option (map_option effective_key) (set_shared_key def providers key n)
    = Some (Some (if n = def \<or> kp_configured p = kp_configured d then key else effective_key p))"
  using assms by (simp add: set_shared_key_def effective_key_def)


lemma shared_key_reaches_witness:
  "map_option (map_option effective_key)
     (set_shared_key ''a'' [''a'' \<mapsto> Some \<lparr>kp_configured = ''k'', kp_override = None\<rparr>,
        ''b'' \<mapsto> Some \<lparr>kp_configured = ''k'', kp_override = None\<rparr>] ''new'' ''b'')
   = Some (Some (if ''b'' = ''a'' \<or> kp_configured \<lparr>kp_configured = ''k'', kp_override = None\<rparr>
         = kp_configured \<lparr>kp_configured = ''k'', kp_override = None\<rparr>
       then ''new'' else effective_key \<lparr>kp_configured = ''k'', kp_override = None\<rparr>))"
  by (rule shared_key_reaches) simp_all

end
