(* ===== verification/Blocks.thy ===== *)
theory Blocks
  imports Messages Complex_Main
begin

text \<open>
  The stored side of a conversation (\<^verbatim>\<open>internal/types/domain.go\<close>): messages made of content
  blocks, and the JSON values they carry. \<^verbatim>\<open>encoding/json\<close> is passed to the operations as a
  \<open>json_codec\<close>: a number is a float64, kept as the rational it denotes, and an object is its
  members in the order of their keys.
\<close>

subsection \<open>JSON values\<close>

datatype json =
    JNull
  | JBool bool
  | JNumber rat
  | JString string
  | JArray "json list"
  | JObject "(string \<times> json) list"

text \<open>
  \<open>decode_json\<close> is \<^verbatim>\<open>json.Unmarshal\<close> into an \<^verbatim>\<open>any\<close> (\<open>None\<close> is its error), \<open>encode_json\<close> is
  \<^verbatim>\<open>json.Marshal\<close> of such a value.
\<close>

record json_codec =
  decode_json :: "string \<Rightarrow> json option"
  encode_json :: "json \<Rightarrow> string"

text \<open>
  A Go \<^verbatim>\<open>map[string]any\<close>; \<open>None\<close> is the nil map. Decoding into one accepts an object, and \<^verbatim>\<open>null\<close>,
  which leaves the map nil.
\<close>

type_synonym json_map = "(string \<times> json) list option"

definition decode_map :: "json_codec \<Rightarrow> string \<Rightarrow> json_map option" where
  "decode_map c s =
     (case decode_json c s of
        Some (JObject ms) \<Rightarrow> Some (Some ms)
      | Some JNull \<Rightarrow> Some None
      | _ \<Rightarrow> None)"

definition encode_map :: "json_codec \<Rightarrow> json_map \<Rightarrow> string" where
  "encode_map c m = encode_json c (case m of None \<Rightarrow> JNull | Some ms \<Rightarrow> JObject ms)"

subsection \<open>Messages and blocks\<close>

definition role_user :: string where "role_user = ''user''"
definition role_assistant :: string where "role_assistant = ''assistant''"

definition block_text :: string where "block_text = ''text''"
definition block_thinking :: string where "block_thinking = ''thinking''"
definition block_tool_use :: string where "block_tool_use = ''tool_use''"
definition block_tool_result :: string where "block_tool_result = ''tool_result''"

lemmas block_types = block_text_def block_thinking_def block_tool_use_def block_tool_result_def

text \<open>\<^verbatim>\<open>ContentBlock\<close> without its database ids; \<^verbatim>\<open>ToolResult any\<close> is \<open>None\<close> when nil.\<close>

record content_block =
  cb_idx :: nat
  cb_type :: string
  cb_text :: string
  cb_thinking :: string
  cb_tool_name :: string
  cb_tool_use_id :: string
  cb_tool_input :: json_map
  cb_tool_result :: "json option"
  cb_is_error :: bool

text \<open>The zero value of Go, which the composite literals of the code fill in part.\<close>

definition zero_block :: content_block where
  "zero_block =
     \<lparr>cb_idx = 0, cb_type = [], cb_text = [], cb_thinking = [], cb_tool_name = [],
      cb_tool_use_id = [], cb_tool_input = None, cb_tool_result = None, cb_is_error = False\<rparr>"

record stored_msg =
  mg_role :: string
  mg_blocks :: "content_block list"

end
