(* ===== verification/History.thy ===== *)
theory History
  imports Blocks
begin

text \<open>
  The transcript a turn starts from (\<^verbatim>\<open>internal/agent/history.go\<close> and \<^verbatim>\<open>json.go\<close>): stored messages
  become model messages, tool calls are paired with their results, and the oldest messages are
  dropped to keep within a budget of tokens.
\<close>

subsection \<open>Token estimates\<close>

definition approx_tokens :: "string \<Rightarrow> int" where
  "approx_tokens s = (int (length s) + 3) div 4"

definition msg_tokens :: "chat_msg \<Rightarrow> int" where
  "msg_tokens m = approx_tokens (m_content m) + sum_list (map (\<lambda>tc. approx_tokens (tc_args tc)) (m_tool_calls m))"

text \<open>\<open>None\<close> is a nil message.\<close>

definition approx_messages_tokens :: "chat_msg option list \<Rightarrow> int" where
  "approx_messages_tokens msgs =
     sum_list (map (\<lambda>m. case m of None \<Rightarrow> 0 | Some m \<Rightarrow> msg_tokens m) msgs)"

lemma approx_tokens_nonneg [simp]: "0 \<le> approx_tokens s"
  by (simp add: approx_tokens_def)

lemma msg_tokens_nonneg [simp]: "0 \<le> msg_tokens m"
  by (auto simp: msg_tokens_def intro!: sum_list_nonneg add_nonneg_nonneg)

subsection \<open>Stored values as text\<close>

text \<open>\<^verbatim>\<open>mustJSON\<close> on a \<^verbatim>\<open>map[string]any\<close>: as an interface value even a nil map is not nil.\<close>

definition must_json :: "json_codec \<Rightarrow> json_map \<Rightarrow> string" where
  "must_json c v = encode_map c v"

definition tool_result_text :: "json_codec \<Rightarrow> json option \<Rightarrow> string" where
  "tool_result_text c v =
     (case v of
        None \<Rightarrow> []
      | Some (JString s) \<Rightarrow> s
      | Some j \<Rightarrow> encode_json c j)"

fun blocks_to_text :: "content_block list \<Rightarrow> string" where
  "blocks_to_text [] = []"
| "blocks_to_text (b # bs) = (if cb_type b = block_text then cb_text b else []) @ blocks_to_text bs"

definition last_user_text :: "stored_msg list \<Rightarrow> string" where
  "last_user_text msgs =
     (case find (\<lambda>m. mg_role m = role_user) (rev msgs) of None \<Rightarrow> [] | Some m \<Rightarrow> blocks_to_text (mg_blocks m))"

subsection \<open>From stored messages to model messages\<close>

definition tool_message :: "string \<Rightarrow> string \<Rightarrow> string \<Rightarrow> chat_msg" where
  "tool_message call_id name content =
     \<lparr>m_role = ToolRole, m_content = content, m_reasoning = [], m_tool_calls = [],
      m_tool_call_id = call_id, m_tool_name = name, m_meta = None\<rparr>"

text \<open>The map \<^verbatim>\<open>have\<close> of \<^verbatim>\<open>pairToolCalls\<close> is the set of the ids of the results, \<open>called\<close> that of the kept calls.\<close>

fun keep_calls :: "string list \<Rightarrow> nat \<Rightarrow> tool_call list \<Rightarrow> tool_call list" where
  "keep_calls ids n [] = []"
| "keep_calls ids n (c # cs) =
     (if tc_id c \<in> set ids then c\<lparr>tc_index := Some (int n)\<rparr> # keep_calls ids (n + 1) cs
      else keep_calls ids n cs)"

definition pair_tool_calls :: "tool_call list \<Rightarrow> chat_msg list \<Rightarrow> tool_call list \<times> chat_msg list" where
  "pair_tool_calls calls results =
     (let kept = keep_calls (map m_tool_call_id results) 0 calls
      in (kept, filter (\<lambda>r. m_tool_call_id r \<in> set (map tc_id kept)) results))"

text \<open>The loop over the blocks of an assistant message: its text, calls and tool messages.\<close>

fun assistant_parts ::
  "json_codec \<Rightarrow> content_block list \<Rightarrow> string \<Rightarrow> tool_call list \<Rightarrow> chat_msg list \<Rightarrow> string \<times> tool_call list \<times> chat_msg list"
where
  "assistant_parts c [] txts calls results = (txts, calls, results)"
| "assistant_parts c (b # bs) txts calls results =
     (if cb_type b = block_text then assistant_parts c bs (txts @ cb_text b) calls results
      else if cb_type b = block_tool_use then
        assistant_parts c bs txts
          (calls @ [\<lparr>tc_index = Some (int (length calls)), tc_id = cb_tool_use_id b, tc_name = cb_tool_name b,
                     tc_args = must_json c (cb_tool_input b)\<rparr>]) results
      else if cb_type b = block_tool_result then
        assistant_parts c bs txts calls
          (results @ [tool_message (cb_tool_use_id b) (cb_tool_name b) (tool_result_text c (cb_tool_result b))])
      else assistant_parts c bs txts calls results)"

definition message_parts :: "json_codec \<Rightarrow> stored_msg \<Rightarrow> chat_msg list" where
  "message_parts c m =
     (if mg_role m = role_user then [user_message (blocks_to_text (mg_blocks m))]
      else if mg_role m = role_assistant then
        (let (txts, calls, results) = assistant_parts c (mg_blocks m) [] [] [];
             (calls, results) = pair_tool_calls calls results
         in if txts = [] \<and> calls = [] \<and> results = [] then [] else assistant_message txts calls # results)
      else [])"

definition history_to_messages :: "json_codec \<Rightarrow> stored_msg list \<Rightarrow> chat_msg list" where
  "history_to_messages c msgs = concat (map (message_parts c) msgs)"

subsection \<open>Trimming\<close>

text \<open>The last index of a user message.\<close>

fun last_user :: "chat_msg list \<Rightarrow> nat option" where
  "last_user [] = None"
| "last_user (m # ms) =
     (case last_user ms of
        Some i \<Rightarrow> Some (Suc i)
      | None \<Rightarrow> if m_role m = UserRole then Some 0 else None)"

text \<open>The two loops that advance \<open>start\<close>; \<open>cost\<close> is what the messages from \<open>start\<close> on cost.\<close>

function drop_front :: "chat_msg list \<Rightarrow> nat \<Rightarrow> int \<Rightarrow> nat \<Rightarrow> int \<Rightarrow> nat" where
  "drop_front msgs last_u budget start cost =
     (if start < last_u \<and> cost > budget then
        drop_front msgs last_u budget (start + 1) (cost - msg_tokens (msgs ! start))
      else start)"
  by pat_completeness auto
termination by (relation "measure (\<lambda>(msgs, last_u, budget, start, cost). last_u - start)") auto

function skip_to_user :: "chat_msg list \<Rightarrow> nat \<Rightarrow> nat \<Rightarrow> nat" where
  "skip_to_user msgs last_u start =
     (if start < last_u \<and> m_role (msgs ! start) \<noteq> UserRole then skip_to_user msgs last_u (start + 1) else start)"
  by pat_completeness auto
termination by (relation "measure (\<lambda>(msgs, last_u, start). last_u - start)") auto

declare drop_front.simps [simp del] skip_to_user.simps [simp del]

definition trim_history :: "chat_msg list \<Rightarrow> int \<Rightarrow> chat_msg list" where
  "trim_history msgs budget =
     (if budget \<le> 0 then msgs
      else
        (let cost = sum_list (map msg_tokens msgs) in
         if cost \<le> budget then msgs
         else
           (case last_user msgs of
              None \<Rightarrow> msgs
            | Some u \<Rightarrow> drop (skip_to_user msgs u (drop_front msgs u budget 0 cost)) msgs)))"

subsection \<open>Paired transcripts\<close>

abbreviation is_tool :: "chat_msg \<Rightarrow> bool" where
  "is_tool m \<equiv> m_role m = ToolRole"

text \<open>
  A transcript a provider accepts: the tool messages right after an assistant message answer
  exactly its calls, and there are no others.
\<close>

function paired :: "chat_msg list \<Rightarrow> bool" where
  "paired [] = True"
| "paired (m # ms) =
     (if is_tool m then False
      else if m_role m = AssistantRole then
        set (map tc_id (m_tool_calls m)) = set (map m_tool_call_id (takeWhile is_tool ms))
        \<and> paired (dropWhile is_tool ms)
      else paired ms)"
  by pat_completeness auto
termination
  by (relation "measure length") (auto simp: le_imp_less_Suc length_dropWhile_le)

lemma keep_calls_ids: "set (map tc_id (keep_calls ids n cs)) = set (map tc_id cs) \<inter> set ids"
  by (induction ids n cs rule: keep_calls.induct) auto

lemma keep_calls_index:
  "map tc_index (keep_calls ids n cs) = map (\<lambda>i. Some (int i)) [n..<n + length (keep_calls ids n cs)]"
proof (induction ids n cs rule: keep_calls.induct)
  case (2 ids n c cs)
  then show ?case by (auto simp: upt_conv_Cons simp del: upt_Suc)
qed simp

lemma pair_tool_calls_ids:
  "pair_tool_calls calls results = (kept, answers) \<Longrightarrow>
     set (map tc_id kept) = set (map m_tool_call_id answers)"
proof -
  assume "pair_tool_calls calls results = (kept, answers)"
  then have kept: "kept = keep_calls (map m_tool_call_id results) 0 calls"
    and answers: "answers = filter (\<lambda>r. m_tool_call_id r \<in> set (map tc_id kept)) results"
    by (auto simp: pair_tool_calls_def Let_def)
  have "set (map tc_id kept) \<subseteq> set (map m_tool_call_id results)"
    unfolding kept keep_calls_ids by blast
  then show ?thesis unfolding answers by (force simp: image_iff)
qed

lemma assistant_parts_tools:
  "list_all is_tool rs \<Longrightarrow> list_all is_tool (snd (snd (assistant_parts c bs t cs rs)))"
  by (induction c bs t cs rs rule: assistant_parts.induct) (auto simp: tool_message_def)

lemma paired_append_group:
  assumes "list_all is_tool rs" "set (map tc_id cs) = set (map m_tool_call_id rs)"
    and "paired ms" "case ms of [] \<Rightarrow> True | m # _ \<Rightarrow> \<not> is_tool m"
  shows "paired (assistant_message t cs # rs @ ms)"
proof -
  have "takeWhile is_tool (rs @ ms) = rs" "dropWhile is_tool (rs @ ms) = ms"
    using assms by (simp_all add: takeWhile_split dropWhile_split)
  then show ?thesis using assms by simp
qed

lemma message_parts_cases:
  obtains (none) "message_parts c m = []"
  | (user) t where "message_parts c m = [user_message t]"
  | (assistant) t cs rs where "message_parts c m = assistant_message t cs # rs" "list_all is_tool rs"
      "set (map tc_id cs) = set (map m_tool_call_id rs)"
proof -
  obtain t calls results where p: "assistant_parts c (mg_blocks m) [] [] [] = (t, calls, results)"
    by (metis prod_cases3)
  obtain cs rs where q: "pair_tool_calls calls results = (cs, rs)" by fastforce
  have "list_all is_tool results"
    using assistant_parts_tools [of "[]" c "mg_blocks m" "[]" "[]"] p by simp
  then have "list_all is_tool rs" using q by (auto simp: pair_tool_calls_def Let_def list_all_iff)
  moreover have "message_parts c m = assistant_message t cs # rs"
    if "mg_role m \<noteq> role_user" "mg_role m = role_assistant" "message_parts c m \<noteq> []"
    using that p q by (simp add: message_parts_def split: if_splits)
  moreover have "message_parts c m = []" if "mg_role m \<noteq> role_user" "mg_role m \<noteq> role_assistant"
    using that by (simp add: message_parts_def)
  moreover have "message_parts c m = [user_message (blocks_to_text (mg_blocks m))]" if "mg_role m = role_user"
    using that by (simp add: message_parts_def)
  ultimately show thesis
    using none user assistant pair_tool_calls_ids [OF q] by blast
qed

lemma paired_history:
  "paired (history_to_messages c msgs)
   \<and> (case history_to_messages c msgs of [] \<Rightarrow> True | m # _ \<Rightarrow> \<not> is_tool m)"
proof (induction msgs)
  case (Cons m msgs)
  show ?case
    by (rule message_parts_cases [of c m]) (use Cons paired_append_group in \<open>auto simp: history_to_messages_def\<close>)
qed (simp add: history_to_messages_def)

lemma paired_drop:
  "paired ms \<Longrightarrow> (case drop n ms of [] \<Rightarrow> True | m # _ \<Rightarrow> m_role m = UserRole) \<Longrightarrow> paired (drop n ms)"
proof (induction ms arbitrary: n rule: paired.induct)
  case (2 m ms)
  show ?case
  proof (cases n)
    case (Suc k)
    show ?thesis
    proof (cases "m_role m = AssistantRole")
      case True
      let ?t = "takeWhile is_tool ms" and ?d = "dropWhile is_tool ms"
      have ms: "ms = ?t @ ?d" by simp
      show ?thesis
      proof (cases "k < length ?t")
        case True
        then have "drop k ms = drop k ?t @ ?d" by (subst ms) (simp del: takeWhile_dropWhile_id)
        moreover have "drop k ?t \<noteq> []" "is_tool (hd (drop k ?t))"
          using True by (auto simp: hd_drop_conv_nth dest: nth_mem set_takeWhileD)
        ultimately have "\<exists>m'. drop n (m # ms) = m' # tl (drop n (m # ms)) \<and> is_tool m'"
          using Suc by (cases "drop k ?t") auto
        then show ?thesis using "2.prems"(2) by (auto split: list.splits)
      next
        case False
        then have "drop n (m # ms) = drop (k - length ?t) ?d"
          using Suc by (subst ms) (simp del: takeWhile_dropWhile_id)
        then show ?thesis using 2 True by (auto split: if_splits)
      qed
    next
      case False
      then show ?thesis using 2 Suc by (auto split: if_splits)
    qed
  qed (use 2 in simp)
qed simp

lemma last_user_None: "last_user ms = None \<longleftrightarrow> list_all (\<lambda>m. m_role m \<noteq> UserRole) ms"
  by (induction ms) (auto split: option.splits)

lemma last_user_nth:
  "last_user ms = Some u \<Longrightarrow>
     u < length ms \<and> m_role (ms ! u) = UserRole \<and> list_all (\<lambda>m. m_role m \<noteq> UserRole) (drop (Suc u) ms)"
  by (induction ms arbitrary: u) (auto split: option.splits if_splits simp: last_user_None)

lemma skip_to_user_stop:
  assumes "m_role (msgs ! u) = UserRole" "s \<le> u"
  shows "s \<le> skip_to_user msgs u s \<and> skip_to_user msgs u s \<le> u \<and> m_role (msgs ! skip_to_user msgs u s) = UserRole
    \<and> (\<forall>j \<in> {s..<skip_to_user msgs u s}. m_role (msgs ! j) \<noteq> UserRole)"
  using assms
proof (induction msgs u s rule: skip_to_user.induct)
  case (1 msgs u s)
  show ?case
  proof (cases "s < u \<and> m_role (msgs ! s) \<noteq> UserRole")
    case True
    then have "skip_to_user msgs u s = skip_to_user msgs u (s + 1)"
      by (subst skip_to_user.simps) simp
    then show ?thesis using 1 True by (auto simp: Suc_le_eq)
  next
    case False
    then have "skip_to_user msgs u s = s" by (subst skip_to_user.simps) (rule if_not_P)
    then show ?thesis using 1 False by (cases "s = u") auto
  qed
qed

abbreviation tokens_from :: "chat_msg list \<Rightarrow> nat \<Rightarrow> int" where
  "tokens_from msgs k \<equiv> sum_list (map msg_tokens (drop k msgs))"

lemma tokens_from_Suc: "k < length msgs \<Longrightarrow> tokens_from msgs k = msg_tokens (msgs ! k) + tokens_from msgs (Suc k)"
  by (simp add: drop_eq_Cons)

lemma tokens_from_mono: "i \<le> j \<Longrightarrow> tokens_from msgs j \<le> tokens_from msgs i"
proof (induction rule: dec_induct)
  case (step k)
  have "tokens_from msgs (Suc k) \<le> tokens_from msgs k"
    using msg_tokens_nonneg [of "msgs ! k"] by (cases "k < length msgs") (simp_all add: tokens_from_Suc)
  then show ?case using step.IH by linarith
qed simp

lemma drop_front_stop:
  assumes "u < length msgs" "s \<le> u" "cost = tokens_from msgs s"
  shows "s \<le> drop_front msgs u budget s cost \<and> drop_front msgs u budget s cost \<le> u
    \<and> (drop_front msgs u budget s cost = u \<or> tokens_from msgs (drop_front msgs u budget s cost) \<le> budget)
    \<and> (\<forall>j \<in> {s..<drop_front msgs u budget s cost}. budget < tokens_from msgs j)"
  using assms
proof (induction msgs u budget s cost rule: drop_front.induct)
  case (1 msgs u budget s cost)
  show ?case
  proof (cases "s < u \<and> cost > budget")
    case True
    then have "drop_front msgs u budget s cost = drop_front msgs u budget (s + 1) (cost - msg_tokens (msgs ! s))"
      by (subst drop_front.simps) simp
    then show ?thesis
      using 1 True tokens_from_Suc [of s msgs] by (auto simp: Suc_le_eq)
  next
    case False
    then have "drop_front msgs u budget s cost = s" by (subst drop_front.simps) (rule if_not_P)
    then show ?thesis using 1 False by auto
  qed
qed

lemma trim_history_drop:
  assumes "0 < budget" "budget < tokens_from msgs 0" "last_user msgs = Some u"
  shows "\<exists>k \<le> u. trim_history msgs budget = drop k msgs \<and> m_role (msgs ! k) = UserRole
    \<and> (k = u \<or> tokens_from msgs k \<le> budget)
    \<and> (\<forall>j < k. m_role (msgs ! j) = UserRole \<longrightarrow> budget < tokens_from msgs j)"
proof -
  define s where "s = drop_front msgs u budget 0 (tokens_from msgs 0)"
  define k where "k = skip_to_user msgs u s"
  have u: "u < length msgs" "m_role (msgs ! u) = UserRole" using last_user_nth [OF assms(3)] by auto
  have s: "s \<le> u" "s = u \<or> tokens_from msgs s \<le> budget" "\<forall>j \<in> {0..<s}. budget < tokens_from msgs j"
    using drop_front_stop [OF u(1), of 0 "tokens_from msgs 0" budget] by (auto simp: s_def)
  have k: "s \<le> k" "k \<le> u" "m_role (msgs ! k) = UserRole" "\<forall>j \<in> {s..<k}. m_role (msgs ! j) \<noteq> UserRole"
    using skip_to_user_stop [OF u(2) s(1)] by (auto simp: k_def)
  have "trim_history msgs budget = drop k msgs"
    using assms by (simp add: trim_history_def k_def s_def)
  moreover have "k = u \<or> tokens_from msgs k \<le> budget"
    using s k tokens_from_mono [of s k msgs] by auto
  moreover have "budget < tokens_from msgs j" if "j < k" "m_role (msgs ! j) = UserRole" for j
    using that s(3) k(4) by (cases "j < s") auto
  ultimately show ?thesis using k by blast
qed

subsection \<open>What the history promises\<close>

text \<open>
  C15: Whatever is stored - interrupted turns, results without a call, calls without a result - the
  transcript the model gets is one a provider accepts: tool messages only follow an assistant
  message and answer exactly the calls it makes; trimming to a token budget keeps it so.
\<close>

theorem history_paired: "paired (trim_history (history_to_messages c msgs) budget)"
proof -
  let ?ms = "history_to_messages c msgs"
  show ?thesis
  proof (cases "0 < budget \<and> budget < tokens_from ?ms 0 \<and> last_user ?ms \<noteq> None")
    case True
    then obtain k where "trim_history ?ms budget = drop k ?ms" "m_role (?ms ! k) = UserRole" "k < length ?ms"
      using trim_history_drop [of budget ?ms] last_user_nth [of ?ms] by fastforce
    then show ?thesis using paired_drop [of ?ms k] paired_history [of c msgs] by (simp add: drop_eq_Cons)
  next
    case False
    then have "trim_history ?ms budget = ?ms" by (auto simp: trim_history_def Let_def)
    then show ?thesis using paired_history by simp
  qed
qed

text \<open>
  Trimming keeps the most recent messages: over budget, the result is the longest suffix that
  starts with a user message and fits, or the suffix from the last user message when even that
  does not fit; so the last user message is always in it.
\<close>

theorem trim_history_recent:
  assumes "0 < budget" "budget < sum_list (map msg_tokens msgs)" "last_user msgs = Some u"
  shows "\<exists>k \<le> u. trim_history msgs budget = drop k msgs \<and> m_role (msgs ! k) = UserRole
    \<and> (k = u \<or> tokens_from msgs k \<le> budget)
    \<and> (\<forall>j < k. m_role (msgs ! j) = UserRole \<longrightarrow> budget < tokens_from msgs j)"
  using trim_history_drop [of budget msgs u] assms by simp

definition example_long :: "chat_msg list" where
  "example_long = [user_message ''one two three'', assistant_message ''four'' [], user_message ''five'']"

lemma trim_history_recent_witness:
  "\<exists>k \<le> 2. trim_history example_long 1 = drop k example_long \<and> m_role (example_long ! k) = UserRole
    \<and> (k = 2 \<or> tokens_from example_long k \<le> 1)
    \<and> (\<forall>j < k. m_role (example_long ! j) = UserRole \<longrightarrow> 1 < tokens_from example_long j)"
  by (rule trim_history_recent) (simp_all add: example_long_def msg_tokens_def approx_tokens_def)

end
