(* ===== verification/Assembler.thy ===== *)
theory Assembler
  imports Blocks TextGuard CiteRefs History
begin

text \<open>
  The assembler of a turn (\<^verbatim>\<open>internal/agent/assembler.go\<close>): the raw signals of a run - model
  chunks, ends of model calls, tool starts and ends - become the ordered event stream a client sees
  and, in parallel, the content blocks that are stored. Every method runs under the mutex and is
  one operation on the state; the emitted events are kept in the state, in order.
\<close>

subsection \<open>Events\<close>

text \<open>One constructor per event kind, with the fields that kind carries.\<close>

datatype event =
    MessageStart string string string int
  | ContentBlockStart nat string string string
  | TextDelta nat string
  | ThinkingDelta nat string
  | InputJSONDelta nat string
  | ContentBlockStop nat
  | ToolExecStart string string string
  | ToolExecStop string string string bool
  | MessageDelta string int int
  | MessageStop
  | ErrorEvent string string

subsection \<open>The state\<close>

record open_block =
  ob_index :: nat
  ob_typ :: string
  ob_stream :: int
  ob_tool_id :: string
  ob_tool_name :: string
  ob_text :: string
  ob_args :: string
  ob_guard :: text_guard
  ob_cite :: cite_refs

record tool_ref =
  tr_id :: string
  tr_name :: string
  tr_input :: string
  tr_started :: bool
  tr_done :: bool

record assembler =
  as_events :: "event list"
  as_sse :: nat
  as_order :: nat
  as_open :: "open_block option"
  as_blocks :: "content_block list"
  as_pending :: "tool_ref list"
  as_output_tokens :: int
  as_input_tokens :: int
  as_last_finish :: string
  as_steps :: nat
  as_json_fixes :: nat
  as_failed :: bool
  as_fail_type :: string
  as_fail_msg :: string
  as_cite_refs :: "(string \<times> string) list"

definition new_assembler :: assembler where
  "new_assembler =
     \<lparr>as_events = [], as_sse = 0, as_order = 0, as_open = None, as_blocks = [], as_pending = [],
      as_output_tokens = 0, as_input_tokens = 0, as_last_finish = [], as_steps = 0, as_json_fixes = 0,
      as_failed = False, as_fail_type = [], as_fail_msg = [], as_cite_refs = []\<rparr>"

definition emit :: "event \<Rightarrow> assembler \<Rightarrow> assembler" where
  "emit e a = a\<lparr>as_events := as_events a @ [e]\<rparr>"

text \<open>The guard and the citation rewriter are nil in the blocks that are no text; they are not used there.\<close>

definition new_open :: "nat \<Rightarrow> string \<Rightarrow> int \<Rightarrow> string \<Rightarrow> string \<Rightarrow> (string \<times> string) list \<Rightarrow> open_block" where
  "new_open i typ stream tool_id name refs =
     \<lparr>ob_index = i, ob_typ = typ, ob_stream = stream, ob_tool_id = tool_id, ob_tool_name = name,
      ob_text = [], ob_args = [], ob_guard = new_guard, ob_cite = \<lparr>cr_refs = refs, cr_held = []\<rparr>\<rparr>"

subsection \<open>Helpers\<close>

definition parse_tool_args :: "json_codec \<Rightarrow> string \<Rightarrow> json_map" where
  "parse_tool_args c s =
     (let s = trim_space s in
      if s = [] then Some []
      else case decode_map c s of Some m \<Rightarrow> m | None \<Rightarrow> Some [(''_raw'', JString s)])"

definition normalize_json :: "json_codec \<Rightarrow> string \<Rightarrow> string" where
  "normalize_json c s =
     (let s = trim_space s in
      if s = [] then [] else case decode_json c s of None \<Rightarrow> s | Some v \<Rightarrow> encode_json c v)"

definition map_finish_reason :: "string \<Rightarrow> string" where
  "map_finish_reason r =
     (let l = to_lower r in
      if l \<in> {''stop'', ''end_turn'', []} then (if r = [] then [] else ''end_turn'')
      else if l \<in> {''length'', ''max_tokens''} then ''max_tokens''
      else if l \<in> {''tool_calls'', ''tool_use''} then ''end_turn''
      else if l = ''content_filter'' then ''stop_sequence''
      else r)"

text \<open>The index of the first reference that satisfies a test.\<close>

definition first_index :: "('a \<Rightarrow> bool) \<Rightarrow> 'a list \<Rightarrow> nat option" where
  "first_index P xs = (let n = length (takeWhile (\<lambda>x. \<not> P x) xs) in if n < length xs then Some n else None)"

definition match_pending :: "json_codec \<Rightarrow> tool_ref list \<Rightarrow> string \<Rightarrow> string \<Rightarrow> nat option" where
  "match_pending c refs name args =
     (let norm = normalize_json c args in
      case first_index (\<lambda>r. tr_name r = name \<and> \<not> tr_started r \<and> (norm = [] \<or> normalize_json c (tr_input r) = norm)) refs of
        Some i \<Rightarrow> Some i
      | None \<Rightarrow> first_index (\<lambda>r. tr_name r = name \<and> \<not> tr_started r) refs)"

definition match_started :: "tool_ref list \<Rightarrow> string \<Rightarrow> nat option" where
  "match_started refs name = first_index (\<lambda>r. tr_name r = name \<and> tr_started r \<and> \<not> tr_done r) refs"

subsection \<open>Blocks\<close>

text \<open>\<^verbatim>\<open>textLocked\<close> on the open block \<open>ob\<close>.\<close>

definition text_locked :: "open_block \<Rightarrow> string \<Rightarrow> assembler \<Rightarrow> open_block \<times> assembler" where
  "text_locked ob released a =
     (if released = [] then (ob, a)
      else (ob\<lparr>ob_text := ob_text ob @ released\<rparr>, emit (TextDelta (ob_index ob) released) a))"

text \<open>What a text block still holds, released when it closes.\<close>

definition release_text :: "open_block \<Rightarrow> open_block \<times> string" where
  "release_text ob =
     (let (g, s1) = guard_flush (ob_guard ob);
          (c, s2) = cite_feed (ob_cite ob) s1;
          (c, s3) = cite_flush c
      in (ob\<lparr>ob_guard := g, ob_cite := c\<rparr>, s2 @ s3))"

definition sealed_block :: "json_codec \<Rightarrow> nat \<Rightarrow> open_block \<Rightarrow> content_block list" where
  "sealed_block c order ob =
     (if ob_typ ob = ''text'' then
        [zero_block\<lparr>cb_idx := order, cb_type := block_text, cb_text := ob_text ob\<rparr>]
      else if ob_typ ob = ''thinking'' then
        [zero_block\<lparr>cb_idx := order, cb_type := block_thinking, cb_thinking := ob_text ob\<rparr>]
      else if ob_typ ob = ''tool_use'' then
        [zero_block\<lparr>cb_idx := order, cb_type := block_tool_use, cb_tool_name := ob_tool_name ob,
           cb_tool_use_id := ob_tool_id ob, cb_tool_input := parse_tool_args c (ob_args ob)\<rparr>]
      else [])"

text \<open>The reference a finished tool call leaves for the start of the tool.\<close>

definition opened_ref :: "json_codec \<Rightarrow> open_block \<Rightarrow> tool_ref" where
  "opened_ref c ob =
     \<lparr>tr_id = ob_tool_id ob, tr_name = ob_tool_name ob, tr_input = encode_map c (parse_tool_args c (ob_args ob)),
      tr_started = False, tr_done = False\<rparr>"

definition close_locked :: "json_codec \<Rightarrow> assembler \<Rightarrow> assembler" where
  "close_locked c a =
     (case as_open a of
        None \<Rightarrow> a
      | Some ob \<Rightarrow>
          (let (ob, a) =
             (if ob_typ ob = ''text'' then
                (let (ob, released) = release_text ob; (ob, a) = text_locked ob released a
                 in (ob, a\<lparr>as_json_fixes := as_json_fixes a + g_fixes (ob_guard ob)\<rparr>))
              else (ob, a));
             a = a\<lparr>as_open := None, as_order := as_order a + 1, as_blocks := as_blocks a @ sealed_block c (as_order a) ob\<rparr>;
             a = (if ob_typ ob = ''tool_use'' then
a\<lparr>as_pending := as_pending a @ [opened_ref c ob]\<rparr> else a)
           in emit (ContentBlockStop (ob_index ob)) a))"

text \<open>Opens a block: \<^verbatim>\<open>nextSSE\<close>, the state of the block, the start event.\<close>

definition open_new :: "string \<Rightarrow> int \<Rightarrow> string \<Rightarrow> string \<Rightarrow> assembler \<Rightarrow> assembler" where
  "open_new typ stream tool_id name a =
     emit (ContentBlockStart (as_sse a) typ tool_id name)
       (a\<lparr>as_sse := as_sse a + 1, as_open := Some (new_open (as_sse a) typ stream tool_id name (as_cite_refs a))\<rparr>)"

definition ensure_locked :: "json_codec \<Rightarrow> string \<Rightarrow> assembler \<Rightarrow> assembler" where
  "ensure_locked c typ a =
     (if \<exists>ob \<in> set_option (as_open a). ob_typ ob = typ then a else open_new typ 0 [] [] (close_locked c a))"


subsection \<open>Operations\<close>

text \<open>Acts on the open block; the callers have just made sure that there is one.\<close>

definition with_open :: "(open_block \<Rightarrow> assembler \<Rightarrow> open_block \<times> assembler) \<Rightarrow> assembler \<Rightarrow> assembler" where
  "with_open f a =
     (case as_open a of
        None \<Rightarrow> a
      | Some ob \<Rightarrow> (let (ob, a) = f ob a in a\<lparr>as_open := Some ob\<rparr>))"

definition message_start :: "string \<Rightarrow> string \<Rightarrow> string \<Rightarrow> int \<Rightarrow> assembler \<Rightarrow> assembler" where
  "message_start message_id model_id session_id n a =
     emit (MessageStart message_id model_id session_id n) (a\<lparr>as_input_tokens := n\<rparr>)"

definition reasoning_chunk :: "json_codec \<Rightarrow> string \<Rightarrow> assembler \<Rightarrow> assembler" where
  "reasoning_chunk c s a =
     (if s = [] then a
      else with_open (\<lambda>ob a. (ob\<lparr>ob_text := ob_text ob @ s\<rparr>, emit (ThinkingDelta (ob_index ob) s) a))
             (ensure_locked c ''thinking'' a))"

text \<open>The guard and then the citation rewriter decide what of a chunk may go out.\<close>

definition feed_text :: "open_block \<Rightarrow> string \<Rightarrow> open_block \<times> string" where
  "feed_text ob s =
     (let (g, s1) = guard_feed (ob_guard ob) s; (r, s2) = cite_feed (ob_cite ob) s1
      in (ob\<lparr>ob_guard := g, ob_cite := r\<rparr>, s2))"

definition content_chunk :: "json_codec \<Rightarrow> string \<Rightarrow> assembler \<Rightarrow> assembler" where
  "content_chunk c s a =
     (if s = [] then a
      else with_open (\<lambda>ob a. let (ob, released) = feed_text ob s in text_locked ob released a)
             (ensure_locked c ''text'' a))"

text \<open>The id and the name of a call may come with a later piece of it.\<close>

definition fill_tool :: "tool_call \<Rightarrow> open_block \<Rightarrow> open_block" where
  "fill_tool tc ob =
     (let ob = (if tc_id tc \<noteq> [] \<and> ob_tool_id ob = [] then ob\<lparr>ob_tool_id := tc_id tc\<rparr> else ob)
      in if tc_name tc \<noteq> [] \<and> ob_tool_name ob = [] then ob\<lparr>ob_tool_name := tc_name tc\<rparr> else ob)"

definition tool_call_args :: "tool_call \<Rightarrow> open_block \<Rightarrow> assembler \<Rightarrow> open_block \<times> assembler" where
  "tool_call_args tc ob a =
     (let ob = fill_tool tc ob
      in if tc_args tc \<noteq> [] then
           (ob\<lparr>ob_args := ob_args ob @ tc_args tc\<rparr>, emit (InputJSONDelta (ob_index ob) (tc_args tc)) a)
         else (ob, a))"

definition tool_call_chunk :: "json_codec \<Rightarrow> assembler \<Rightarrow> tool_call \<Rightarrow> assembler" where
  "tool_call_chunk c a tc =
     (let i = (case tc_index tc of None \<Rightarrow> 0 | Some i \<Rightarrow> i);
          same = (case as_open a of None \<Rightarrow> False | Some ob \<Rightarrow> ob_typ ob = ''tool_use'' \<and> ob_stream ob = i);
          a = (if same then a else open_new ''tool_use'' i (tc_id tc) (tc_name tc) (close_locked c a))
      in with_open (tool_call_args tc) a)"

text \<open>\<open>None\<close> is a nil chunk.\<close>

definition model_chunk :: "json_codec \<Rightarrow> chat_msg option \<Rightarrow> assembler \<Rightarrow> assembler" where
  "model_chunk c m a =
     (case m of
        None \<Rightarrow> a
      | Some m \<Rightarrow>
          foldl (tool_call_chunk c) (content_chunk c (m_content m) (reasoning_chunk c (m_reasoning m) a)) (m_tool_calls m))"

definition model_call_done :: "json_codec \<Rightarrow> string \<Rightarrow> token_usage option \<Rightarrow> assembler \<Rightarrow> assembler" where
  "model_call_done c finish u a =
     (let a = close_locked c (a\<lparr>as_steps := as_steps a + 1\<rparr>);
          a = (if finish \<noteq> [] then a\<lparr>as_last_finish := finish\<rparr> else a)
      in case u of
           None \<Rightarrow> a
         | Some t \<Rightarrow>
             a\<lparr>as_input_tokens := (if prompt_tokens t > as_input_tokens a then prompt_tokens t else as_input_tokens a),
               as_output_tokens := as_output_tokens a + completion_tokens t\<rparr>)"

definition tool_start :: "json_codec \<Rightarrow> string \<Rightarrow> string \<Rightarrow> assembler \<Rightarrow> assembler" where
  "tool_start c name args a =
     (let (refs, i) =
        (case match_pending c (as_pending a) name args of
           Some i \<Rightarrow> (as_pending a, i)
         | None \<Rightarrow>
             (as_pending a @ [\<lparr>tr_id = [], tr_name = name, tr_input = args, tr_started = False, tr_done = False\<rparr>],
              length (as_pending a)));
         r = (refs ! i)\<lparr>tr_started := True\<rparr>
      in emit (ToolExecStart (tr_name r) (tr_id r) (tr_input r)) (a\<lparr>as_pending := refs[i := r]\<rparr>))"

definition tool_result_block :: "nat \<Rightarrow> string \<Rightarrow> string \<Rightarrow> string \<Rightarrow> bool \<Rightarrow> content_block" where
  "tool_result_block order name use_id response is_err =
     zero_block\<lparr>cb_idx := order, cb_type := block_tool_result, cb_text := response, cb_tool_name := name,
       cb_tool_use_id := use_id, cb_is_error := is_err\<rparr>"

definition tool_end :: "string \<Rightarrow> string \<Rightarrow> bool \<Rightarrow> assembler \<Rightarrow> assembler" where
  "tool_end name response is_err a =
     (let (refs, use_id) =
        (case match_started (as_pending a) name of
           None \<Rightarrow> (as_pending a, [])
         | Some i \<Rightarrow> ((as_pending a)[i := (as_pending a ! i)\<lparr>tr_done := True\<rparr>], tr_id (as_pending a ! i)));
         b = tool_result_block (as_order a) name use_id response is_err
      in emit (ToolExecStop name use_id response is_err)
           (a\<lparr>as_pending := refs, as_order := as_order a + 1, as_blocks := as_blocks a @ [b]\<rparr>))"

definition finish_turn :: "json_codec \<Rightarrow> string \<Rightarrow> assembler \<Rightarrow> assembler" where
  "finish_turn c default_finish a =
     (let a = close_locked c a; reason = map_finish_reason (as_last_finish a)
      in a\<lparr>as_last_finish := (if reason = [] then default_finish else reason)\<rparr>)"

definition interrupt_turn :: "json_codec \<Rightarrow> assembler \<Rightarrow> assembler" where
  "interrupt_turn c a =
     (close_locked c a)\<lparr>as_failed := False, as_fail_type := [], as_fail_msg := [], as_last_finish := ''interrupted''\<rparr>"

definition fail_turn :: "json_codec \<Rightarrow> string \<Rightarrow> string \<Rightarrow> assembler \<Rightarrow> assembler" where
  "fail_turn c err_type msg a =
     close_locked c (a\<lparr>as_failed := True, as_fail_type := err_type, as_fail_msg := msg\<rparr>)"

definition emit_stop :: "assembler \<Rightarrow> assembler" where
  "emit_stop a =
     (if as_failed a then emit (ErrorEvent (as_fail_type a) (as_fail_msg a)) a
      else emit MessageStop (emit (MessageDelta (as_last_finish a) (as_input_tokens a) (as_output_tokens a)) a))"

definition set_cite_refs :: "(string \<times> string) list \<Rightarrow> assembler \<Rightarrow> assembler" where
  "set_cite_refs refs a = a\<lparr>as_cite_refs := refs\<rparr>"

subsection \<open>The result\<close>

text \<open>
  \<^verbatim>\<open>sortBlocksByIdx\<close>: insertion sort by swapping each block back past the larger ones, then
  numbering. \<open>sink\<close> takes the sorted blocks from the last one back.
\<close>

fun sink :: "content_block list \<Rightarrow> content_block \<Rightarrow> content_block list" where
  "sink [] b = [b]"
| "sink (p # ps) b = (if cb_idx p > cb_idx b then p # sink ps b else b # p # ps)"

fun number_from :: "nat \<Rightarrow> content_block list \<Rightarrow> content_block list" where
  "number_from i [] = []"
| "number_from i (b # bs) = b\<lparr>cb_idx := i\<rparr> # number_from (i + 1) bs"

definition sort_blocks_by_idx :: "content_block list \<Rightarrow> content_block list" where
  "sort_blocks_by_idx bs = number_from 0 (rev (foldl sink [] bs))"

record run_stats =
  rs_stop_reason :: string
  rs_input_tokens :: int
  rs_output_tokens :: int
  rs_steps :: nat

definition asm_result :: "string \<Rightarrow> assembler \<Rightarrow> content_block list \<times> run_stats" where
  "asm_result default_finish a =
     (let reason = map_finish_reason (as_last_finish a);
          reason = (if as_failed a then ''error'' else if reason = [] then default_finish else reason)
      in (sort_blocks_by_idx (as_blocks a),
          \<lparr>rs_stop_reason = reason, rs_input_tokens = as_input_tokens a, rs_output_tokens = as_output_tokens a,
           rs_steps = as_steps a\<rparr>))"

subsection \<open>Runs\<close>

datatype asm_op =
    AMessageStart string string string int
  | AChunk "chat_msg option"
  | ACallDone string "token_usage option"
  | AToolStart string string
  | AToolEnd string string bool
  | AFinish string
  | AInterrupt
  | AFail string string
  | AEmitStop
  | ASetRefs "(string \<times> string) list"

fun asm_step :: "json_codec \<Rightarrow> assembler \<Rightarrow> asm_op \<Rightarrow> assembler" where
  "asm_step c a (AMessageStart i m s n) = message_start i m s n a"
| "asm_step c a (AChunk m) = model_chunk c m a"
| "asm_step c a (ACallDone f u) = model_call_done c f u a"
| "asm_step c a (AToolStart n s) = tool_start c n s a"
| "asm_step c a (AToolEnd n r e) = tool_end n r e a"
| "asm_step c a (AFinish d) = finish_turn c d a"
| "asm_step c a AInterrupt = interrupt_turn c a"
| "asm_step c a (AFail t m) = fail_turn c t m a"
| "asm_step c a AEmitStop = emit_stop a"
| "asm_step c a (ASetRefs rs) = set_cite_refs rs a"

definition asm_run :: "json_codec \<Rightarrow> asm_op list \<Rightarrow> assembler" where
  "asm_run c ops = foldl (asm_step c) new_assembler ops"

end
