(* ===== verification/TurnStream.thy ===== *)
theory TurnStream
  imports Assembler
begin

text \<open>
  The stream of a turn against its specification: a client that replays the events is kept in step
  with the assembler by every operation.
\<close>

subsection \<open>A client of the event stream\<close>

text \<open>
  The specification of the stream is the client that reads it: it keeps the open block (index,
  type, content) and the finished ones, and gives up (\<open>None\<close>) on a stream that is not well formed:
  a block that starts while another is open or out of sequence, or a delta or a stop that does not
  belong to the open block.
\<close>

record client =
  cl_open :: "(nat \<times> string \<times> string) option"
  cl_next :: nat
  cl_done :: "(string \<times> string) list"

definition new_client :: client where
  "new_client = \<lparr>cl_open = None, cl_next = 0, cl_done = []\<rparr>"

definition client_delta :: "client \<Rightarrow> string \<Rightarrow> nat \<Rightarrow> string \<Rightarrow> client option" where
  "client_delta cl typ i s =
     (case cl_open cl of
        Some (j, t, sofar) \<Rightarrow> if j = i \<and> t = typ then Some (cl\<lparr>cl_open := Some (j, t, sofar @ s)\<rparr>) else None
      | None \<Rightarrow> None)"

fun client_step :: "client \<Rightarrow> event \<Rightarrow> client option" where
  "client_step cl (ContentBlockStart i typ tool_id name) =
     (if cl_open cl = None \<and> i = cl_next cl then Some (cl\<lparr>cl_open := Some (i, typ, []), cl_next := i + 1\<rparr>) else None)"
| "client_step cl (TextDelta i s) = client_delta cl block_text i s"
| "client_step cl (ThinkingDelta i s) = client_delta cl block_thinking i s"
| "client_step cl (InputJSONDelta i s) = client_delta cl block_tool_use i s"
| "client_step cl (ContentBlockStop i) =
     (case cl_open cl of
        Some (j, t, s) \<Rightarrow> if j = i then Some (cl\<lparr>cl_open := None, cl_done := cl_done cl @ [(t, s)]\<rparr>) else None
      | None \<Rightarrow> None)"
| "client_step cl (ToolExecStop name tool_id r err) = Some (cl\<lparr>cl_done := cl_done cl @ [(block_tool_result, r)]\<rparr>)"
| "client_step cl e = Some cl"

fun client_run :: "client \<Rightarrow> event list \<Rightarrow> client option" where
  "client_run cl [] = Some cl"
| "client_run cl (e # es) = Option.bind (client_step cl e) (\<lambda>cl. client_run cl es)"

lemma client_run_append: "client_run cl (es @ es') = Option.bind (client_run cl es) (\<lambda>cl. client_run cl es')"
  by (induction es arbitrary: cl) (auto split: Option.bind_splits)

text \<open>A finished block of the client shows a stored block.\<close>

definition shown :: "json_codec \<Rightarrow> string \<times> string \<Rightarrow> content_block \<Rightarrow> bool" where
  "shown c p b \<longleftrightarrow>
     (case p of (typ, s) \<Rightarrow>
        cb_type b = typ
        \<and> (if typ = block_thinking then cb_thinking b = s
           else if typ = block_tool_use then cb_tool_input b = parse_tool_args c s
           else cb_text b = s))"

definition open_view :: "open_block \<Rightarrow> nat \<times> string \<times> string" where
  "open_view ob = (ob_index ob, ob_typ ob, if ob_typ ob = block_tool_use then ob_args ob else ob_text ob)"

definition open_ok :: "assembler \<Rightarrow> bool" where
  "open_ok a \<longleftrightarrow> (case as_open a of None \<Rightarrow> True | Some ob \<Rightarrow> ob_typ ob \<in> {block_text, block_thinking, block_tool_use})"

text \<open>The client and the assembler are in step.\<close>

definition in_step :: "json_codec \<Rightarrow> client \<Rightarrow> assembler \<Rightarrow> bool" where
  "in_step c cl a \<longleftrightarrow>
     client_run new_client (as_events a) = Some cl \<and> cl_next cl = as_sse a
     \<and> list_all2 (shown c) (cl_done cl) (as_blocks a) \<and> cl_open cl = map_option open_view (as_open a)
     \<and> open_ok a \<and> map cb_idx (as_blocks a) = [0..<as_order a]"

definition tracked :: "json_codec \<Rightarrow> assembler \<Rightarrow> bool" where
  "tracked c a \<longleftrightarrow> (\<exists>cl. in_step c cl a)"

lemma emit_fields [simp]:
  "as_events (emit e a) = as_events a @ [e]" "as_sse (emit e a) = as_sse a" "as_order (emit e a) = as_order a"
  "as_open (emit e a) = as_open a" "as_blocks (emit e a) = as_blocks a" "as_pending (emit e a) = as_pending a"
  "as_failed (emit e a) = as_failed a" "as_last_finish (emit e a) = as_last_finish a"
  "as_input_tokens (emit e a) = as_input_tokens a" "as_output_tokens (emit e a) = as_output_tokens a"
  "as_fail_type (emit e a) = as_fail_type a" "as_fail_msg (emit e a) = as_fail_msg a"
  by (simp_all add: emit_def)

lemma in_step_frame:
  assumes "in_step c cl a"
    and "as_events a' = as_events a" "as_sse a' = as_sse a" "as_order a' = as_order a" "as_blocks a' = as_blocks a"
    and "map_option open_view (as_open a') = map_option open_view (as_open a)"
  shows "in_step c cl a'"
  using assms by (cases "as_open a"; cases "as_open a'") (auto simp: in_step_def open_ok_def open_view_def)

lemma tracked_frame:
  assumes "tracked c a"
    and "as_events a' = as_events a" "as_sse a' = as_sse a" "as_order a' = as_order a" "as_blocks a' = as_blocks a"
    and "as_open a' = as_open a"
  shows "tracked c a'"
  using assms in_step_frame unfolding tracked_def by metis

lemma tracked_emit:
  assumes "tracked c a" "\<And>cl. client_step cl e = Some cl"
  shows "tracked c (emit e a)"
proof -
  obtain cl where "in_step c cl a" using assms(1) by (auto simp: tracked_def)
  then have "in_step c cl (emit e a)"
    by (simp add: in_step_def client_run_append assms(2) open_ok_def)
  then show ?thesis by (auto simp: tracked_def)
qed

lemma tracked_open_new:
  assumes "tracked c a" "as_open a = None" "typ \<in> {block_text, block_thinking, block_tool_use}"
  shows "tracked c (open_new typ stream tool_id name a)"
proof -
  obtain cl where "in_step c cl a" using assms(1) by (auto simp: tracked_def)
  then have "in_step c (cl\<lparr>cl_open := Some (as_sse a, typ, []), cl_next := as_sse a + 1\<rparr>) (open_new typ stream tool_id name a)"
    using assms(2,3)
    by (auto simp: in_step_def open_new_def client_run_append open_ok_def open_view_def new_open_def)
  then show ?thesis by (auto simp: tracked_def)
qed

text \<open>A delta of the open block: the client sees the same content grow.\<close>

definition delta_event :: "open_block \<Rightarrow> string \<Rightarrow> event" where
  "delta_event ob s =
     (if ob_typ ob = block_text then TextDelta (ob_index ob) s
      else if ob_typ ob = block_thinking then ThinkingDelta (ob_index ob) s
      else InputJSONDelta (ob_index ob) s)"

definition grown :: "open_block \<Rightarrow> string \<Rightarrow> open_block \<Rightarrow> bool" where
  "grown ob s ob' \<longleftrightarrow>
     ob_index ob' = ob_index ob \<and> ob_typ ob' = ob_typ ob \<and> snd (snd (open_view ob')) = snd (snd (open_view ob)) @ s"

lemma in_step_delta:
  assumes "in_step c cl a" "as_open a = Some ob" "grown ob s ob'"
  shows "\<exists>cl'. in_step c cl' ((emit (delta_event ob s) a)\<lparr>as_open := Some ob'\<rparr>)"
proof
  show "in_step c (cl\<lparr>cl_open := Some (ob_index ob, ob_typ ob, snd (snd (open_view ob')))\<rparr>)
      ((emit (delta_event ob s) a)\<lparr>as_open := Some ob'\<rparr>)"
    using assms
    by (auto simp: in_step_def client_run_append open_ok_def open_view_def grown_def delta_event_def client_delta_def block_types)
qed

lemma tracked_delta:
  assumes "tracked c a" "as_open a = Some ob" "grown ob s ob'"
  shows "tracked c ((emit (delta_event ob s) a)\<lparr>as_open := Some ob'\<rparr>)"
  using assms in_step_delta unfolding tracked_def by blast

lemma tracked_silent:
  assumes "tracked c a" "as_open a = Some ob" "open_view ob' = open_view ob"
  shows "tracked c (a\<lparr>as_open := Some ob'\<rparr>)"
proof -
  obtain cl where "in_step c cl a" using assms(1) by (auto simp: tracked_def)
  then have "in_step c cl (a\<lparr>as_open := Some ob'\<rparr>)"
    by (rule in_step_frame) (use assms in simp_all)
  then show ?thesis by (auto simp: tracked_def)
qed


lemma tracked_seal:
  assumes "tracked c a" "as_open a = Some ob"
    and "as_events a' = as_events a @ [ContentBlockStop (ob_index ob)]" "as_sse a' = as_sse a"
    and "as_order a' = as_order a + 1" "as_blocks a' = as_blocks a @ sealed_block c (as_order a) ob" "as_open a' = None"
  shows "tracked c a'"
proof -
  obtain cl where cl: "in_step c cl a" using assms(1) by (auto simp: tracked_def)
  then have kind: "ob_typ ob \<in> {block_text, block_thinking, block_tool_use}"
    using assms(2) by (simp add: in_step_def open_ok_def)
  then have "list_all2 (shown c) [snd (open_view ob)] (sealed_block c (as_order a) ob)"
    and "map cb_idx (sealed_block c (as_order a) ob) = [as_order a]"
    by (auto simp: sealed_block_def shown_def open_view_def block_types zero_block_def)
  then have "in_step c (cl\<lparr>cl_open := None, cl_done := cl_done cl @ [snd (open_view ob)]\<rparr>) a'"
    using cl assms(2-)
    by (auto simp: in_step_def client_run_append open_ok_def open_view_def intro: list_all2_appendI)
  then show ?thesis by (auto simp: tracked_def)
qed

lemma tracked_text_locked:
  assumes "tracked c a" "as_open a = Some ob" "ob_typ ob = block_text" "open_view ob1 = open_view ob"
    and "text_locked ob1 released a = (ob2, a2)"
  shows "tracked c (a2\<lparr>as_open := Some ob2\<rparr>)"
proof (cases "released = []")
  case True
  then show ?thesis using assms tracked_silent [OF assms(1,2), of ob1] by (simp add: text_locked_def)
next
  case False
  then have "ob2 = ob1\<lparr>ob_text := ob_text ob1 @ released\<rparr>" "a2 = emit (delta_event ob released) a"
    using assms(3-) by (auto simp: text_locked_def delta_event_def open_view_def block_types)
  moreover have "grown ob released ob2"
    using assms(3,4) calculation(1) by (auto simp: grown_def open_view_def block_types)
  ultimately show ?thesis using tracked_delta [OF assms(1,2)] by simp
qed

lemma release_text_view: "release_text ob = (ob', s) \<Longrightarrow> open_view ob' = open_view ob \<and> ob_typ ob' = ob_typ ob"
  by (auto simp: release_text_def open_view_def split: prod.splits)

lemma feed_text_view: "feed_text ob s = (ob', r) \<Longrightarrow> open_view ob' = open_view ob \<and> ob_typ ob' = ob_typ ob"
  by (auto simp: feed_text_def open_view_def split: prod.splits)

lemma text_locked_fields:
  "text_locked ob r a = (ob', a') \<Longrightarrow>
     ob_typ ob' = ob_typ ob \<and> as_order a' = as_order a \<and> as_sse a' = as_sse a \<and> as_blocks a' = as_blocks a
     \<and> as_pending a' = as_pending a"
  by (auto simp: text_locked_def split: if_splits)

lemma close_locked_None: "as_open (close_locked c a) = None"
  by (simp add: close_locked_def Let_def split: option.split prod.split)

lemma tracked_close_locked:
  assumes "tracked c a"
  shows "tracked c (close_locked c a)"
proof (cases "as_open a")
  case None
  then show ?thesis using assms by (simp add: close_locked_def)
next
  case (Some ob)
  show ?thesis
  proof (cases "ob_typ ob = block_text")
    case True
    obtain ob1 r where r: "release_text ob = (ob1, r)" by fastforce
    obtain ob2 a2 where t: "text_locked ob1 r a = (ob2, a2)" by fastforce
    have "tracked c (a2\<lparr>as_open := Some ob2\<rparr>)"
      using tracked_text_locked [OF assms Some True _ t] release_text_view [OF r] by simp
    then show ?thesis
      by (rule tracked_seal [where ob = ob2])
         (use Some True r t release_text_view [OF r] text_locked_fields [OF t] in
           \<open>simp_all add: close_locked_def Let_def block_types\<close>)
  next
    case False
    show ?thesis
      by (rule tracked_seal [OF assms Some]) (use Some False in \<open>auto simp: close_locked_def Let_def block_types\<close>)
  qed
qed

lemma tracked_ensure_locked:
  assumes "tracked c a" "typ \<in> {block_text, block_thinking, block_tool_use}"
  shows "tracked c (ensure_locked c typ a) \<and> (\<exists>ob. as_open (ensure_locked c typ a) = Some ob \<and> ob_typ ob = typ)"
proof (cases "\<exists>ob \<in> set_option (as_open a). ob_typ ob = typ")
  case True
  then show ?thesis using assms(1) by (cases "as_open a") (auto simp: ensure_locked_def)
next
  case False
  then show ?thesis
    using tracked_open_new [OF tracked_close_locked [OF assms(1)] close_locked_None assms(2)]
    by (simp add: ensure_locked_def open_new_def new_open_def)
qed

lemma tracked_reasoning_chunk:
  assumes "tracked c a"
  shows "tracked c (reasoning_chunk c s a)"
proof (cases "s = []")
  case False
  obtain ob where ob: "tracked c (ensure_locked c block_thinking a)" "as_open (ensure_locked c block_thinking a) = Some ob"
    "ob_typ ob = block_thinking"
    using tracked_ensure_locked [OF assms, of block_thinking] by auto
  then show ?thesis
    using False tracked_delta [OF ob(1,2), of s "ob\<lparr>ob_text := ob_text ob @ s\<rparr>"]
    by (simp add: reasoning_chunk_def with_open_def delta_event_def grown_def open_view_def block_types)
qed (simp add: reasoning_chunk_def assms)

lemma tracked_content_chunk:
  assumes "tracked c a"
  shows "tracked c (content_chunk c s a)"
proof (cases "s = []")
  case False
  obtain ob where ob: "tracked c (ensure_locked c block_text a)" "as_open (ensure_locked c block_text a) = Some ob"
    "ob_typ ob = block_text"
    using tracked_ensure_locked [OF assms, of block_text] by auto
  obtain ob1 r where r: "feed_text ob s = (ob1, r)" by fastforce
  obtain ob2 a2 where t: "text_locked ob1 r (ensure_locked c block_text a) = (ob2, a2)" by fastforce
  show ?thesis
    using False ob r t tracked_text_locked [OF ob _ t] feed_text_view [OF r]
    by (simp add: content_chunk_def with_open_def block_types)
qed (simp add: content_chunk_def assms)

lemma tracked_tool_call_args:
  assumes "tracked c a" "as_open a = Some ob" "ob_typ ob = block_tool_use"
  shows "tracked c (with_open (tool_call_args tc) a)"
proof -
  let ?ob = "fill_tool tc ob"
  have ob1: "open_view ?ob = open_view ob" "ob_typ ?ob = ob_typ ob" "ob_index ?ob = ob_index ob"
    by (simp_all add: fill_tool_def Let_def open_view_def)
  then show ?thesis
    using assms tracked_silent [OF assms(1,2) ob1(1)]
      tracked_delta [OF assms(1,2), of "tc_args tc" "?ob\<lparr>ob_args := ob_args ?ob @ tc_args tc\<rparr>"]
    by (simp add: with_open_def tool_call_args_def Let_def delta_event_def grown_def open_view_def block_types)
qed

lemma tracked_tool_call_chunk:
  assumes "tracked c a"
  shows "tracked c (tool_call_chunk c a tc)"
proof -
  define i where "i = (case tc_index tc of None \<Rightarrow> 0 | Some i \<Rightarrow> i)"
  define b where "b = (if (case as_open a of None \<Rightarrow> False | Some ob \<Rightarrow> ob_typ ob = ''tool_use'' \<and> ob_stream ob = i) then a
     else open_new ''tool_use'' i (tc_id tc) (tc_name tc) (close_locked c a))"
  have "tracked c b \<and> (\<exists>ob. as_open b = Some ob \<and> ob_typ ob = block_tool_use)"
    using assms tracked_open_new [OF tracked_close_locked [OF assms] close_locked_None, of block_tool_use]
    by (auto simp: b_def open_new_def new_open_def block_types split: option.splits)
  moreover have "tool_call_chunk c a tc = with_open (tool_call_args tc) b"
    by (simp only: tool_call_chunk_def Let_def i_def b_def)
  ultimately show ?thesis using tracked_tool_call_args [of c b _ tc] by auto
qed

lemma tracked_model_chunk:
  assumes "tracked c a"
  shows "tracked c (model_chunk c m a)"
proof -
  have "tracked c (foldl (tool_call_chunk c) a tcs)" if "tracked c a" for a tcs
    using that by (induction tcs arbitrary: a) (simp_all add: tracked_tool_call_chunk)
  then show ?thesis
    using assms tracked_content_chunk tracked_reasoning_chunk by (simp add: model_chunk_def split: option.split)
qed

lemma tracked_tool_end:
  assumes "tracked c a"
  shows "tracked c (tool_end name response is_err a)"
proof -
  obtain cl where "in_step c cl a" using assms by (auto simp: tracked_def)
  then have "in_step c (cl\<lparr>cl_done := cl_done cl @ [(block_tool_result, response)]\<rparr>) (tool_end name response is_err a)"
    by (auto simp: in_step_def tool_end_def Let_def client_run_append open_ok_def shown_def tool_result_block_def block_types zero_block_def
        case_prod_unfold intro!: list_all2_appendI)
  then show ?thesis by (auto simp: tracked_def)
qed

lemma tracked_step:
  assumes "tracked c a"
  shows "tracked c (asm_step c a op)"
proof (cases op)
  case (AMessageStart i m s n)
  then show ?thesis using assms
    by (auto simp: message_start_def intro!: tracked_emit elim: tracked_frame)
next
  case (AChunk m)
  then show ?thesis using assms tracked_model_chunk by simp
next
  case (ACallDone f u)
  have "tracked c (close_locked c (a\<lparr>as_steps := as_steps a + 1\<rparr>))"
    using assms by (intro tracked_close_locked) (auto elim: tracked_frame)
  then show ?thesis using ACallDone
    by (auto simp: model_call_done_def Let_def elim: tracked_frame split: option.split)
next
  case (AToolStart n s)
  then show ?thesis using assms
    by (auto simp: tool_start_def Let_def case_prod_unfold intro!: tracked_emit elim: tracked_frame)
next
  case (AToolEnd n r e)
  then show ?thesis using assms tracked_tool_end by simp
next
  case (AFinish d)
  then show ?thesis using tracked_close_locked [OF assms]
    by (auto simp: finish_turn_def Let_def elim: tracked_frame)
next
  case AInterrupt
  then show ?thesis using tracked_close_locked [OF assms]
    by (auto simp: interrupt_turn_def elim: tracked_frame)
next
  case (AFail t m)
  then show ?thesis using assms
    by (auto simp: fail_turn_def intro!: tracked_close_locked elim: tracked_frame)
next
  case AEmitStop
  then show ?thesis using assms by (auto simp: emit_stop_def intro!: tracked_emit)
next
  case (ASetRefs rs)
  then show ?thesis using assms by (auto simp: set_cite_refs_def elim: tracked_frame)
qed

lemma tracked_run: "tracked c (asm_run c ops)"
proof -
  have "tracked c (foldl (asm_step c) a ops)" if "tracked c a" for a
    using that by (induction ops arbitrary: a) (simp_all add: tracked_step)
  moreover have "in_step c new_client new_assembler"
    by (simp add: in_step_def new_client_def new_assembler_def open_ok_def)
  ultimately show ?thesis unfolding asm_run_def tracked_def by blast
qed

end
