(* ===== verification/TurnResults.thy ===== *)
theory TurnResults
  imports TurnStream "HOL-Library.Multiset"
begin

text \<open>
  The stored blocks of a turn: how they evolve with the pending tools, which results answer which
  calls, their order, and the properties of the assembler.
\<close>

subsection \<open>How the blocks and the pending tools evolve\<close>

text \<open>
  What an operation does to the stored blocks and the pending tools is a few small steps: a block is
  sealed, a tool starts, a tool ends. Invariants of these two are proved on the steps.
\<close>

abbreviation parts :: "assembler \<Rightarrow> content_block list \<times> tool_ref list" where
  "parts a \<equiv> (as_blocks a, as_pending a)"

inductive parts_step :: "content_block list \<times> tool_ref list \<Rightarrow> content_block list \<times> tool_ref list \<Rightarrow> bool" where
  seal: "parts_step (bs, ps)
      (bs @ sealed_block c n ob, ps @ (if ob_typ ob = ''tool_use'' then [opened_ref c ob] else []))"
| begin_known: "i < length ps \<Longrightarrow> parts_step (bs, ps) (bs, ps[i := (ps ! i)\<lparr>tr_started := True\<rparr>])"
| begin_other: "tr_id r = [] \<Longrightarrow> \<not> tr_done r \<Longrightarrow> parts_step (bs, ps) (bs, ps @ [r])"
| end_known: "i < length ps \<Longrightarrow> \<not> tr_done (ps ! i) \<Longrightarrow>
    parts_step (bs, ps)
      (bs @ [tool_result_block n name (tr_id (ps ! i)) response err], ps[i := (ps ! i)\<lparr>tr_done := True\<rparr>])"
| end_other: "parts_step (bs, ps) (bs @ [tool_result_block n name [] response err], ps)"

lemma first_index_Some: "first_index P xs = Some i \<Longrightarrow> i < length xs \<and> P (xs ! i)"
  using nth_length_takeWhile [of "\<lambda>x. \<not> P x" xs]
  by (auto simp: first_index_def Let_def split: if_splits)

lemma close_locked_parts: "parts_step\<^sup>*\<^sup>* (parts a) (parts (close_locked c a))"
proof (cases "as_open a")
  case None
  then show ?thesis by (simp add: close_locked_def)
next
  case (Some ob)
  have "\<exists>n ob'. as_blocks (close_locked c a) = as_blocks a @ sealed_block c n ob'
      \<and> as_pending (close_locked c a) = as_pending a @ (if ob_typ ob' = ''tool_use'' then [opened_ref c ob'] else [])"
  proof (cases "ob_typ ob = ''text''")
    case True
    obtain ob1 r where r: "release_text ob = (ob1, r)" by fastforce
    obtain ob2 a2 where t: "text_locked ob1 r a = (ob2, a2)" by fastforce
    show ?thesis
      using Some True r t release_text_view [OF r] text_locked_fields [OF t]
      by (intro exI [of _ "as_order a"] exI [of _ ob2]) (simp add: close_locked_def Let_def)
  next
    case False
    then show ?thesis
      using Some by (intro exI [of _ "as_order a"] exI [of _ ob]) (simp add: close_locked_def Let_def)
  qed
  then show ?thesis using parts_step.seal [of "as_blocks a" "as_pending a"] by auto
qed

lemma open_new_parts [simp]: "parts (open_new typ stream i n a) = parts a"
  by (simp add: open_new_def)

lemma with_open_parts:
  "(\<And>ob. parts (snd (f ob a)) = parts a) \<Longrightarrow> parts (with_open f a) = parts a"
  by (simp add: with_open_def Let_def case_prod_unfold split: option.split)

lemma ensure_locked_parts: "parts_step\<^sup>*\<^sup>* (parts a) (parts (ensure_locked c typ a))"
  using close_locked_parts [of a c] by (simp add: ensure_locked_def del: Pair_inject)

lemma tool_call_args_parts: "parts (snd (tool_call_args tc ob a)) = parts a"
  by (simp add: tool_call_args_def Let_def)

lemma tool_call_chunk_parts: "parts_step\<^sup>*\<^sup>* (parts a) (parts (tool_call_chunk c a tc))"
proof -
  define b where "b = (if (case as_open a of None \<Rightarrow> False | Some ob \<Rightarrow> ob_typ ob = ''tool_use''
       \<and> ob_stream ob = (case tc_index tc of None \<Rightarrow> 0 | Some i \<Rightarrow> i)) then a
     else open_new ''tool_use'' (case tc_index tc of None \<Rightarrow> 0 | Some i \<Rightarrow> i) (tc_id tc) (tc_name tc) (close_locked c a))"
  have "parts_step\<^sup>*\<^sup>* (parts a) (parts b)"
    using close_locked_parts [of a c] by (simp add: b_def open_new_def split: option.split)
  moreover have "tool_call_chunk c a tc = with_open (tool_call_args tc) b"
    by (simp only: tool_call_chunk_def Let_def b_def)
  moreover have "parts (with_open (tool_call_args tc) b) = parts b"
    by (rule with_open_parts) (rule tool_call_args_parts)
  ultimately show ?thesis by metis
qed

lemma reasoning_chunk_parts: "parts_step\<^sup>*\<^sup>* (parts a) (parts (reasoning_chunk c s a))"
proof -
  have "parts (with_open (\<lambda>ob a. (ob\<lparr>ob_text := ob_text ob @ s\<rparr>, emit (ThinkingDelta (ob_index ob) s) a)) b) = parts b" for b
    by (rule with_open_parts) simp
  then show ?thesis using ensure_locked_parts by (simp add: reasoning_chunk_def del: Pair_inject)
qed

lemma content_chunk_parts: "parts_step\<^sup>*\<^sup>* (parts a) (parts (content_chunk c s a))"
proof -
  have "parts (with_open (\<lambda>ob a. let (ob, r) = feed_text ob s in text_locked ob r a) b) = parts b" for b
    by (rule with_open_parts) (simp add: case_prod_unfold text_locked_def Let_def)
  then show ?thesis using ensure_locked_parts by (simp add: content_chunk_def del: Pair_inject)
qed

lemma model_chunk_parts: "parts_step\<^sup>*\<^sup>* (parts a) (parts (model_chunk c m a))"
proof -
  have calls: "parts_step\<^sup>*\<^sup>* (parts a) (parts (foldl (tool_call_chunk c) a tcs))" for a tcs
  proof (induction tcs arbitrary: a)
    case (Cons tc tcs)
    then show ?case using rtranclp_trans [OF tool_call_chunk_parts [of a c tc]] by simp
  qed simp
  show ?thesis
  proof (cases m)
    case (Some x)
    show ?thesis
      unfolding model_chunk_def Some option.case
      by (rule rtranclp_trans [OF reasoning_chunk_parts rtranclp_trans [OF content_chunk_parts calls]])
  qed (simp add: model_chunk_def)
qed

lemma tool_start_parts: "parts_step\<^sup>*\<^sup>* (parts a) (parts (tool_start c name args a))"
proof (cases "match_pending c (as_pending a) name args")
  case None
  then show ?thesis
    by (auto simp: tool_start_def Let_def intro!: r_into_rtranclp parts_step.begin_other)
next
  case (Some i)
  then have "i < length (as_pending a)"
    by (auto simp: match_pending_def Let_def dest: first_index_Some split: option.splits)
  then show ?thesis
    using Some by (auto simp: tool_start_def Let_def intro!: r_into_rtranclp parts_step.begin_known)
qed

lemma tool_end_parts: "parts_step\<^sup>*\<^sup>* (parts a) (parts (tool_end name response err a))"
proof (cases "match_started (as_pending a) name")
  case None
  then show ?thesis
    by (auto simp: tool_end_def Let_def intro!: r_into_rtranclp parts_step.end_other)
next
  case (Some i)
  then have "i < length (as_pending a)" "\<not> tr_done (as_pending a ! i)"
    by (auto simp: match_started_def dest: first_index_Some)
  then show ?thesis
    using Some by (auto simp: tool_end_def Let_def intro!: r_into_rtranclp parts_step.end_known)
qed

lemma asm_step_parts: "parts_step\<^sup>*\<^sup>* (parts a) (parts (asm_step c a op))"
proof (cases op)
  case (ACallDone f u)
  then show ?thesis
    using close_locked_parts [of "a\<lparr>as_steps := as_steps a + 1\<rparr>" c]
    by (simp add: model_call_done_def Let_def split: option.split)
next
  case (AFinish d)
  then show ?thesis using close_locked_parts [of a c] by (simp add: finish_turn_def Let_def)
next
  case AInterrupt
  then show ?thesis using close_locked_parts [of a c] by (simp add: interrupt_turn_def)
next
  case (AFail t m)
  then show ?thesis
    using close_locked_parts [of "a\<lparr>as_failed := True, as_fail_type := t, as_fail_msg := m\<rparr>" c]
    by (simp add: fail_turn_def)
qed (simp_all add: message_start_def emit_stop_def set_cite_refs_def model_chunk_parts tool_start_parts tool_end_parts
    del: Pair_inject)

lemma asm_run_parts: "parts_step\<^sup>*\<^sup>* ([], []) (parts (asm_run c ops))"
proof -
  have "parts_step\<^sup>*\<^sup>* (parts a) (parts (foldl (asm_step c) a ops))" for a
  proof (induction ops arbitrary: a)
    case (Cons op ops)
    then show ?case using rtranclp_trans [OF asm_step_parts [of a c op]] by simp
  qed simp
  from this [of new_assembler] show ?thesis by (simp add: asm_run_def new_assembler_def)
qed


subsection \<open>Results and calls\<close>

definition named_ids :: "string list \<Rightarrow> string multiset" where
  "named_ids is = mset (filter (\<lambda>i. i \<noteq> []) is)"

definition block_ids :: "string \<Rightarrow> content_block list \<Rightarrow> string multiset" where
  "block_ids typ bs = named_ids (map cb_tool_use_id (filter (\<lambda>b. cb_type b = typ) bs))"

lemma named_ids_Nil [simp]: "named_ids [] = {#}"
  by (simp add: named_ids_def)

lemma named_ids_append [simp]: "named_ids (xs @ ys) = named_ids xs + named_ids ys"
  by (simp add: named_ids_def)

lemma block_ids_append [simp]: "block_ids typ (bs @ bs') = block_ids typ bs + block_ids typ bs'"
  by (simp add: block_ids_def)

text \<open>The pending tools are those of the tool calls, and the results are those of the tools that ended.\<close>

definition answered :: "content_block list \<times> tool_ref list \<Rightarrow> bool" where
  "answered s \<longleftrightarrow>
     (case s of (bs, ps) \<Rightarrow>
        block_ids block_tool_use bs = named_ids (map tr_id ps)
        \<and> block_ids block_tool_result bs = named_ids (map tr_id (filter tr_done ps)))"

lemma block_ids_result:
  "block_ids block_tool_use [tool_result_block n name i r err] = {#}"
  "block_ids block_tool_result [tool_result_block n name i r err] = named_ids [i]"
  by (simp_all add: block_ids_def tool_result_block_def zero_block_def block_types named_ids_def)

lemma block_ids_sealed:
  "block_ids block_tool_use (sealed_block c n ob) = (if ob_typ ob = ''tool_use'' then named_ids [ob_tool_id ob] else {#})"
  "block_ids block_tool_result (sealed_block c n ob) = {#}"
  by (auto simp: block_ids_def sealed_block_def zero_block_def block_types)

lemma named_ids_update:
  assumes "i < length ps"
  shows "named_ids (map tr_id (filter P (ps[i := r])))
      = named_ids (map tr_id (filter P (take i ps))) + (if P r then named_ids [tr_id r] else {#})
        + named_ids (map tr_id (filter P (drop (Suc i) ps)))"
  using assms by (simp add: upd_conv_take_nth_drop named_ids_def)

lemma named_ids_self:
  assumes "i < length ps"
  shows "named_ids (map tr_id (filter P ps))
      = named_ids (map tr_id (filter P (take i ps))) + (if P (ps ! i) then named_ids [tr_id (ps ! i)] else {#})
        + named_ids (map tr_id (filter P (drop (Suc i) ps)))"
  using named_ids_update [OF assms, of P "ps ! i"] by simp

lemma answered_step: "parts_step s s' \<Longrightarrow> answered s \<Longrightarrow> answered s'"
proof (induction rule: parts_step.induct)
  case (seal bs ps c n ob)
  then show ?case by (simp add: answered_def block_ids_sealed opened_ref_def)
next
  case (begin_known i ps bs)
  then show ?case
    using named_ids_update [OF begin_known(1), of "\<lambda>_. True"] named_ids_self [OF begin_known(1), of "\<lambda>_. True"]
      named_ids_update [OF begin_known(1), of tr_done] named_ids_self [OF begin_known(1), of tr_done]
    by (simp add: answered_def)
next
  case (begin_other r bs ps)
  then show ?case by (simp add: answered_def named_ids_def)
next
  case (end_known i ps bs n name response err)
  then show ?case
    using named_ids_update [OF end_known(1), of "\<lambda>_. True"] named_ids_self [OF end_known(1), of "\<lambda>_. True"]
      named_ids_update [OF end_known(1), of tr_done] named_ids_self [OF end_known(1), of tr_done]
    by (simp add: answered_def block_ids_result)
next
  case (end_other bs ps n name response err)
  then show ?case by (simp add: answered_def block_ids_result named_ids_def)
qed

interpretation answers: preserved parts_step "([], [])" answered
proof
  show "answered ([], [])" by (simp add: answered_def block_ids_def named_ids_def)
qed (rule answered_step)

text \<open>The assembler never sets \<^verbatim>\<open>ToolResult\<close>: the response is in \<^verbatim>\<open>Text\<close>.\<close>

definition unrendered :: "content_block list \<times> tool_ref list \<Rightarrow> bool" where
  "unrendered s \<longleftrightarrow> list_all (\<lambda>b. cb_tool_result b = None) (fst s)"

interpretation results: preserved parts_step "([], [])" unrendered
proof
  show "unrendered s'" if "parts_step s s'" "unrendered s" for s s'
    using that by cases (auto simp: unrendered_def sealed_block_def tool_result_block_def zero_block_def)
qed (simp add: unrendered_def)

subsection \<open>The order of the result\<close>

lemma sink_last: "list_all (\<lambda>p. cb_idx p \<le> cb_idx b) ps \<Longrightarrow> sink ps b = b # ps"
  by (cases ps) auto

lemma sort_in_order:
  "sorted (map cb_idx bs) \<Longrightarrow> rev (foldl sink [] bs) = bs"
proof (induction bs rule: rev_induct)
  case (snoc b bs)
  then have "foldl sink [] bs = rev bs" by (metis rev_rev_ident sorted_append map_append)
  moreover have "list_all (\<lambda>p. cb_idx p \<le> cb_idx b) (rev bs)"
    using snoc.prems by (auto simp: sorted_append list_all_iff)
  ultimately show ?case by (simp add: sink_last)
qed simp

lemma number_from_id: "map cb_idx bs = [i..<i + length bs] \<Longrightarrow> number_from i bs = bs"
proof (induction bs arbitrary: i)
  case (Cons b bs)
  then have "cb_idx b = i" "map cb_idx bs = [Suc i..<Suc i + length bs]"
    by (auto simp: upt_conv_Cons simp del: upt_Suc)
  moreover have "b\<lparr>cb_idx := cb_idx b\<rparr> = b" by (cases b) simp
  ultimately show ?case using Cons.IH by (simp del: upt_Suc)
qed simp

lemma map_finish_reason_idem: "map_finish_reason (map_finish_reason r) = map_finish_reason r"
proof -
  have lower: "to_lower ''end_turn'' = ''end_turn''" "to_lower ''max_tokens'' = ''max_tokens''"
    "to_lower ''stop_sequence'' = ''stop_sequence''" "to_lower [] = []"
    by (simp_all add: text_simps to_lower_rune_def char_of_eq_iff)
  then have fixed: "map_finish_reason ''end_turn'' = ''end_turn''" "map_finish_reason ''max_tokens'' = ''max_tokens''"
    "map_finish_reason ''stop_sequence'' = ''stop_sequence''" "map_finish_reason [] = []"
    by (simp_all add: map_finish_reason_def)
  then have "map_finish_reason r \<in> {''end_turn'', ''max_tokens'', ''stop_sequence'', []} \<or> map_finish_reason r = r"
    by (simp add: map_finish_reason_def Let_def)
  then show ?thesis using fixed by auto
qed


subsection \<open>What the assembler promises\<close>


text \<open>
  The result holds every stored block, unchanged and in the order in which the blocks were
  completed, numbered 0, 1, 2, ... without a gap: sorting and numbering find nothing to do.
\<close>

theorem result_in_order:
  "fst (asm_result d (asm_run c ops)) = as_blocks (asm_run c ops)
   \<and> map cb_idx (as_blocks (asm_run c ops)) = [0..<length (as_blocks (asm_run c ops))]"
proof -
  obtain cl where "in_step c cl (asm_run c ops)" using tracked_run [of c ops] by (auto simp: tracked_def)
  then have idx: "map cb_idx (as_blocks (asm_run c ops)) = [0..<as_order (asm_run c ops)]"
    by (simp add: in_step_def)
  then have n: "as_order (asm_run c ops) = length (as_blocks (asm_run c ops))"
    by (metis diff_zero length_map length_upt)
  show ?thesis
    using sort_in_order [of "as_blocks (asm_run c ops)"] number_from_id [of "as_blocks (asm_run c ops)" 0] idx n
    by (simp add: asm_result_def sort_blocks_by_idx_def Let_def)
qed

text \<open>
  The client and the store agree on how a turn ended: after the turn is finished or interrupted,
  the last events carry the stop reason and the token counts of the stored result, or the error
  when the result says \<^verbatim>\<open>error\<close>.
\<close>

definition ends_as :: "assembler \<Rightarrow> bool" where
  "ends_as a \<longleftrightarrow>
     (let st = snd (asm_result ''end_turn'' a) in
      as_events (emit_stop a) =
        as_events a @
        (if as_failed a then [ErrorEvent (as_fail_type a) (as_fail_msg a)]
         else [MessageDelta (rs_stop_reason st) (rs_input_tokens st) (rs_output_tokens st), MessageStop])
      \<and> (if as_failed a then rs_stop_reason st = ''error'' else rs_stop_reason st \<noteq> []))"

theorem stop_reason_agrees:
  "ends_as (finish_turn c ''end_turn'' a) \<and> ends_as (interrupt_turn c a) \<and> ends_as (fail_turn c t m a)"
proof -
  have lower: "to_lower ''end_turn'' = ''end_turn''" "to_lower ''interrupted'' = ''interrupted''"
    by (simp_all add: text_simps to_lower_rune_def char_of_eq_iff)
  have reason: "map_finish_reason (as_last_finish (finish_turn c ''end_turn'' a)) = as_last_finish (finish_turn c ''end_turn'' a)
     \<and> as_last_finish (finish_turn c ''end_turn'' a) \<noteq> []"
    using map_finish_reason_idem lower(1) by (simp add: finish_turn_def Let_def) (simp add: map_finish_reason_def)
  have "map_finish_reason ''interrupted'' = ''interrupted''"
    using lower(2) by (simp add: map_finish_reason_def)
  then have "ends_as (interrupt_turn c a)"
    by (simp add: ends_as_def emit_stop_def asm_result_def interrupt_turn_def)
  moreover have "ends_as (finish_turn c ''end_turn'' a)"
    using reason by (simp add: ends_as_def emit_stop_def asm_result_def)
  moreover have "as_failed (close_locked c b) = as_failed b" for b
    by (simp add: close_locked_def Let_def text_locked_def split: option.split prod.split)
  then have "as_failed (fail_turn c t m a)" by (simp add: fail_turn_def)
  then have "ends_as (fail_turn c t m a)"
    by (simp add: ends_as_def emit_stop_def asm_result_def)
  ultimately show ?thesis by blast
qed


text \<open>
  A tool result of an earlier turn reaches the model as empty text: the assembler stores the
  response in \<^verbatim>\<open>Text\<close> and leaves \<^verbatim>\<open>ToolResult\<close> nil, while the history reads \<^verbatim>\<open>ToolResult\<close>; so in the
  transcript built from any stored turn every tool message is empty.
\<close>

theorem stored_results_are_lost:
  "list_all (\<lambda>m. m_content m = [])
     (filter is_tool (message_parts c \<lparr>mg_role = role_assistant, mg_blocks = fst (asm_result d (asm_run c ops))\<rparr>))"
proof -
  define bs where "bs = fst (asm_result d (asm_run c ops))"
  have "unrendered (parts (asm_run c ops))" by (rule results.always) (rule asm_run_parts)
  moreover have "cb_tool_result b = None" if "b \<in> set (number_from n (rev (foldl sink acc bs)))"
    "list_all (\<lambda>b. cb_tool_result b = None) bs" "list_all (\<lambda>b. cb_tool_result b = None) acc" for b n acc bs
  proof -
    have sunk: "list_all (\<lambda>b. cb_tool_result b = None) (sink ps b)"
      if "list_all (\<lambda>b. cb_tool_result b = None) ps" "cb_tool_result b = None" for ps b
      using that by (induction ps b rule: sink.induct) auto
    have "list_all (\<lambda>b. cb_tool_result b = None) (foldl sink acc bs)"
      using that(2,3) by (induction bs arbitrary: acc) (simp_all add: sunk)
    moreover have "b \<in> set (number_from n xs) \<Longrightarrow> list_all (\<lambda>b. cb_tool_result b = None) xs \<Longrightarrow> cb_tool_result b = None" for xs
      by (induction n xs rule: number_from.induct) auto
    ultimately show ?thesis using that(1) by (simp add: list_all_iff)
  qed
  ultimately have "list_all (\<lambda>b. cb_tool_result b = None) bs"
    unfolding bs_def asm_result_def sort_blocks_by_idx_def Let_def fst_conv list_all_iff
    by (auto simp: unrendered_def list_all_iff)
  then have "list_all (\<lambda>m. m_content m = []) (snd (snd (assistant_parts c bs t cs rs)))"
    if "list_all (\<lambda>m. m_content m = []) rs" for t cs rs
    using that
    by (induction c bs t cs rs rule: assistant_parts.induct) (auto simp: tool_message_def tool_result_text_def)
  from this [of "[]" "[]" "[]"] show ?thesis
    by (auto simp: message_parts_def pair_tool_calls_def Let_def case_prod_unfold list_all_iff bs_def [symmetric]
        role_user_def role_assistant_def split: if_splits)
qed

definition example_codec :: json_codec where
  "example_codec =
     \<lparr>decode_json = (\<lambda>s. None),
      encode_json = (\<lambda>j. case j of JObject ((k, JString s) # ms) \<Rightarrow> s | _ \<Rightarrow> [])\<rparr>"

definition example_call :: "int \<Rightarrow> string \<Rightarrow> string \<Rightarrow> tool_call" where
  "example_call i call_id args = \<lparr>tc_index = Some i, tc_id = call_id, tc_name = ''web'', tc_args = args\<rparr>"

definition example_turn :: "asm_op list" where
  "example_turn =
     [AChunk (Some (assistant_message [] [example_call 0 ''a'' ''1'', example_call 1 ''b'' ''2''])),
      ACallDone ''tool_calls'' None, AToolStart ''web'' ''1'', AToolStart ''web'' ''2'',
      AToolEnd ''web'' ''result of 2'' False, AToolEnd ''web'' ''result of 1'' False]"


lemma example_args:
  "parse_tool_args example_codec ''1'' = Some [(''_raw'', JString ''1'')]"
  "parse_tool_args example_codec ''2'' = Some [(''_raw'', JString ''2'')]"
  "normalize_json example_codec ''1'' = ''1''" "normalize_json example_codec ''2'' = ''2''"
  by (simp_all add: parse_tool_args_def normalize_json_def decode_map_def example_codec_def text_simps is_space_ascii)

lemma example_encode: "encode_map example_codec (Some [(k, JString s)]) = s"
  by (simp add: encode_map_def example_codec_def)

definition example_ref :: "string \<Rightarrow> string \<Rightarrow> bool \<Rightarrow> bool \<Rightarrow> tool_ref" where
  "example_ref i s started ended = \<lparr>tr_id = i, tr_name = ''web'', tr_input = s, tr_started = started, tr_done = ended\<rparr>"

lemma example_calls:
  "parts (foldl (asm_step example_codec) new_assembler (take 2 example_turn))
   = (concat (map (\<lambda>(n, i, s). sealed_block example_codec n
         ((new_open n ''tool_use'' (int n) i ''web'' [])\<lparr>ob_args := s\<rparr>)) [(0, ''a'', ''1''), (1, ''b'', ''2'')]),
      [example_ref ''a'' ''1'' False False, example_ref ''b'' ''2'' False False])"
  by (simp add: example_turn_def example_call_def assistant_message_def model_chunk_def numeral_2_eq_2
      reasoning_chunk_def content_chunk_def tool_call_chunk_def tool_call_args_def fill_tool_def open_new_def new_open_def
      with_open_def close_locked_def new_assembler_def emit_def opened_ref_def example_args example_encode
      model_call_done_def example_ref_def sealed_block_def)


lemma example_tools:
  assumes "as_pending a = [example_ref ''a'' ''1'' False False, example_ref ''b'' ''2'' False False]"
  shows "as_blocks (foldl (asm_step example_codec) a (drop 2 example_turn))
    = as_blocks a @ [tool_result_block (as_order a) ''web'' ''a'' ''result of 2'' False,
        tool_result_block (as_order a + 1) ''web'' ''b'' ''result of 1'' False]"
  using assms
  by (simp add: example_turn_def tool_start_def tool_end_def match_pending_def match_started_def first_index_def
      example_args example_ref_def emit_def)

text \<open>
  Results of parallel calls of one tool can be swapped: \<^verbatim>\<open>toolEnd\<close> only knows the tool's name
  and takes the first call that has started, so when the second of two calls ends first its response
  is stored as the answer of the first.
\<close>

theorem parallel_results_swapped:
  "map (\<lambda>b. (cb_tool_use_id b, cb_tool_input b, cb_text b)) (as_blocks (asm_run example_codec example_turn))
   = [(''a'', Some [(''_raw'', JString ''1'')], []), (''b'', Some [(''_raw'', JString ''2'')], []),
      (''a'', None, ''result of 2''), (''b'', None, ''result of 1'')]"
proof -
  have "asm_run example_codec example_turn
     = foldl (asm_step example_codec) (foldl (asm_step example_codec) new_assembler (take 2 example_turn)) (drop 2 example_turn)"
    by (simp only: asm_run_def foldl_append [symmetric] append_take_drop_id)
  then show ?thesis
    using example_calls example_tools
    by (simp add: sealed_block_def new_open_def tool_result_block_def zero_block_def example_args)
qed

end
