(* ===== verification/TextUtil.thy ===== *)
theory TextUtil
  imports GoText Complex_Main
begin

text \<open>
  The text helpers of the document pipeline (\<^verbatim>\<open>docpipe/textutil/textutil.go\<close>): accent folding,
  comparison keys, edit distance and the reading of numbers. The Unicode decomposition of
  \<^verbatim>\<open>golang.org/x/text\<close> is an argument \<open>nfd\<close> (\<open>None\<close> is its error); a float64 is the rational it
  denotes, and \<open>rnd\<close> is the rounding of a rational to a float64 (infinities are not modelled).
\<close>

subsection \<open>Literals outside ASCII\<close>

text \<open>A literal with code points written \<^verbatim>\<open>~hex;\<close>, as UTF-8.\<close>

definition hex_value :: "char \<Rightarrow> nat" where
  "hex_value c = (if is_ascii_digit c then of_char c - 48 else of_char c - 55)"

fun vn_from :: "nat option \<Rightarrow> string \<Rightarrow> string" where
  "vn_from acc [] = []"
| "vn_from None (c # s) = (if c = CHR 0x7E then vn_from (Some 0) s else c # vn_from None s)"
| "vn_from (Some n) (c # s) =
     (if c = CHR '';'' then encode_rune n @ vn_from None s else vn_from (Some (16 * n + hex_value c)) s)"

definition vn :: "string \<Rightarrow> string" where "vn s = vn_from None s"

subsection \<open>Accents and spaces\<close>

text \<open>The replacer of the two letters that do not decompose (U+0111 and U+0110).\<close>

fun replace_dd :: "string \<Rightarrow> string" where
  "replace_dd (a # b # s) =
     (if a = CHR 0xC4 \<and> b = CHR 0x91 then CHR ''d'' # replace_dd s
      else if a = CHR 0xC4 \<and> b = CHR 0x90 then CHR ''D'' # replace_dd s
      else a # replace_dd (b # s))"
| "replace_dd s = s"

definition unaccent :: "(string \<Rightarrow> string option) \<Rightarrow> string \<Rightarrow> string" where
  "unaccent nfd s = to_lower (case nfd (replace_dd s) of None \<Rightarrow> replace_dd s | Some out \<Rightarrow> out)"

text \<open>\<^verbatim>\<open>strings.Fields\<close>: the runs of bytes between white space.\<close>

function fields_at :: "string \<Rightarrow> string \<Rightarrow> string list" where
  "fields_at word s =
     (if s = [] then (if word = [] then [] else [word])
      else
        (let (r, n) = decode_rune s in
         if is_space r then (if word = [] then [] else [word]) @ fields_at [] (drop n s)
         else fields_at (word @ take n s) (drop n s)))"
  by pat_completeness auto
termination
  by (relation "measure (\<lambda>(word, s). length s)") (auto dest: decode_rune_size simp: split_pairs)

declare fields_at.simps [simp del]

fun join_with :: "string \<Rightarrow> string list \<Rightarrow> string" where
  "join_with sep [] = []"
| "join_with sep [w] = w"
| "join_with sep (w # ws) = w @ sep @ join_with sep ws"

definition collapse_space :: "string \<Rightarrow> string" where
  "collapse_space s = join_with '' '' (fields_at [] s)"

definition normalize_text :: "(string \<Rightarrow> string option) \<Rightarrow> string \<Rightarrow> string" where
  "normalize_text nfd s = collapse_space (unaccent nfd s)"

definition contains_sub :: "string \<Rightarrow> string \<Rightarrow> bool" where
  "contains_sub s sub = sublist sub s"

definition contains_fold :: "(string \<Rightarrow> string option) \<Rightarrow> string \<Rightarrow> string \<Rightarrow> bool" where
  "contains_fold nfd haystack needle = contains_sub (normalize_text nfd haystack) (normalize_text nfd needle)"

subsection \<open>Edit distance\<close>

text \<open>
  The inner loop over \<open>j\<close>: \<open>diag\<close> is \<^verbatim>\<open>prev[j-1]\<close>, the list is \<^verbatim>\<open>prev[j..]\<close>, \<open>left\<close> is \<^verbatim>\<open>cur[j-1]\<close>.
\<close>

fun lev_row :: "'a \<Rightarrow> 'a list \<Rightarrow> nat \<Rightarrow> nat list \<Rightarrow> nat \<Rightarrow> nat list" where
  "lev_row x (y # bs) diag (p # ps) left =
     (let v = min (min (p + 1) (left + 1)) (diag + (if x = y then 0 else 1))
      in v # lev_row x bs p ps v)"
| "lev_row x _ _ _ _ = []"

text \<open>The outer loop from row \<open>i\<close> on.\<close>

fun lev_rows :: "nat \<Rightarrow> 'a list \<Rightarrow> 'a list \<Rightarrow> nat list \<Rightarrow> nat list" where
  "lev_rows i [] bs prev = prev"
| "lev_rows i (x # xs) bs prev = lev_rows (i + 1) xs bs (i # lev_row x bs (hd prev) (tl prev) i)"

definition levenshtein :: "'a list \<Rightarrow> 'a list \<Rightarrow> nat" where
  "levenshtein a b =
     (let (a, b) = (if length a < length b then (b, a) else (a, b))
      in lev_rows 1 a b [0..<length b + 1] ! length b)"

definition similarity :: "(rat \<Rightarrow> rat) \<Rightarrow> string \<Rightarrow> string \<Rightarrow> rat" where
  "similarity rnd a b =
     (let ra = runes a; rb = runes b in
      if ra = [] \<and> rb = [] then 1
      else rnd (1 - rnd (of_nat (levenshtein ra rb) / of_nat (max (length ra) (length rb)))))"

subsection \<open>Counts\<close>

definition rune_len :: "string \<Rightarrow> nat" where "rune_len s = length (runes s)"

definition estimate_tokens :: "string \<Rightarrow> nat" where
  "estimate_tokens s = (let n = rune_len s in if n = 0 then 0 else n div 3 + 1)"

definition truncate_text :: "string \<Rightarrow> nat \<Rightarrow> string" where
  "truncate_text s n = (if rune_len s \<le> n then s else encode (take n (runes s)) @ vn ''~2026;'')"

text \<open>Private use (category Co) and control characters (Cc).\<close>

definition is_private :: "rune \<Rightarrow> bool" where
  "is_private r \<longleftrightarrow> 0xE000 \<le> r \<and> r \<le> 0xF8FF \<or> 0xF0000 \<le> r \<and> r \<le> 0xFFFFD \<or> 0x100000 \<le> r \<and> r \<le> 0x10FFFD"

definition is_control :: "rune \<Rightarrow> bool" where
  "is_control r \<longleftrightarrow> r < 32 \<or> 127 \<le> r \<and> r < 160"

definition bad_char_ratio :: "(rat \<Rightarrow> rat) \<Rightarrow> string \<Rightarrow> rat" where
  "bad_char_ratio rnd s =
     (let shown = filter (\<lambda>r. \<not> is_space r) (runes s);
          bad = filter (\<lambda>r. r = rune_error \<or> is_private r \<or> is_control r) shown
      in if shown = [] then 0 else rnd (of_nat (length bad) / of_nat (length shown)))"

subsection \<open>Comparison keys\<close>

definition is_alnum :: "rune \<Rightarrow> bool" where
  "is_alnum r \<longleftrightarrow> is_letter r \<or> is_digit r"

definition is_separator :: "rune \<Rightarrow> bool" where
  "is_separator r \<longleftrightarrow> r \<in> set (lit '' .,-/_'') \<or> r = 39"

definition value_key :: "(string \<Rightarrow> string option) \<Rightarrow> string \<Rightarrow> string" where
  "value_key nfd s =
     (let s = unaccent nfd (trim_space s) in
      if s = [] then []
      else
        (let rs = runes s;
             digits = filter is_digit rs;
             numeric = list_all (\<lambda>r. is_digit r \<or> is_separator r) rs
         in if numeric \<and> digits \<noteq> [] then encode digits else encode (filter is_alnum rs)))"

definition value_in :: "(string \<Rightarrow> string option) \<Rightarrow> string \<Rightarrow> string \<Rightarrow> bool" where
  "value_in nfd value txt =
     (let v = value_key nfd value in
      if v = [] then False
      else if contains_sub (encode (filter is_digit (runes txt))) v then True
      else contains_sub (encode (filter is_alnum (runes (unaccent nfd txt)))) v)"

subsection \<open>Numbers\<close>

text \<open>\<^verbatim>\<open>strconv.ParseFloat\<close> on the texts that reach it: a sign, digits and at most one point.\<close>

definition parse_decimal :: "string \<Rightarrow> rat option" where
  "parse_decimal s =
     (let (neg, s) = (if s \<noteq> [] \<and> hd s = CHR ''-'' then (True, tl s) else (False, s));
          whole = takeWhile is_ascii_digit s;
          rest = dropWhile is_ascii_digit s;
          frac = (if rest \<noteq> [] \<and> hd rest = CHR ''.'' then tl rest else rest)
      in if list_all is_ascii_digit frac \<and> (rest = [] \<or> hd rest = CHR ''.'') \<and> whole @ frac \<noteq> []
         then Some ((if neg then -1 else 1) * (of_nat (digits_value (whole @ frac)) / 10 ^ length frac))
         else None)"

text \<open>The runes \<^verbatim>\<open>ParseNumber\<close> keeps; \<open>None\<close> when a rune belongs to no number.\<close>

fun number_runes :: "rune list \<Rightarrow> rune list option" where
  "number_runes [] = Some []"
| "number_runes (r # rs) =
     (if is_digit r \<or> r \<in> set (lit ''.,-'') then map_option ((#) r) (number_runes rs)
      else if is_space r \<or> is_letter r then number_runes rs
      else None)"

definition drop_char :: "char \<Rightarrow> string \<Rightarrow> string" where
  "drop_char c s = filter (\<lambda>d. d \<noteq> c) s"

definition commas_to_points :: "string \<Rightarrow> string" where
  "commas_to_points s = map (\<lambda>d. if d = CHR '','' then CHR ''.'' else d) s"

text \<open>How many bytes follow the first and the last occurrence of a character.\<close>

definition after_first :: "char \<Rightarrow> string \<Rightarrow> nat" where
  "after_first c s = length (dropWhile (\<lambda>d. d \<noteq> c) s) - 1"

definition after_last :: "char \<Rightarrow> string \<Rightarrow> nat" where
  "after_last c s = length (takeWhile (\<lambda>d. d \<noteq> c) (rev s))"

definition plain_number :: "string \<Rightarrow> string" where
  "plain_number t =
     (let dots = count_list t (CHR ''.''); commas = count_list t (CHR '','') in
      if dots > 0 \<and> commas > 0 then
        (if after_last (CHR '','') t < after_last (CHR ''.'') t
         then commas_to_points (drop_char (CHR ''.'') t) else drop_char (CHR '','') t)
      else if dots > 1 then drop_char (CHR ''.'') t
      else if commas > 1 then drop_char (CHR '','') t
      else if dots = 1 \<and> after_first (CHR ''.'') t = 3 then drop_char (CHR ''.'') t
      else if commas = 1 \<and> after_first (CHR '','') t = 3 then drop_char (CHR '','') t
      else if commas = 1 then commas_to_points t
      else t)"

definition parse_number :: "(rat \<Rightarrow> rat) \<Rightarrow> string \<Rightarrow> rat option" where
  "parse_number rnd s =
     (case number_runes (runes s) of
        None \<Rightarrow> None
      | Some rs \<Rightarrow>
          (let t = encode rs in
           if list_all (\<lambda>c. c \<in> set ''.,-'') t then None
           else map_option rnd (parse_decimal (plain_number t))))"


subsection \<open>The distance is the least number of edits\<close>

text \<open>\<open>edits a b n\<close>: \<open>b\<close> is made from \<open>a\<close> with \<open>n\<close> insertions, deletions and substitutions of single characters.\<close>

inductive edits :: "'a list \<Rightarrow> 'a list \<Rightarrow> nat \<Rightarrow> bool" where
  none: "edits [] [] 0"
| keep: "edits a b n \<Longrightarrow> edits (x # a) (x # b) n"
| subst: "edits a b n \<Longrightarrow> edits (x # a) (y # b) (Suc n)"
| delete: "edits a b n \<Longrightarrow> edits (x # a) b (Suc n)"
| insert: "edits a b n \<Longrightarrow> edits a (y # b) (Suc n)"

inductive_cases edits_ConsConsE: "edits (x # a) (y # b) n"
inductive_cases edits_NilE: "edits [] b n"
inductive_cases edits_ConsNilE: "edits (x # a) [] n"

lemma edits_sym: "edits a b n \<Longrightarrow> edits b a n"
  by (induction rule: edits.induct) (auto intro: edits.intros)

lemma edits_append: "edits a b n \<Longrightarrow> edits a' b' m \<Longrightarrow> edits (a @ a') (b @ b') (n + m)"
  by (induction rule: edits.induct) (auto intro: edits.intros)

lemma edits_rev: "edits a b n \<Longrightarrow> edits (rev a) (rev b) n"
proof (induction rule: edits.induct)
  case (keep a b n x)
  then show ?case using edits_append [OF keep.IH, of "[x]" "[x]" 0] by (simp add: edits.intros)
next
  case (subst a b n x y)
  then show ?case using edits_append [OF subst.IH, of "[x]" "[y]" 1] by (simp add: edits.intros One_nat_def)
next
  case (delete a b n x)
  then show ?case using edits_append [OF delete.IH, of "[x]" "[]" 1] by (simp add: edits.intros)
next
  case (insert a b n y)
  then show ?case using edits_append [OF insert.IH, of "[]" "[y]" 1] by (simp add: edits.intros)
qed (simp add: edits.none)

text \<open>The recursion behind the table, on the texts read backwards.\<close>

fun edit_cost :: "'a list \<Rightarrow> 'a list \<Rightarrow> nat" where
  "edit_cost [] b = length b"
| "edit_cost (x # a) [] = length (x # a)"
| "edit_cost (x # a) (y # b) =
     min (min (edit_cost a (y # b) + 1) (edit_cost (x # a) b + 1)) (edit_cost a b + (if x = y then 0 else 1))"

lemma edit_cost_Nil [simp]: "edit_cost a [] = length a"
  by (cases a) auto

lemma edits_lengths: "edits [] b (length b)" "edits a [] (length a)"
  by (induction b) (auto intro: edits.intros, induction a, auto intro: edits.intros)

lemma edits_cost: "edits a b (edit_cost a b)"
proof (induction a b rule: edit_cost.induct)
  case (3 x a y b)
  have "edits (x # a) (y # b) (edit_cost a (y # b) + 1)" using edits.delete [OF 3(1)] by simp
  moreover have "edits (x # a) (y # b) (edit_cost (x # a) b + 1)" using edits.insert [OF 3(2)] by simp
  moreover have "edits (x # a) (y # b) (edit_cost a b + (if x = y then 0 else 1))"
    using 3(3) by (auto intro: edits.intros)
  ultimately show ?case by (simp only: edit_cost.simps min_def split: if_split) blast
qed (auto simp: edits_lengths(1) intro: edits_lengths(2) [of "x # a" for x a, simplified])

lemma cost_least: "edits a b n \<Longrightarrow> edit_cost a b \<le> n"
proof (induction rule: edits.induct)
  case (delete a b n x)
  show ?case
  proof (cases b)
    case (Cons y b')
    then show ?thesis using delete.IH by simp
  qed (use delete.IH in simp)
next
  case (insert a b n y)
  show ?case
  proof (cases a)
    case (Cons x a')
    then show ?thesis using insert.IH by simp
  qed (use insert.IH in simp)
qed auto

text \<open>Row \<open>i\<close> of the table: the costs of the first \<open>i\<close> characters of \<open>a\<close> against every prefix of \<open>b\<close>.\<close>

definition cost_row :: "'a list \<Rightarrow> 'a list \<Rightarrow> nat list" where
  "cost_row a b = map (\<lambda>j. edit_cost (rev a) (rev (take j b))) [0..<length b + 1]"

lemma lev_row_cost:
  "lev_row x bs (edit_cost (rev a) (rev done)) (map (\<lambda>j. edit_cost (rev a) (rev (done @ take (Suc j) bs))) [0..<length bs])
     (edit_cost (x # rev a) (rev done))
   = map (\<lambda>j. edit_cost (x # rev a) (rev (done @ take (Suc j) bs))) [0..<length bs]"
proof (induction bs arbitrary: "done")
  case (Cons y bs)
  have step: "edit_cost (x # rev a) (rev (done @ [y]))
      = min (min (edit_cost (rev a) (rev (done @ [y])) + 1) (edit_cost (x # rev a) (rev done) + 1))
          (edit_cost (rev a) (rev done) + (if x = y then 0 else 1))"
    by simp
  show ?case
    using Cons.IH [of "done @ [y]"] step
    by (simp add: map_upt_Suc Let_def del: upt_Suc edit_cost.simps)
qed simp

lemma cost_row_Cons: "cost_row a b = edit_cost (rev a) [] # map (\<lambda>j. edit_cost (rev a) (rev (take (Suc j) b))) [0..<length b]"
  by (simp add: cost_row_def map_upt_Suc del: upt_Suc)

lemma lev_rows_cost: "lev_rows (length a + 1) xs b (cost_row a b) = cost_row (a @ xs) b"
proof (induction xs arbitrary: a)
  case (Cons x xs)
  have "(length a + 1) # lev_row x b (hd (cost_row a b)) (tl (cost_row a b)) (length a + 1) = cost_row (a @ [x]) b"
    using lev_row_cost [of x b a "[]"] by (simp add: cost_row_Cons)
  then show ?case using Cons.IH [of "a @ [x]"] by simp
qed simp

lemma lev_rows_result: "lev_rows 1 a b [0..<length b + 1] ! length b = edit_cost (rev a) (rev b)"
proof -
  have "[0..<length b + 1] = cost_row [] b"
    by (rule nth_equalityI) (auto simp: cost_row_def simp del: upt_Suc)
  then show ?thesis using lev_rows_cost [of "[]" a b] by (simp add: cost_row_def nth_append del: upt_Suc)
qed

lemma levenshtein_cost: "edits a b (levenshtein a b) \<and> (edits a b n \<longrightarrow> levenshtein a b \<le> n)"
proof -
  have "edits x y (edit_cost (rev x) (rev y))" for x y :: "'a list"
    using edits_rev [OF edits_cost [of "rev x" "rev y"]] by simp
  moreover have "edit_cost (rev x) (rev y) \<le> n" if "edits x y n" for x y :: "'a list"
    using cost_least [OF edits_rev [OF that]] .
  moreover have "levenshtein a b = (if length a < length b then edit_cost (rev b) (rev a) else edit_cost (rev a) (rev b))"
    by (simp add: levenshtein_def lev_rows_result del: upt_Suc One_nat_def Suc_eq_plus1 add_Suc_right add_0_right)
  ultimately show ?thesis using edits_sym by (metis (full_types))
qed


subsection \<open>What the distance promises\<close>

text \<open>
  The two-row table of \<^verbatim>\<open>levenshtein\<close> computes the edit distance: the result is the least number
  of insertions, deletions and substitutions that make one text from the other, whichever of the two
  is the longer.
\<close>

theorem levenshtein_least:
  "levenshtein a b = (LEAST n. edits a b n) \<and> levenshtein a b = levenshtein b a"
proof -
  have least: "levenshtein x y = (LEAST n. edits x y n)" for x y :: "'a list"
    using levenshtein_cost [of x y] by (metis (mono_tags, lifting) LeastI Least_le le_antisym)
  have "edits a b n \<longleftrightarrow> edits b a n" for n by (blast intro: edits_sym)
  then have "(LEAST n. edits a b n) = (LEAST n. edits b a n)" by simp
  then show ?thesis by (simp add: least)
qed

end
