(* ===== verification/CheckParse.thy ===== *)
theory CheckParse
  imports TextUtil
begin

text \<open>
  The parser of check formulas (\<^verbatim>\<open>internal/checkexpr/parse.go\<close>): Excel-like expressions over the
  fields of documents. Texts of errors are constructors that carry their arguments. A method of the
  recursive-descent parser takes the tokens that are left and gives the node and the rest; \<open>None\<close>
  means that the fuel ran out, which \<open>parse_formula\<close> is proved never to do.
\<close>

subsection \<open>Tokens\<close>

record token =
  tk_kind :: string
  tk_text :: string
  tk_pos :: nat

datatype formula_error =
    MissingQuote nat
  | BadCharacter rune nat
  | EmptyFormula
  | Leftover string nat
  | BadNumber string
  | MissingParen
  | MissingCallParen string
  | BadMember string
  | CutShort
  | NotUnderstood string nat
  | NoSuchType string
  | NoSuchField string string
  | NoSuchFunction string
  | WrongArity string

definition token_of :: "string \<Rightarrow> string \<Rightarrow> nat \<Rightarrow> token" where
  "token_of k s i = \<lparr>tk_kind = k, tk_text = s, tk_pos = i\<rparr>"

lemma token_of_fields [simp]: "tk_kind (token_of k s i) = k" "tk_text (token_of k s i) = s" "tk_pos (token_of k s i) = i"
  by (simp_all add: token_of_def)

definition cons_token :: "token \<Rightarrow> formula_error + token list \<Rightarrow> formula_error + token list" where
  "cons_token t r = (case r of Inl e \<Rightarrow> Inl e | Inr ts \<Rightarrow> Inr (t # ts))"

definition is_quote :: "rune \<Rightarrow> bool" where
  "is_quote r \<longleftrightarrow> r = 34 \<or> r = 39 \<or> r = 0x201C \<or> r = 0x201D"

text \<open>Whether \<open>x\<close> closes a text opened with \<open>r\<close>: a curly quote is also closed by a straight one.\<close>

definition closes :: "rune \<Rightarrow> rune \<Rightarrow> bool" where
  "closes r x \<longleftrightarrow> (let fin = (if r = 0x201C then 0x201D else r) in x = fin \<or> fin = 0x201D \<and> x = 34)"

definition word_rune :: "rune \<Rightarrow> bool" where
  "word_rune r \<longleftrightarrow> is_letter r \<or> is_digit r \<or> r = 95 \<or> r = 45"

definition two_ops :: "rune list list" where
  "two_ops = map lit [''<='', ''>='', ''!='', ''<>'', ''=='', ''&&'', ''||'']"

text \<open>The operators of one rune and the text of their token.\<close>

definition one_op :: "rune \<Rightarrow> string option" where
  "one_op r =
     (if r = 0x2264 then Some ''<='' else if r = 0x2265 then Some ''>='' else if r = 0x2260 then Some ''!=''
      else if r \<in> set (lit ''+-*/=<>!'') then Some (encode [r]) else None)"

function lex_from :: "rune list \<Rightarrow> nat \<Rightarrow> formula_error + token list" where
  "lex_from [] i = Inr [token_of ''eof'' [] i]"
| "lex_from (r # rs) i =
     (if is_space r then lex_from rs (i + 1)
      else if is_digit r then
        (let w = takeWhile (\<lambda>x. is_digit x \<or> x = 46) rs in
         cons_token (token_of ''num'' (encode (r # w)) i)
           (lex_from (dropWhile (\<lambda>x. is_digit x \<or> x = 46) rs) (i + 1 + length w)))
      else if is_quote r then
        (let body = takeWhile (\<lambda>x. \<not> closes r x) rs; rest = dropWhile (\<lambda>x. \<not> closes r x) rs in
         if rest = [] then Inl (MissingQuote (i + 1))
         else cons_token (token_of ''str'' (encode body) i) (lex_from (tl rest) (i + length body + 2)))
      else if is_letter r \<or> r = 95 then
        (let w = takeWhile word_rune rs in
         cons_token (token_of ''ident'' (encode (r # w)) i) (lex_from (dropWhile word_rune rs) (i + 1 + length w)))
      else if take 2 (r # rs) \<in> set two_ops then
        cons_token (token_of ''op'' (encode (take 2 (r # rs))) i) (lex_from (tl rs) (i + 2))
      else
        (case one_op r of
           Some t \<Rightarrow> cons_token (token_of ''op'' t i) (lex_from rs (i + 1))
         | None \<Rightarrow>
             if r \<in> set (lit ''(),.'') then cons_token (token_of (encode [r]) (encode [r]) i) (lex_from rs (i + 1))
             else Inl (BadCharacter r (i + 1))))"
  by pat_completeness auto
termination
  by (relation "measure (\<lambda>(rs, i). length rs)")
     (auto simp: less_Suc_eq_le length_dropWhile_le intro: le_trans [OF diff_le_self])

declare lex_from.simps(2) [simp del]

definition lex_formula :: "string \<Rightarrow> formula_error + token list" where
  "lex_formula src = lex_from (runes src) 0"

subsection \<open>Words\<close>

text \<open>
  \<^verbatim>\<open>strings.EqualFold\<close> with a word in capitals: the runes that fold to a capital are its two cases,
  and for K and S the Kelvin sign and the long s.
\<close>

definition fold_orbit :: "rune \<Rightarrow> rune list" where
  "fold_orbit r = [r, to_lower_rune r] @ (if r = 75 then [0x212A] else if r = 83 then [0x17F] else [])"

definition equal_fold :: "string \<Rightarrow> rune list \<Rightarrow> bool" where
  "equal_fold s w \<longleftrightarrow> list_all2 (\<lambda>r c. r \<in> set (fold_orbit c)) (runes s) w"

definition peek :: "token list \<Rightarrow> token" where
  "peek ts = (case ts of [] \<Rightarrow> token_of ''eof'' [] 0 | t # _ \<Rightarrow> t)"

definition is_word :: "rune list \<Rightarrow> token \<Rightarrow> bool" where
  "is_word w t \<longleftrightarrow> tk_kind t = ''ident'' \<and> equal_fold (tk_text t) w"

definition is_op :: "string list \<Rightarrow> token \<Rightarrow> bool" where
  "is_op ops t \<longleftrightarrow> tk_kind t = ''op'' \<and> tk_text t \<in> set ops"

text \<open>The keywords, also in Vietnamese (with the runes U+1EB6, U+00C0, U+00D4, U+0110 and U+00DA).\<close>

definition is_or :: "token \<Rightarrow> bool" where
  "is_or t \<longleftrightarrow> is_word (lit ''OR'') t \<or> is_word [72, 79, 0x1EB6, 67] t \<or> is_op [''||''] t"

definition is_and :: "token \<Rightarrow> bool" where
  "is_and t \<longleftrightarrow> is_word (lit ''AND'') t \<or> is_word [86, 0xC0] t \<or> is_op [''&&''] t"

definition is_not :: "token \<Rightarrow> bool" where
  "is_not t \<longleftrightarrow> is_word (lit ''NOT'') t \<or> is_word [75, 72, 0xD4, 78, 71] t \<or> is_op [''!''] t"

definition is_true_word :: "string \<Rightarrow> bool" where
  "is_true_word s \<longleftrightarrow> equal_fold s (lit ''TRUE'') \<or> equal_fold s [0x110, 0xDA, 78, 71]"

definition is_false_word :: "string \<Rightarrow> bool" where
  "is_false_word s \<longleftrightarrow> equal_fold s (lit ''FALSE'') \<or> equal_fold s (lit ''SAI'')"

subsection \<open>Nodes\<close>

text \<open>The tagged node of the source: one constructor per shape the parser builds, with its position.\<close>

datatype node =
    NNum rat nat
  | NStr string nat
  | NBool bool nat
  | NIdent string nat
  | NMember string string nat
  | NCall string "node list" nat
  | NNeg node nat
  | NNot node nat
  | NLogic string node node nat
  | NArith string node node nat
  | NCmp string node node nat

type_synonym parse = "token list \<Rightarrow> (formula_error + node \<times> token list) option"

subsection \<open>The parser\<close>

text \<open>
  The loops of \<^verbatim>\<open>or\<close>, \<^verbatim>\<open>and\<close>, \<^verbatim>\<open>add\<close> and \<^verbatim>\<open>mul\<close> have one shape: while the next token continues the
  level, parse another operand and put the node over both.
\<close>

fun chain :: "nat \<Rightarrow> (token \<Rightarrow> bool) \<Rightarrow> (token \<Rightarrow> node \<Rightarrow> node \<Rightarrow> node) \<Rightarrow> parse \<Rightarrow> node \<Rightarrow> parse" where
  "chain 0 cont mk sub l ts = None"
| "chain (Suc n) cont mk sub l ts =
     (if cont (peek ts) then
        and_then (sub (tl ts)) (\<lambda>(r, ts'). chain n cont mk sub (mk (peek ts) l r) ts')
      else Some (Inr (l, ts)))"

definition left_level :: "(token \<Rightarrow> bool) \<Rightarrow> (token \<Rightarrow> node \<Rightarrow> node \<Rightarrow> node) \<Rightarrow> parse \<Rightarrow> parse" where
  "left_level cont mk sub ts =
     and_then (sub ts) (\<lambda>(l, ts'). chain (length ts' + 1) cont mk sub l ts')"

definition p_or :: "parse \<Rightarrow> parse" where
  "p_or sub = left_level is_or (\<lambda>t l r. NLogic ''or'' l r (tk_pos t)) sub"

definition p_and :: "parse \<Rightarrow> parse" where
  "p_and sub = left_level is_and (\<lambda>t l r. NLogic ''and'' l r (tk_pos t)) sub"

fun p_not :: "parse \<Rightarrow> parse" where
  "p_not sub [] = sub []"
| "p_not sub (t # ts) =
     (if is_not t then and_then (p_not sub ts) (\<lambda>(x, ts'). Some (Inr (NNot x (tk_pos t), ts')))
      else sub (t # ts))"

definition cmp_op :: "token \<Rightarrow> string option" where
  "cmp_op t =
     (if tk_kind t = ''op'' then
        (let op = (if tk_text t = ''=='' then ''='' else if tk_text t = ''<>'' then ''!='' else tk_text t)
         in if op \<in> {''='', ''!='', ''<'', ''<='', ''>'', ''>=''} then Some op else None)
      else None)"

definition p_cmp :: "parse \<Rightarrow> parse" where
  "p_cmp sub ts =
     and_then (sub ts) (\<lambda>(l, ts').
       case cmp_op (peek ts') of
         None \<Rightarrow> Some (Inr (l, ts'))
       | Some op \<Rightarrow> and_then (sub (tl ts')) (\<lambda>(r, ts''). Some (Inr (NCmp op l r (tk_pos (peek ts')), ts''))))"

definition p_add :: "parse \<Rightarrow> parse" where
  "p_add sub = left_level (is_op [''+'', ''-'']) (\<lambda>t l r. NArith (tk_text t) l r (tk_pos t)) sub"

definition p_mul :: "parse \<Rightarrow> parse" where
  "p_mul sub = left_level (is_op [''*'', ''/'']) (\<lambda>t l r. NArith (tk_text t) l r (tk_pos t)) sub"

fun p_unary :: "parse \<Rightarrow> parse" where
  "p_unary sub [] = sub []"
| "p_unary sub (t # ts) =
     (if is_op [''-''] t then and_then (p_unary sub ts) (\<lambda>(x, ts'). Some (Inr (NNeg x (tk_pos t), ts')))
      else sub (t # ts))"

text \<open>The arguments of a call, after its parenthesis.\<close>

fun p_args :: "nat \<Rightarrow> parse \<Rightarrow> token list \<Rightarrow> (formula_error + node list \<times> token list) option" where
  "p_args 0 sub ts = None"
| "p_args (Suc n) sub ts =
     and_then (sub ts) (\<lambda>(a, ts').
       if tk_kind (peek ts') = '','' then
         and_then (p_args n sub (tl ts')) (\<lambda>(as, ts''). Some (Inr (a # as, ts'')))
       else Some (Inr ([a], ts')))"

definition p_call :: "parse \<Rightarrow> string \<Rightarrow> nat \<Rightarrow> parse" where
  "p_call sub name pos ts =
     and_then (if tk_kind (peek ts) \<noteq> '')'' then p_args (length ts + 1) sub ts else Some (Inr ([], ts)))
       (\<lambda>(as, ts').
         if tk_kind (peek ts') \<noteq> '')'' then Some (Inl (MissingCallParen name))
         else Some (Inr (NCall name as pos, tl ts')))"

definition p_primary :: "(rat \<Rightarrow> rat) \<Rightarrow> parse \<Rightarrow> parse" where
  "p_primary rnd sub ts =
     (let t = peek ts; ts = tl ts in
      if tk_kind t = ''num'' then
        (case parse_decimal (tk_text t) of
           None \<Rightarrow> Some (Inl (BadNumber (tk_text t)))
         | Some x \<Rightarrow> Some (Inr (NNum (rnd x) (tk_pos t), ts)))
      else if tk_kind t = ''str'' then Some (Inr (NStr (tk_text t) (tk_pos t), ts))
      else if tk_kind t = ''('' then
        and_then (sub ts) (\<lambda>(x, ts').
          if tk_kind (peek ts') \<noteq> '')'' then Some (Inl MissingParen) else Some (Inr (x, tl ts')))
      else if tk_kind t = ''ident'' then
        (if is_true_word (tk_text t) then Some (Inr (NBool True (tk_pos t), ts))
         else if is_false_word (tk_text t) then Some (Inr (NBool False (tk_pos t), ts))
         else if tk_kind (peek ts) = ''('' then p_call sub (to_upper (tk_text t)) (tk_pos t) (tl ts)
         else if tk_kind (peek ts) = ''.'' then
           (let f = peek (tl ts) in
            if tk_kind f \<noteq> ''ident'' \<and> tk_kind f \<noteq> ''num'' then Some (Inl (BadMember (tk_text t)))
            else Some (Inr (NMember (tk_text t) (tk_text f) (tk_pos t), tl (tl ts))))
         else Some (Inr (NIdent (tk_text t) (tk_pos t), ts)))
      else if tk_kind t = ''eof'' then Some (Inl CutShort)
      else Some (Inl (NotUnderstood (tk_text t) (tk_pos t + 1))))"

text \<open>The whole precedence ladder; the fuel counts the nesting of parentheses and calls.\<close>

definition ladder :: "parse \<Rightarrow> parse" where
  "ladder prim = p_or (p_and (p_not (p_cmp (p_add (p_mul (p_unary prim))))))"

fun p_expr :: "(rat \<Rightarrow> rat) \<Rightarrow> nat \<Rightarrow> parse" where
  "p_expr rnd 0 ts = None"
| "p_expr rnd (Suc n) ts = ladder (p_primary rnd (p_expr rnd n)) ts"

definition parse_tokens :: "(rat \<Rightarrow> rat) \<Rightarrow> token list \<Rightarrow> (formula_error + node) option" where
  "parse_tokens rnd ts =
     and_then (p_expr rnd (length ts + 1) ts) (\<lambda>(n, ts').
       if tk_kind (peek ts') \<noteq> ''eof'' then Some (Inl (Leftover (tk_text (peek ts')) (tk_pos (peek ts') + 1)))
       else Some (Inr n))"

definition trim_formula :: "string \<Rightarrow> string" where
  "trim_formula src =
     (let s = trim_space src in trim_space (if s \<noteq> [] \<and> hd s = CHR ''='' then tl s else s))"

definition parse_formula :: "(rat \<Rightarrow> rat) \<Rightarrow> string \<Rightarrow> (formula_error + node) option" where
  "parse_formula rnd src =
     (let src = trim_formula src in
      if src = [] then Some (Inl EmptyFormula)
      else case lex_formula src of Inl e \<Rightarrow> Some (Inl e) | Inr ts \<Rightarrow> parse_tokens rnd ts)"


subsection \<open>The parser returns\<close>

text \<open>On up to \<open>n\<close> tokens, a parser has fuel enough and consumes at least one token.\<close>

definition consumes :: "nat \<Rightarrow> parse \<Rightarrow> bool" where
  "consumes n sub \<longleftrightarrow>
     (\<forall>ts. length ts \<le> n \<longrightarrow> sub ts \<noteq> None \<and> (\<forall>x ts'. sub ts = Some (Inr (x, ts')) \<longrightarrow> length ts' < length ts))"

lemma consumesD:
  assumes "consumes n sub" "length ts \<le> n"
  obtains (err) e where "sub ts = Some (Inl e)" | (val) x ts' where "sub ts = Some (Inr (x, ts'))" "length ts' < length ts"
  using assms unfolding consumes_def by (metis old.prod.exhaust option.exhaust old.sum.exhaust)

lemma result_cases:
  obtains (none) "r = None" | (err) e where "r = Some (Inl e)" | (val) x ts where "r = Some (Inr (x, ts))"
  by (metis old.prod.exhaust option.exhaust old.sum.exhaust)

lemma chain_consumes:
  assumes "consumes n sub" "length ts \<le> n" "length ts < k"
  shows "chain k cont mk sub l ts \<noteq> None
    \<and> (\<forall>x ts'. chain k cont mk sub l ts = Some (Inr (x, ts')) \<longrightarrow> length ts' \<le> length ts)"
  using assms(2,3)
proof (induction k arbitrary: l ts)
  case (Suc k)
  show ?case
  proof (cases "cont (peek ts)")
    case True
    have "length (tl ts) \<le> n" using Suc.prems by simp
    with assms(1) show ?thesis
    proof (cases rule: consumesD)
      case err
      then show ?thesis using True by simp
    next
      case (val x ts')
      then show ?thesis using True Suc.IH [of ts' "mk (peek ts) l x"] Suc.prems by fastforce
    qed
  qed simp
qed simp

lemma left_level_consumes:
  assumes "consumes n sub"
  shows "consumes n (left_level cont mk sub)"
  unfolding consumes_def
proof (intro allI impI)
  fix ts :: "token list" assume "length ts \<le> n"
  with assms show "left_level cont mk sub ts \<noteq> None
      \<and> (\<forall>x ts'. left_level cont mk sub ts = Some (Inr (x, ts')) \<longrightarrow> length ts' < length ts)"
  proof (cases rule: consumesD)
    case err
    then show ?thesis by (simp add: left_level_def)
  next
    case (val x ts')
    then show ?thesis
      using chain_consumes [OF assms, of ts' "length ts' + 1" cont mk x] \<open>length ts \<le> n\<close>
      by (fastforce simp: left_level_def)
  qed
qed

lemma p_not_consumes:
  assumes "consumes n sub"
  shows "consumes n (p_not sub)"
proof -
  have "length ts \<le> n \<Longrightarrow> p_not sub ts \<noteq> None
      \<and> (\<forall>x ts'. p_not sub ts = Some (Inr (x, ts')) \<longrightarrow> length ts' < length ts)" for ts
  proof (induction ts)
    case (Cons t ts)
    then show ?case
      using assms [unfolded consumes_def, rule_format, of "t # ts"]
      by (auto simp: and_then_def less_Suc_eq split: option.splits sum.splits)
  qed (use assms [unfolded consumes_def, rule_format, of "[]"] in simp)
  then show ?thesis by (simp add: consumes_def)
qed

lemma p_unary_consumes:
  assumes "consumes n sub"
  shows "consumes n (p_unary sub)"
proof -
  have "length ts \<le> n \<Longrightarrow> p_unary sub ts \<noteq> None
      \<and> (\<forall>x ts'. p_unary sub ts = Some (Inr (x, ts')) \<longrightarrow> length ts' < length ts)" for ts
  proof (induction ts)
    case (Cons t ts)
    then show ?case
      using assms [unfolded consumes_def, rule_format, of "t # ts"]
      by (auto simp: and_then_def less_Suc_eq split: option.splits sum.splits)
  qed (use assms [unfolded consumes_def, rule_format, of "[]"] in simp)
  then show ?thesis by (simp add: consumes_def)
qed

lemma p_cmp_consumes:
  assumes "consumes n sub"
  shows "consumes n (p_cmp sub)"
  unfolding consumes_def
proof (intro allI impI)
  fix ts :: "token list" assume len: "length ts \<le> n"
  with assms show "p_cmp sub ts \<noteq> None \<and> (\<forall>x ts'. p_cmp sub ts = Some (Inr (x, ts')) \<longrightarrow> length ts' < length ts)"
  proof (cases rule: consumesD)
    case err
    then show ?thesis by (simp add: p_cmp_def)
  next
    case (val x ts')
    have "length (tl ts') \<le> n" using val len by simp
    with assms show ?thesis
      by (cases rule: consumesD) (use val in \<open>auto simp: p_cmp_def split: option.split\<close>)
  qed
qed

lemma ladder_consumes: "consumes n prim \<Longrightarrow> consumes n (ladder prim)"
  by (simp add: ladder_def p_or_def p_and_def p_add_def p_mul_def left_level_consumes p_not_consumes
      p_unary_consumes p_cmp_consumes)

lemma p_args_consumes:
  assumes "consumes n sub" "length ts \<le> n" "length ts < k"
  shows "p_args k sub ts \<noteq> None \<and> (\<forall>x ts'. p_args k sub ts = Some (Inr (x, ts')) \<longrightarrow> length ts' \<le> length ts)"
  using assms(2,3)
proof (induction k arbitrary: ts)
  case (Suc k)
  from assms(1) Suc.prems(1) show ?case
  proof (cases rule: consumesD)
    case err
    then show ?thesis by simp
  next
    case (val x ts')
    then have "length (tl ts') \<le> n" "length (tl ts') < k" "length (tl ts') \<le> length ts"
      using Suc.prems by (auto simp: less_Suc_eq_le)
    then show ?thesis
      using Suc.IH [of "tl ts'"] val
      by (cases "p_args k sub (tl ts')" rule: result_cases) auto
  qed
qed simp

lemma p_call_consumes:
  assumes "consumes n sub" "length ts \<le> n"
  shows "p_call sub name pos ts \<noteq> None
    \<and> (\<forall>x ts'. p_call sub name pos ts = Some (Inr (x, ts')) \<longrightarrow> length ts' \<le> length ts)"
proof (cases "tk_kind (peek ts) = '')''")
  case False
  have "p_args (length ts + 1) sub ts \<noteq> None
      \<and> (\<forall>x ts'. p_args (length ts + 1) sub ts = Some (Inr (x, ts')) \<longrightarrow> length ts' \<le> length ts)"
    by (rule p_args_consumes [OF assms]) simp
  then show ?thesis
    using False
    by (cases "p_args (length ts + 1) sub ts" rule: result_cases) (auto simp: p_call_def simp del: p_args.simps)
qed (auto simp: p_call_def)

lemma p_primary_consumes:
  assumes "consumes n sub"
  shows "consumes (Suc n) (p_primary rnd sub)"
  unfolding consumes_def
proof (intro allI impI)
  fix ts :: "token list" assume "length ts \<le> Suc n"
  show "p_primary rnd sub ts \<noteq> None
      \<and> (\<forall>x ts'. p_primary rnd sub ts = Some (Inr (x, ts')) \<longrightarrow> length ts' < length ts)"
  proof (cases ts)
    case Nil
    then show ?thesis by (simp add: p_primary_def peek_def)
  next
    case (Cons t us)
    then have us: "length us \<le> n" "length (tl us) \<le> n" using \<open>length ts \<le> Suc n\<close> by simp_all
    have sub: "sub us \<noteq> None \<and> (\<forall>x ts'. sub us = Some (Inr (x, ts')) \<longrightarrow> length ts' < length us)"
      using assms us(1) by (simp add: consumes_def)
    have call: "p_call sub nm p (tl us) \<noteq> None
        \<and> (\<forall>x ts'. p_call sub nm p (tl us) = Some (Inr (x, ts')) \<longrightarrow> length ts' \<le> length (tl us))" for nm p
      by (rule p_call_consumes [OF assms us(2)])
    show ?thesis
      using sub call [of "to_upper (tk_text t)" "tk_pos t"] unfolding Cons
      by (auto simp: p_primary_def peek_def Let_def and_then_def less_Suc_eq_le
          split: option.splits sum.splits if_splits)
  qed
qed

lemma p_expr_consumes: "consumes n (p_expr rnd (Suc n))"
proof (induction n)
  case 0
  have "consumes 0 (p_primary rnd (p_expr rnd 0))"
    by (simp add: consumes_def p_primary_def peek_def)
  then have "consumes 0 (ladder (p_primary rnd (p_expr rnd 0)))" by (rule ladder_consumes)
  then show ?case by (simp add: consumes_def)
next
  case (Suc n)
  have "consumes (Suc n) (ladder (p_primary rnd (p_expr rnd (Suc n))))"
    by (rule ladder_consumes [OF p_primary_consumes [OF Suc]])
  then show ?case by (simp add: consumes_def)
qed

lemma parse_tokens_returns: "parse_tokens rnd ts \<noteq> None"
  using p_expr_consumes [of "length ts" rnd, unfolded consumes_def, rule_format, of ts]
  by (auto simp: parse_tokens_def and_then_def simp del: p_expr.simps split: sum.split)

lemma parse_formula_returns: "parse_formula rnd src \<noteq> None"
  using parse_tokens_returns by (simp add: parse_formula_def Let_def split: sum.split)

end
