(* ===== verification/CheckPrint.thy ===== *)
theory CheckPrint
  imports CheckParse
begin

text \<open>
  Printing formulas and reading them back: the precedence ladder of \<^verbatim>\<open>parse.go\<close> recovers every
  formula from its fully parenthesised form.
\<close>

abbreviation "op_tok s \<equiv> token_of ''op'' s 0"
abbreviation "word_tok s \<equiv> token_of ''ident'' s 0"
abbreviation "mark_tok s \<equiv> token_of s s 0"

fun commas :: "token list list \<Rightarrow> token list" where
  "commas [] = []"
| "commas [a] = a"
| "commas (a # as) = a @ mark_tok '','' # commas as"

definition wrap :: "token list \<Rightarrow> token list" where
  "wrap ts = mark_tok ''('' # ts @ [mark_tok '')'']"

definition logic_op :: "string \<Rightarrow> string" where
  "logic_op op = (if op = ''or'' then ''||'' else ''&&'')"

fun unparse :: "node \<Rightarrow> token list" where
  "unparse (NNum x p) = [token_of ''num'' (nat_string (nat \<lfloor>x\<rfloor>)) 0]"
| "unparse (NStr s p) = [token_of ''str'' s 0]"
| "unparse (NBool b p) = [word_tok (if b then ''TRUE'' else ''FALSE'')]"
| "unparse (NIdent s p) = [word_tok s]"
| "unparse (NMember t f p) = [word_tok t, mark_tok ''.'', word_tok f]"
| "unparse (NCall f as p) = word_tok f # wrap (commas (map unparse as))"
| "unparse (NNeg x p) = wrap (op_tok ''-'' # unparse x)"
| "unparse (NNot x p) = wrap (op_tok ''!'' # unparse x)"
| "unparse (NLogic op l r p) = wrap (unparse l @ op_tok (logic_op op) # unparse r)"
| "unparse (NArith op l r p) = wrap (unparse l @ op_tok op # unparse r)"
| "unparse (NCmp op l r p) = wrap (unparse l @ op_tok op # unparse r)"

text \<open>The formula with the positions of the printed tokens.\<close>

fun unplaced :: "node \<Rightarrow> node" where
  "unplaced (NNum x p) = NNum x 0"
| "unplaced (NStr s p) = NStr s 0"
| "unplaced (NBool b p) = NBool b 0"
| "unplaced (NIdent s p) = NIdent s 0"
| "unplaced (NMember t f p) = NMember t f 0"
| "unplaced (NCall f as p) = NCall f (map unplaced as) 0"
| "unplaced (NNeg x p) = NNeg (unplaced x) 0"
| "unplaced (NNot x p) = NNot (unplaced x) 0"
| "unplaced (NLogic op l r p) = NLogic op (unplaced l) (unplaced r) 0"
| "unplaced (NArith op l r p) = NArith op (unplaced l) (unplaced r) 0"
| "unplaced (NCmp op l r p) = NCmp op (unplaced l) (unplaced r) 0"

definition plain_word :: "string \<Rightarrow> bool" where
  "plain_word s \<longleftrightarrow> \<not> is_true_word s \<and> \<not> is_false_word s \<and> \<not> is_not (word_tok s)"

text \<open>Formulas that can be written: whole numbers a float64 holds, names that are no keywords, known operators.\<close>

fun printable :: "(rat \<Rightarrow> rat) \<Rightarrow> node \<Rightarrow> bool" where
  "printable rnd (NNum x p) = (0 \<le> x \<and> of_int \<lfloor>x\<rfloor> = x \<and> rnd x = x)"
| "printable rnd (NStr s p) = True"
| "printable rnd (NBool b p) = True"
| "printable rnd (NIdent s p) = plain_word s"
| "printable rnd (NMember t f p) = plain_word t"
| "printable rnd (NCall f as p) = (plain_word f \<and> to_upper f = f \<and> list_all (printable rnd) as)"
| "printable rnd (NNeg x p) = printable rnd x"
| "printable rnd (NNot x p) = printable rnd x"
| "printable rnd (NLogic op l r p) = (op \<in> {''and'', ''or''} \<and> printable rnd l \<and> printable rnd r)"
| "printable rnd (NArith op l r p) = (op \<in> {''+'', ''-'', ''*'', ''/''} \<and> printable rnd l \<and> printable rnd r)"
| "printable rnd (NCmp op l r p) =
     (op \<in> {''='', ''!='', ''<'', ''<='', ''>'', ''>=''} \<and> printable rnd l \<and> printable rnd r)"

subsection \<open>Levels that a token does not concern\<close>

lemma left_pass:
  "sub ts = Some (Inr (x, rest)) \<Longrightarrow> \<not> cont (peek rest) \<Longrightarrow> left_level cont mk sub ts = Some (Inr (x, rest))"
  by (simp add: left_level_def)

lemma left_once:
  "sub ts = Some (Inr (l, t # us)) \<Longrightarrow> cont t \<Longrightarrow> sub us = Some (Inr (r, rest)) \<Longrightarrow> \<not> cont (peek rest) \<Longrightarrow>
     left_level cont mk sub ts = Some (Inr (mk t l r, rest))"
  by (simp add: left_level_def peek_def)

lemma p_not_pass: "ts \<noteq> [] \<Longrightarrow> \<not> is_not (hd ts) \<Longrightarrow> p_not sub ts = sub ts"
  by (cases ts) auto

lemma p_unary_pass: "ts \<noteq> [] \<Longrightarrow> \<not> is_op [''-''] (hd ts) \<Longrightarrow> p_unary sub ts = sub ts"
  by (cases ts) auto

lemma p_cmp_pass: "sub ts = Some (Inr (x, rest)) \<Longrightarrow> cmp_op (peek rest) = None \<Longrightarrow> p_cmp sub ts = Some (Inr (x, rest))"
  by (simp add: p_cmp_def)

lemma p_cmp_once:
  "sub ts = Some (Inr (l, t # us)) \<Longrightarrow> cmp_op t = Some op \<Longrightarrow> sub us = Some (Inr (r, rest)) \<Longrightarrow>
     p_cmp sub ts = Some (Inr (NCmp op l r (tk_pos t), rest))"
  by (simp add: p_cmp_def peek_def)

text \<open>What may follow a complete operand, and what may follow a complete formula.\<close>

definition follows :: "token \<Rightarrow> bool" where
  "follows t \<longleftrightarrow> tk_kind t \<in> {''op'', '')'', '','', ''eof''}"

definition ends :: "token \<Rightarrow> bool" where
  "ends t \<longleftrightarrow> tk_kind t \<in> {'')'', '','', ''eof''}"

lemma ends_tests [simp]:
  "ends t \<Longrightarrow> \<not> is_or t" "ends t \<Longrightarrow> \<not> is_and t" "ends t \<Longrightarrow> cmp_op t = None" "ends t \<Longrightarrow> \<not> is_op ops t"
  "ends t \<Longrightarrow> follows t"
  by (auto simp: ends_def follows_def is_or_def is_and_def cmp_op_def is_op_def is_word_def)

lemma op_tests [simp]:
  "is_or (op_tok s) \<longleftrightarrow> s = ''||''" "is_and (op_tok s) \<longleftrightarrow> s = ''&&''" "is_not (op_tok s) \<longleftrightarrow> s = ''!''"
  "is_op ops (op_tok s) \<longleftrightarrow> s \<in> set ops" "follows (op_tok s)"
  by (auto simp: follows_def is_or_def is_and_def is_not_def is_op_def is_word_def)

lemma mark_ends [simp]: "ends (mark_tok '')'')" "ends (mark_tok '','')" "ends (token_of ''eof'' s p)"
  by (simp_all add: ends_def)

lemma peek_Cons [simp]: "peek (t # ts) = t"
  by (simp add: peek_def)

definition starts :: "token list \<Rightarrow> bool" where
  "starts ts \<longleftrightarrow> ts \<noteq> [] \<and> \<not> is_not (hd ts) \<and> \<not> is_op [''-''] (hd ts)"

text \<open>An operand read by the primary goes up to the level whose operator follows it.\<close>

lemma to_mul:
  "prim ts = Some (Inr (x, rest)) \<Longrightarrow> starts ts \<Longrightarrow> p_unary prim ts = Some (Inr (x, rest))"
  by (simp add: starts_def p_unary_pass)

lemma to_add:
  "prim ts = Some (Inr (x, rest)) \<Longrightarrow> starts ts \<Longrightarrow> \<not> is_op [''*'', ''/''] (peek rest) \<Longrightarrow>
     p_mul (p_unary prim) ts = Some (Inr (x, rest))"
  unfolding p_mul_def by (rule left_pass) (simp_all add: to_mul)

lemma to_cmp:
  "prim ts = Some (Inr (x, rest)) \<Longrightarrow> starts ts \<Longrightarrow> \<not> is_op [''*'', ''/'', ''+'', ''-''] (peek rest) \<Longrightarrow>
     p_add (p_mul (p_unary prim)) ts = Some (Inr (x, rest))"
  unfolding p_add_def by (rule left_pass) (auto simp: is_op_def intro!: to_add)

lemma to_not:
  "p_add (p_mul (p_unary prim)) ts = Some (Inr (x, rest)) \<Longrightarrow> ts \<noteq> [] \<Longrightarrow> \<not> is_not (hd ts) \<Longrightarrow> cmp_op (peek rest) = None \<Longrightarrow>
     p_not (p_cmp (p_add (p_mul (p_unary prim)))) ts = Some (Inr (x, rest))"
  by (simp add: p_not_pass p_cmp_pass)

lemma from_not:
  "p_not (p_cmp (p_add (p_mul (p_unary prim)))) ts = Some (Inr (x, rest)) \<Longrightarrow> ends (peek rest) \<Longrightarrow>
     ladder prim ts = Some (Inr (x, rest))"
  unfolding ladder_def p_or_def p_and_def by (intro left_pass) auto

lemma ladder_operand:
  "prim ts = Some (Inr (x, rest)) \<Longrightarrow> starts ts \<Longrightarrow> ends (peek rest) \<Longrightarrow> ladder prim ts = Some (Inr (x, rest))"
  by (rule from_not, rule to_not, rule to_cmp) (auto simp: starts_def)

lemma ladder_arith:
  assumes "op \<in> {''+'', ''-'', ''*'', ''/''}"
    and l: "prim ts = Some (Inr (l, op_tok op # us))" "starts ts"
    and r: "prim us = Some (Inr (r, rest))" "starts us" "ends (peek rest)"
  shows "ladder prim ts = Some (Inr (NArith op l r 0, rest))"
proof (rule from_not, rule to_not)
  show "p_add (p_mul (p_unary prim)) ts = Some (Inr (NArith op l r 0, rest))"
  proof (cases "op \<in> {''*'', ''/''}")
    case True
    have "p_mul (p_unary prim) ts = Some (Inr (NArith op l r 0, rest))"
      using left_once [of "p_unary prim" ts l "op_tok op" us "is_op [''*'', ''/'']" r rest
          "\<lambda>t l r. NArith (tk_text t) l r (tk_pos t)"] True l r
      by (simp add: p_mul_def to_mul)
    then show ?thesis unfolding p_add_def by (rule left_pass) (simp add: r)
  next
    case False
    then have "p_mul (p_unary prim) ts = Some (Inr (l, op_tok op # us))"
      using l by (intro to_add) auto
    moreover have "p_mul (p_unary prim) us = Some (Inr (r, rest))" using r by (intro to_add) auto
    ultimately show ?thesis
      using left_once [of "p_mul (p_unary prim)" ts l "op_tok op" us "is_op [''+'', ''-'']" r rest
          "\<lambda>t l r. NArith (tk_text t) l r (tk_pos t)"] False assms(1) r(3)
      by (simp add: p_add_def)
  qed
qed (use l r in \<open>auto simp: starts_def\<close>)

lemma cmp_op_tok: "op \<in> {''='', ''!='', ''<'', ''<='', ''>'', ''>=''} \<Longrightarrow> cmp_op (op_tok op) = Some op"
  by (auto simp: cmp_op_def)

lemma ladder_cmp:
  assumes "op \<in> {''='', ''!='', ''<'', ''<='', ''>'', ''>=''}"
    and l: "prim ts = Some (Inr (l, op_tok op # us))" "starts ts"
    and r: "prim us = Some (Inr (r, rest))" "starts us" "ends (peek rest)"
  shows "ladder prim ts = Some (Inr (NCmp op l r 0, rest))"
proof (rule from_not)
  have "p_add (p_mul (p_unary prim)) ts = Some (Inr (l, op_tok op # us))"
    using l assms(1) by (intro to_cmp) auto
  moreover have "p_add (p_mul (p_unary prim)) us = Some (Inr (r, rest))" using r by (intro to_cmp) auto
  ultimately have "p_cmp (p_add (p_mul (p_unary prim))) ts = Some (Inr (NCmp op l r 0, rest))"
    using p_cmp_once [of "p_add (p_mul (p_unary prim))" ts l "op_tok op" us op r rest] cmp_op_tok [OF assms(1)] by simp
  then show "p_not (p_cmp (p_add (p_mul (p_unary prim)))) ts = Some (Inr (NCmp op l r 0, rest))"
    using l(2) by (simp add: p_not_pass starts_def)
qed (rule r)

lemma cmp_op_other: "op \<in> {''||'', ''&&''} \<Longrightarrow> cmp_op (op_tok op) = None"
  by (auto simp: cmp_op_def)

lemma ladder_logic:
  assumes "op \<in> {''and'', ''or''}"
    and l: "prim ts = Some (Inr (l, op_tok (logic_op op) # us))" "starts ts"
    and r: "prim us = Some (Inr (r, rest))" "starts us" "ends (peek rest)"
  shows "ladder prim ts = Some (Inr (NLogic op l r 0, rest))"
proof -
  let ?low = "p_not (p_cmp (p_add (p_mul (p_unary prim))))"
  have "?low ts = Some (Inr (l, op_tok (logic_op op) # us))"
    using l by (intro to_not to_cmp) (auto simp: starts_def logic_op_def cmp_op_other)
  moreover have "?low us = Some (Inr (r, rest))" using r by (intro to_not to_cmp) (auto simp: starts_def)
  ultimately show ?thesis
    using assms(1) r(3)
      left_once [of ?low ts l "op_tok ''&&''" us is_and r rest "\<lambda>t l r. NLogic ''and'' l r (tk_pos t)"]
      left_once [of "p_and ?low" ts l "op_tok ''||''" us is_or r rest "\<lambda>t l r. NLogic ''or'' l r (tk_pos t)"]
    by (auto simp: ladder_def p_or_def p_and_def logic_op_def left_pass)
qed

lemma ladder_not:
  assumes "prim us = Some (Inr (x, rest))" "starts us" "ends (peek rest)"
  shows "ladder prim (op_tok ''!'' # us) = Some (Inr (NNot x 0, rest))"
proof (rule from_not)
  have "p_not (p_cmp (p_add (p_mul (p_unary prim)))) us = Some (Inr (x, rest))"
    using assms by (intro to_not to_cmp) (auto simp: starts_def)
  then show "p_not (p_cmp (p_add (p_mul (p_unary prim)))) (op_tok ''!'' # us) = Some (Inr (NNot x 0, rest))"
    by simp
qed (rule assms)

lemma ladder_neg:
  assumes "prim us = Some (Inr (x, rest))" "starts us" "ends (peek rest)"
  shows "ladder prim (op_tok ''-'' # us) = Some (Inr (NNeg x 0, rest))"
proof (rule from_not, rule to_not)
  have "p_unary prim (op_tok ''-'' # us) = Some (Inr (NNeg x 0, rest))"
    using to_mul [of prim us x rest] assms by simp
  then show "p_add (p_mul (p_unary prim)) (op_tok ''-'' # us) = Some (Inr (NNeg x 0, rest))"
    unfolding p_add_def p_mul_def by (intro left_pass) (simp_all add: assms(3))
qed (use assms in auto)


subsection \<open>Reading a printed formula\<close>

lemma starts_unparse: "printable rnd n \<Longrightarrow> starts (unparse n @ rest)"
  by (cases n) (auto simp: starts_def plain_word_def wrap_def is_not_def is_op_def is_word_def is_true_word_def
      is_false_word_def equal_fold_def fold_orbit_def to_lower_rune_def vn_def encode_rune_def)

lemma primary_wrap:
  "sub (ts @ mark_tok '')'' # rest) = Some (Inr (x, mark_tok '')'' # rest)) \<Longrightarrow>
     p_primary rnd sub (wrap ts @ rest) = Some (Inr (x, rest))"
  by (simp add: p_primary_def wrap_def)

lemma length_wrap [simp]: "length (wrap ts) = length ts + 2"
  by (simp add: wrap_def)

lemma unparse_nonempty [simp]: "0 < length (unparse n)"
  by (cases n) (auto simp: wrap_def)

lemma unparse_not_Nil: "unparse n \<noteq> []"
  using unparse_nonempty [of n] by blast

text \<open>Reads the arguments of a call, when it reads each of them.\<close>

lemma args_read:
  assumes "\<And>a rest. a \<in> set as \<Longrightarrow> ends (peek rest) \<Longrightarrow> sub (unparse a @ rest) = Some (Inr (unplaced a, rest))"
    and "as \<noteq> []" "length as \<le> k"
  shows "p_args k sub (commas (map unparse as) @ mark_tok '')'' # rest)
    = Some (Inr (map unplaced as, mark_tok '')'' # rest))"
  using assms
proof (induction as arbitrary: k)
  case (Cons a as)
  then obtain k' where k: "k = Suc k'" by (cases k) auto
  show ?case
  proof (cases as)
    case Nil
    then show ?thesis using Cons.prems(1) [of a "mark_tok '')'' # rest"] k by simp
  next
    case (Cons b bs)
    let ?more = "commas (map unparse as) @ mark_tok '')'' # rest"
    have "sub (unparse a @ mark_tok '','' # ?more) = Some (Inr (unplaced a, mark_tok '','' # ?more))"
      by (rule Cons.prems(1)) auto
    moreover have "p_args k' sub ?more = Some (Inr (map unplaced as, mark_tok '')'' # rest))"
      using Cons.IH [of k'] Cons.prems Cons k by auto
    ultimately show ?thesis using Cons k by simp
  qed
qed simp

lemma length_commas: "list_all (\<lambda>ts. ts \<noteq> []) tss \<Longrightarrow> length tss \<le> length (commas tss)
    \<and> list_all (\<lambda>ts. length ts \<le> length (commas tss)) tss"
proof (induction tss rule: commas.induct)
  case (3 a b bs)
  then show ?case by (cases a) (auto simp: list_all_iff)
qed (auto simp: Suc_le_eq)

lemma bool_words: "is_true_word ''TRUE''" "\<not> is_true_word ''FALSE''" "is_false_word ''FALSE''"
  by (simp_all add: is_true_word_def is_false_word_def equal_fold_def fold_orbit_def text_simps to_lower_rune_def lower_ranges_def)

lemma peek_unparse: "tk_kind (peek (unparse n @ rest)) \<noteq> '')''"
  by (cases n) (simp_all add: wrap_def)

lemma parse_decimal_nat: "parse_decimal (nat_string k) = Some (of_nat k)"
proof -
  have d: "list_all is_ascii_digit (nat_string k)" by (rule nat_string_digits)
  have "hd (nat_string k) \<noteq> CHR ''-''"
    using d by (cases "nat_string k") (auto simp: is_ascii_digit_def)
  moreover have "takeWhile is_ascii_digit (nat_string k) = nat_string k" "dropWhile is_ascii_digit (nat_string k) = []"
    using takeWhile_split [OF d, of "[]"] dropWhile_split [OF d, of "[]"]
    by (simp_all del: takeWhile_eq_all_conv dropWhile_eq_Nil_conv)
  ultimately show ?thesis
    by (simp add: parse_decimal_def Let_def \<open>takeWhile is_ascii_digit (nat_string k) = nat_string k\<close>
        \<open>dropWhile is_ascii_digit (nat_string k) = []\<close> del: takeWhile_eq_all_conv dropWhile_eq_Nil_conv)
qed

lemma unparse_primary:
  "printable rnd n \<Longrightarrow> length (unparse n) \<le> m + 1 \<Longrightarrow> follows (peek rest) \<Longrightarrow>
     p_primary rnd (p_expr rnd m) (unparse n @ rest) = Some (Inr (unplaced n, rest))"
proof (induction n arbitrary: m rest)
  case (NNum x p)
  then have "of_nat (nat \<lfloor>x\<rfloor>) = x" by (metis of_int_of_nat_eq int_nat_eq zero_le_floor printable.simps(1))
  then show ?case using NNum by (simp add: p_primary_def parse_decimal_nat)
next
  case (NStr s p)
  then show ?case by (simp add: p_primary_def)
next
  case (NBool b p)
  then show ?case by (simp add: p_primary_def bool_words)
next
  case (NIdent s p)
  then show ?case by (auto simp: p_primary_def plain_word_def follows_def)
next
  case (NMember t f p)
  then show ?case by (auto simp: p_primary_def plain_word_def)
next
  case (NCall f as p)
  let ?sub = "p_expr rnd m"
  have size: "length as \<le> length (commas (map unparse as))"
      "a \<in> set as \<Longrightarrow> length (unparse a) \<le> length (commas (map unparse as))" for a
    using length_commas [of "map unparse as"] by (auto simp: list_all_iff unparse_not_Nil)
  have args: "?sub (unparse a @ rest) = Some (Inr (unplaced a, rest))" if a: "a \<in> set as" "ends (peek rest)" for a rest
  proof -
    have "length (unparse a) + 3 \<le> m + 1" using NCall.prems size(2) [OF a(1)] by simp
    then obtain k where k: "m = Suc k" "length (unparse a) \<le> k + 1" by (cases m) auto
    then have "p_primary rnd (p_expr rnd k) (unparse a @ rest) = Some (Inr (unplaced a, rest))"
      using NCall a by (intro NCall.IH) (auto simp: list_all_iff)
    then show ?thesis
      using ladder_operand [of "p_primary rnd (p_expr rnd k)"] starts_unparse NCall.prems a k by (auto simp: list_all_iff)
  qed
  have "p_call ?sub f 0 (commas (map unparse as) @ mark_tok '')'' # rest) = Some (Inr (NCall f (map unplaced as) 0, rest))"
  proof (cases "as = []")
    case False
    have "tk_kind (peek (commas (map unparse as) @ mark_tok '')'' # rest)) \<noteq> '')''"
      using False NCall.prems by (cases as rule: list.exhaust; cases "tl as") (auto simp: peek_unparse)
    then show ?thesis
      using args_read [OF args False] size(1) by (simp add: p_call_def del: p_args.simps)
  qed (simp add: p_call_def)
  then show ?case
    using NCall.prems by (simp add: p_primary_def plain_word_def wrap_def)
next
  case (NNeg x p)
  then obtain k where k: "m = Suc k" "length (unparse x) \<le> k + 1" by (cases m) auto
  show ?case
    unfolding unparse.simps unplaced.simps k
    by (rule primary_wrap)
       (use NNeg k starts_unparse ladder_neg [of "p_primary rnd (p_expr rnd k)" "unparse x @ mark_tok '')'' # rest"] in auto)
next
  case (NNot x p)
  then obtain k where k: "m = Suc k" "length (unparse x) \<le> k + 1" by (cases m) auto
  show ?case
    unfolding unparse.simps unplaced.simps k
    by (rule primary_wrap)
       (use NNot k starts_unparse ladder_not [of "p_primary rnd (p_expr rnd k)" "unparse x @ mark_tok '')'' # rest"] in auto)
next
  case (NLogic op l r p)
  then obtain k where k: "m = Suc k" "length (unparse l) \<le> k + 1" "length (unparse r) \<le> k + 1" by (cases m) auto
  show ?case
    unfolding unparse.simps unplaced.simps k
    by (rule primary_wrap)
       (use NLogic k starts_unparse in \<open>auto intro!: ladder_logic [where us = "unparse r @ mark_tok '')'' # rest"]\<close>)
next
  case (NArith op l r p)
  then obtain k where k: "m = Suc k" "length (unparse l) \<le> k + 1" "length (unparse r) \<le> k + 1" by (cases m) auto
  show ?case
    unfolding unparse.simps unplaced.simps k
    by (rule primary_wrap)
       (use NArith k starts_unparse in \<open>auto intro!: ladder_arith [where us = "unparse r @ mark_tok '')'' # rest"]\<close>)
next
  case (NCmp op l r p)
  then obtain k where k: "m = Suc k" "length (unparse l) \<le> k + 1" "length (unparse r) \<le> k + 1" by (cases m) auto
  show ?case
    unfolding unparse.simps unplaced.simps k
    by (rule primary_wrap)
       (use NCmp k starts_unparse in \<open>auto intro!: ladder_cmp [where us = "unparse r @ mark_tok '')'' # rest"]\<close>)
qed


subsection \<open>What the parser promises\<close>


definition example_formula :: node where
  "example_formula =
     NLogic ''or'' (NNot (NCmp ''<='' (NCall ''SUM'' [NMember ''invoice'' ''amount'' 4, NNum 5 17] 0) (NNum 40 30) 22) 1)
       (NBool True 40) 34"


end
