(* ===== verification/CheckValues.thy ===== *)
theory CheckValues
  imports CheckPrint
begin

text \<open>
  The evaluator of check formulas (\<^verbatim>\<open>internal/checkexpr/eval.go\<close>): values of the fields of
  documents, with lists for the types that have several documents and a third truth value for what
  is not known. \<open>None\<close> is a run-time panic: a function that does not exist, or an argument past the
  end. Slices are lists: the sharing of their backing arrays after \<^verbatim>\<open>append\<close> is not modelled.
\<close>

subsection \<open>The surroundings\<close>

text \<open>
  Arguments of the model: the Unicode decomposition of \<^verbatim>\<open>golang.org/x/text\<close>, the rounding to a
  float64 and \<^verbatim>\<open>math.Pow(10, p)\<close>, the \<^verbatim>\<open>%q\<close> form of a text, and the day of \<^verbatim>\<open>time.Now()\<close>.
\<close>

record formula_env =
  fe_nfd :: "string \<Rightarrow> string option"
  fe_round :: "rat \<Rightarrow> rat"
  fe_pow10 :: "rat \<Rightarrow> rat"
  fe_quote :: "string \<Rightarrow> string"
  fe_today :: int

subsection \<open>Dates\<close>

text \<open>
  A \<^verbatim>\<open>time.Time\<close> at midnight UTC is its day number (1970-01-01 is 0), with the conversions to and
  from the proleptic Gregorian calendar; a month or a day out of range carries over, as in \<^verbatim>\<open>time.Date\<close>.
\<close>

definition days_of_civil :: "int \<Rightarrow> int \<Rightarrow> int \<Rightarrow> int" where
  "days_of_civil y m d =
     (let y = y + (m - 1) div 12; m = (m - 1) mod 12 + 1;
          y = (if m \<le> 2 then y - 1 else y);
          era = y div 400; yoe = y mod 400;
          doy = (153 * (if m > 2 then m - 3 else m + 9) + 2) div 5
      in era * 146097 + yoe * 365 + yoe div 4 - yoe div 100 + doy + d - 1 - 719468)"

definition civil_of_days :: "int \<Rightarrow> int \<times> int \<times> int" where
  "civil_of_days n =
     (let z = n + 719468; era = z div 146097; doe = z mod 146097;
          yoe = (doe - doe div 1460 + doe div 36524 - doe div 146096) div 365;
          doy = doe - (365 * yoe + yoe div 4 - yoe div 100);
          mp = (5 * doy + 2) div 153;
          d = doy - (153 * mp + 2) div 5 + 1;
          m = (if mp < 10 then mp + 3 else mp - 9)
      in (yoe + era * 400 + (if m \<le> 2 then 1 else 0), m, d))"

definition add_date :: "int \<Rightarrow> int \<Rightarrow> int \<Rightarrow> int \<Rightarrow> int" where
  "add_date t years months days =
     (let (y, m, d) = civil_of_days t in days_of_civil (y + years) (m + months) (d + days))"

definition padded :: "nat \<Rightarrow> int \<Rightarrow> string" where
  "padded w n =
     (let s = nat_string (nat (abs n)) in (if n < 0 then ''-'' else []) @ replicate (w - length s) (CHR ''0'') @ s)"

definition format_dmy :: "int \<Rightarrow> string" where
  "format_dmy t = (let (y, m, d) = civil_of_days t in padded 2 d @ ''/'' @ padded 2 m @ ''/'' @ padded 4 y)"

definition format_iso :: "int \<Rightarrow> string" where
  "format_iso t = (let (y, m, d) = civil_of_days t in padded 4 y @ ''-'' @ padded 2 m @ ''-'' @ padded 2 d)"

text \<open>The elements of the date layouts of Go: a year, a month or day of exactly two digits, or of one or two.\<close>

datatype layout_item = LYear | LMonth bool | LDay bool | LSep char

definition date_layouts :: "layout_item list list" where
  "date_layouts =
     [[LYear, LSep CHR ''-'', LMonth True, LSep CHR ''-'', LDay True],
      [LDay True, LSep CHR ''/'', LMonth True, LSep CHR ''/'', LYear],
      [LDay False, LSep CHR ''/'', LMonth False, LSep CHR ''/'', LYear],
      [LDay True, LSep CHR ''-'', LMonth True, LSep CHR ''-'', LYear],
      [LDay True, LSep CHR ''.'', LMonth True, LSep CHR ''.'', LYear],
      [LYear, LSep CHR ''/'', LMonth True, LSep CHR ''/'', LDay True]]"

text \<open>\<^verbatim>\<open>getnum\<close> of the package \<^verbatim>\<open>time\<close>.\<close>

definition get_num :: "bool \<Rightarrow> string \<Rightarrow> (int \<times> string) option" where
  "get_num fixed s =
     (if s = [] \<or> \<not> is_ascii_digit (hd s) then None
      else if tl s = [] \<or> \<not> is_ascii_digit (hd (tl s)) then
        (if fixed then None else Some (int (digits_value (take 1 s)), tl s))
      else Some (int (digits_value (take 2 s)), drop 2 s))"

fun parse_layout :: "layout_item list \<Rightarrow> string \<Rightarrow> int \<times> int \<times> int \<Rightarrow> (int \<times> int \<times> int) option" where
  "parse_layout [] s ymd = (if s = [] then Some ymd else None)"
| "parse_layout (LYear # ls) s (y, m, d) =
     (if 4 \<le> length s \<and> list_all is_ascii_digit (take 4 s)
      then parse_layout ls (drop 4 s) (int (digits_value (take 4 s)), m, d) else None)"
| "parse_layout (LMonth fixed # ls) s (y, m, d) =
     (case get_num fixed s of
        None \<Rightarrow> None
      | Some (n, s') \<Rightarrow> if 1 \<le> n \<and> n \<le> 12 then parse_layout ls s' (y, n, d) else None)"
| "parse_layout (LDay fixed # ls) s (y, m, d) =
     (case get_num fixed s of None \<Rightarrow> None | Some (n, s') \<Rightarrow> parse_layout ls s' (y, m, n))"
| "parse_layout (LSep c # ls) s ymd = (if s \<noteq> [] \<and> hd s = c then parse_layout ls (tl s) ymd else None)"

definition days_in_month :: "int \<Rightarrow> int \<Rightarrow> int" where
  "days_in_month y m = days_of_civil y (m + 1) 1 - days_of_civil y m 1"

definition read_layout :: "layout_item list \<Rightarrow> string \<Rightarrow> int option" where
  "read_layout ls s =
     (case parse_layout ls s (0, 1, 1) of
        None \<Rightarrow> None
      | Some (y, m, d) \<Rightarrow> if 1 \<le> d \<and> d \<le> days_in_month y m then Some (days_of_civil y m d) else None)"

fun first_some :: "('a \<Rightarrow> 'b option) \<Rightarrow> 'a list \<Rightarrow> 'b option" where
  "first_some f [] = None"
| "first_some f (x # xs) = (case f x of Some y \<Rightarrow> Some y | None \<Rightarrow> first_some f xs)"

definition parse_date :: "string \<Rightarrow> int option" where
  "parse_date s = (let s = trim_space s in first_some (\<lambda>l. read_layout l s) date_layouts)"

subsection \<open>The scope\<close>

record check_ref =
  rf_doc :: string
  rf_label :: string
  rf_field :: string

record field_value =
  fv_text :: string
  fv_field :: string

record doc =
  d_id :: string
  d_type :: string
  d_label :: string
  d_fields :: "string \<rightharpoonup> field_value"

record field_info =
  fi_label :: string
  fi_type :: string

record type_info =
  ti_title :: string
  ti_fields :: "string \<rightharpoonup> field_info"

record scope =
  sc_types :: "string \<rightharpoonup> type_info"
  sc_groups :: "string \<rightharpoonup> doc list"
  sc_single :: "string \<rightharpoonup> doc"
  sc_single_type :: "string \<rightharpoonup> string"

definition type_of :: "scope \<Rightarrow> string \<Rightarrow> string option" where
  "type_of sc name =
     (case sc_single_type sc name of
        Some t \<Rightarrow> Some t
      | None \<Rightarrow> if sc_types sc name \<noteq> None then Some name else None)"

text \<open>Map lookups give Go's zero value for a key that is missing.\<close>

definition type_at :: "scope \<Rightarrow> string \<Rightarrow> type_info" where
  "type_at sc t = (case sc_types sc t of Some i \<Rightarrow> i | None \<Rightarrow> \<lparr>ti_title = [], ti_fields = Map.empty\<rparr>)"

definition group_at :: "scope \<Rightarrow> string \<Rightarrow> doc list" where
  "group_at sc name = (case sc_groups sc name of Some ds \<Rightarrow> ds | None \<Rightarrow> [])"

subsection \<open>Values\<close>

datatype vkind = KUnknown | KNum | KStr | KDate | KBool | KList

text \<open>The struct \<^verbatim>\<open>value\<close>, its fields in the order of the source.\<close>

datatype val =
  Val (v_kind: vkind) (v_num: rat) (v_str: string) (v_date: int) (v_bool: bool) (v_list: "val list")
      (v_refs: "check_ref list") (v_missing: "string list") (v_note: string) (v_whole: bool)

definition unknown_val :: "string list \<Rightarrow> check_ref list \<Rightarrow> val" where
  "unknown_val why refs = Val KUnknown 0 [] 0 False [] refs why [] False"

definition num_val :: "rat \<Rightarrow> check_ref list \<Rightarrow> bool \<Rightarrow> val" where
  "num_val x refs whole = Val KNum x [] 0 False [] refs [] [] whole"

definition str_val :: "string \<Rightarrow> check_ref list \<Rightarrow> val" where
  "str_val s refs = Val KStr 0 s 0 False [] refs [] [] False"

definition date_val :: "int \<Rightarrow> string \<Rightarrow> check_ref list \<Rightarrow> val" where
  "date_val t s refs = Val KDate 0 s t False [] refs [] [] False"

definition bool_val :: "bool \<Rightarrow> check_ref list \<Rightarrow> string \<Rightarrow> val" where
  "bool_val b refs note = Val KBool 0 [] 0 b [] refs [] note False"

definition list_val :: "val list \<Rightarrow> val" where
  "list_val l = Val KList 0 [] 0 False l [] [] [] False"

lemmas val_defs = unknown_val_def num_val_def str_val_def date_val_def bool_val_def list_val_def

lemma val_fields [simp]:
  "v_kind (unknown_val why refs) = KUnknown" "v_kind (num_val x refs w) = KNum" "v_kind (str_val s refs) = KStr"
  "v_kind (date_val t s refs) = KDate" "v_kind (bool_val b refs n) = KBool" "v_kind (list_val l) = KList"
  "v_missing (unknown_val why refs) = why" "v_refs (unknown_val why refs) = refs" "v_num (num_val x refs w) = x"
  "v_refs (num_val x refs w) = refs" "v_str (str_val s refs) = s" "v_refs (str_val s refs) = refs"
  "v_date (date_val t s refs) = t" "v_bool (bool_val b refs n) = b" "v_refs (bool_val b refs n) = refs"
  "v_note (bool_val b refs n) = n" "v_list (list_val l) = l" "v_missing (str_val s refs) = []"
  by (simp_all add: val_defs)

text \<open>Digits in groups of three.\<close>

fun group_digits :: "string \<Rightarrow> string" where
  "group_digits [] = []"
| "group_digits (c # s) = c # (if s \<noteq> [] \<and> length s mod 3 = 0 then CHR ''.'' # group_digits s else group_digits s)"

text \<open>\<^verbatim>\<open>strconv.FormatFloat(x, 'f', 2, 64)\<close>: two decimals, ties to even.\<close>

definition two_decimals :: "rat \<Rightarrow> string" where
  "two_decimals x =
     (let y = abs x * 100; n = \<lfloor>y\<rfloor>; r = y - of_int n;
          n = (if r > 1 / 2 \<or> r = 1 / 2 \<and> odd n then n + 1 else n)
      in (if x < 0 then ''-'' else []) @ nat_string (nat (n div 100)) @ ''.'' @ padded 2 (n mod 100))"

definition fmt_num :: "rat \<Rightarrow> string" where
  "fmt_num x =
     (if of_int \<lfloor>x\<rfloor> = x \<and> abs x < 10 ^ 15 then
        (if x < 0 then ''-'' else []) @ group_digits (nat_string (nat \<lfloor>abs x\<rfloor>))
      else two_decimals x)"

fun val_text :: "val \<Rightarrow> string" where
  "val_text (Val k n s t b l refs ms note w) =
     (case k of
        KNum \<Rightarrow> fmt_num n
      | KStr \<Rightarrow> (vn ''~201C;'') @ s @ (vn ''~201D;'')
      | KDate \<Rightarrow> format_dmy t
      | KBool \<Rightarrow> if b then (vn ''~111;~FA;ng'') else ''sai''
      | KList \<Rightarrow> ''['' @ join_with '', '' (map val_text l) @ '']''
      | KUnknown \<Rightarrow> (vn ''(kh~F4;ng c~F3;)''))"

definition as_text :: "val \<Rightarrow> string" where
  "as_text v = (case v_kind v of KStr \<Rightarrow> v_str v | KDate \<Rightarrow> format_iso (v_date v) | _ \<Rightarrow> val_text v)"

definition refs_of :: "val list \<Rightarrow> check_ref list" where
  "refs_of vs = concat (map v_refs vs)"

lemma v_list_size: "x \<in> set (v_list v) \<Longrightarrow> size x < size v"
  by (cases v) (auto simp: less_Suc_eq_le dest: size_list_estimation' [OF _ order_refl, of _ _ size])

subsection \<open>Results\<close>

datatype status = Pass | Fail | Unknown | ErrorStatus

record item =
  it_note :: string
  it_refs :: "check_ref list"

record result =
  r_status :: status
  r_detail :: string
  r_failing :: "item list"
  r_missing :: "string list"
  r_refs :: "check_ref list"

definition result_of :: "status \<Rightarrow> string \<Rightarrow> item list \<Rightarrow> string list \<Rightarrow> check_ref list \<Rightarrow> result" where
  "result_of st d fs ms refs = \<lparr>r_status = st, r_detail = d, r_failing = fs, r_missing = ms, r_refs = refs\<rparr>"

lemma result_of_fields [simp]:
  "r_status (result_of st d fs ms refs) = st" "r_detail (result_of st d fs ms refs) = d"
  "r_failing (result_of st d fs ms refs) = fs" "r_missing (result_of st d fs ms refs) = ms"
  by (simp_all add: result_of_def)

definition dedupe :: "string list \<Rightarrow> string list" where
  "dedupe xs = dedupe_from [] xs"

text \<open>The loop over the items of a list: the status, the failures and the references so far, and what is missing.\<close>

fun merge_verdicts :: "nat \<Rightarrow> status \<Rightarrow> item list \<Rightarrow> check_ref list \<Rightarrow> string list \<Rightarrow> result list \<Rightarrow> result" where
  "merge_verdicts n st fs refs ms [] =
     (if st = Pass \<and> ms \<noteq> [] then result_of Unknown [] [] (dedupe ms) refs
      else if st = Pass then
        result_of Pass (nat_string n @ ''/'' @ nat_string n @ (vn '' gi~1EA5;y t~1EDD; ~111;~1EA1;t'')) fs [] refs
      else result_of st [] fs [] refs)"
| "merge_verdicts n st fs refs ms (sub # subs) =
     (case r_status sub of
        Fail \<Rightarrow> merge_verdicts n Fail (fs @ r_failing sub) (refs @ r_refs sub) ms subs
      | Unknown \<Rightarrow> merge_verdicts n st fs (refs @ r_refs sub) (ms @ r_missing sub) subs
      | ErrorStatus \<Rightarrow> sub
      | Pass \<Rightarrow> merge_verdicts n st fs (refs @ r_refs sub) ms subs)"

fun verdict :: "val \<Rightarrow> result" where
  "verdict (Val k n s t b l refs ms note w) =
     (case k of
        KBool \<Rightarrow>
          if b then result_of Pass note [] [] refs
          else result_of Fail note [\<lparr>it_note = note, it_refs = refs\<rparr>] [] refs
      | KList \<Rightarrow>
          if l = [] then result_of Unknown [] [] [(vn ''kh~F4;ng c~F3; gi~1EA5;y t~1EDD; n~E0;o ~111;~1EC3; ki~1EC3;m'')] []
          else merge_verdicts (length l) Pass [] [] [] (map verdict l)
      | KUnknown \<Rightarrow> result_of Unknown [] [] (dedupe ms) refs
      | _ \<Rightarrow>
          result_of ErrorStatus
            ((vn ''c~F4;ng th~1EE9;c ph~1EA3;i cho k~1EBF;t qu~1EA3; ~111;~FA;ng/sai, nh~1B0;ng cho '') @ val_text (Val k n s t b l refs ms note w)) [] [] [])"

subsection \<open>Fields\<close>

definition read_bool :: "formula_env \<Rightarrow> string \<Rightarrow> bool option" where
  "read_bool e t =
     (let w = normalize_text (fe_nfd e) t in
      if w \<in> {''co'', ''yes'', ''true'', ''dung'', ''x'', ''v''} then Some True
      else if w \<in> {''khong'', ''no'', ''false'', ''sai''} then Some False else None)"

text \<open>\<^verbatim>\<open>evaluator.field\<close>: the value of the field \<open>key\<close> of \<open>d\<close>, read as the type \<open>typ\<close> says.\<close>

definition field_val :: "formula_env \<Rightarrow> scope \<Rightarrow> doc \<Rightarrow> string \<Rightarrow> string \<Rightarrow> val" where
  "field_val e sc d typ key =
     (let fi = (case ti_fields (type_at sc typ) key of Some i \<Rightarrow> i | None \<Rightarrow> \<lparr>fi_label = [], fi_type = []\<rparr>);
          fv = (case d_fields d key of Some v \<Rightarrow> v | None \<Rightarrow> \<lparr>fv_text = [], fv_field = []\<rparr>);
          ref = \<lparr>rf_doc = d_id d, rf_label = d_label d, rf_field = fv_field fv\<rparr>;
          label = (if fi_label fi = [] then key else fi_label fi);
          t = trim_space (fv_text fv)
      in if t = [] then
           unknown_val [d_label d @ (vn '': thi~1EBF;u '') @ label] [\<lparr>rf_doc = d_id d, rf_label = d_label d, rf_field = []\<rparr>]
         else if fi_type fi = ''money'' \<or> fi_type fi = ''number'' then
           (case parse_number (fe_round e) t of
              Some x \<Rightarrow> num_val x [ref] False
            | None \<Rightarrow>
                unknown_val [d_label d @ '': '' @ label @ '' '' @ fe_quote e t @ (vn '' kh~F4;ng ~111;~1ECD;c ~111;~1B0;~1EE3;c th~E0;nh s~1ED1;'')] [ref])
         else if fi_type fi = ''date'' then
           (case parse_date t of
              Some n \<Rightarrow> date_val n [] [ref]
            | None \<Rightarrow>
                unknown_val [d_label d @ '': '' @ label @ '' '' @ fe_quote e t @ (vn '' kh~F4;ng ~111;~1ECD;c ~111;~1B0;~1EE3;c th~E0;nh ng~E0;y'')] [ref])
         else if fi_type fi = ''bool'' then
           (case read_bool e t of Some b \<Rightarrow> bool_val b [ref] [] | None \<Rightarrow> str_val t [ref])
         else str_val t [ref])"

end
