(* ===== verification/CheckEval.thy ===== *)
theory CheckEval
  imports CheckValues
begin

text \<open>
  The operators and functions of check formulas (\<^verbatim>\<open>internal/checkexpr/eval.go\<close>), the evaluation of
  a parsed formula and its validation against the types of a scope.
\<close>

subsection \<open>Logic\<close>

definition known_bool :: "result \<Rightarrow> bool option" where
  "known_bool r = (case r_status r of Pass \<Rightarrow> Some True | Fail \<Rightarrow> Some False | _ \<Rightarrow> None)"

definition fail_notes :: "result \<Rightarrow> string list" where
  "fail_notes r = map it_note (r_failing r)"

definition all_notes :: "result \<Rightarrow> string list" where
  "all_notes r = (if r_detail r \<noteq> [] then [r_detail r] else []) @ fail_notes r"

definition logic_val :: "string \<Rightarrow> val \<Rightarrow> val \<Rightarrow> val" where
  "logic_val op l r =
     (let lv = verdict l; rv = verdict r; both = v_refs l @ v_refs r;
          lb = known_bool lv; rb = known_bool rv;
          notes = join_with ''; '' (dedupe (all_notes lv @ all_notes rv));
          unknown = unknown_val (r_missing lv @ r_missing rv) []
      in if op = ''and'' then
           (if lb = Some False \<or> rb = Some False then
              bool_val False both (join_with ''; '' (dedupe (fail_notes lv @ fail_notes rv)))
            else if lb \<noteq> None \<and> rb \<noteq> None then bool_val True both notes
            else unknown)
         else
           (if lb = Some True \<or> rb = Some True then bool_val True both notes
            else if lb \<noteq> None \<and> rb \<noteq> None then bool_val False both notes
            else unknown))"

text \<open>\<^verbatim>\<open>mapBool\<close> with the function of \<^verbatim>\<open>NOT\<close>.\<close>

fun not_val :: "val \<Rightarrow> val" where
  "not_val (Val k n s t b l refs ms note w) =
     (case k of
        KBool \<Rightarrow> Val k n s t (\<not> b) l refs ms ((vn ''kh~F4;ng ph~1EA3;i: '') @ note) w
      | KList \<Rightarrow> Val k n s t b (map not_val l) refs ms note w
      | _ \<Rightarrow> Val k n s t b l refs ms note w)"

subsection \<open>Item by item\<close>

lemma zip_sizes: "(x, y) \<in> set (zip (v_list l) (v_list r)) \<Longrightarrow> size x + size y < size l + size r"
  by (metis add_strict_mono set_zip_leftD set_zip_rightD v_list_size)

function broadcast :: "(val \<Rightarrow> val \<Rightarrow> val) \<Rightarrow> val \<Rightarrow> val \<Rightarrow> val" where
  "broadcast f l r =
     (if v_kind l = KList \<and> v_kind r = KList \<and> length (v_list l) = length (v_list r) then
        list_val (map (\<lambda>(x, y). broadcast f x y) (zip (v_list l) (v_list r)))
      else if v_kind l = KList \<and> v_kind r \<noteq> KList then list_val (map (\<lambda>x. broadcast f x r) (v_list l))
      else if v_kind r = KList \<and> v_kind l \<noteq> KList then list_val (map (\<lambda>y. broadcast f l y) (v_list r))
      else if v_kind l = KList \<and> v_kind r = KList then
        unknown_val [(vn ''hai danh s~E1;ch kh~F4;ng c~F9;ng s~1ED1; gi~1EA5;y t~1EDD;, h~E3;y g~1ED9;p b~1EB1;ng SUM/MIN/MAX'')] []
      else if v_kind l = KUnknown \<or> v_kind r = KUnknown then
        unknown_val (v_missing l @ v_missing r) (v_refs l @ v_refs r)
      else f l r)"
  by pat_completeness auto
termination
  by (relation "measure (\<lambda>(f, l, r). size l + size r)")
     (auto dest: v_list_size zip_sizes)

declare broadcast.simps [simp del]

subsection \<open>Comparison and arithmetic\<close>

definition cmp_holds :: "string \<Rightarrow> int \<Rightarrow> bool" where
  "cmp_holds op c =
     (if op = ''='' then c = 0 else if op = ''!='' then c \<noteq> 0 else if op = ''<'' then c < 0
      else if op = ''<='' then c \<le> 0 else if op = ''>'' then c > 0 else if op = ''>='' then c \<ge> 0 else False)"

definition cmp_sign :: "string \<Rightarrow> string" where
  "cmp_sign op =
     (if op = ''!='' then (vn ''~2260;'') else if op = ''<='' then (vn ''~2264;'') else if op = ''>='' then (vn ''~2265;'')
      else if op \<in> {''='', ''<'', ''>''} then op else [])"

text \<open>
  The order of two values: \<open>None\<close> when the operator does not apply to them. Of two texts only
  whether their keys are equal matters.
\<close>

definition compare_order :: "formula_env \<Rightarrow> string \<Rightarrow> val \<Rightarrow> val \<Rightarrow> int option" where
  "compare_order e op a b =
     (if v_kind a = KNum \<and> v_kind b = KNum then
        Some (if abs (fe_round e (v_num a - v_num b)) < fe_round e (5 / 1000) then 0
              else if v_num a < v_num b then -1 else 1)
      else if v_kind a = KDate \<and> v_kind b = KDate then Some (sgn (v_date a - v_date b))
      else if v_kind a = KBool \<and> v_kind b = KBool then Some (if v_bool a \<noteq> v_bool b then 1 else 0)
      else if op \<noteq> ''='' \<and> op \<noteq> ''!='' then None
      else Some (if value_key (fe_nfd e) (as_text a) = value_key (fe_nfd e) (as_text b) then 0 else 1))"

definition compare_val :: "formula_env \<Rightarrow> string \<Rightarrow> val \<Rightarrow> val \<Rightarrow> val" where
  "compare_val e op a b =
     (case compare_order e op a b of
        None \<Rightarrow> unknown_val [(vn ''kh~F4;ng so l~1EDB;n nh~1ECF; ~111;~1B0;~1EE3;c '') @ val_text a @ (vn '' v~1EDB;i '') @ val_text b] []
      | Some c \<Rightarrow>
          (let ok = cmp_holds op c;
               label = (if length (v_refs a) = 1 \<and> \<not> v_whole a then rf_label (hd (v_refs a)) @ '': ''
                        else if length (v_refs b) = 1 \<and> \<not> v_whole b \<and> v_refs a = [] then rf_label (hd (v_refs b)) @ '': ''
                        else []);
               sign = (if ok then '' '' else (vn '' kh~F4;ng '')) @ cmp_sign op @ '' ''
           in bool_val ok (refs_of [a, b]) (label @ val_text a @ sign @ val_text b)))"

definition arith_item :: "formula_env \<Rightarrow> string \<Rightarrow> val \<Rightarrow> val \<Rightarrow> val" where
  "arith_item e op l r =
     (if v_kind l = KUnknown \<or> v_kind r = KUnknown then unknown_val (v_missing l @ v_missing r) []
      else if v_kind l \<noteq> KNum \<or> v_kind r \<noteq> KNum then
        unknown_val [(vn ''ph~E9;p '') @ op @ (vn '' ch~1EC9; d~F9;ng cho s~1ED1;, nh~1EAD;n '') @ val_text l @ (vn '' v~E0; '') @ val_text r] []
      else
        (let refs = refs_of [l, r]; whole = (v_whole l \<or> v_whole r \<or> 1 < length refs) in
         if op = ''+'' then num_val (fe_round e (v_num l + v_num r)) refs whole
         else if op = ''-'' then num_val (fe_round e (v_num l - v_num r)) refs whole
         else if op = ''*'' then num_val (fe_round e (v_num l * v_num r)) refs whole
         else if op = ''/'' then
           (if v_num r = 0 then unknown_val [''chia cho 0''] []
            else num_val (fe_round e (v_num l / v_num r)) refs whole)
         else num_val 0 refs whole))"

definition arith_val :: "formula_env \<Rightarrow> string \<Rightarrow> val \<Rightarrow> val \<Rightarrow> val" where
  "arith_val e op l r =
     (if v_kind l = KList \<or> v_kind r = KList then broadcast (arith_item e op) l r else arith_item e op l r)"

subsection \<open>Functions\<close>

lemma size_v_list: "size_list size (v_list v) < size v"
  by (cases v) simp

function flat_items :: "val list \<Rightarrow> val list" where
  "flat_items [] = []"
| "flat_items (a # as) = (if v_kind a = KList then flat_items (v_list a) else [a]) @ flat_items as"
  by pat_completeness auto
termination
  by (relation "measure (size_list size)") (auto intro: less_trans [OF size_v_list])

text \<open>The aggregates: \<open>sum\<close>, \<open>min\<close>, \<open>max\<close> and \<open>average\<close> of the numbers of the items.\<close>

definition agg_missing :: "string \<Rightarrow> val list \<Rightarrow> string list" where
  "agg_missing name items =
     concat (map (\<lambda>x. case v_kind x of
         KNum \<Rightarrow> []
       | KUnknown \<Rightarrow> v_missing x
       | _ \<Rightarrow> [name @ (vn '' c~1EA7;n s~1ED1;, nh~1EAD;n '') @ val_text x]) items)"

definition aggregate :: "string \<Rightarrow> (rat list \<Rightarrow> rat) \<Rightarrow> val list \<Rightarrow> val" where
  "aggregate name f args =
     (let items = flat_items args;
          xs = map v_num (filter (\<lambda>x. v_kind x = KNum) items);
          missing = agg_missing name items
      in if missing \<noteq> [] then unknown_val missing []
         else if xs = [] then
           (if name = ''SUM'' then num_val 0 [] False
            else unknown_val [name @ (vn '': kh~F4;ng c~F3; gi~E1; tr~1ECB; n~E0;o'')] [])
         else num_val (f xs) (refs_of items) True)"

definition float_sum :: "formula_env \<Rightarrow> rat list \<Rightarrow> rat" where
  "float_sum e xs = foldl (\<lambda>s x. fe_round e (s + x)) 0 xs"

definition count_val :: "val list \<Rightarrow> val" where
  "count_val args = num_val (of_nat (length (filter (\<lambda>x. v_kind x \<noteq> KUnknown) (flat_items args)))) [] False"

definition exists_val :: "val list \<Rightarrow> val" where
  "exists_val args =
     (case filter (\<lambda>x. v_kind x \<noteq> KUnknown) (flat_items args) of
        x # _ \<Rightarrow> bool_val True [] ((vn ''c~F3; '') @ val_text x)
      | [] \<Rightarrow> bool_val False [] (vn ''kh~F4;ng c~F3; gi~1EA5;y t~1EDD; ho~1EB7;c gi~E1; tr~1ECB; n~E0;o''))"

definition with_num :: "val \<Rightarrow> rat \<Rightarrow> val" where
  "with_num v x = Val (v_kind v) x (v_str v) (v_date v) (v_bool v) (v_list v) (v_refs v) (v_missing v) (v_note v) (v_whole v)"

definition abs_val :: "val \<Rightarrow> val" where
  "abs_val a = (if v_kind a \<noteq> KNum then unknown_val [(vn ''ABS c~1EA7;n s~1ED1;'')] [] else with_num a (abs (v_num a)))"

text \<open>\<^verbatim>\<open>math.Round\<close>: the nearest integer, halves away from zero.\<close>

definition math_round :: "rat \<Rightarrow> rat" where
  "math_round x = (if x < 0 then - of_int \<lfloor>- x + 1 / 2\<rfloor> else of_int \<lfloor>x + 1 / 2\<rfloor>)"

definition round_val :: "formula_env \<Rightarrow> val list \<Rightarrow> val option" where
  "round_val e args =
     (case args of
        [] \<Rightarrow> None
      | a # rest \<Rightarrow>
          Some (if v_kind a \<noteq> KNum then unknown_val [(vn ''ROUND c~1EA7;n s~1ED1;'')] []
            else
              (let p = (case rest of b # _ \<Rightarrow> if v_kind b = KNum then v_num b else 0 | [] \<Rightarrow> 0);
                   m = fe_pow10 e p
               in with_num a (fe_round e (math_round (fe_round e (v_num a * m)) / m)))))"

definition between_item :: "formula_env \<Rightarrow> val \<Rightarrow> val \<Rightarrow> val \<Rightarrow> val" where
  "between_item e lo hi x =
     (if v_kind lo = KUnknown \<or> v_kind hi = KUnknown then unknown_val (v_missing lo @ v_missing hi) []
      else
        (let ge = compare_val e ''>='' x lo; le = compare_val e ''<='' x hi in
         if v_kind ge \<noteq> KBool \<or> v_kind le \<noteq> KBool then unknown_val (v_missing ge @ v_missing le) []
         else
           (let label = (case v_refs x of r # _ \<Rightarrow> rf_label r @ '': '' | [] \<Rightarrow> []);
                ok = (v_bool ge \<and> v_bool le);
                word = (if ok then (vn '' trong kho~1EA3;ng '') else (vn '' ngo~E0;i kho~1EA3;ng ''))
            in bool_val ok (refs_of [x, lo, hi]) (label @ val_text x @ word @ val_text lo @ (vn '' ~2013; '') @ val_text hi))))"

text \<open>The two bounds go through \<^verbatim>\<open>broadcast2\<close> as one value that is no list (\<^verbatim>\<open>pair\<close>).\<close>

definition pair_val :: "val \<Rightarrow> val \<Rightarrow> val" where
  "pair_val lo hi = Val KStr 0 [] 0 False [lo, hi] [] [] [] False"

definition between_val :: "formula_env \<Rightarrow> val \<Rightarrow> val \<Rightarrow> val \<Rightarrow> val" where
  "between_val e a lo hi =
     broadcast (\<lambda>x p. between_item e (v_list p ! 0) (v_list p ! 1) x) a (pair_val lo hi)"

definition val_key :: "formula_env \<Rightarrow> val \<Rightarrow> string" where
  "val_key e x = value_key (fe_nfd e) (as_text x)"

definition same_val :: "formula_env \<Rightarrow> val list \<Rightarrow> val" where
  "same_val e args =
     (let items = flat_items args;
          present = filter (\<lambda>x. v_kind x \<noteq> KUnknown) items;
          missing = concat (map v_missing (filter (\<lambda>x. v_kind x = KUnknown) items));
          order = dedupe_from [] (map (val_key e) present);
          with_key = (\<lambda>k. filter (\<lambda>x. val_key e x = k) present);
          known = int (length items) - int (length missing)
      in if known < 2 then unknown_val (missing @ [(vn ''c~1EA7;n ~ED;t nh~1EA5;t 2 gi~E1; tr~1ECB; ~111;~1EC3; so'')]) []
         else if length order = 1 then
           bool_val True (refs_of items)
             (int_string known @ (vn '' gi~E1; tr~1ECB; gi~1ED1;ng nhau: '') @ val_text (hd (with_key (hd order))))
         else
           bool_val False (refs_of items)
             ((vn ''kh~F4;ng gi~1ED1;ng nhau: '') @
              join_with (vn '' ~2260; '')
                (map (\<lambda>k. val_text (hd (with_key k)) @ '' ('' @
                   join_with '', '' (dedupe (map rf_label (refs_of (with_key k)))) @ '')'') order)))"

text \<open>\<^verbatim>\<open>strings.ReplaceAll\<close>.\<close>

function replace_all :: "string \<Rightarrow> string \<Rightarrow> string \<Rightarrow> string" where
  "replace_all old new s =
     (if s = [] \<or> old = [] then s
      else if prefix old s then new @ replace_all old new (drop (length old) s)
      else hd s # replace_all old new (tl s))"
  by pat_completeness auto
termination by (relation "measure (\<lambda>(old, new, s). length s)") auto

declare replace_all.simps [simp del]

definition company_words :: "string list" where
  "company_words =
     [''cong ty'', ''trach nhiem huu han'', ''tnhh'', ''co phan'', ''cp'', ''mot thanh vien'', ''mtv'',
      ''chi nhanh'', ''tap doan'', ''doanh nghiep tu nhan'', ''dntn'']"

definition company_key :: "formula_env \<Rightarrow> string \<Rightarrow> string" where
  "company_key e s =
     value_key (fe_nfd e)
       (foldl (\<lambda>s w. replace_all ('' '' @ w @ '' '') '' '' s) ('' '' @ normalize_text (fe_nfd e) s @ '' '') company_words)"

definition ascii_digits :: "string \<Rightarrow> string" where
  "ascii_digits s = filter is_ascii_digit s"

definition texts_match :: "formula_env \<Rightarrow> string \<Rightarrow> string \<Rightarrow> string \<Rightarrow> bool" where
  "texts_match e a b mode =
     (if mode \<in> {''so'', ''number'', ''digits''} then
        ascii_digits a \<noteq> [] \<and> ascii_digits a = ascii_digits b
      else if mode \<in> {''ten'', ''name''} then
        (let ka = company_key e a; kb = company_key e b
         in ka \<noteq> [] \<and> (ka = kb \<or> contains_sub ka kb \<or> contains_sub kb ka))
      else if mode \<in> {''chua'', ''contains''} then value_in (fe_nfd e) b a
      else
        (let ka = value_key (fe_nfd e) a; kb = value_key (fe_nfd e) b
         in if ka = [] \<or> kb = [] then False
            else ka = kb \<or> contains_sub ka kb \<or> contains_sub kb ka
              \<or> fe_round e (4 / 5) \<le> similarity (fe_round e) ka kb))"

text \<open>The two nested loops of \<^verbatim>\<open>matchAny\<close> over all pairs: the first pair that matches, or what is missing.\<close>

fun match_pairs :: "formula_env \<Rightarrow> string \<Rightarrow> (val \<times> val) list \<Rightarrow> string list \<Rightarrow> (val \<times> val) option \<times> string list" where
  "match_pairs e mode [] missing = (None, missing)"
| "match_pairs e mode ((x, y) # ps) missing =
     (if v_kind x = KUnknown \<or> v_kind y = KUnknown then match_pairs e mode ps (missing @ v_missing x @ v_missing y)
      else if texts_match e (as_text x) (as_text y) mode then (Some (x, y), missing)
      else match_pairs e mode ps missing)"

definition match_any :: "formula_env \<Rightarrow> val \<Rightarrow> val \<Rightarrow> string \<Rightarrow> val" where
  "match_any e a b mode =
     (let as = flat_items [a]; bs = flat_items [b] in
      case match_pairs e mode (concat (map (\<lambda>x. map (Pair x) bs) as)) [] of
        (Some (x, y), _) \<Rightarrow> bool_val True (refs_of [x, y]) (val_text x @ (vn '' kh~1EDB;p '') @ val_text y)
      | (None, missing) \<Rightarrow>
          if missing \<noteq> [] \<and> length missing = length as * length bs then unknown_val missing []
          else bool_val False (refs_of (as @ bs)) (val_text a @ (vn '' kh~F4;ng kh~1EDB;p '') @ val_text b))"

definition if_val :: "val list \<Rightarrow> val option" where
  "if_val args =
     (case args of
        [] \<Rightarrow> None
      | a # rest \<Rightarrow>
          (let c = verdict a in
           case r_status c of
             Pass \<Rightarrow> (case rest of b # _ \<Rightarrow> Some b | [] \<Rightarrow> None)
           | Fail \<Rightarrow>
               (case rest of
                  b # d # _ \<Rightarrow> Some d
                | _ \<Rightarrow> Some (bool_val True [] ((vn ''kh~F4;ng ~E1;p d~1EE5;ng: '') @ join_with ''; '' (fail_notes c))))
           | _ \<Rightarrow> Some (unknown_val (r_missing c) [])))"

definition logic_all :: "string \<Rightarrow> val list \<Rightarrow> val option" where
  "logic_all op args = (case args of [] \<Rightarrow> None | a # rest \<Rightarrow> Some (foldl (logic_val op) a rest))"

text \<open>A float64 to an int: towards zero.\<close>

definition int_of_float :: "rat \<Rightarrow> int" where
  "int_of_float x = (if x < 0 then - \<lfloor>- x\<rfloor> else \<lfloor>x\<rfloor>)"

function date_add_val :: "formula_env \<Rightarrow> val \<Rightarrow> val \<Rightarrow> val \<Rightarrow> val" where
  "date_add_val e a n u =
     (if v_kind a = KList then list_val (map (\<lambda>x. date_add_val e x n u) (v_list a))
      else if v_kind a = KUnknown \<or> v_kind n = KUnknown then unknown_val (v_missing a @ v_missing n) []
      else if v_kind a \<noteq> KDate \<or> v_kind n \<noteq> KNum then unknown_val [(vn ''DATE_ADD c~1EA7;n ng~E0;y v~E0; s~1ED1;'')] []
      else
        (let k = int_of_float (v_num n); w = normalize_text (fe_nfd e) (v_str u) in
         if w \<in> {''ngay'', ''day'', ''days''} then date_val (add_date (v_date a) 0 0 k) [] (v_refs a)
         else if w \<in> {''thang'', ''month'', ''months''} then date_val (add_date (v_date a) 0 k 0) [] (v_refs a)
         else if w \<in> {''nam'', ''year'', ''years''} then date_val (add_date (v_date a) k 0 0) [] (v_refs a)
         else unknown_val [(vn ''DATE_ADD: ~111;~1A1;n v~1ECB; ph~1EA3;i l~E0; ng~E0;y, th~E1;ng ho~1EB7;c n~103;m'')] []))"
  by pat_completeness auto
termination by (relation "measure (\<lambda>(e, a, n, u). size a)") (auto dest: v_list_size)

declare date_add_val.simps [simp del]

text \<open>The table \<^verbatim>\<open>funcs\<close>: the fewest and the most arguments, and the words for them.\<close>

definition fn_arity :: "string \<Rightarrow> (nat \<times> nat option \<times> string) option" where
  "fn_arity name =
     (if name \<in> {''SUM'', ''MIN'', ''MAX'', ''AVERAGE'', ''COUNT''} then Some (1, None, (vn ''~ED;t nh~1EA5;t 1 gi~E1; tr~1ECB;''))
      else if name = ''EXISTS'' then Some (1, Some 1, (vn ''1 gi~E1; tr~1ECB;''))
      else if name = ''ABS'' then Some (1, Some 1, (vn ''1 s~1ED1;''))
      else if name = ''ROUND'' then Some (1, Some 2, (vn ''1 s~1ED1; v~E0; s~1ED1; ch~1EEF; s~1ED1;''))
      else if name = ''BETWEEN'' then Some (3, Some 3, (vn ''gi~E1; tr~1ECB;, c~1EAD;n d~1B0;~1EDB;i, c~1EAD;n tr~EA;n''))
      else if name = ''SAME'' then Some (1, None, (vn ''c~E1;c gi~E1; tr~1ECB; c~1EA7;n gi~1ED1;ng nhau''))
      else if name = ''MATCH'' then Some (2, Some 3, (vn ''hai gi~E1; tr~1ECB; v~E0; c~E1;ch so (~22;s~1ED1;~22;, ~22;t~EA;n~22;, ~22;ch~1EE9;a~22;, ~22;g~1EA7;n ~111;~FA;ng~22;)''))
      else if name = ''CONTAINS'' then Some (2, Some 2, (vn ''v~103;n b~1EA3;n v~E0; ~111;o~1EA1;n c~1EA7;n t~EC;m''))
      else if name = ''IF'' then Some (2, Some 3, (vn ''~111;i~1EC1;u ki~1EC7;n, k~1EBF;t qu~1EA3; khi ~111;~FA;ng[, khi sai]''))
      else if name = ''AND'' \<or> name = ''OR'' then Some (2, None, (vn ''c~E1;c ~111;i~1EC1;u ki~1EC7;n''))
      else if name = ''DATE_ADD'' then Some (3, Some 3, (vn ''ng~E0;y, s~1ED1; l~1B0;~1EE3;ng, ~111;~1A1;n v~1ECB; (~22;ng~E0;y~22;, ~22;th~E1;ng~22;, ~22;n~103;m~22;)''))
      else if name = ''TODAY'' then Some (0, Some 0, (vn ''kh~F4;ng c~F3; tham s~1ED1;''))
      else None)"

definition call_fn :: "formula_env \<Rightarrow> string \<Rightarrow> val list \<Rightarrow> val option" where
  "call_fn e name args =
     (if name = ''SUM'' then Some (aggregate name (float_sum e) args)
      else if name = ''MIN'' then Some (aggregate name (\<lambda>xs. hd (sort xs)) args)
      else if name = ''MAX'' then Some (aggregate name (\<lambda>xs. last (sort xs)) args)
      else if name = ''AVERAGE'' then
        Some (aggregate name (\<lambda>xs. fe_round e (float_sum e xs / of_nat (length xs))) args)
      else if name = ''COUNT'' then Some (count_val args)
      else if name = ''EXISTS'' then Some (exists_val args)
      else if name = ''ABS'' then (case args of a # _ \<Rightarrow> Some (abs_val a) | [] \<Rightarrow> None)
      else if name = ''ROUND'' then round_val e args
      else if name = ''BETWEEN'' then (case args of a # lo # hi # _ \<Rightarrow> Some (between_val e a lo hi) | _ \<Rightarrow> None)
      else if name = ''SAME'' then Some (same_val e args)
      else if name = ''MATCH'' then
        (case args of
           a # b # rest \<Rightarrow>
             Some (match_any e a b
               (case rest of m # _ \<Rightarrow> normalize_text (fe_nfd e) (v_str m) | [] \<Rightarrow> (vn ''g~1EA7;n ~111;~FA;ng'')))
         | _ \<Rightarrow> None)
      else if name = ''CONTAINS'' then (case args of a # b # _ \<Rightarrow> Some (match_any e a b ''chua'') | _ \<Rightarrow> None)
      else if name = ''IF'' then if_val args
      else if name = ''AND'' then logic_all ''and'' args
      else if name = ''OR'' then logic_all ''or'' args
      else if name = ''DATE_ADD'' then (case args of a # n # u # _ \<Rightarrow> Some (date_add_val e a n u) | _ \<Rightarrow> None)
      else if name = ''TODAY'' then Some (date_val (fe_today e) [] [])
      else None)"

subsection \<open>Evaluation\<close>

definition doc_val :: "doc \<Rightarrow> val" where
  "doc_val d = str_val (d_label d) [\<lparr>rf_doc = d_id d, rf_label = d_label d, rf_field = []\<rparr>]"

definition ident_val :: "scope \<Rightarrow> string \<Rightarrow> val" where
  "ident_val sc name =
     (case sc_single sc name of
        Some d \<Rightarrow> doc_val d
      | None \<Rightarrow> list_val (map doc_val (group_at sc name)))"

definition member_val :: "formula_env \<Rightarrow> scope \<Rightarrow> string \<Rightarrow> string \<Rightarrow> val" where
  "member_val e sc name key =
     (let typ = (case type_of sc name of Some t \<Rightarrow> t | None \<Rightarrow> []) in
      case sc_single sc name of
        Some d \<Rightarrow> field_val e sc d typ key
      | None \<Rightarrow>
          if sc_single_type sc name \<noteq> None then unknown_val [(vn ''ch~1B0;a c~F3; '') @ ti_title (type_at sc typ)] []
          else list_val (map (\<lambda>d. field_val e sc d typ key) (group_at sc name)))"

definition lift2 :: "('a \<Rightarrow> 'b \<Rightarrow> 'c) \<Rightarrow> 'a option \<Rightarrow> 'b option \<Rightarrow> 'c option" where
  "lift2 f x y = (case x of None \<Rightarrow> None | Some a \<Rightarrow> (case y of None \<Rightarrow> None | Some b \<Rightarrow> Some (f a b)))"

fun eval_node :: "formula_env \<Rightarrow> scope \<Rightarrow> node \<Rightarrow> val option" where
  "eval_node e sc (NNum x p) = Some (num_val x [] False)"
| "eval_node e sc (NStr s p) =
     Some (case parse_date s of Some t \<Rightarrow> date_val t s [] | None \<Rightarrow> str_val s [])"
| "eval_node e sc (NBool b p) = Some (bool_val b [] [])"
| "eval_node e sc (NIdent name p) = Some (ident_val sc name)"
| "eval_node e sc (NMember name key p) = Some (member_val e sc name key)"
| "eval_node e sc (NNeg x p) = map_option (arith_val e ''-'' (num_val 0 [] False)) (eval_node e sc x)"
| "eval_node e sc (NNot x p) = map_option not_val (eval_node e sc x)"
| "eval_node e sc (NLogic op l r p) = lift2 (logic_val op) (eval_node e sc l) (eval_node e sc r)"
| "eval_node e sc (NArith op l r p) = lift2 (arith_val e op) (eval_node e sc l) (eval_node e sc r)"
| "eval_node e sc (NCmp op l r p) = lift2 (broadcast (compare_val e op)) (eval_node e sc l) (eval_node e sc r)"
| "eval_node e sc (NCall f as p) =
     (let vs = map (eval_node e sc) as
      in if None \<in> set vs then None else call_fn e f (map the vs))"

text \<open>\<^verbatim>\<open>Eval\<close>: a parse error, a panic (\<open>None\<close>), or the verdict on the value.\<close>

definition eval_formula :: "formula_env \<Rightarrow> string \<Rightarrow> scope \<Rightarrow> formula_error + result option" where
  "eval_formula e src sc =
     (case parse_formula (fe_round e) src of
        Some (Inr n) \<Rightarrow> Inr (map_option verdict (eval_node e sc n))
      | Some (Inl err) \<Rightarrow> Inl err
      | None \<Rightarrow> Inr None)"

subsection \<open>Validation\<close>

text \<open>\<^verbatim>\<open>walk\<close>: the first error, and the pairs read so far.\<close>

fun walk :: "scope \<Rightarrow> (string \<times> string) list \<Rightarrow> node \<Rightarrow> formula_error option \<times> (string \<times> string) list"
  and walk_all :: "scope \<Rightarrow> (string \<times> string) list \<Rightarrow> node list \<Rightarrow> formula_error option \<times> (string \<times> string) list"
where
  "walk sc used (NIdent name p) = (if type_of sc name = None then (Some (NoSuchType name), used) else (None, used))"
| "walk sc used (NMember name key p) =
     (case type_of sc name of
        None \<Rightarrow> (Some (NoSuchType name), used)
      | Some t \<Rightarrow>
          if ti_fields (type_at sc t) key = None then (Some (NoSuchField (ti_title (type_at sc t)) key), used)
          else (None, used @ [(t, key)]))"
| "walk sc used (NCall f as p) =
     (case fn_arity f of
        None \<Rightarrow> (Some (NoSuchFunction f), used)
      | Some (lo, hi, words) \<Rightarrow>
          if length as < lo \<or> (case hi of None \<Rightarrow> False | Some m \<Rightarrow> m < length as)
          then (Some (WrongArity f), used) else walk_all sc used as)"
| "walk sc used (NNeg x p) = walk sc used x"
| "walk sc used (NNot x p) = walk sc used x"
| "walk sc used (NLogic op l r p) = 
     (case walk sc used l of (Some err, used) \<Rightarrow> (Some err, used) | (None, used) \<Rightarrow> walk sc used r)"
| "walk sc used (NArith op l r p) = 
     (case walk sc used l of (Some err, used) \<Rightarrow> (Some err, used) | (None, used) \<Rightarrow> walk sc used r)"
| "walk sc used (NCmp op l r p) = 
     (case walk sc used l of (Some err, used) \<Rightarrow> (Some err, used) | (None, used) \<Rightarrow> walk sc used r)"
| "walk sc used n = (None, used)"
| "walk_all sc used [] = (None, used)"
| "walk_all sc used (n # ns) =
     (case walk sc used n of (Some err, used) \<Rightarrow> (Some err, used) | (None, used) \<Rightarrow> walk_all sc used ns)"

definition check_formula :: "formula_env \<Rightarrow> string \<Rightarrow> scope \<Rightarrow> formula_error option \<times> (string \<times> string) list" where
  "check_formula e src sc =
     (case parse_formula (fe_round e) src of
        Some (Inr n) \<Rightarrow> walk sc [] n
      | Some (Inl err) \<Rightarrow> (Some err, [])
      | None \<Rightarrow> (None, []))"

end
