(* ===== verification/CheckFacts.thy ===== *)
theory CheckFacts
  imports CheckEval
begin

text \<open>
  What the check formulas promise: a formula that passed the validation evaluates, the connectives
  are those of three-valued logic, a list passes when every item does - and where missing values are
  miscounted.
\<close>

subsection \<open>Checked formulas\<close>

lemma fn_arity_names:
  "fn_arity f \<noteq> None \<Longrightarrow>
     f \<in> {''SUM'', ''MIN'', ''MAX'', ''AVERAGE'', ''COUNT'', ''EXISTS'', ''ABS'', ''ROUND'', ''BETWEEN'', ''SAME'', ''MATCH'',
       ''CONTAINS'', ''IF'', ''AND'', ''OR'', ''DATE_ADD'', ''TODAY''}"
  by (rule ccontr) (simp add: fn_arity_def)

lemma enough_args:
  "Suc 0 \<le> length as \<Longrightarrow> \<exists>a r. as = a # r" "2 \<le> length as \<Longrightarrow> \<exists>a b r. as = a # b # r"
  "3 \<le> length as \<Longrightarrow> \<exists>a b c r. as = a # b # c # r"
  by (auto simp: numeral_eq_Suc Suc_le_length_iff)

lemma if_val_defined: "\<exists>y. if_val (a # b # r) = Some y"
  by (auto simp: if_val_def Let_def split: status.split list.split)

lemma call_fn_defined:
  assumes "fn_arity f = Some (lo, hi, words)" "lo \<le> length as"
  shows "call_fn e f as \<noteq> None"
proof -
  note rules = fn_arity_def call_fn_def round_val_def logic_all_def if_val_defined
  from assms(1) have "fn_arity f \<noteq> None" by simp
  from fn_arity_names [OF this] show ?thesis
    using assms by - (elim insertE emptyE; clarsimp simp: rules; drule enough_args; elim exE; simp add: if_val_defined)
qed

lemma walk_eval:
  "(fst (walk sc used n) = None \<longrightarrow> eval_node e sc' n \<noteq> None)"
  "(fst (walk_all sc used ns) = None \<longrightarrow> list_all (\<lambda>n. eval_node e sc' n \<noteq> None) ns)"
proof (induction sc used n and sc used ns rule: walk_walk_all.induct)
  case (3 sc used f as p)
  show ?case
  proof (cases "fn_arity f")
    case (Some a)
    then obtain lo hi w where a: "fn_arity f = Some (lo, hi, w)" by (cases a) auto
    show ?thesis
    proof
      assume "fst (walk sc used (NCall f as p)) = None"
      then have "\<not> length as < lo" "fst (walk_all sc used as) = None"
        "\<not> (length as < lo \<or> (case hi of None \<Rightarrow> False | Some m \<Rightarrow> m < length as))"
        using a by (auto split: if_splits)
      then have "list_all (\<lambda>n. eval_node e sc' n \<noteq> None) as" using "3.IH" [OF a refl refl] by simp
      then have "None \<notin> set (map (eval_node e sc') as)" by (force simp: list_all_iff)
      then show "eval_node e sc' (NCall f as p) \<noteq> None"
        using call_fn_defined [OF a] \<open>\<not> length as < lo\<close> by (simp add: Let_def)
    qed
  qed simp
qed (auto simp: lift2_def split: option.splits prod.splits)

subsection \<open>Three truth values\<close>

text \<open>The strong Kleene connectives; \<open>None\<close> is the unknown truth value.\<close>

fun kleene_and :: "bool option \<Rightarrow> bool option \<Rightarrow> bool option" where
  "kleene_and (Some False) y = Some False"
| "kleene_and x (Some False) = Some False"
| "kleene_and (Some True) (Some True) = Some True"
| "kleene_and x y = None"

definition kleene_or :: "bool option \<Rightarrow> bool option \<Rightarrow> bool option" where
  "kleene_or x y = map_option Not (kleene_and (map_option Not x) (map_option Not y))"

definition truth :: "val \<Rightarrow> bool option" where
  "truth v = known_bool (verdict v)"

lemma truth_simps [simp]:
  "truth (bool_val b refs n) = Some b" "truth (unknown_val why refs) = None"
  by (simp_all add: truth_def known_bool_def val_defs)

lemma truth_if: "truth (if c then v else w) = (if c then truth v else truth w)"
  by simp

subsection \<open>Lists\<close>

lemma merge_verdicts_status:
  "st \<in> {Pass, Fail} \<Longrightarrow>
     r_status (merge_verdicts n st fs refs ms subs)
     = (if ErrorStatus \<in> set (map r_status subs) then ErrorStatus
        else if st = Fail \<or> Fail \<in> set (map r_status subs) then Fail
        else if ms \<noteq> [] \<or> concat (map r_missing (filter (\<lambda>s. r_status s = Unknown) subs)) \<noteq> [] then Unknown
        else Pass)"
proof (induction subs arbitrary: st fs refs ms)
  case (Cons s subs)
  then show ?case by (cases "r_status s") auto
qed auto


subsection \<open>An example\<close>

definition example_scope :: scope where
  "example_scope =
     \<lparr>sc_types = [''hd'' \<mapsto> \<lparr>ti_title = ''HD'', ti_fields = [''so'' \<mapsto> \<lparr>fi_label = ''So'', fi_type = ''number''\<rparr>]\<rparr>],
      sc_groups = Map.empty, sc_single = Map.empty, sc_single_type = Map.empty\<rparr>"

definition example_env :: formula_env where
  "example_env = \<lparr>fe_nfd = Some, fe_round = (\<lambda>x. x), fe_pow10 = (\<lambda>x. 1), fe_quote = (\<lambda>s. s), fe_today = 20000\<rparr>"

lemma example_lex:
  "lex_formula ''SUM(hd.so) <= 40'' = Inr
     [token_of ''ident'' ''SUM'' 0, token_of ''('' ''('' 3, token_of ''ident'' ''hd'' 4, token_of ''.'' ''.'' 6,
      token_of ''ident'' ''so'' 7, token_of '')'' '')'' 9, token_of ''op'' ''<='' 11, token_of ''num'' ''40'' 14, token_of ''eof'' [] 16]"
  by (simp add: lex_formula_def lex_from.simps text_simps is_space_ascii is_letter_ascii is_digit_ascii word_rune_def cons_token_def
      two_ops_def one_op_def is_quote_def Let_def encode_ascii char_of_eq_iff del: One_nat_def)

lemma example_parse:
  "parse_formula rnd ''SUM(hd.so) <= 40'' = Some (Inr (NCmp ''<='' (NCall ''SUM'' [NMember ''hd'' ''so'' 4] 0) (NNum (rnd 40) 14) 11))"
proof -
  have "trim_formula ''SUM(hd.so) <= 40'' = ''SUM(hd.so) <= 40''"
    by (simp add: trim_formula_def text_simps is_space_ascii)
  moreover have "nat_string 40 = ''40''" by (simp add: nat_string.simps digit_char_def char_of_eq_iff)
  then have "parse_decimal ''40'' = Some 40" using parse_decimal_nat [of 40] by simp
  ultimately show ?thesis
    unfolding parse_formula_def Let_def
    by (simp add: example_lex parse_tokens_def ladder_def p_or_def p_and_def p_cmp_def p_add_def p_mul_def left_level_def
      p_primary_def p_call_def is_or_def is_and_def is_not_def is_op_def is_word_def equal_fold_def fold_orbit_def cmp_op_def
      text_simps to_lower_rune_def to_upper_rune_def to_upper_def encode_ascii char_of_eq_iff Let_def is_true_word_def is_false_word_def)
qed


subsection \<open>What the formulas promise\<close>

text \<open>
  A formula that the validation accepts evaluates without a panic: every function it calls
  exists and has the arguments that its implementation indexes.
\<close>

theorem checked_never_panics:
  assumes "fst (check_formula e src sc) = None"
  shows "\<exists>r. eval_formula e src sc = Inr (Some r)"
proof (cases "parse_formula (fe_round e) src")
  case None
  then show ?thesis using parse_formula_returns by simp
next
  case (Some r)
  then show ?thesis
  proof (cases r)
    case (Inr n)
    then have "eval_node e sc n \<noteq> None" using assms Some walk_eval(1) by (simp add: check_formula_def)
    then show ?thesis using Some Inr by (auto simp: eval_formula_def)
  qed (use assms in \<open>simp add: check_formula_def\<close>)
qed

lemma checked_never_panics_witness:
  "\<exists>r. eval_formula example_env ''SUM(hd.so) <= 40'' example_scope = Inr (Some r)"
  by (rule checked_never_panics)
     (simp add: check_formula_def example_parse example_scope_def type_of_def type_at_def fn_arity_def)

text \<open>
  On single truth values the connectives are those of strong Kleene logic: a formula is
  known as soon as one side decides it, whatever is missing on the other side.
\<close>

theorem logic_kleene:
  "truth (logic_val op l r) = (if op = ''and'' then kleene_and (truth l) (truth r) else kleene_or (truth l) (truth r))"
proof -
  have "truth (logic_val op l r)
      = (if op = ''and''
         then (if truth l = Some False \<or> truth r = Some False then Some False
               else if truth l \<noteq> None \<and> truth r \<noteq> None then Some True else None)
         else (if truth l = Some True \<or> truth r = Some True then Some True
               else if truth l \<noteq> None \<and> truth r \<noteq> None then Some False else None))"
    unfolding logic_val_def Let_def truth_def [symmetric] by (simp only: truth_if truth_simps cong: if_cong)
  moreover have "x = None \<or> x = Some True \<or> x = Some False" for x :: "bool option" by (cases x) auto
  from this [of "truth l"] this [of "truth r"]
  have "(if truth l = Some False \<or> truth r = Some False then Some False
         else if truth l \<noteq> None \<and> truth r \<noteq> None then Some True else None) = kleene_and (truth l) (truth r)"
    "(if truth l = Some True \<or> truth r = Some True then Some True
      else if truth l \<noteq> None \<and> truth r \<noteq> None then Some False else None) = kleene_or (truth l) (truth r)"
    by (elim disjE; simp add: kleene_or_def)+
  ultimately show ?thesis by simp
qed

text \<open>
  A list passes exactly when every item does; one error is an error, one failure a failure
  even when other items are unknown, and no documents at all are unknown, never a pass.
\<close>

theorem list_verdict:
  "r_status (verdict (list_val l))
   = (if ErrorStatus \<in> set (map (r_status \<circ> verdict) l) then ErrorStatus
      else if Fail \<in> set (map (r_status \<circ> verdict) l) then Fail
      else if l \<noteq> [] \<and> concat (map (r_missing \<circ> verdict) (filter (\<lambda>v. r_status (verdict v) = Unknown) l)) = []
      then Pass else Unknown)"
proof (cases "l = []")
  case False
  then show ?thesis
    by (auto simp: list_val_def merge_verdicts_status comp_def filter_map del: merge_verdicts.simps)
qed (simp add: list_val_def)


text \<open>
  Contrary to the package's "never a pass", \<^verbatim>\<open>SAME\<close> passes on values of which one is
  missing when two others agree; and as it counts reasons instead of values, it is unknown on the
  same values when the missing one has two reasons.
\<close>

theorem same_ignores_missing:
  "r_status (verdict (same_val e [str_val s r1, str_val s r2, unknown_val [why] r3])) = Pass"
  "r_status (verdict (same_val e [str_val s r1, str_val s r2, unknown_val [why, why'] r3])) = Unknown"
  by (simp_all add: same_val_def val_defs val_key_def as_text_def dedupe_def Let_def)

text \<open>
  When both sides of \<^verbatim>\<open>MATCH\<close> or \<^verbatim>\<open>CONTAINS\<close> are missing, the check fails instead of being
  unknown: the two reasons are compared with the one pair of values.
\<close>

theorem match_both_missing_fails:
  "r_status (verdict (match_any e (unknown_val [w1] r1) (unknown_val [w2] r2) mode)) = Fail"
  "r_status (verdict (match_any e (unknown_val [w1] r1) (str_val s r2) mode)) = Unknown"
  by (simp_all add: match_any_def val_defs Let_def)

end
