(* ===== verification/GoStrings.thy ===== *)
theory GoStrings
  imports TextUtil "HOL-Library.List_Lexorder" "HOL-Library.Char_ord"
begin

text \<open>
  Functions of the Go packages \<^verbatim>\<open>strings\<close>, \<^verbatim>\<open>strconv\<close> and \<^verbatim>\<open>sort\<close> that several components use. The
  order of Go strings is that of their bytes, the lexicographic order of the library on lists of
  characters.
\<close>

text \<open>\<^verbatim>\<open>strings.TrimPrefix\<close>, \<^verbatim>\<open>strings.Cut\<close> and \<^verbatim>\<open>strings.Split\<close> at one character.\<close>

definition trim_prefix :: "string \<Rightarrow> string \<Rightarrow> string" where
  "trim_prefix p s = (if prefix p s then drop (length p) s else s)"

definition cut_at :: "char \<Rightarrow> string \<Rightarrow> string \<times> string option" where
  "cut_at c s = (takeWhile (\<lambda>x. x \<noteq> c) s, if c \<in> set s then Some (tl (dropWhile (\<lambda>x. x \<noteq> c) s)) else None)"

fun split_on :: "char \<Rightarrow> string \<Rightarrow> string list" where
  "split_on c [] = [[]]"
| "split_on c (x # xs) =
     (if x = c then [] # split_on c xs
      else case split_on c xs of [] \<Rightarrow> [[x]] | w # ws \<Rightarrow> (x # w) # ws)"

text \<open>\<^verbatim>\<open>strconv.Atoi\<close>: the value, which is the nearest bound for a number out of range, and whether there is no error.\<close>

definition max_int :: int where "max_int = 2 ^ 63 - 1"

definition atoi :: "string \<Rightarrow> int \<times> bool" where
  "atoi s =
     (let neg = (s \<noteq> [] \<and> hd s = CHR ''-'');
          ds = (if s \<noteq> [] \<and> hd s \<in> {CHR ''-'', CHR ''+''} then tl s else s);
          n = (if neg then - int (digits_value ds) else int (digits_value ds))
      in if ds = [] \<or> \<not> list_all is_ascii_digit ds then (0, False)
         else if n > max_int then (max_int, False)
         else if n < - max_int - 1 then (- max_int - 1, False)
         else (n, True))"

text \<open>The verb \<^verbatim>\<open>%02d\<close>.\<close>

definition two_digits :: "int \<Rightarrow> string" where
  "two_digits n = (if 0 \<le> n \<and> n < 10 then CHR ''0'' # int_string n else int_string n)"

text \<open>The class \<^verbatim>\<open>\s\<close> of the package \<^verbatim>\<open>regexp\<close>.\<close>

definition re_space :: "rune \<Rightarrow> bool" where
  "re_space r \<longleftrightarrow> r \<in> {9, 10, 12, 13, 32}"

text \<open>\<^verbatim>\<open>strings.NewReplacer\<close>: at each place the first of the texts that is there is replaced.\<close>

function replacer :: "(string \<times> string) list \<Rightarrow> string \<Rightarrow> string" where
  "replacer pairs s =
     (if s = [] then []
      else case find (\<lambda>(x, y). x \<noteq> [] \<and> prefix x s) pairs of
        Some (x, y) \<Rightarrow> y @ replacer pairs (drop (max 1 (length x)) s)
      | None \<Rightarrow> hd s # replacer pairs (tl s))"
  by pat_completeness auto
termination by (relation "measure (\<lambda>(pairs, s). length s)") auto

declare replacer.simps [simp del]

text \<open>What a stable sort keeps.\<close>

lemma sorted_wrt_sort_key: "sorted_wrt (\<lambda>x y. f x \<le> f y) (sort_key f xs)"
  by (metis sorted_map sorted_sort_key)

text \<open>The place of an element in a list is its own.\<close>

lemma place_inj:
  "i \<in> set xs \<Longrightarrow> j \<in> set xs \<Longrightarrow> length (takeWhile (\<lambda>x. x \<noteq> i) xs) = length (takeWhile (\<lambda>x. x \<noteq> j) xs) \<Longrightarrow> i = j"
  by (induction xs) (auto split: if_splits)

end
