(* ===== verification/Split.thy ===== *)
theory Split
  imports GoStrings "HOL-Library.AList" "HOL-Library.Multiset"
begin

text \<open>
  Splitting the files of a case into documents (\<^verbatim>\<open>internal/application/service/docmodel/split.go\<close>):
  the cut hints found by code, the text the model reads, its proposals, the split that the user
  sees, the bundles proposed by code, the check of a reviewed split and the automatic confirmation.
  The store and the language model are outside: their answers are arguments.
\<close>

subsection \<open>Data\<close>

type_synonym uuid = nat

text \<open>\<^verbatim>\<open>uuid.Nil\<close> is 0.\<close>

record segment =
  sg_id :: uuid
  sg_doc :: uuid
  sg_start :: int
  sg_end :: int
  sg_label :: string
  sg_proposed :: string
  sg_conf :: rat
  sg_source :: string
  sg_review :: bool
  sg_bundle :: string

record page =
  pg_no :: int
  pg_width :: rat
  pg_height :: rat
  pg_blank :: bool

record label_rule =
  lr_labels :: "string list"
  lr_min_conf :: rat

definition has_label :: "label_rule \<Rightarrow> string \<Rightarrow> bool" where
  "has_label r name \<longleftrightarrow> name \<in> {''other'', ''unknown''} \<or> name \<in> set (lr_labels r)"

text \<open>The pages of a segment.\<close>

definition pages_of :: "segment \<Rightarrow> int list" where
  "pages_of g = [sg_start g..sg_end g]"

subsection \<open>Cut hints\<close>

text \<open>
  The regular expression \<^verbatim>\<open>pageOneRe\<close>, on the runes of a line: a page number 1, with the number of
  pages or between dashes. Each part is tried at one place only, as the parts that may repeat match
  runes that the next part does not.
\<close>

definition skip_re_space :: "rune list \<Rightarrow> rune list" where
  "skip_re_space rs = dropWhile re_space rs"

definition is_dash :: "rune \<Rightarrow> bool" where
  "is_dash r \<longleftrightarrow> r = 45 \<or> r = 0x2013"

definition skip_one :: "(rune \<Rightarrow> bool) \<Rightarrow> rune list \<Rightarrow> rune list" where
  "skip_one p rs = (case rs of r # rs' \<Rightarrow> if p r then rs' else rs | [] \<Rightarrow> [])"

text \<open>Read one of the words, whatever the case of its letters.\<close>

fun read_word :: "rune list list \<Rightarrow> rune list \<Rightarrow> rune list option" where
  "read_word [] rs = None"
| "read_word (w # ws) rs =
     (if map to_lower_rune (take (length w) rs) = w then Some (drop (length w) rs) else read_word ws rs)"

definition page_of_pages :: "rune list \<Rightarrow> bool" where
  "page_of_pages rs =
     (let rs = skip_re_space rs;
          rs = (case read_word [lit ''trang'', lit ''page'', lit ''tr.''] rs of Some rs' \<Rightarrow> rs' | None \<Rightarrow> rs);
          rs = skip_re_space (skip_one (\<lambda>r. is_dash r \<or> r = 40) (skip_re_space rs))
      in case rs of
           r # rs' \<Rightarrow>
             r = 49 \<and>
             (case read_word [lit ''/'', lit ''of'', [116, 114, 0xEA, 110]] (skip_re_space rs') of
                None \<Rightarrow> False
              | Some rs \<Rightarrow>
                  (let rs = skip_re_space rs; digits = takeWhile (\<lambda>r. 48 \<le> r \<and> r \<le> 57) rs;
                       rest = skip_re_space (dropWhile (\<lambda>r. 48 \<le> r \<and> r \<le> 57) rs)
                   in digits \<noteq> [] \<and> skip_re_space (skip_one (\<lambda>r. is_dash r \<or> r = 41) rest) = []))
         | [] \<Rightarrow> False)"

definition page_between_dashes :: "rune list \<Rightarrow> bool" where
  "page_between_dashes rs =
     (case skip_re_space rs of
        d # rs \<Rightarrow>
          is_dash d \<and>
          (case skip_re_space rs of
             r # rs \<Rightarrow>
               r = 49 \<and>
               (case skip_re_space rs of d' # rs \<Rightarrow> is_dash d' \<and> skip_re_space rs = [] | [] \<Rightarrow> False)
           | [] \<Rightarrow> False)
      | [] \<Rightarrow> False)"

definition page_one :: "string \<Rightarrow> bool" where
  "page_one s \<longleftrightarrow> page_of_pages (runes s) \<or> page_between_dashes (runes s)"

text \<open>The sizes are float64 values, with the rounding \<open>rnd\<close>.\<close>

definition size_changed :: "(rat \<Rightarrow> rat) \<Rightarrow> page \<Rightarrow> page \<Rightarrow> bool" where
  "size_changed rnd a b =
     (let w1 = pg_width a; h1 = pg_height a; w2 = pg_width b; h2 = pg_height b in
      if w1 \<le> 0 \<or> h1 \<le> 0 \<or> w2 \<le> 0 \<or> h2 \<le> 0 then False
      else if (w1 > h1) \<noteq> (w2 > h2) then True
      else rnd (abs (rnd (rnd (w1 * h1) - rnd (w2 * h2))) / rnd (w1 * h1)) > 1 / 4)"

text \<open>The page numbers sit in the first or last two lines of a page.\<close>

definition edge_lines :: "string list \<Rightarrow> string list" where
  "edge_lines ls = (if 4 < length ls then take 2 ls @ drop (length ls - 2) ls else ls)"

definition mark_reasons :: "(rat \<Rightarrow> rat) \<Rightarrow> nat \<Rightarrow> page \<Rightarrow> page \<Rightarrow> string list \<Rightarrow> string list" where
  "mark_reasons rnd i prev p ls =
     (case find page_one (edge_lines ls) of Some l \<Rightarrow> [(vn ''trang v~1EC1; 1 ('') @ trim_space l @ '')''] | None \<Rightarrow> [])
     @ (if pg_blank prev \<and> \<not> pg_blank p \<and> 1 < i then [(vn ''sau trang tr~1EAF;ng'')] else [])
     @ (if size_changed rnd prev p then [(vn ''~111;~1ED5;i kh~1ED5; gi~1EA5;y'')] else [])"

fun marks_from :: "(rat \<Rightarrow> rat) \<Rightarrow> (int \<Rightarrow> string list) \<Rightarrow> nat \<Rightarrow> page \<Rightarrow> page list \<Rightarrow> (int \<rightharpoonup> string) \<Rightarrow> (int \<rightharpoonup> string)" where
  "marks_from rnd lines i prev [] out = out"
| "marks_from rnd lines i prev (p # ps) out =
     (let reason = mark_reasons rnd i prev p (lines (pg_no p)) in
      marks_from rnd lines (i + 1) p ps (if reason = [] then out else out(pg_no p \<mapsto> join_with '', '' reason)))"

definition marks_of :: "(rat \<Rightarrow> rat) \<Rightarrow> page list \<Rightarrow> (int \<Rightarrow> string list) \<Rightarrow> (int \<rightharpoonup> string)" where
  "marks_of rnd pages lines = (case pages of [] \<Rightarrow> Map.empty | p # ps \<Rightarrow> marks_from rnd lines 1 p ps Map.empty)"

subsection \<open>What the model reads\<close>

record block =
  bk_page :: int
  bk_type :: string
  bk_text :: string
  bk_furniture :: bool

record classify_config =
  cc_titles :: nat
  cc_lines :: nat
  cc_budget :: nat

definition lines_of :: "(int \<times> string) list \<Rightarrow> int \<Rightarrow> string list" where
  "lines_of ls p = filter (\<lambda>t. t \<noteq> []) (map (\<lambda>(_, t). trim_space t) (filter (\<lambda>(q, _). q = p) ls))"

text \<open>The titles of a page: those of the layout, else the first line where a document may begin.\<close>

definition page_titles :: "classify_config \<Rightarrow> block list \<Rightarrow> (int \<times> string) list \<Rightarrow> (int \<rightharpoonup> string) \<Rightarrow> int \<Rightarrow> string list" where
  "page_titles cfg blocks ls marks p =
     (let titles = take (cc_titles cfg) (filter (\<lambda>t. t \<noteq> [])
            (map (\<lambda>b. trim_space (bk_text b))
              (filter (\<lambda>b. bk_page b = p \<and> \<not> bk_furniture b \<and> bk_type b \<in> {''title'', ''heading''}) blocks)))
      in if titles = [] \<and> (p = 1 \<or> marks p \<noteq> None) \<and> lines_of ls p \<noteq> []
         then [truncate_text (hd (lines_of ls p)) 160] else map (\<lambda>t. truncate_text t 160) titles)"

definition page_line :: "int \<Rightarrow> string \<Rightarrow> string" where
  "page_line p t = ''[p'' @ int_string p @ ''] '' @ t @ [CHR 0x0A]"

definition page_input :: "classify_config \<Rightarrow> block list \<Rightarrow> (int \<times> string) list \<Rightarrow> (int \<rightharpoonup> string) \<Rightarrow> bool \<Rightarrow> int \<Rightarrow> string" where
  "page_input cfg blocks ls marks pages_mode p =
     concat (map (page_line p)
       (if pages_mode then map (\<lambda>l. truncate_text l 160) (take (cc_lines cfg) (lines_of ls p))
        else page_titles cfg blocks ls marks p))
     @ (case marks p of Some m \<Rightarrow> page_line p ((vn ''~2702; '') @ m) | None \<Rightarrow> [])"

definition pages_input :: "classify_config \<Rightarrow> block list \<Rightarrow> (int \<times> string) list \<Rightarrow> (int \<rightharpoonup> string) \<Rightarrow> bool \<Rightarrow> int \<Rightarrow> string" where
  "pages_input cfg blocks ls marks pages_mode n = concat (map (page_input cfg blocks ls marks pages_mode) [1..n])"

definition classify_input ::
  "classify_config \<Rightarrow> block list \<Rightarrow> (int \<times> string) list \<Rightarrow> (int \<rightharpoonup> string) \<Rightarrow> string \<Rightarrow> string \<Rightarrow> int \<Rightarrow> string" where
  "classify_input cfg blocks ls marks mode name n =
     (let body = (\<lambda>m. pages_input cfg blocks ls marks m n);
          out = (\<lambda>b. if b = [] then [] else ''File: '' @ name @ '' ('' @ int_string n @ '' pages)'' @ [CHR 0x0A] @ b)
      in if mode = ''pages'' \<and> cc_budget cfg < length (body True) div 3 then out (body False)
         else out (body (mode = ''pages'')))"

subsection \<open>Proposals\<close>

text \<open>\<^verbatim>\<open>parsePages\<close>: a page or a range, kept within the \<open>n\<close> pages of the file.\<close>

definition parse_pages :: "string \<Rightarrow> int \<Rightarrow> (int \<times> int) option" where
  "parse_pages v n =
     (let v = trim_space (trim_prefix ''p'' (trim_space v)); (a, b) = cut_at (CHR ''-'') v;
          (x, okx) = atoi (trim_space a);
          (y, oky) = (case b of None \<Rightarrow> (x, True) | Some b \<Rightarrow> atoi (trim_space (trim_prefix ''p'' (trim_space b))));
          x' = max 1 x; y' = min n y
      in if \<not> okx \<or> \<not> oky \<or> y' < x' then None else Some (x', y'))"

record llm_segment =
  ls_pages :: string
  ls_label :: string
  ls_conf :: rat

definition pipeline_segment :: "int \<Rightarrow> int \<Rightarrow> string \<Rightarrow> string \<Rightarrow> rat \<Rightarrow> segment" where
  "pipeline_segment a b label proposed conf =
     \<lparr>sg_id = 0, sg_doc = 0, sg_start = a, sg_end = b, sg_label = label, sg_proposed = proposed, sg_conf = conf,
      sg_source = [], sg_review = False, sg_bundle = []\<rparr>"

definition propose_segment :: "label_rule \<Rightarrow> rat \<Rightarrow> int \<Rightarrow> llm_segment \<Rightarrow> segment option" where
  "propose_segment rule minc n s =
     (case parse_pages (ls_pages s) n of
        None \<Rightarrow> None
      | Some (a, b) \<Rightarrow>
          (let label = trim_space (ls_label s); conf = max 0 (min 1 (ls_conf s)) in
           if \<not> has_label rule label \<or> conf < minc \<and> label \<noteq> ''other''
           then Some (pipeline_segment a b ''unknown'' label conf)
           else Some (pipeline_segment a b label [] conf)))"

definition overlap :: "segment \<Rightarrow> segment \<Rightarrow> bool" where
  "overlap g k \<longleftrightarrow> sg_start g \<le> sg_end k \<and> sg_end g \<ge> sg_start k"

fun keep_disjoint :: "segment list \<Rightarrow> segment list \<Rightarrow> segment list" where
  "keep_disjoint out [] = out"
| "keep_disjoint out (g # gs) =
     (if list_ex (overlap g) out then keep_disjoint out gs else keep_disjoint (out @ [g]) gs)"

definition drop_overlaps :: "segment list \<Rightarrow> segment list" where
  "drop_overlaps gs = sort_key sg_start (keep_disjoint [] (sort_key (\<lambda>g. - sg_conf g) gs))"

text \<open>The proposals that \<^verbatim>\<open>handleClassify\<close> stores for an answer of the model.\<close>

definition propose_segments :: "label_rule \<Rightarrow> rat \<Rightarrow> int \<Rightarrow> llm_segment list \<Rightarrow> segment list" where
  "propose_segments rule default_conf n ss =
     (let minc = (if lr_min_conf rule \<le> 0 then default_conf else lr_min_conf rule)
      in drop_overlaps (List.map_filter (propose_segment rule minc n) ss))"

subsection \<open>The split of a case\<close>

record split_doc =
  sd_id :: uuid
  sd_name :: string
  sd_pages :: int
  sd_classify :: string
  sd_reviewed :: bool
  sd_seq :: int

record split_file =
  sf_doc :: uuid
  sf_name :: string
  sf_pages :: int
  sf_status :: string
  sf_classify :: string
  sf_indexed :: bool
  sf_marks :: "int \<rightharpoonup> string"
  sf_segments :: "segment list"

record split_view =
  sv_labels :: "string list"
  sv_opens :: "string list"
  sv_files :: "split_file list"
  sv_bundles :: "string list"
  sv_reviewed :: bool

definition split_status :: "split_doc \<Rightarrow> segment list \<Rightarrow> string" where
  "split_status d gs =
     (if sd_reviewed d then (if list_ex sg_review gs then ''proposed'' else ''reviewed'')
      else if gs \<noteq> [] then ''proposed'' else ''none'')"

definition gap_segment :: "uuid \<Rightarrow> int \<Rightarrow> int \<Rightarrow> segment" where
  "gap_segment d a b = (pipeline_segment a b ''unknown'' [] 0)\<lparr>sg_doc := d, sg_source := ''pipeline''\<rparr>"

fun fill_from :: "uuid \<Rightarrow> int \<Rightarrow> int \<Rightarrow> segment list \<Rightarrow> segment list" where
  "fill_from d n p [] = (if p \<le> n then [gap_segment d p n] else [])"
| "fill_from d n p (g # gs) =
     (if sg_start g < p then fill_from d n p gs
      else (if sg_start g > p then [gap_segment d p (sg_start g - 1)] else [])
        @ g # fill_from d n (sg_end g + 1) gs)"

definition fill_gaps :: "uuid \<Rightarrow> int \<Rightarrow> segment list \<Rightarrow> bool \<Rightarrow> segment list" where
  "fill_gaps d n gs reviewed =
     fill_from d n 1 (sort_key sg_start (filter (\<lambda>g. \<not> (reviewed \<and> sg_source g \<noteq> ''user'')) gs))"

definition bundle_no :: "string \<Rightarrow> int" where
  "bundle_no code = fst (atoi (trim_prefix ''B'' code))"

definition bundle_code :: "int \<Rightarrow> string" where
  "bundle_code n = ''B'' @ two_digits n"

text \<open>
  The loop over the segments of a file: the largest bundle number, the open bundle and the codes seen,
  in order. The segments are changed in place.
\<close>

type_synonym bundle_state = "int \<times> string \<times> string list"

fun bundle_segments :: "string list \<Rightarrow> string \<Rightarrow> bundle_state \<Rightarrow> segment list \<Rightarrow> segment list \<times> bundle_state" where
  "bundle_segments opens status st [] = ([], st)"
| "bundle_segments opens status (mx, cur, codes) (g # gs) =
     (let keeps = (sg_bundle g \<noteq> [] \<and> status = ''reviewed'');
          new = (\<not> keeps \<and> (cur = [] \<or> sg_label g \<in> set opens));
          mx' = (if new then mx + 1 else mx);
          cur' = (if keeps then sg_bundle g else if new then bundle_code (mx + 1) else cur);
          (gs', st) = bundle_segments opens status
            (mx', cur', if cur' \<in> set codes then codes else codes @ [cur']) gs
      in (g\<lparr>sg_bundle := cur'\<rparr> # gs', st))"

fun bundle_files :: "string list \<Rightarrow> bundle_state \<Rightarrow> split_file list \<Rightarrow> split_file list \<times> bundle_state" where
  "bundle_files opens st [] = ([], st)"
| "bundle_files opens st (f # fs) =
     (let (gs, st) = bundle_segments opens (sf_status f) st (sf_segments f);
          (fs', st) = bundle_files opens st fs
      in (f\<lparr>sf_segments := gs\<rparr> # fs', st))"

definition propose_bundles :: "split_file list \<Rightarrow> string list \<Rightarrow> split_file list \<times> string list" where
  "propose_bundles files opens =
     (let mx = foldl max 0 (map (\<lambda>g. bundle_no (sg_bundle g)) (concat (map sf_segments files)));
          (files', _, _, codes) = bundle_files opens (mx, [], []) files
      in (files', sort codes))"

definition view_file :: "(uuid \<Rightarrow> (int \<rightharpoonup> string) option) \<Rightarrow> segment list \<Rightarrow> split_doc \<Rightarrow> split_file" where
  "view_file marks gs d =
     (let own = filter (\<lambda>g. sg_doc g = sd_id d) gs; status = split_status d own; indexed = (0 < sd_seq d)
      in \<lparr>sf_doc = sd_id d, sf_name = sd_name d, sf_pages = sd_pages d, sf_status = status, sf_classify = sd_classify d,
          sf_indexed = indexed,
          sf_marks = (if indexed then (case marks (sd_id d) of Some m \<Rightarrow> m | None \<Rightarrow> Map.empty) else Map.empty),
          sf_segments = (if indexed then fill_gaps (sd_id d) (sd_pages d) own (status = ''reviewed'') else [])\<rparr>)"

definition split_view_of ::
  "label_rule \<Rightarrow> string list \<Rightarrow> (uuid \<Rightarrow> (int \<rightharpoonup> string) option) \<Rightarrow> split_doc list \<Rightarrow> segment list \<Rightarrow> split_view" where
  "split_view_of rule opens marks docs gs =
     (let files = map (view_file marks gs) docs; (files', codes) = propose_bundles files opens
      in \<lparr>sv_labels = lr_labels rule, sv_opens = opens, sv_files = files', sv_bundles = codes,
          sv_reviewed = list_all (\<lambda>f. sf_indexed f \<longrightarrow> sf_status f = ''reviewed'') files\<rparr>)"

subsection \<open>Saving a reviewed split\<close>

datatype split_error =
    NoLabels
  | NotIndexed uuid
  | BadLabel string
  | BadPages int int int
  | PageTwice int
  | NoDocument
  | PageLeft int

record split_seg =
  ss_doc :: uuid
  ss_start :: int
  ss_end :: int
  ss_label :: string

definition pages_by_doc :: "split_doc list \<Rightarrow> uuid \<rightharpoonup> int" where
  "pages_by_doc docs = map_of (rev (map (\<lambda>d. (sd_id d, sd_pages d)) (filter (\<lambda>d. 0 < sd_seq d) docs)))"

text \<open>
  \<open>cov\<close> is the map \<^verbatim>\<open>covered\<close>: for each file, the pages 0 to \<open>n\<close> that a segment has. It is kept in the
  order in which the files are first named; Go leaves the order of the last loop over it open.
\<close>

type_synonym coverage = "(uuid \<times> bool list) list"

fun mark_pages :: "bool list \<Rightarrow> int list \<Rightarrow> split_error + bool list" where
  "mark_pages cov [] = Inr cov"
| "mark_pages cov (p # ps) =
     (if cov ! nat p then Inl (PageTwice p) else mark_pages (cov[nat p := True]) ps)"

definition covered_of :: "coverage \<Rightarrow> uuid \<Rightarrow> int \<Rightarrow> bool list" where
  "covered_of cov d n = (case map_of cov d of Some ps \<Rightarrow> ps | None \<Rightarrow> replicate (nat n + 1) False)"

definition check_seg :: "label_rule \<Rightarrow> (uuid \<rightharpoonup> int) \<Rightarrow> coverage \<Rightarrow> split_seg \<Rightarrow> split_error + coverage" where
  "check_seg rule pages cov g =
     (case pages (ss_doc g) of
        None \<Rightarrow> Inl (NotIndexed (ss_doc g))
      | Some n \<Rightarrow>
          if ss_label g = ''unknown'' \<or> \<not> has_label rule (ss_label g) then Inl (BadLabel (ss_label g))
          else if ss_start g < 1 \<or> ss_end g > n \<or> ss_start g > ss_end g then Inl (BadPages (ss_start g) (ss_end g) n)
          else (case mark_pages (covered_of cov (ss_doc g) n) [ss_start g..ss_end g] of
                  Inl e \<Rightarrow> Inl e
                | Inr ps \<Rightarrow> Inr (AList.update (ss_doc g) ps cov)))"

fun check_segs :: "label_rule \<Rightarrow> (uuid \<rightharpoonup> int) \<Rightarrow> coverage \<Rightarrow> split_seg list \<Rightarrow> split_error + coverage" where
  "check_segs rule pages cov [] = Inr cov"
| "check_segs rule pages cov (g # gs) =
     (case check_seg rule pages cov g of Inl e \<Rightarrow> Inl e | Inr cov' \<Rightarrow> check_segs rule pages cov' gs)"

fun check_bundles :: "label_rule \<Rightarrow> (uuid \<rightharpoonup> int) \<Rightarrow> coverage \<Rightarrow> split_seg list list \<Rightarrow> split_error + coverage" where
  "check_bundles rule pages cov [] = Inr cov"
| "check_bundles rule pages cov (b # bs) =
     (case check_segs rule pages cov b of Inl e \<Rightarrow> Inl e | Inr cov' \<Rightarrow> check_bundles rule pages cov' bs)"

definition first_left :: "bool list \<Rightarrow> int option" where
  "first_left ps = find (\<lambda>p. \<not> ps ! nat p) [1..int (length ps) - 1]"

text \<open>What \<^verbatim>\<open>Save\<close> hands to the store: the files and the bundles, or the error.\<close>

definition save_split :: "label_rule \<Rightarrow> split_doc list \<Rightarrow> split_seg list list \<Rightarrow> split_error + (uuid list \<times> split_seg list list)" where
  "save_split rule docs bundles =
     (if lr_labels rule = [] then Inl NoLabels
      else case check_bundles rule (pages_by_doc docs) [] bundles of
        Inl e \<Rightarrow> Inl e
      | Inr cov \<Rightarrow>
          if cov = [] then Inl NoDocument
          else (case List.map_filter (\<lambda>(_, ps). first_left ps) cov of
                  p # _ \<Rightarrow> Inl (PageLeft p)
                | [] \<Rightarrow> Inr (map fst cov, filter (\<lambda>b. b \<noteq> []) bundles)))"

subsection \<open>Automatic confirmation\<close>

text \<open>
  The segments of the files that have one from the store, each with its bundle, and the input of \<^verbatim>\<open>Save\<close>
  built from them. Encoding the input as JSON and decoding it again changes nothing.
\<close>

definition auto_seg :: "segment \<Rightarrow> split_seg" where
  "auto_seg g =
     \<lparr>ss_doc = sg_doc g, ss_start = sg_start g, ss_end = sg_end g,
      ss_label = (if sg_label g = ''unknown'' then ''other'' else sg_label g)\<rparr>"

definition auto_segments :: "split_view \<Rightarrow> (string \<times> split_seg) list" where
  "auto_segments v =
     concat (map (\<lambda>f. if list_ex (\<lambda>g. sg_id g \<noteq> 0) (sf_segments f)
                       then map (\<lambda>g. (sg_bundle g, auto_seg g)) (sf_segments f) else []) (sv_files v))"

definition auto_bundles :: "split_view \<Rightarrow> split_seg list list" where
  "auto_bundles v =
     filter (\<lambda>b. b \<noteq> [])
       (map (\<lambda>code. map snd (filter (\<lambda>x. fst x = code) (auto_segments v))) (sv_bundles v))"

definition auto_confirm ::
  "label_rule \<Rightarrow> split_doc list \<Rightarrow> split_view \<Rightarrow> (split_error + (uuid list \<times> split_seg list list)) option" where
  "auto_confirm rule docs v =
     (if auto_segments v = [] then None else Some (save_split rule docs (auto_bundles v)))"

end
