(* ===== verification/SplitSaved.thy ===== *)
theory SplitSaved
  imports SplitShown
begin

subsection \<open>The check of a split\<close>

definition seg_ok :: "label_rule \<Rightarrow> (uuid \<rightharpoonup> int) \<Rightarrow> split_seg \<Rightarrow> bool" where
  "seg_ok rule pages g \<longleftrightarrow>
     (case pages (ss_doc g) of None \<Rightarrow> False | Some n \<Rightarrow> 1 \<le> ss_start g \<and> ss_start g \<le> ss_end g \<and> ss_end g \<le> n)
     \<and> ss_label g \<noteq> ''unknown'' \<and> has_label rule (ss_label g)"

definition seg_pages :: "split_seg \<Rightarrow> int list" where
  "seg_pages g = [ss_start g..ss_end g]"

definition doc_pages :: "uuid \<Rightarrow> split_seg list \<Rightarrow> int list" where
  "doc_pages d gs = concat (map seg_pages (filter (\<lambda>g. ss_doc g = d) gs))"

text \<open>A split is a partition: every page of every file it names is in exactly one of its segments.\<close>

definition split_ok :: "label_rule \<Rightarrow> (uuid \<rightharpoonup> int) \<Rightarrow> split_seg list \<Rightarrow> bool" where
  "split_ok rule pages gs \<longleftrightarrow>
     lr_labels rule \<noteq> [] \<and> gs \<noteq> [] \<and> (\<forall>g\<in>set gs. seg_ok rule pages g)
     \<and> (\<forall>d\<in>ss_doc ` set gs. mset (doc_pages d gs) = mset [1..the (pages d)])"

lemma doc_pages_simps [simp]:
  "doc_pages d [] = []" "doc_pages d (gs @ hs) = doc_pages d gs @ doc_pages d hs"
  "doc_pages d [g] = (if ss_doc g = d then seg_pages g else [])"
  by (simp_all add: doc_pages_def)

lemma mark_pages_spec:
  "distinct ps \<Longrightarrow> \<forall>p\<in>set ps. 0 \<le> p \<and> nat p < length cov \<Longrightarrow>
     (case mark_pages cov ps of
        Inl e \<Rightarrow> \<exists>p\<in>set ps. cov ! nat p
      | Inr cov' \<Rightarrow> (\<forall>p\<in>set ps. \<not> cov ! nat p) \<and> length cov' = length cov
          \<and> (\<forall>q. 0 \<le> q \<longrightarrow> nat q < length cov \<longrightarrow> (cov' ! nat q \<longleftrightarrow> cov ! nat q \<or> q \<in> set ps)))"
proof (induction ps arbitrary: cov)
  case (Cons p ps)
  have other: "q \<noteq> p \<Longrightarrow> 0 \<le> q \<Longrightarrow> cov[nat p := True] ! nat q = cov ! nat q" for q
    using Cons.prems by (simp add: eq_nat_nat_iff)
  have "q \<in> set ps \<Longrightarrow> q \<noteq> p \<and> 0 \<le> q" for q using Cons.prems by auto
  then show ?case
    using Cons.IH [of "cov[nat p := True]"] Cons.prems other
    by (auto split: sum.splits simp: nth_list_update)
qed simp

text \<open>\<open>cov\<close> represents what the segments \<open>gs\<close> cover.\<close>

definition covers :: "(uuid \<rightharpoonup> int) \<Rightarrow> coverage \<Rightarrow> split_seg list \<Rightarrow> bool" where
  "covers pages cov gs \<longleftrightarrow>
     distinct (map fst cov) \<and> fst ` set cov = ss_doc ` set gs
     \<and> (\<forall>d n ps. pages d = Some n \<longrightarrow> map_of cov d = Some ps \<longrightarrow>
          length ps = nat n + 1 \<and> (\<forall>p. 1 \<le> p \<longrightarrow> p \<le> n \<longrightarrow> (ps ! nat p \<longleftrightarrow> p \<in> set (doc_pages d gs))))"

lemma covered_of_pages:
  assumes "covers pages cov gs" "pages d = Some n"
  shows "length (covered_of cov d n) = nat n + 1"
    "1 \<le> p \<Longrightarrow> p \<le> n \<Longrightarrow> covered_of cov d n ! nat p \<longleftrightarrow> p \<in> set (doc_pages d gs)"
proof -
  have "doc_pages d gs = []" if "map_of cov d = None"
    using that assms(1) by (auto simp: covers_def doc_pages_def map_of_eq_None_iff filter_empty_conv)
  then show "length (covered_of cov d n) = nat n + 1"
    "1 \<le> p \<Longrightarrow> p \<le> n \<Longrightarrow> covered_of cov d n ! nat p \<longleftrightarrow> p \<in> set (doc_pages d gs)"
    using assms by (auto simp: covered_of_def covers_def nth_Cons' split: option.split)
qed

lemma check_seg_spec:
  assumes "covers pages cov gs"
  shows "case check_seg rule pages cov g of
      Inl e \<Rightarrow> \<not> (seg_ok rule pages g \<and> set (doc_pages (ss_doc g) gs) \<inter> set (seg_pages g) = {})
    | Inr cov' \<Rightarrow> seg_ok rule pages g \<and> set (doc_pages (ss_doc g) gs) \<inter> set (seg_pages g) = {} \<and> covers pages cov' (gs @ [g])"
proof (cases "seg_ok rule pages g")
  case True
  then obtain n where n: "pages (ss_doc g) = Some n" "1 \<le> ss_start g" "ss_start g \<le> ss_end g" "ss_end g \<le> n"
    by (auto simp: seg_ok_def split: option.splits)
  let ?old = "covered_of cov (ss_doc g) n"
  have old: "length ?old = nat n + 1" "\<And>p. 1 \<le> p \<Longrightarrow> p \<le> n \<Longrightarrow> ?old ! nat p \<longleftrightarrow> p \<in> set (doc_pages (ss_doc g) gs)"
    using covered_of_pages [OF assms n(1)] by simp_all
  have run: "check_seg rule pages cov g
      = (case mark_pages ?old (seg_pages g) of Inl e \<Rightarrow> Inl e | Inr ps \<Rightarrow> Inr (AList.update (ss_doc g) ps cov))"
    using True n by (simp add: check_seg_def seg_ok_def seg_pages_def)
  have inside: "\<forall>p\<in>set (seg_pages g). 0 \<le> p \<and> nat p < length ?old \<and> 1 \<le> p \<and> p \<le> n"
    using n old(1) by (auto simp: seg_pages_def)
  have marks: "case mark_pages ?old (seg_pages g) of
        Inl e \<Rightarrow> \<exists>p\<in>set (seg_pages g). ?old ! nat p
      | Inr cov' \<Rightarrow> (\<forall>p\<in>set (seg_pages g). \<not> ?old ! nat p) \<and> length cov' = length ?old
          \<and> (\<forall>q. 0 \<le> q \<longrightarrow> nat q < length ?old \<longrightarrow> (cov' ! nat q \<longleftrightarrow> ?old ! nat q \<or> q \<in> set (seg_pages g)))"
    by (rule mark_pages_spec) (use inside in \<open>auto simp: seg_pages_def\<close>)
  show ?thesis
  proof (cases "mark_pages ?old (seg_pages g)")
    case (Inl e)
    then show ?thesis using marks run inside old(2) True by auto
  next
    case (Inr ps)
    have "set (doc_pages (ss_doc g) gs) \<inter> set (seg_pages g) = {}" using marks Inr inside old(2) by auto
    moreover have "covers pages (AList.update (ss_doc g) ps cov) (gs @ [g])"
      using assms marks Inr n old unfolding covers_def
      by (auto simp: distinct_update dom_update update_conv' image_Un [symmetric])
    ultimately show ?thesis using run Inr True by simp
  qed
next
  case False
  then have "\<exists>e. check_seg rule pages cov g = Inl e"
    by (auto simp: check_seg_def seg_ok_def split: option.splits)
  then show ?thesis using False by auto
qed


definition segs_fit :: "label_rule \<Rightarrow> (uuid \<rightharpoonup> int) \<Rightarrow> split_seg list \<Rightarrow> bool" where
  "segs_fit rule pages gs \<longleftrightarrow> (\<forall>g\<in>set gs. seg_ok rule pages g) \<and> (\<forall>d. distinct (doc_pages d gs))"

lemma segs_fit_snoc:
  "segs_fit rule pages (gs @ [g]) \<longleftrightarrow>
     segs_fit rule pages gs \<and> seg_ok rule pages g \<and> set (doc_pages (ss_doc g) gs) \<inter> set (seg_pages g) = {}"
proof -
  have "distinct (doc_pages d (gs @ [g])) \<longleftrightarrow> distinct (doc_pages d gs)
      \<and> (ss_doc g = d \<longrightarrow> set (doc_pages d gs) \<inter> set (seg_pages g) = {})" for d
    by (auto simp: seg_pages_def)
  then show ?thesis unfolding segs_fit_def by auto
qed

lemma segs_fit_prefix: "segs_fit rule pages (gs @ hs) \<Longrightarrow> segs_fit rule pages gs"
  by (auto simp: segs_fit_def)

lemma check_segs_spec:
  assumes "covers pages cov gs" "segs_fit rule pages gs"
  shows "case check_segs rule pages cov hs of
      Inl e \<Rightarrow> \<not> segs_fit rule pages (gs @ hs)
    | Inr cov' \<Rightarrow> segs_fit rule pages (gs @ hs) \<and> covers pages cov' (gs @ hs)"
  using assms
proof (induction hs arbitrary: cov gs)
  case (Cons h hs)
  show ?case
  proof (cases "check_seg rule pages cov h")
    case (Inl e)
    then have "\<not> segs_fit rule pages (gs @ [h])" using check_seg_spec [OF Cons.prems(1), of rule h] segs_fit_snoc by auto
    then show ?thesis using Inl segs_fit_prefix [of rule pages "gs @ [h]" hs] by auto
  next
    case (Inr cov')
    then have "covers pages cov' (gs @ [h])" "segs_fit rule pages (gs @ [h])"
      using check_seg_spec [OF Cons.prems(1), of rule h] Cons.prems(2) by (auto simp: segs_fit_snoc)
    from Cons.IH [OF this] show ?thesis using Inr by (auto split: sum.splits)
  qed
qed simp

lemma check_bundles_concat: "check_bundles rule pages cov bs = check_segs rule pages cov (concat bs)"
proof (induction bs arbitrary: cov)
  case (Cons b bs)
  have "check_segs rule pages cov (b @ cs)
      = (case check_segs rule pages cov b of Inl e \<Rightarrow> Inl e | Inr cov' \<Rightarrow> check_segs rule pages cov' cs)" for cs
    by (induction b arbitrary: cov) (auto split: sum.split)
  then show ?case using Cons by (auto split: sum.split)
qed simp

lemma first_left_None: "first_left ps = None \<longleftrightarrow> (\<forall>p. 1 \<le> p \<longrightarrow> p < int (length ps) \<longrightarrow> ps ! nat p)"
  by (auto simp: first_left_def find_None_iff)

lemma fit_complete:
  assumes "segs_fit rule pages gs" "d \<in> ss_doc ` set gs" "pages d = Some n"
  shows "mset (doc_pages d gs) = mset [1..n] \<longleftrightarrow> {1..n} \<subseteq> set (doc_pages d gs)"
proof -
  have "set (doc_pages d gs) \<subseteq> {1..n}" "distinct (doc_pages d gs)"
    using assms by (auto simp: segs_fit_def doc_pages_def seg_pages_def seg_ok_def)
  then show ?thesis
    using set_eq_iff_mset_eq_distinct [of "doc_pages d gs" "[1..n]"] by auto
qed

lemma coverage_complete:
  assumes "covers pages cov gs" "segs_fit rule pages gs"
  shows "List.map_filter (\<lambda>(_, ps). first_left ps) cov = [] \<longleftrightarrow>
    (\<forall>d\<in>ss_doc ` set gs. mset (doc_pages d gs) = mset [1..the (pages d)])"
proof -
  have "first_left ps = None \<longleftrightarrow> mset (doc_pages d gs) = mset [1..the (pages d)]" if "(d, ps) \<in> set cov" for d ps
  proof -
    have d: "d \<in> ss_doc ` set gs" using assms(1) that unfolding covers_def by force
    then obtain n where n: "pages d = Some n" "0 \<le> n"
      using assms(2) by (auto simp: segs_fit_def seg_ok_def split: option.splits)
    moreover have "map_of cov d = Some ps" using assms(1) that by (simp add: covers_def)
    ultimately have "length ps = nat n + 1" "\<forall>p. 1 \<le> p \<longrightarrow> p \<le> n \<longrightarrow> (ps ! nat p \<longleftrightarrow> p \<in> set (doc_pages d gs))"
      using assms(1) by (auto simp: covers_def)
    then have "first_left ps = None \<longleftrightarrow> {1..n} \<subseteq> set (doc_pages d gs)" using n(2) by (auto simp: first_left_None)
    then show ?thesis using fit_complete [OF assms(2) d n(1)] n(1) by simp
  qed
  moreover have "ss_doc ` set gs = fst ` set cov" using assms(1) by (simp add: covers_def)
  ultimately show ?thesis by (auto simp: map_filter_def filter_empty_conv)
qed

lemma save_split_checked:
  "case save_split rule docs bundles of
     Inl e \<Rightarrow> \<not> split_ok rule (pages_by_doc docs) (concat bundles)
   | Inr (ids, saved) \<Rightarrow> split_ok rule (pages_by_doc docs) (concat bundles)
       \<and> distinct ids \<and> set ids = ss_doc ` set (concat bundles) \<and> saved = filter (\<lambda>b. b \<noteq> []) bundles"
proof -
  let ?pages = "pages_by_doc docs" and ?gs = "concat bundles"
  have "covers ?pages [] []" "segs_fit rule ?pages []" by (simp_all add: covers_def segs_fit_def)
  from check_segs_spec [OF this, of ?gs] have run: "case check_bundles rule ?pages [] bundles of
      Inl e \<Rightarrow> \<not> segs_fit rule ?pages ?gs | Inr cov \<Rightarrow> segs_fit rule ?pages ?gs \<and> covers ?pages cov ?gs"
    by (auto simp: check_bundles_concat split: sum.splits)
  have ok: "split_ok rule ?pages ?gs \<longleftrightarrow> lr_labels rule \<noteq> [] \<and> ?gs \<noteq> [] \<and> segs_fit rule ?pages ?gs
      \<and> (\<forall>d\<in>ss_doc ` set ?gs. mset (doc_pages d ?gs) = mset [1..the (?pages d)])"
  proof -
    have "distinct (doc_pages d gs)" if "d \<in> ss_doc ` set gs \<Longrightarrow> mset (doc_pages d gs) = mset [1..the (?pages d)]" for d gs
    proof (cases "d \<in> ss_doc ` set gs")
      case True
      then show ?thesis using mset_eq_imp_distinct_iff [OF that] by simp
    next
      case False
      then have "filter (\<lambda>g. ss_doc g = d) gs = []" by (auto simp: filter_empty_conv)
      then show ?thesis by (simp add: doc_pages_def)
    qed
    then show ?thesis unfolding split_ok_def segs_fit_def by blast
  qed
  show ?thesis
  proof (cases "check_bundles rule ?pages [] bundles")
    case (Inl e)
    then show ?thesis using run ok by (auto simp: save_split_def)
  next
    case (Inr cov)
    then have cov: "segs_fit rule ?pages ?gs" "covers ?pages cov ?gs" using run by auto
    then have "distinct (map fst cov)" and ids: "set (map fst cov) = ss_doc ` set ?gs"
      by (simp_all add: covers_def del: set_concat)
    moreover have "cov = [] \<longleftrightarrow> ?gs = []" using ids by (metis image_is_empty set_empty list.map_disc_iff)
    ultimately show ?thesis
      using ok cov(1) Inr coverage_complete [OF cov(2,1)]
      by (auto simp: save_split_def simp del: concat_eq_Nil_conv split: list.split)
  qed
qed

text \<open>
  C26: A reviewed split is accepted exactly when it is a partition: every segment has pages of an
  indexed file and a label to choose, and every page of every file it names is in one segment. What is
  saved then is the bundles that are not empty, and every file named.
\<close>

theorem save_split_partition:
  "case save_split rule docs bundles of
     Inl e \<Rightarrow> \<not> split_ok rule (pages_by_doc docs) (concat bundles)
   | Inr (ids, saved) \<Rightarrow> split_ok rule (pages_by_doc docs) (concat bundles)
       \<and> distinct ids \<and> set ids = ss_doc ` set (concat bundles) \<and> saved = filter (\<lambda>b. b \<noteq> []) bundles"
  by (rule save_split_checked)

end
