(* ===== verification/SplitConfirm.thy ===== *)
theory SplitConfirm
  imports SplitSaved
begin

subsection \<open>Bundles\<close>

definition erased :: "segment \<Rightarrow> segment" where
  "erased g = g\<lparr>sg_bundle := []\<rparr>"

definition erased_file :: "split_file \<Rightarrow> split_file" where
  "erased_file f = f\<lparr>sf_segments := map erased (sf_segments f)\<rparr>"

lemma erased_fields [simp]:
  "sg_id (erased g) = sg_id g" "sg_doc (erased g) = sg_doc g" "sg_label (erased g) = sg_label g"
  "sg_start (erased g) = sg_start g" "sg_end (erased g) = sg_end g" "erased (g\<lparr>sg_bundle := b\<rparr>) = erased g"
  "auto_seg (erased g) = auto_seg g"
  by (simp_all add: erased_def auto_seg_def)

lemma bundle_segments_spec:
  assumes "bundle_segments opens status (mx, cur, codes) gs = (gs', mx', cur', codes')"
  shows "map erased gs' = map erased gs \<and> set codes' = set codes \<union> sg_bundle ` set gs' \<and> (distinct codes \<longrightarrow> distinct codes')"
  using assms
proof (induction gs arbitrary: mx cur codes gs')
  case (Cons g gs)
  obtain mx1 cur1 gs1 where
    "bundle_segments opens status (mx1, cur1, if cur1 \<in> set codes then codes else codes @ [cur1]) gs = (gs1, mx', cur', codes')"
    and gs': "gs' = g\<lparr>sg_bundle := cur1\<rparr> # gs1"
    using Cons.prems by (auto simp: Let_def split: prod.splits)
  from Cons.IH [OF this(1)] show ?case using gs' by auto
qed simp

lemma bundle_files_spec:
  assumes "bundle_files opens (mx, cur, codes) fs = (fs', mx', cur', codes')"
  shows "map erased_file fs' = map erased_file fs \<and> set codes' = set codes \<union> sg_bundle ` set (concat (map sf_segments fs'))
    \<and> (distinct codes \<longrightarrow> distinct codes')"
  using assms
proof (induction fs arbitrary: mx cur codes fs')
  case (Cons f fs)
  obtain gs mx1 cur1 codes1 where first: "bundle_segments opens (sf_status f) (mx, cur, codes) (sf_segments f) = (gs, mx1, cur1, codes1)"
    by (metis prod_cases4)
  obtain fs1 where rest: "bundle_files opens (mx1, cur1, codes1) fs = (fs1, mx', cur', codes')" "fs' = f\<lparr>sf_segments := gs\<rparr> # fs1"
    using Cons.prems first by (auto split: prod.splits)
  show ?case
    using bundle_segments_spec [OF first] Cons.IH [OF rest(1)] rest(2) by (auto simp: erased_file_def)
qed simp

text \<open>
  Proposing bundles changes only the bundle codes, and the codes returned are those given, each once,
  in the order of text.
\<close>

lemma propose_bundles_codes:
  assumes "propose_bundles files opens = (files', codes)"
  shows "map erased_file files' = map erased_file files"
    "codes = sorted_list_of_set (sg_bundle ` set (concat (map sf_segments files')))"
proof -
  obtain mx cur cs where run: "bundle_files opens (foldl max 0 (map (\<lambda>g. bundle_no (sg_bundle g)) (concat (map sf_segments files))), [], []) files
      = (files', mx, cur, cs)" and codes: "codes = sort cs"
    using assms by (auto simp: propose_bundles_def Let_def split: prod.splits)
  from bundle_files_spec [OF run] show "map erased_file files' = map erased_file files"
    "codes = sorted_list_of_set (sg_bundle ` set (concat (map sf_segments files')))"
    using codes sorted_list_of_set_sort_remdups [of cs] by (simp_all add: distinct_remdups_id del: set_concat)
qed

subsection \<open>Automatic confirmation\<close>

lemma group_by_code:
  "distinct codes \<Longrightarrow> mset (concat (map (\<lambda>c. filter (\<lambda>x. fst x = c) xs) codes)) = mset (filter (\<lambda>x. fst x \<in> set codes) xs)"
proof (induction codes)
  case (Cons c codes)
  have "mset (filter (\<lambda>x. fst x = c) xs) + mset (filter (\<lambda>x. fst x \<in> set codes) xs) = mset (filter (\<lambda>x. fst x \<in> set (c # codes)) xs)"
    using Cons.prems by (induction xs) auto
  then show ?case using Cons by simp
qed simp

lemma concat_nonempty: "concat (filter (\<lambda>b. b \<noteq> []) bs) = concat bs"
  by (induction bs) auto

lemma auto_bundles_mset:
  assumes "distinct (sv_bundles v)" "fst ` set (auto_segments v) \<subseteq> set (sv_bundles v)"
  shows "mset (concat (auto_bundles v)) = mset (map snd (auto_segments v))"
proof -
  have "concat (auto_bundles v) = map snd (concat (map (\<lambda>c. filter (\<lambda>x. fst x = c) (auto_segments v)) (sv_bundles v)))"
    by (simp add: auto_bundles_def concat_nonempty map_concat comp_def)
  moreover have "filter (\<lambda>x. fst x \<in> set (sv_bundles v)) (auto_segments v) = auto_segments v"
    using assms(2) by (auto simp: filter_id_conv)
  ultimately show ?thesis
    using group_by_code [OF assms(1), of "auto_segments v"] by (simp only: mset_map)
qed

lemma split_ok_mset:
  assumes "mset gs = mset hs" "split_ok rule pages gs"
  shows "split_ok rule pages hs"
proof -
  have "set gs = set hs" using assms(1) by (rule mset_eq_setD)
  moreover have "mset (doc_pages d gs) = mset (doc_pages d hs)" for d
  proof -
    have "mset (doc_pages d gs) = (\<Sum>g\<in>#filter_mset (\<lambda>g. ss_doc g = d) (mset gs). mset (seg_pages g))" for gs
      by (induction gs) (simp_all add: doc_pages_def)
    then show ?thesis using assms(1) by simp
  qed
  ultimately show ?thesis using assms(2) by (auto simp: split_ok_def)
qed


text \<open>What the store guarantees: segments lie within their file and have labels of the rule.\<close>

definition well_stored :: "label_rule \<Rightarrow> split_doc list \<Rightarrow> segment list \<Rightarrow> bool" where
  "well_stored rule docs gs \<longleftrightarrow>
     lr_labels rule \<noteq> [] \<and> distinct (map sd_id docs)
     \<and> (\<forall>d\<in>set docs. 0 \<le> sd_pages d \<and> (\<forall>g\<in>set gs. sg_doc g = sd_id d \<longrightarrow> in_file (sd_pages d) g \<and> has_label rule (sg_label g)))"

lemma fill_from_inside:
  "\<forall>g\<in>set gs. in_file n g \<and> sg_doc g = d \<and> has_label rule (sg_label g) \<Longrightarrow> 1 \<le> p \<Longrightarrow>
     g \<in> set (fill_from d n p gs) \<Longrightarrow> in_file n g \<and> sg_doc g = d \<and> has_label rule (sg_label g)"
proof (induction d n p gs rule: fill_from.induct)
  case (2 d n p k gs)
  have gap: "1 \<le> a \<Longrightarrow> a \<le> b \<Longrightarrow> b \<le> n \<Longrightarrow> in_file n (gap_segment d a b) \<and> sg_doc (gap_segment d a b) = d
      \<and> has_label rule (sg_label (gap_segment d a b))" for a b
    by (simp add: gap_segment_def pipeline_segment_def in_file_def has_label_def)
  have k: "in_file n k" "1 \<le> sg_start k" "sg_start k \<le> sg_end k" "sg_end k \<le> n" using "2.prems" by (simp_all add: in_file_def)
  show ?case
    using "2.IH" "2.prems" k gap [of p "sg_start k - 1"] by (auto split: if_splits)
qed (auto simp: gap_segment_def pipeline_segment_def in_file_def has_label_def split: if_splits)

lemma view_file_segments:
  assumes "well_stored rule docs gs" "d \<in> set docs"
  shows "g \<in> set (sf_segments (view_file marks gs d)) \<Longrightarrow>
      0 < sd_seq d \<and> in_file (sd_pages d) g \<and> sg_doc g = sd_id d \<and> has_label rule (sg_label g)"
    "sf_segments (view_file marks gs d) \<noteq> [] \<Longrightarrow> concat (map pages_of (sf_segments (view_file marks gs d))) = [1..sd_pages d]"
proof -
  let ?own = "filter (\<lambda>g. sg_doc g = sd_id d) gs"
  have own: "\<forall>g\<in>set ?own. in_file (sd_pages d) g \<and> sg_doc g = sd_id d \<and> has_label rule (sg_label g)" "0 \<le> sd_pages d"
    using assms by (auto simp: well_stored_def)
  show "0 < sd_seq d \<and> in_file (sd_pages d) g \<and> sg_doc g = sd_id d \<and> has_label rule (sg_label g)"
    if "g \<in> set (sf_segments (view_file marks gs d))"
  proof -
    have "0 < sd_seq d" and g: "g \<in> set (fill_gaps (sd_id d) (sd_pages d) ?own (split_status d ?own = ''reviewed''))"
      using that by (simp_all add: view_file_def Let_def split: if_splits)
    moreover have "in_file (sd_pages d) g \<and> sg_doc g = sd_id d \<and> has_label rule (sg_label g)"
      by (rule fill_from_inside [OF _ _ g [unfolded fill_gaps_def]]) (use own(1) in auto)
    ultimately show ?thesis by blast
  qed
  show "concat (map pages_of (sf_segments (view_file marks gs d))) = [1..sd_pages d]"
    if "sf_segments (view_file marks gs d) \<noteq> []"
  proof -
    have "list_all (in_file (sd_pages d)) ?own" unfolding list_all_iff using own(1) by blast
    from fill_gaps_pages [OF this own(2)] show ?thesis
      using that by (simp add: view_file_def Let_def split: if_splits)
  qed
qed

definition shown_segs :: "split_file \<Rightarrow> split_seg list" where
  "shown_segs f = (if list_ex (\<lambda>g. sg_id g \<noteq> 0) (sf_segments f) then map auto_seg (sf_segments f) else [])"

lemma shown_segs_erased: "shown_segs (erased_file f) = shown_segs f"
  by (simp add: shown_segs_def erased_file_def list_ex_iff)

lemma auto_segments_view:
  fixes rule opens marks docs gs
  defines "v \<equiv> split_view_of rule opens marks docs gs"
  shows "map snd (auto_segments v) = concat (map (\<lambda>d. shown_segs (view_file marks gs d)) docs)"
    "distinct (sv_bundles v)" "fst ` set (auto_segments v) \<subseteq> set (sv_bundles v)"
proof -
  obtain files' codes where made: "propose_bundles (map (view_file marks gs) docs) opens = (files', codes)" by force
  then have v: "sv_files v = files'" "sv_bundles v = codes" by (simp_all add: v_def split_view_of_def Let_def)
  have "map snd (auto_segments v) = concat (map shown_segs (map erased_file files'))"
    unfolding shown_segs_erased [abs_def] map_map comp_def shown_segs_erased
    by (simp add: auto_segments_def v map_concat comp_def shown_segs_def if_distrib cong: if_cong)
  also have "\<dots> = concat (map shown_segs (map (view_file marks gs) docs))"
    unfolding propose_bundles_codes(1) [OF made] by (simp add: comp_def shown_segs_erased)
  finally show "map snd (auto_segments v) = concat (map (\<lambda>d. shown_segs (view_file marks gs d)) docs)" by (simp add: comp_def)
  show "distinct (sv_bundles v)" using propose_bundles_codes(2) [OF made] v by simp
  show "fst ` set (auto_segments v) \<subseteq> set (sv_bundles v)"
    unfolding v propose_bundles_codes(2) [OF made] by (auto simp: auto_segments_def v split: if_splits)
qed


lemma seg_pages_auto [simp]: "seg_pages (auto_seg g) = pages_of g"
  by (simp add: seg_pages_def pages_of_def auto_seg_def)

lemma pages_by_doc_lookup:
  assumes "distinct (map sd_id docs)" "d \<in> set docs" "0 < sd_seq d"
  shows "pages_by_doc docs (sd_id d) = Some (sd_pages d)"
proof -
  let ?ps = "map (\<lambda>d. (sd_id d, sd_pages d)) (filter (\<lambda>d. 0 < sd_seq d) docs)"
  have "distinct (map fst (rev ?ps))"
    using assms(1) by (simp add: comp_def rev_map [symmetric] distinct_map_filter)
  then show ?thesis using assms(2,3) by (simp add: pages_by_doc_def)
qed

lemma doc_pages_own:
  assumes "distinct (map sd_id docs)" "\<forall>d\<in>set docs. \<forall>s\<in>set (S d). ss_doc s = sd_id d" "d \<in> set docs"
  shows "doc_pages (sd_id d) (concat (map S docs)) = concat (map seg_pages (S d))"
proof -
  obtain ds es where docs: "docs = ds @ d # es" using split_list [OF assms(3)] by blast
  have other: "doc_pages (sd_id d) (concat (map S fs)) = []" if "set fs \<subseteq> set docs" "sd_id d \<notin> sd_id ` set fs" for fs
  proof -
    have "ss_doc s \<noteq> sd_id d" if "s \<in> set (S f)" "f \<in> set fs" for s f
      using that \<open>set fs \<subseteq> set docs\<close> \<open>sd_id d \<notin> sd_id ` set fs\<close> assms(2) by (metis image_eqI subsetD)
    then have "filter (\<lambda>s. ss_doc s = sd_id d) (concat (map S fs)) = []"
      by (auto simp: filter_empty_conv)
    then show ?thesis by (simp add: doc_pages_def)
  qed
  have "doc_pages (sd_id d) (S d) = concat (map seg_pages (S d))"
    using assms(2,3) by (simp add: doc_pages_def filter_True)
  moreover have "doc_pages (sd_id d) (concat (map S ds)) = []" "doc_pages (sd_id d) (concat (map S es)) = []"
    using assms(1) docs by (simp_all add: other subset_iff)
  ultimately show ?thesis using docs by simp
qed

lemma shown_segs_view:
  assumes "well_stored rule docs gs" "d \<in> set docs" "s \<in> set (shown_segs (view_file marks gs d))"
  shows "ss_doc s = sd_id d" "seg_ok rule (pages_by_doc docs) s" "concat (map seg_pages (shown_segs (view_file marks gs d))) = [1..sd_pages d]"
    "pages_by_doc docs (sd_id d) = Some (sd_pages d)"
proof -
  obtain g where g: "g \<in> set (sf_segments (view_file marks gs d))" "s = auto_seg g"
    using assms(3) by (auto simp: shown_segs_def split: if_splits)
  note facts = view_file_segments(1) [OF assms(1,2) g(1)]
  then show pages: "pages_by_doc docs (sd_id d) = Some (sd_pages d)"
    using assms by (auto simp: well_stored_def intro: pages_by_doc_lookup)
  show "ss_doc s = sd_id d" using facts g(2) by (simp add: auto_seg_def)
  show "seg_ok rule (pages_by_doc docs) s"
    using facts pages g(2) by (auto simp: seg_ok_def auto_seg_def in_file_def has_label_def)
  show "concat (map seg_pages (shown_segs (view_file marks gs d))) = [1..sd_pages d]"
  proof -
    have "sf_segments (view_file marks gs d) \<noteq> []" using g(1) by auto
    from view_file_segments(2) [OF assms(1,2) this] show ?thesis
      using assms(3) by (auto simp: shown_segs_def comp_def split: if_splits)
  qed
qed



definition example_docs :: "split_doc list" where
  "example_docs =
     [\<lparr>sd_id = 7, sd_name = ''a.pdf'', sd_pages = 9, sd_classify = ''done'', sd_reviewed = False, sd_seq = 1\<rparr>]"

definition example_rule :: label_rule where
  "example_rule = \<lparr>lr_labels = [''hoa_don'', ''unc''], lr_min_conf = 0\<rparr>"

definition example_segments :: "segment list" where
  "example_segments = [example_segment 1 6 8 ''unc'', example_segment 2 2 3 ''hoa_don'']"


definition one_segment_file :: "uuid \<Rightarrow> string \<Rightarrow> string \<Rightarrow> split_file" where
  "one_segment_file d status code =
     \<lparr>sf_doc = d, sf_name = [], sf_pages = 9, sf_status = status, sf_classify = ''done'', sf_indexed = True, sf_marks = Map.empty,
      sf_segments = [(example_segment d 1 9 ''unc'')\<lparr>sg_bundle := code\<rparr>]\<rparr>"

text \<open>
  The bundle codes are sorted as texts, so from the hundredth bundle on they are not in the
  order of the bundles: after \<^verbatim>\<open>B99\<close> the next bundle is \<^verbatim>\<open>B100\<close>, which comes first.
\<close>

theorem bundle_codes_out_of_order:
  "snd (propose_bundles [one_segment_file 1 ''reviewed'' ''B99'', one_segment_file 2 ''proposed'' []] [''unc''])
   = [''B100'', ''B99'']"
proof -
  have "nat_string 100 = ''100''" by (simp add: nat_string.simps digit_char_def char_of_eq_iff)
  then have "bundle_code 100 = ''B100''" by (simp add: bundle_code_def two_digits_def int_string_def)
  moreover have "bundle_no ''B99'' = 99" "bundle_no [] = 0"
    by (simp_all add: bundle_no_def trim_prefix_def atoi_def digits_value_def digit_value_def is_ascii_digit_def max_int_def)
  moreover have "''B100'' \<le> ''B99''" by (simp add: less_eq_char_def)
  ultimately show ?thesis
    by (simp add: propose_bundles_def one_segment_file_def example_segment_def Let_def)
qed

end
