(* ===== verification/ToolSession.thy ===== *)
theory ToolSession
  imports GoStrings Messages "HOL-Library.AList"
begin

text \<open>
  The tools of a turn (\<^verbatim>\<open>internal/tools/tools.go\<close>, \<^verbatim>\<open>session.go\<close>, \<^verbatim>\<open>search.go\<close>, \<^verbatim>\<open>toolsearch.go\<close>): the
  registry, the snapshot of it that a turn sees, what the model is bound to, the gate before deferred
  tools and the search that opens it. A Go map is an association list with distinct keys; the order in
  which Go iterates over it is open, and nothing here depends on it but the choice between two deferred
  names that differ in case only.
\<close>

subsection \<open>The registry\<close>

text \<open>An entry, with the JSON text of its parameter schema (\<open>None\<close> when rendering it fails).\<close>

record entry =
  en_name :: string
  en_desc :: string
  en_schema :: "string option"

type_synonym entries = "(string \<times> entry) list"

record registry =
  rg_builtin :: entries
  rg_deferred :: entries
  rg_knowledge :: entries

datatype tool_error =
    Collides string
  | QueryRequired
  | SchemaFails string
  | NotLoaded string

definition put_entry :: "entry \<Rightarrow> entries \<Rightarrow> entries" where
  "put_entry e m = AList.update (en_name e) e m"

definition register :: "registry \<Rightarrow> entry \<Rightarrow> tool_error + registry" where
  "register r e =
     (if en_name e \<in> fst ` set (rg_builtin r) then Inl (Collides (en_name e))
      else Inr (r\<lparr>rg_deferred := put_entry e (rg_deferred r)\<rparr>))"

definition unregister :: "registry \<Rightarrow> string list \<Rightarrow> registry" where
  "unregister r names = r\<lparr>rg_deferred := foldl (\<lambda>m n. AList.delete n m) (rg_deferred r) names\<rparr>"

definition set_knowledge_tools :: "registry \<Rightarrow> entry list \<Rightarrow> registry" where
  "set_knowledge_tools r es = r\<lparr>rg_knowledge := foldl (\<lambda>m e. put_entry e m) [] es\<rparr>"

definition sorted_entries :: "entries \<Rightarrow> entry list" where
  "sorted_entries m = sort_key en_name (map snd m)"

subsection \<open>The session\<close>

record session =
  se_builtin :: entries
  se_catalog :: entries
  se_visible :: "string set"
  se_knowledge :: entries

definition tool_search_name :: string where
  "tool_search_name = ''tool_search''"

definition new_session :: "registry \<Rightarrow> session" where
  "new_session r =
     \<lparr>se_builtin = rg_builtin r, se_catalog = rg_deferred r, se_visible = fst ` set (rg_builtin r),
      se_knowledge = rg_knowledge r\<rparr>"

definition pin :: "session \<Rightarrow> string list \<Rightarrow> session" where
  "pin s names = s\<lparr>se_visible := se_visible s \<union> set names\<rparr>"

definition only :: "session \<Rightarrow> string list \<Rightarrow> session" where
  "only s names =
     (let keep = filter (\<lambda>(n, e). n \<in> set names) (se_builtin s)
      in s\<lparr>se_builtin := keep, se_catalog := [], se_knowledge := [], se_visible := fst ` set keep\<rparr>)"

definition discover :: "session \<Rightarrow> string list \<Rightarrow> string list \<times> session" where
  "discover s names =
     (let found = filter (\<lambda>n. n \<in> fst ` set (se_catalog s)) names
      in (found, s\<lparr>se_visible := se_visible s \<union> set found\<rparr>))"

definition visible :: "session \<Rightarrow> string \<Rightarrow> bool" where
  "visible s name \<longleftrightarrow> \<not> (name = tool_search_name \<and> se_catalog s = []) \<and> name \<in> se_visible s"

text \<open>The names of the matches in a stored search result; \<open>dec\<close> is \<^verbatim>\<open>json.Unmarshal\<close>.\<close>

fun restore :: "(string \<Rightarrow> string list option) \<Rightarrow> session \<Rightarrow> chat_msg list \<Rightarrow> session" where
  "restore dec s [] = s"
| "restore dec s (m # ms) =
     (if m_role m \<noteq> ToolRole \<or> m_tool_name m \<noteq> tool_search_name then restore dec s ms
      else case dec (m_content m) of
        None \<Rightarrow> restore dec s ms
      | Some names \<Rightarrow> restore dec (foldl (\<lambda>s n. snd (discover s [n])) s names) ms)"

definition enable_knowledge :: "session \<Rightarrow> session" where
  "enable_knowledge s =
     s\<lparr>se_builtin := AList.updates (map fst (se_knowledge s)) (map snd (se_knowledge s)) (se_builtin s),
       se_visible := se_visible s \<union> fst ` set (se_knowledge s)\<rparr>"

text \<open>What the tools node can run: each tool with whether it is behind the gate.\<close>

definition executable :: "session \<Rightarrow> (entry \<times> bool) list" where
  "executable s =
     map (\<lambda>e. (e, False)) (sorted_entries (se_builtin s)) @ map (\<lambda>e. (e, True)) (sorted_entries (se_catalog s))"

definition deferred_names :: "session \<Rightarrow> string list" where
  "deferred_names s = sort (filter (\<lambda>n. n \<notin> se_visible s) (map fst (se_catalog s)))"

definition visible_descriptions :: "session \<Rightarrow> string \<rightharpoonup> string" where
  "visible_descriptions s =
     map_of (rev (map (\<lambda>e. (en_name e, en_desc e))
       (filter (\<lambda>e. visible s (en_name e)) (map snd (se_builtin s) @ map snd (se_catalog s)))))"

text \<open>Running a tool by its entry: the gate, then the tool \<open>run\<close> itself.\<close>

definition run_tool :: "session \<Rightarrow> (entry \<Rightarrow> string \<Rightarrow> tool_error + string) \<Rightarrow> entry \<times> bool \<Rightarrow> string \<Rightarrow> tool_error + string" where
  "run_tool s run t args =
     (if snd t \<and> \<not> visible s (en_name (fst t)) then Inl (NotLoaded (en_name (fst t))) else run (fst t) args)"

text \<open>The tools that \<^verbatim>\<open>sessionModel\<close> binds for a call, of those the agent gave it; none means the model without tools.\<close>

definition bound_tools :: "session \<Rightarrow> string list \<Rightarrow> string list" where
  "bound_tools s infos = filter (visible s) infos"

subsection \<open>Searching\<close>

record search_term =
  st_text :: string
  st_required :: bool

definition word_set :: "string \<Rightarrow> string set" where
  "word_set s = set (map encode (fields_func (\<lambda>r. \<not> is_letter r \<and> \<not> is_digit r) (runes s)))"

definition term_score :: "string \<Rightarrow> string \<Rightarrow> search_term \<Rightarrow> nat" where
  "term_score name desc t =
     (if st_text t \<in> word_set name then 10 else if contains_sub name (st_text t) then 5 else 0)
     + (if st_text t \<in> word_set desc then 2 else if 3 \<le> length (st_text t) \<and> contains_sub desc (st_text t) then 1 else 0)"

definition score_entry :: "search_term list \<Rightarrow> entry \<Rightarrow> nat" where
  "score_entry terms e =
     (let name = to_lower (en_name e); desc = to_lower (en_desc e) in
      if list_ex (\<lambda>t. st_required t \<and> \<not> contains_sub name (st_text t)) terms then 0
      else sum_list (map (term_score name desc) terms))"

definition search_terms :: "string \<Rightarrow> search_term list" where
  "search_terms query =
     filter (\<lambda>t. st_text t \<noteq> [])
       (map (\<lambda>f. \<lparr>st_text = dropWhile (\<lambda>c. c = CHR ''+'') f, st_required = prefix ''+'' f\<rparr>)
         (fields_at [] (to_lower query)))"

definition keyword_search :: "session \<Rightarrow> string \<Rightarrow> nat \<Rightarrow> entry list" where
  "keyword_search s query limit =
     (let terms = search_terms query;
          hits = filter (\<lambda>e. 0 < score_entry terms e) (map snd (se_catalog s))
      in if terms = [] then []
         else take limit (sort_key (\<lambda>e. - int (score_entry terms e)) (sort_key en_name hits)))"

text \<open>The names of a \<^verbatim>\<open>select:\<close> query, as \<^verbatim>\<open>seen\<close> lets them through: trimmed, not empty, each once whatever its case.\<close>

fun select_names :: "string list \<Rightarrow> string list \<Rightarrow> string list" where
  "select_names seen [] = []"
| "select_names seen (raw # raws) =
     (let name = trim_space raw in
      if name = [] \<or> to_lower name \<in> set seen then select_names seen raws
      else name # select_names (to_lower name # seen) raws)"

definition by_lower :: "session \<Rightarrow> string \<rightharpoonup> entry" where
  "by_lower s = map_of (rev (map (\<lambda>(n, e). (to_lower n, e)) (se_catalog s)))"

definition select_by_name :: "session \<Rightarrow> string \<Rightarrow> entry list \<times> string list" where
  "select_by_name s ns =
     (let names = select_names [] (split_on (CHR '','') ns)
      in (List.map_filter (\<lambda>n. by_lower s (to_lower n)) names, filter (\<lambda>n. by_lower s (to_lower n) = None) names))"

definition search_limit :: "int \<Rightarrow> nat" where
  "search_limit n = (if n \<le> 0 then 5 else if n > 20 then 20 else nat n)"

definition search :: "session \<Rightarrow> string \<Rightarrow> int \<Rightarrow> entry list \<times> string list" where
  "search s query limit =
     (let query = trim_space query in
      if 7 \<le> length query \<and> map to_lower_rune (runes (take 7 query)) = lit ''select:''
      then select_by_name s (drop 7 query)
      else (keyword_search s query (search_limit limit), []))"

text \<open>\<^verbatim>\<open>tool_search\<close> on the session of the turn: the matches, the names not found and the number of deferred tools.\<close>

definition schema_failure :: "entry list \<Rightarrow> string option" where
  "schema_failure es = map_option en_name (find (\<lambda>e. en_schema e = None) es)"

definition tool_search :: "session \<Rightarrow> string \<Rightarrow> int \<Rightarrow> (tool_error + (entry list \<times> string list \<times> nat)) \<times> session" where
  "tool_search s query limit =
     (if trim_space query = [] then (Inl QueryRequired, s)
      else
        (let (found, missing) = search s (trim_space query) limit in
         case schema_failure found of
           Some n \<Rightarrow> (Inl (SchemaFails n), s)
         | None \<Rightarrow> (Inr (found, missing, length (se_catalog s)), snd (discover s (map en_name found)))))"

end
