(* ===== verification/ToolSafety.thy ===== *)
theory ToolSafety
  imports ToolSession "HOL-Library.Multiset"
begin

text \<open>
  What a session promises: a deferred tool runs only after it was loaded, a restricted turn stays
  restricted, the model is bound to what would run, and a search returns the best matches.
\<close>

subsection \<open>Operations\<close>

text \<open>The operations on the session of a turn; \<open>dec\<close> decodes a stored search result.\<close>

datatype session_op =
    Pin "string list"
  | Only "string list"
  | Discover "string list"
  | Restore "chat_msg list"
  | EnableKnowledge
  | ToolSearch string int

fun session_step :: "(string \<Rightarrow> string list option) \<Rightarrow> session \<Rightarrow> session_op \<Rightarrow> session" where
  "session_step dec s (Pin ns) = pin s ns"
| "session_step dec s (Only ns) = only s ns"
| "session_step dec s (Discover ns) = snd (discover s ns)"
| "session_step dec s (Restore ms) = restore dec s ms"
| "session_step dec s EnableKnowledge = enable_knowledge s"
| "session_step dec s (ToolSearch q n) = snd (tool_search s q n)"

definition session_run :: "(string \<Rightarrow> string list option) \<Rightarrow> session \<Rightarrow> session_op list \<Rightarrow> session" where
  "session_run dec s ops = foldl (session_step dec) s ops"

definition names :: "entries \<Rightarrow> string set" where
  "names m = fst ` set m"

lemma names_simps [simp]: "names [] = {}"
  by (simp add: names_def)

lemma names_updates: "names (AList.updates (map fst k) (map snd k) m) = names m \<union> names k"
proof (induction k arbitrary: m)
  case (Cons x k)
  then show ?case by (cases x) (auto simp: names_def dom_update)
qed simp

text \<open>The tools that a session may ever show: its own and those loaded from its catalog.\<close>

lemma discover_fields [simp]:
  "se_catalog (snd (discover s ns)) = se_catalog s" "se_builtin (snd (discover s ns)) = se_builtin s"
  "se_knowledge (snd (discover s ns)) = se_knowledge s"
  "se_visible (snd (discover s ns)) = se_visible s \<union> (set ns \<inter> names (se_catalog s))"
  by (auto simp: discover_def Let_def names_def)

lemma discover_each:
  "foldl (\<lambda>s n. snd (discover s [n])) s ns = snd (discover s ns)"
proof (induction ns arbitrary: s)
  case (Cons n ns)
  have "snd (discover (snd (discover s [n])) ns) = snd (discover s (n # ns))"
    by (cases s) (auto simp: discover_def Let_def)
  then show ?case using Cons by simp
qed (cases s, simp add: discover_def)

definition restored :: "(string \<Rightarrow> string list option) \<Rightarrow> chat_msg list \<Rightarrow> string list" where
  "restored dec ms =
     concat (map (\<lambda>m. case dec (m_content m) of None \<Rightarrow> [] | Some ns \<Rightarrow> ns)
       (filter (\<lambda>m. m_role m = ToolRole \<and> m_tool_name m = tool_search_name) ms))"

lemma discover_append: "snd (discover (snd (discover s ns)) ms) = snd (discover s (ns @ ms))"
  by (cases s) (auto simp: discover_def Let_def)

lemma discover_Nil: "snd (discover s []) = s"
  by (cases s) (simp add: discover_def)

lemma restore_discovers: "restore dec s ms = snd (discover s (restored dec ms))"
  by (induction dec s ms rule: restore.induct)
     (auto simp: restored_def discover_each discover_append discover_Nil split: option.split)

definition matches :: "session \<Rightarrow> string \<Rightarrow> int \<Rightarrow> string list" where
  "matches s q n = (case fst (tool_search s q n) of Inl e \<Rightarrow> [] | Inr (found, _) \<Rightarrow> map en_name found)"

lemma tool_search_session: "snd (tool_search s q n) = snd (discover s (matches s q n))"
  by (auto simp: tool_search_def matches_def Let_def discover_Nil split: prod.split option.split)

text \<open>The tools an operation shows: those pinned, and those of the catalog that were loaded.\<close>

fun pinned :: "session_op \<Rightarrow> string set" where
  "pinned (Pin ns) = set ns"
| "pinned _ = {}"

fun loaded :: "(string \<Rightarrow> string list option) \<Rightarrow> session \<Rightarrow> session_op \<Rightarrow> string set" where
  "loaded dec s (Discover ns) = set ns \<inter> names (se_catalog s)"
| "loaded dec s (Restore ms) = set (restored dec ms) \<inter> names (se_catalog s)"
| "loaded dec s (ToolSearch q n) = set (matches s q n) \<inter> names (se_catalog s)"
| "loaded dec s _ = {}"

fun loaded_all :: "(string \<Rightarrow> string list option) \<Rightarrow> session \<Rightarrow> session_op list \<Rightarrow> string set" where
  "loaded_all dec s [] = {}"
| "loaded_all dec s (op # ops) = loaded dec s op \<union> loaded_all dec (session_step dec s op) ops"

lemma session_step_sources:
  "names (se_builtin (session_step dec s op)) \<subseteq> names (se_builtin s) \<union> names (se_knowledge s)
   \<and> names (se_knowledge (session_step dec s op)) \<subseteq> names (se_knowledge s)
   \<and> names (se_catalog (session_step dec s op)) \<subseteq> names (se_catalog s)"
proof (cases op)
  case (Only ns)
  then show ?thesis by (auto simp: only_def Let_def names_def)
next
  case EnableKnowledge
  then show ?thesis by (simp add: enable_knowledge_def names_updates)
qed (simp_all add: pin_def restore_discovers tool_search_session)

lemma session_step_visible:
  "se_visible (session_step dec s op)
   \<subseteq> se_visible s \<union> names (se_builtin s) \<union> names (se_knowledge s) \<union> pinned op \<union> loaded dec s op"
  by (cases op; force simp: pin_def only_def enable_knowledge_def restore_discovers tool_search_session names_def Let_def)

lemma session_run_visible:
  "se_visible (session_run dec s ops)
   \<subseteq> se_visible s \<union> names (se_builtin s) \<union> names (se_knowledge s) \<union> \<Union> (pinned ` set ops) \<union> loaded_all dec s ops"
proof (induction ops arbitrary: s)
  case (Cons op ops)
  from Cons.IH [of "session_step dec s op"] session_step_visible [of dec s op] session_step_sources [of dec s op]
  show ?case by (auto simp: session_run_def)
qed (auto simp: session_run_def)

text \<open>
  C29: A deferred tool is callable only after it was loaded: whatever happens in a turn, the
  tools that the gate lets through are the built-in and case tools, those the caller pinned, and those of
  the catalog that a search, a discovery or the transcript named.
\<close>

theorem deferred_needs_loading:
  "Collect (visible (session_run dec (new_session r) ops))
   \<subseteq> names (rg_builtin r) \<union> names (rg_knowledge r) \<union> \<Union> (pinned ` set ops) \<union> loaded_all dec (new_session r) ops"
  using session_run_visible [of dec "new_session r" ops] by (auto simp: visible_def new_session_def names_def)

lemma restricted_step:
  assumes "se_catalog s = []" "se_knowledge s = []" "pinned op = {}"
    "se_visible s \<subseteq> V" "names (se_builtin s) \<subseteq> V"
  shows "se_catalog (session_step dec s op) = [] \<and> se_knowledge (session_step dec s op) = []
    \<and> se_visible (session_step dec s op) \<subseteq> V \<and> names (se_builtin (session_step dec s op)) \<subseteq> V"
proof -
  have "loaded dec s op = {}" using assms(1) by (cases op) auto
  then have "se_visible (session_step dec s op) \<subseteq> V" "names (se_builtin (session_step dec s op)) \<subseteq> V"
    using assms session_step_visible [of dec s op] session_step_sources [of dec s op] by auto
  moreover have "names (se_catalog (session_step dec s op)) = {}" "names (se_knowledge (session_step dec s op)) = {}"
    using session_step_sources [of dec s op] assms(1,2) by auto
  ultimately show ?thesis by (simp add: names_def)
qed

text \<open>
  A restricted turn stays restricted: after \<^verbatim>\<open>Only\<close>, whatever is searched, restored or
  enabled, no tool but the named built-in ones can be called - only pinning adds to them.
\<close>

theorem only_restricts:
  "Collect (visible (session_run dec (only s ns) (filter (\<lambda>op. pinned op = {}) ops))) \<subseteq> set ns \<inter> names (se_builtin s)"
proof -
  have "se_visible (session_run dec s0 (filter (\<lambda>op. pinned op = {}) ops)) \<subseteq> V"
    if "se_catalog s0 = []" "se_knowledge s0 = []" "se_visible s0 \<subseteq> V" "names (se_builtin s0) \<subseteq> V" for s0 V
    using that
  proof (induction ops arbitrary: s0)
    case (Cons op ops)
    then show ?case using restricted_step [of s0 op V dec] by (simp add: session_run_def)
  qed (simp add: session_run_def)
  moreover have "se_catalog (only s ns) = []" "se_knowledge (only s ns) = []"
    "se_visible (only s ns) \<subseteq> set ns \<inter> names (se_builtin s)" "names (se_builtin (only s ns)) \<subseteq> set ns \<inter> names (se_builtin s)"
    by (auto simp: only_def Let_def names_def)
  ultimately have "se_visible (session_run dec (only s ns) (filter (\<lambda>op. pinned op = {}) ops)) \<subseteq> set ns \<inter> names (se_builtin s)"
    by blast
  then show ?thesis by (auto simp: visible_def)
qed

subsection \<open>Search\<close>

definition ranks_before :: "search_term list \<Rightarrow> entry \<Rightarrow> entry \<Rightarrow> bool" where
  "ranks_before terms a b \<longleftrightarrow>
     score_entry terms b < score_entry terms a \<or> score_entry terms a = score_entry terms b \<and> en_name a \<le> en_name b"

lemma sort_by_score:
  "sorted_wrt (ranks_before terms) (sort_key (\<lambda>e. - int (score_entry terms e)) (sort_key en_name es))"
proof -
  have "sorted_wrt (ranks_before terms) (insort_key (\<lambda>e. - int (score_entry terms e)) x xs)"
    if "sorted_wrt (ranks_before terms) xs" "\<forall>y\<in>set xs. en_name x \<le> en_name y" for x xs
    using that
    by (induction xs) (auto simp: ranks_before_def set_insort_key)
  moreover have "set (sort_key f xs) = set xs" for f :: "entry \<Rightarrow> int" and xs by simp
  ultimately have "sorted_wrt (\<lambda>a b. en_name a \<le> en_name b) xs \<Longrightarrow>
      sorted_wrt (ranks_before terms) (sort_key (\<lambda>e. - int (score_entry terms e)) xs)" for xs
    by (induction xs) simp_all
  then show ?thesis using sorted_wrt_sort_key [of en_name es] by blast
qed

text \<open>
  A keyword search returns the best matches: at most as many as asked for, every one of them
  a hit in the catalog, ordered by score and, at equal scores, by name; and no entry that it leaves
  out although there is room or a worse one is returned.
\<close>

theorem keyword_search_best:
  "length (keyword_search s q limit) \<le> limit
   \<and> sorted_wrt (ranks_before (search_terms q)) (keyword_search s q limit)
   \<and> (\<exists>rest. mset (keyword_search s q limit) + mset rest
     = mset (filter (\<lambda>e. 0 < score_entry (search_terms q) e) (map snd (se_catalog s)))
     \<and> list_all (\<lambda>b. list_all (\<lambda>a. ranks_before (search_terms q) a b) (keyword_search s q limit)) rest
     \<and> (if length (keyword_search s q limit) < limit then rest = [] else True))"
proof (intro conjI)
  let ?terms = "search_terms q"
  let ?hits = "filter (\<lambda>e. 0 < score_entry ?terms e) (map snd (se_catalog s))"
  let ?all = "sort_key (\<lambda>e. - int (score_entry ?terms e)) (sort_key en_name ?hits)"
  have "?hits = []" if "?terms = []" using that by (simp add: score_entry_def)
  then have run: "keyword_search s q limit = take limit ?all" by (simp add: keyword_search_def Let_def)
  have split: "sorted_wrt (ranks_before ?terms) (take limit ?all @ drop limit ?all)" using sort_by_score by simp
  show "length (keyword_search s q limit) \<le> limit" by (simp add: run)
  show "sorted_wrt (ranks_before ?terms) (keyword_search s q limit)"
    using split unfolding sorted_wrt_append run by blast
  have "mset (take limit ?all) + mset (drop limit ?all) = mset ?hits"
    unfolding mset_append [symmetric] append_take_drop_id by simp
  moreover have "list_all (\<lambda>b. list_all (\<lambda>a. ranks_before ?terms a b) (take limit ?all)) (drop limit ?all)"
    using split unfolding sorted_wrt_append list_all_iff by blast
  ultimately show "\<exists>rest. mset (keyword_search s q limit) + mset rest = mset ?hits
     \<and> list_all (\<lambda>b. list_all (\<lambda>a. ranks_before ?terms a b) (keyword_search s q limit)) rest
     \<and> (if length (keyword_search s q limit) < limit then rest = [] else True)"
    unfolding run by (intro exI [of _ "drop limit ?all"]) simp
qed

end
