(* ===== verification/Sections.thy ===== *)
theory Sections
  imports GoStrings Complex_Main
begin

text \<open>
  The sections of a parsed document (\<^verbatim>\<open>internal/application/service/index/sections.go\<close>): the blocks of
  its pages are grouped under headings, tables stand alone and are cut by rows, and body text is cut at
  a number of tokens. Of the pages and blocks the fields are modelled that are read here; the
  identifiers that every section gets are left out.
\<close>

subsection \<open>Parsed pages\<close>

text \<open>\<^verbatim>\<open>docpipe/types/parse.go\<close>. Only comparisons are made on the coordinates.\<close>

record bbox =
  bx0 :: rat
  by0 :: rat
  bx1 :: rat
  by1 :: rat

definition zero_box :: bbox where
  "zero_box = \<lparr>bx0 = 0, by0 = 0, bx1 = 0, by1 = 0\<rparr>"

definition box_union :: "bbox \<Rightarrow> bbox \<Rightarrow> bbox" where
  "box_union b c =
     (if b = zero_box then c else if c = zero_box then b
      else \<lparr>bx0 = min (bx0 b) (bx0 c), by0 = min (by0 b) (by0 c), bx1 = max (bx1 b) (bx1 c), by1 = max (by1 b) (by1 c)\<rparr>)"

record parsed_block =
  pb_no :: int
  pb_type :: string
  pb_from :: int
  pb_to :: int
  pb_furniture :: bool
  pb_box :: bbox

record parsed_line =
  pl_no :: int
  pl_block :: int

record parsed_page =
  pp_no :: int
  pp_markdown :: string
  pp_blocks :: "parsed_block list"
  pp_lines :: "parsed_line list"
  pp_offset :: int

text \<open>The markdown of a block: a range of runes of the page; \<open>None\<close> for a block that is skipped.\<close>

definition block_md :: "parsed_page \<Rightarrow> parsed_block \<Rightarrow> string option" where
  "block_md pg b =
     (let rs = runes (pp_markdown pg) in
      if pb_furniture b \<or> pb_from b < 0 \<or> pb_to b \<le> pb_from b \<or> pb_to b > int (length rs) then None
      else Some (encode (take (nat (pb_to b - pb_from b)) (drop (nat (pb_from b)) rs))))"

definition in_order :: "parsed_block list \<Rightarrow> parsed_block list" where
  "in_order bs = sort_key pb_no bs"

definition heading_level :: "string \<Rightarrow> string \<Rightarrow> nat" where
  "heading_level md t = (if t = ''title'' then 1 else max (length (takeWhile (\<lambda>c. c = CHR ''#'') md)) 2)"

text \<open>\<^verbatim>\<open>strings.TrimLeft(md, "# ")\<close>.\<close>

definition trim_hashes :: "string \<Rightarrow> string" where
  "trim_hashes md = dropWhile (\<lambda>c. c = CHR ''#'' \<or> c = CHR '' '') md"

subsection \<open>Pieces\<close>

record piece =
  pi_page :: int
  pi_block :: int
  pi_box :: bbox
  pi_md :: string
  pi_lines :: "(int \<times> int) option"
  pi_level :: nat
  pi_tokens :: nat
  pi_from :: int
  pi_to :: int

text \<open>The first and the last line of a block: the map \<^verbatim>\<open>lineRange\<close>.\<close>

definition line_range :: "parsed_page \<Rightarrow> int \<Rightarrow> (int \<times> int) option" where
  "line_range pg b =
     (case map pl_no (filter (\<lambda>l. pl_block l = b) (pp_lines pg)) of
        [] \<Rightarrow> None
      | n # ns \<Rightarrow> Some (foldl min n ns, foldl max n ns))"

definition piece_of :: "parsed_page \<Rightarrow> parsed_block \<Rightarrow> string \<Rightarrow> piece" where
  "piece_of pg b md =
     \<lparr>pi_page = pp_no pg, pi_block = pb_no b, pi_box = pb_box b, pi_md = md, pi_lines = line_range pg (pb_no b),
      pi_level = (if pb_type b \<in> {''title'', ''heading''} then heading_level md (pb_type b) else 0),
      pi_tokens = estimate_tokens md, pi_from = pp_offset pg + pb_from b, pi_to = pp_offset pg + pb_to b\<rparr>"

text \<open>The rows of a long table, in groups under the repeated header.\<close>

definition table_part :: "piece \<Rightarrow> string \<Rightarrow> string list \<Rightarrow> piece" where
  "table_part p header buf =
     (let md = header @ [CHR 0x0A] @ join_with [CHR 0x0A] buf in p\<lparr>pi_md := md, pi_tokens := estimate_tokens md\<rparr>)"

fun split_rows :: "nat \<Rightarrow> piece \<Rightarrow> string \<Rightarrow> nat \<Rightarrow> string list \<Rightarrow> string list \<Rightarrow> piece list" where
  "split_rows mt p header budget buf [] = (if buf = [] then [] else [table_part p header buf])"
| "split_rows mt p header budget buf (r # rs) =
     (if buf \<noteq> [] \<and> budget + estimate_tokens r > mt then
        table_part p header buf # split_rows mt p header (estimate_tokens header + estimate_tokens r) [r] rs
      else split_rows mt p header (budget + estimate_tokens r) (buf @ [r]) rs)"

definition split_table :: "piece \<Rightarrow> nat \<Rightarrow> piece list" where
  "split_table p mt =
     (if pi_tokens p \<le> mt \<or> \<not> prefix ''|'' (pi_md p) then [p]
      else case split_on (CHR 0x0A) (pi_md p) of
        a # b # r # rs \<Rightarrow>
          (let header = a @ [CHR 0x0A] @ b in split_rows mt p header (estimate_tokens header) [] (r # rs))
      | _ \<Rightarrow> [p])"

subsection \<open>Sections\<close>

text \<open>What \<^verbatim>\<open>flush\<close> closes: the kind, the pieces and the path of headings; \<open>make_section\<close> renders it.\<close>

record group =
  gr_kind :: string
  gr_pieces :: "piece list"
  gr_headings :: "string list"

record source_span =
  sp_page :: int
  sp_from :: int
  sp_to :: int
  sp_blocks :: "int list"
  sp_box :: bbox

record doc_section =
  sc_seq :: nat
  sc_kind :: string
  sc_content :: string
  sc_headings :: "string list"
  sc_page_from :: int
  sc_page_to :: int
  sc_line_from :: int
  sc_line_to :: int
  sc_md_from :: int
  sc_md_to :: int
  sc_spans :: "source_span list"
  sc_tokens :: nat

definition new_span :: "int \<Rightarrow> source_span" where
  "new_span n = \<lparr>sp_page = n, sp_from = -1, sp_to = -1, sp_blocks = [], sp_box = zero_box\<rparr>"

definition extend_span :: "piece \<Rightarrow> source_span \<Rightarrow> source_span" where
  "extend_span p s =
     (let s = s\<lparr>sp_blocks := sp_blocks s @ [pi_block p], sp_box := box_union (sp_box s) (pi_box p)\<rparr> in
      case pi_lines p of
        None \<Rightarrow> s
      | Some (a, b) \<Rightarrow> s\<lparr>sp_from := (if sp_from s < 0 \<or> a < sp_from s then a else sp_from s), sp_to := max (sp_to s) b\<rparr>)"

text \<open>The spans in the order in which their pages come first.\<close>

fun add_span :: "source_span list \<Rightarrow> piece \<Rightarrow> source_span list" where
  "add_span [] p = [extend_span p (new_span (pi_page p))]"
| "add_span (s # ss) p = (if sp_page s = pi_page p then extend_span p s # ss else s # add_span ss p)"

definition make_section :: "nat \<Rightarrow> group \<Rightarrow> doc_section" where
  "make_section seq g =
     (let ps = gr_pieces g; spans = foldl add_span [] ps in
      \<lparr>sc_seq = seq, sc_kind = gr_kind g, sc_content = join_with ([CHR 0x0A, CHR 0x0A]) (map pi_md ps),
       sc_headings = gr_headings g, sc_page_from = pi_page (hd ps), sc_page_to = pi_page (last ps),
       sc_line_from = (if sp_from (hd spans) \<ge> 0 then sp_from (hd spans) else -1),
       sc_line_to = (if sp_to (last spans) \<ge> 0 then sp_to (last spans) else -1),
       sc_md_from = pi_from (hd ps), sc_md_to = pi_to (last ps), sc_spans = spans,
       sc_tokens = sum_list (map pi_tokens ps)\<rparr>)"

record sec_state =
  se_out :: "group list"
  se_cur :: "piece list"
  se_levels :: "nat list"
  se_headings :: "string list"

definition flush_group :: "string \<Rightarrow> sec_state \<Rightarrow> sec_state" where
  "flush_group kind s =
     (if se_cur s = [] then s
      else s\<lparr>se_out := se_out s @ [\<lparr>gr_kind = kind, gr_pieces = se_cur s, gr_headings = se_headings s\<rparr>], se_cur := []\<rparr>)"

definition only_headings :: "sec_state \<Rightarrow> bool" where
  "only_headings s \<longleftrightarrow> list_all (\<lambda>p. pi_level p \<noteq> 0) (se_cur s)"

definition cur_tokens :: "sec_state \<Rightarrow> nat" where
  "cur_tokens s = sum_list (map pi_tokens (se_cur s))"

definition push_piece :: "piece \<Rightarrow> sec_state \<Rightarrow> sec_state" where
  "push_piece p s = s\<lparr>se_cur := se_cur s @ [p]\<rparr>"

text \<open>The open headings of the same or a deeper level are closed.\<close>

definition open_heading :: "piece \<Rightarrow> sec_state \<Rightarrow> sec_state" where
  "open_heading p s =
     (let keep = length (dropWhile (\<lambda>l. pi_level p \<le> l) (rev (se_levels s)))
      in s\<lparr>se_levels := take keep (se_levels s) @ [pi_level p],
           se_headings := take keep (se_headings s) @ [trim_space (trim_hashes (pi_md p))]\<rparr>)"

definition add_piece :: "nat \<Rightarrow> string \<Rightarrow> piece \<Rightarrow> sec_state \<Rightarrow> sec_state" where
  "add_piece mt t p s =
     (if t \<in> {''title'', ''heading''} then push_piece p (open_heading p (flush_group ''text'' s))
      else if t = ''table'' then
        foldl (\<lambda>s part. flush_group ''table'' (push_piece part s))
          (if only_headings s then s else flush_group ''text'' s) (split_table p mt)
      else
        push_piece p
          (if se_cur s \<noteq> [] \<and> \<not> only_headings s \<and> cur_tokens s + pi_tokens p > mt then flush_group ''text'' s else s))"

definition add_block :: "nat \<Rightarrow> parsed_page \<Rightarrow> sec_state \<Rightarrow> parsed_block \<Rightarrow> sec_state" where
  "add_block mt pg s b =
     (case block_md pg b of None \<Rightarrow> s | Some md \<Rightarrow> add_piece mt (pb_type b) (piece_of pg b md) s)"

definition add_page :: "nat \<Rightarrow> sec_state \<Rightarrow> parsed_page \<Rightarrow> sec_state" where
  "add_page mt s pg = foldl (add_block mt pg) s (in_order (pp_blocks pg))"

definition max_section_tokens :: "int \<Rightarrow> nat" where
  "max_section_tokens n = (if n \<le> 0 then 1500 else nat n)"

definition section_groups :: "parsed_page list \<Rightarrow> int \<Rightarrow> group list" where
  "section_groups pages n =
     se_out (flush_group ''text''
       (foldl (add_page (max_section_tokens n)) \<lparr>se_out = [], se_cur = [], se_levels = [], se_headings = []\<rparr>
         (sort_key pp_no pages)))"

definition build_sections :: "parsed_page list \<Rightarrow> int \<Rightarrow> doc_section list" where
  "build_sections pages n = (let gs = section_groups pages n in map2 make_section [0..<length gs] gs)"

end
