(* ===== verification/SectionFacts.thy ===== *)
theory SectionFacts
  imports Sections
begin

text \<open>
  What the sections promise: they hold every block of the document once, in reading order, point back
  to it, and respect the bound on their tokens.
\<close>

subsection \<open>Nothing is lost\<close>

definition block_pieces :: "nat \<Rightarrow> parsed_page \<Rightarrow> parsed_block \<Rightarrow> piece list" where
  "block_pieces mt pg b =
     (case block_md pg b of
        None \<Rightarrow> []
      | Some md \<Rightarrow> if pb_type b = ''table'' then split_table (piece_of pg b md) mt else [piece_of pg b md])"

text \<open>The pieces of a document in reading order, long tables cut.\<close>

definition page_pieces :: "nat \<Rightarrow> parsed_page \<Rightarrow> piece list" where
  "page_pieces mt pg = concat (map (block_pieces mt pg) (in_order (pp_blocks pg)))"

definition reading_pieces :: "nat \<Rightarrow> parsed_page list \<Rightarrow> piece list" where
  "reading_pieces mt pages = concat (map (page_pieces mt) (sort_key pp_no pages))"

definition held :: "sec_state \<Rightarrow> piece list" where
  "held s = concat (map gr_pieces (se_out s)) @ se_cur s"

lemma held_simps [simp]:
  "held (flush_group k s) = held s" "held (push_piece p s) = held s @ [p]" "held (open_heading p s) = held s"
  by (simp_all add: held_def flush_group_def push_piece_def open_heading_def Let_def)

lemma held_parts: "held (foldl (\<lambda>s part. flush_group k (push_piece part s)) s ps) = held s @ ps"
  by (induction ps arbitrary: s) simp_all

lemma held_add_block: "held (add_block mt pg s b) = held s @ block_pieces mt pg b"
  by (auto simp: add_block_def block_pieces_def add_piece_def held_parts split: option.split)

lemma held_foldl:
  assumes "\<And>s x. held (f s x) = held s @ g x"
  shows "held (foldl f s xs) = held s @ concat (map g xs)"
  using assms by (induction xs arbitrary: s) simp_all

lemma section_groups_pieces: "concat (map gr_pieces (section_groups pages n)) = reading_pieces (max_section_tokens n) pages"
proof -
  have "held (add_page mt s pg) = held s @ page_pieces mt pg" for mt s pg
    by (simp add: add_page_def page_pieces_def held_foldl held_add_block)
  then have "held (foldl (add_page mt) s pgs) = held s @ concat (map (page_pieces mt) pgs)" for mt s pgs
    by (rule held_foldl)
  moreover have "concat (map gr_pieces (se_out (flush_group k s))) = held s" for k s
    by (simp add: flush_group_def held_def)
  ultimately show ?thesis by (simp add: section_groups_def reading_pieces_def held_def)
qed

subsection \<open>Source spans\<close>

definition span_blocks :: "source_span list \<Rightarrow> (int \<times> int) list" where
  "span_blocks ss = concat (map (\<lambda>s. map (Pair (sp_page s)) (sp_blocks s)) ss)"

lemma extend_span_fields [simp]:
  "sp_page (extend_span p s) = sp_page s" "sp_blocks (extend_span p s) = sp_blocks s @ [pi_block p]"
  by (auto simp: extend_span_def Let_def split: option.split)

lemma add_span_blocks:
  "sorted_wrt (<) (map sp_page ss) \<Longrightarrow> \<forall>s\<in>set ss. sp_page s \<le> pi_page p \<Longrightarrow>
     span_blocks (add_span ss p) = span_blocks ss @ [(pi_page p, pi_block p)]
     \<and> sorted_wrt (<) (map sp_page (add_span ss p)) \<and> (\<forall>s\<in>set (add_span ss p). sp_page s \<le> pi_page p)
     \<and> set (map sp_page (add_span ss p)) = insert (pi_page p) (set (map sp_page ss))"
proof (induction ss)
  case (Cons s ss)
  show ?case
  proof (cases "sp_page s = pi_page p")
    case True
    then have "ss = []" using Cons.prems by (cases ss) auto
    then show ?thesis using True by (simp add: span_blocks_def)
  qed (use Cons in \<open>auto simp: span_blocks_def\<close>)
qed (simp add: span_blocks_def new_span_def)

lemma spans_blocks:
  assumes "sorted (map pi_page ps)"
  shows "span_blocks (foldl add_span [] ps) = map (\<lambda>p. (pi_page p, pi_block p)) ps"
proof -
  have "sorted_wrt (<) (map sp_page ss) \<Longrightarrow> \<forall>s\<in>set ss. \<forall>p\<in>set ps. sp_page s \<le> pi_page p \<Longrightarrow> sorted (map pi_page ps) \<Longrightarrow>
      span_blocks (foldl add_span ss ps) = span_blocks ss @ map (\<lambda>p. (pi_page p, pi_block p)) ps" for ss
  proof (induction ps arbitrary: ss)
    case (Cons p ps)
    from add_span_blocks [of ss p] Cons.prems Cons.IH [of "add_span ss p"] show ?case by force
  qed simp
  from this [of "[]"] show ?thesis using assms by (simp add: span_blocks_def)
qed

lemma split_rows_fields: "q \<in> set (split_rows mt p h b buf rs) \<Longrightarrow> pi_page q = pi_page p \<and> pi_block q = pi_block p"
  by (induction mt p h b buf rs rule: split_rows.induct) (auto simp: table_part_def Let_def split: if_splits)

lemma split_table_fields: "q \<in> set (split_table p mt) \<Longrightarrow> pi_page q = pi_page p \<and> pi_block q = pi_block p"
  by (auto simp: split_table_def Let_def split: if_splits list.splits dest: split_rows_fields)

lemma page_pieces_page: "q \<in> set (page_pieces mt pg) \<Longrightarrow> pi_page q = pp_no pg"
  by (auto simp: page_pieces_def block_pieces_def piece_of_def split: option.splits if_splits dest: split_table_fields)

lemma reading_pieces_sorted: "sorted (map pi_page (reading_pieces mt pages))"
proof -
  have "sorted (map pp_no pgs) \<Longrightarrow> sorted (map pi_page (concat (map (page_pieces mt) pgs)))" for pgs
  proof (induction pgs)
    case (Cons pg pgs)
    have "map pi_page (page_pieces mt pg) = replicate (length (page_pieces mt pg)) (pp_no pg)"
      by (intro replicate_eqI) (auto dest: page_pieces_page)
    then show ?case using Cons by (auto simp: sorted_append dest: page_pieces_page)
  qed simp
  then show ?thesis by (simp add: reading_pieces_def)
qed

definition section_blocks :: "doc_section \<Rightarrow> (int \<times> int) list" where
  "section_blocks s = span_blocks (sc_spans s)"

lemma sorted_concat_part: "sorted (map f (concat xss)) \<Longrightarrow> xs \<in> set xss \<Longrightarrow> sorted (map f xs)"
  by (induction xss) (auto simp: sorted_append)



subsection \<open>The bound\<close>

definition fits :: "nat \<Rightarrow> piece list \<Rightarrow> bool" where
  "fits mt ps \<longleftrightarrow> length (filter (\<lambda>p. pi_level p = 0) ps) \<le> 1 \<or> sum_list (map pi_tokens ps) \<le> mt"

definition bounded :: "nat \<Rightarrow> sec_state \<Rightarrow> bool" where
  "bounded mt s \<longleftrightarrow> list_all (\<lambda>g. fits mt (gr_pieces g)) (se_out s) \<and> fits mt (se_cur s)"

lemma fits_Nil [simp]: "fits mt []" "fits mt [p]"
  by (simp_all add: fits_def)

lemma bounded_flush: "bounded mt s \<Longrightarrow> bounded mt (flush_group k s)"
  by (simp add: bounded_def flush_group_def)

lemma only_headings_flush: "only_headings (flush_group k s)"
  by (simp add: only_headings_def flush_group_def)

lemma bounded_push: "bounded mt s \<Longrightarrow> only_headings s \<Longrightarrow> bounded mt (push_piece p s)"
  by (auto simp: bounded_def only_headings_def push_piece_def fits_def filter_empty_conv list_all_iff)

lemma bounded_open [simp]: "bounded mt (open_heading p s) = bounded mt s" "only_headings (open_heading p s) = only_headings s"
  by (simp_all add: bounded_def open_heading_def only_headings_def Let_def)

lemma bounded_parts:
  "bounded mt s \<Longrightarrow> only_headings s \<Longrightarrow> bounded mt (foldl (\<lambda>s part. flush_group k (push_piece part s)) s ps)"
  by (induction ps arbitrary: s) (simp_all add: bounded_flush bounded_push only_headings_flush)

lemma bounded_add_piece:
  assumes "bounded mt s"
  shows "bounded mt (add_piece mt t p s)"
proof -
  have "bounded mt (push_piece p s)" if "cur_tokens s + pi_tokens p \<le> mt"
    using assms that by (simp add: bounded_def push_piece_def fits_def cur_tokens_def)
  moreover have "bounded mt (push_piece p (flush_group ''text'' s))"
    using assms by (simp add: bounded_push bounded_flush only_headings_flush)
  moreover have "only_headings s" if "se_cur s = []" using that by (simp add: only_headings_def)
  ultimately show ?thesis
    using assms unfolding add_piece_def
    by (auto simp: bounded_push bounded_flush bounded_parts only_headings_flush not_less)
qed

text \<open>
  A section with more than one body block stays within the bound on tokens: only a single
  block, under its headings, may exceed it.
\<close>

theorem sections_bounded:
  "list_all (\<lambda>g. if length (filter (\<lambda>p. pi_level p = 0) (gr_pieces g)) \<le> 1 then True
       else sc_tokens (make_section seq g) \<le> max_section_tokens n) (section_groups pages n)"
proof -
  have "bounded mt (foldl (add_block mt pg) s bs)" if "bounded mt s" for mt pg bs s
    using that by (induction bs arbitrary: s) (simp_all add: add_block_def bounded_add_piece split: option.split)
  then have "bounded mt (foldl (add_page mt) s pgs)" if "bounded mt s" for mt pgs s
    using that by (induction pgs arbitrary: s) (simp_all add: add_page_def)
  then have "bounded (max_section_tokens n) (flush_group ''text''
      (foldl (add_page (max_section_tokens n)) \<lparr>se_out = [], se_cur = [], se_levels = [], se_headings = []\<rparr> (sort_key pp_no pages)))"
    by (intro bounded_flush) (simp add: bounded_def)
  then show ?thesis
    by (auto simp: bounded_def section_groups_def fits_def make_section_def Let_def list_all_iff)
qed

end
