(* ===== verification/DocTree.thy ===== *)
theory DocTree
  imports Sections
begin

text \<open>
  The tree of a document (\<^verbatim>\<open>internal/application/service/index/tree.go\<close>): layout groups of each page, the
  nodes they start, the tree built over the pages with a stack of open nodes, the sections put into it,
  and the rows that are stored. The nodes are shared pointers: they are kept in a list, a pointer is an
  index, and the fresh identifier of a node is its index too.
\<close>

subsection \<open>Texts\<close>

text \<open>\<^verbatim>\<open>stripMD\<close> and the clean-up of \<^verbatim>\<open>firstWords\<close>.\<close>

definition strip_md :: "string \<Rightarrow> string" where
  "strip_md s = replacer [(''#'', []), (''|'', '' ''), (''*'', []), (''> '', []), (''---'', [])] s"

definition first_words :: "string \<Rightarrow> nat \<Rightarrow> string" where
  "first_words s n =
     join_with '' '' (take n (fields_at [] (replacer [(''#'', []), (''|'', '' ''), (''*'', []), (''>'', [])] s)))"

definition clean_heading :: "string \<Rightarrow> string" where
  "clean_heading md = collapse_space (strip_md (trim_hashes md))"

text \<open>
  The regular expression \<^verbatim>\<open>numbered\<close>: a Roman number, a dotted number or one letter, then a point or a
  parenthesis and a space. With the case ignored, \<^verbatim>\<open>[a-z]\<close> also has the Kelvin sign and the long s.
\<close>

definition roman_rune :: "rune \<Rightarrow> bool" where
  "roman_rune r \<longleftrightarrow> to_lower_rune r \<in> set (lit ''ivxlc'')"

definition digit_rune :: "rune \<Rightarrow> bool" where
  "digit_rune r \<longleftrightarrow> 48 \<le> r \<and> r \<le> 57"

definition letter_rune :: "rune \<Rightarrow> bool" where
  "letter_rune r \<longleftrightarrow> 97 \<le> to_lower_rune r \<and> to_lower_rune r \<le> 122 \<or> r \<in> {0x110, 0x111, 0x17F, 0x212A}"

lemma dropWhile_shorter: "length (dropWhile P xs) = Suc n \<Longrightarrow> n < length xs"
  by (metis length_dropWhile_le Suc_le_eq)

function after_numbers :: "rune list \<Rightarrow> rune list" where
  "after_numbers rs =
     (case dropWhile digit_rune rs of
        d # c # rs' \<Rightarrow> if d = 46 \<and> digit_rune c then after_numbers (c # rs') else d # c # rs'
      | rest \<Rightarrow> rest)"
  by pat_completeness auto
termination
  by (relation "measure length") (auto dest!: arg_cong [where f = length] intro: dropWhile_shorter)

declare after_numbers.simps [simp del]

definition ends_number :: "rune list \<Rightarrow> bool" where
  "ends_number rs \<longleftrightarrow> (case rs of c # s # _ \<Rightarrow> (c = 46 \<or> c = 41) \<and> re_space s | _ \<Rightarrow> False)"

definition is_numbered :: "string \<Rightarrow> bool" where
  "is_numbered s \<longleftrightarrow>
     (case runes s of
        [] \<Rightarrow> False
      | r # rs \<Rightarrow>
          roman_rune r \<and> ends_number (dropWhile roman_rune rs)
          \<or> digit_rune r \<and> ends_number (after_numbers (r # rs))
          \<or> letter_rune r \<and> ends_number rs)"

subsection \<open>Groups of a page\<close>

record layout_group =
  lg_id :: string
  lg_heading :: string
  lg_level :: nat
  lg_body :: string
  lg_tokens :: nat

definition blank_line :: string where
  "blank_line = [CHR 0x0A, CHR 0x0A]"

definition group_text :: "layout_group \<Rightarrow> string" where
  "group_text g = (if lg_heading g = [] then lg_body g else trim_space (lg_heading g @ [CHR 0x0A] @ lg_body g))"

definition new_group :: "string \<Rightarrow> nat \<Rightarrow> nat \<Rightarrow> layout_group" where
  "new_group heading level tok = \<lparr>lg_id = [], lg_heading = heading, lg_level = level, lg_body = [], lg_tokens = tok\<rparr>"

definition max_heading_words :: nat where "max_heading_words = 25"

text \<open>A heading joins the heading before it when that one is not finished.\<close>

definition joins_heading :: "layout_group \<Rightarrow> nat \<Rightarrow> string \<Rightarrow> bool" where
  "joins_heading g lvl title \<longleftrightarrow>
     lg_heading g \<noteq> [] \<and> lg_level g = lvl \<and> lg_body g = [] \<and> \<not> suffix '':'' (lg_heading g) \<and> \<not> is_numbered title"

definition update_last :: "('a \<Rightarrow> 'a) \<Rightarrow> 'a list \<Rightarrow> 'a list" where
  "update_last f xs = butlast xs @ [f (last xs)]"

definition group_block :: "parsed_page \<Rightarrow> layout_group list \<Rightarrow> parsed_block \<Rightarrow> layout_group list" where
  "group_block pg gs b =
     (case block_md pg b of
        None \<Rightarrow> gs
      | Some raw \<Rightarrow>
          (let md = trim_space raw; tok = estimate_tokens md in
           if pb_type b \<in> {''header'', ''footer'', ''page_number''} \<or> md = [] then gs
           else if pb_type b \<in> {''title'', ''heading''} \<and> length (fields_at [] md) \<le> max_heading_words then
             (let lvl = heading_level md (pb_type b); title = clean_heading md in
              if gs \<noteq> [] \<and> joins_heading (last gs) lvl title then
                update_last (\<lambda>g. g\<lparr>lg_heading := lg_heading g @ '' '' @ title, lg_tokens := lg_tokens g + tok\<rparr>) gs
              else gs @ [new_group title lvl tok])
           else
             update_last (\<lambda>g. g\<lparr>lg_body := trim_space (lg_body g @ blank_line @ md), lg_tokens := lg_tokens g + tok\<rparr>)
               (if gs = [] then [new_group [] 0 0] else gs)))"

text \<open>The second loop: a short heading group that is not the last one joins the group before it.\<close>

fun merge_groups :: "nat \<Rightarrow> layout_group list \<Rightarrow> layout_group list \<Rightarrow> layout_group list" where
  "merge_groups mt out [] = out"
| "merge_groups mt out (g # gs) =
     (if out \<noteq> [] \<and> lg_heading g \<noteq> [] \<and> lg_tokens g < mt \<and> gs \<noteq> [] \<and> lg_level g \<ge> lg_level (last out) then
        merge_groups mt
          (update_last (\<lambda>p. p\<lparr>lg_body := trim_space (lg_body p @ blank_line @ group_text g), lg_tokens := lg_tokens p + lg_tokens g\<rparr>) out) gs
      else merge_groups mt (out @ [g]) gs)"

definition page_groups :: "parsed_page \<Rightarrow> nat \<Rightarrow> layout_group list" where
  "page_groups pg mt =
     (let gs = merge_groups mt [] (foldl (group_block pg) [] (in_order (pp_blocks pg)))
      in map2 (\<lambda>i g. g\<lparr>lg_id := ''g'' @ nat_string (i + 1)\<rparr>) [0..<length gs] gs)"

subsection \<open>What a page adds\<close>

record page_node =
  pn_title :: string
  pn_level :: nat
  pn_summary :: string
  pn_tokens :: nat

record page_result =
  pr_lead_tokens :: nat
  pr_lead_summary :: string
  pr_nodes :: "page_node list"

definition draft_group :: "nat \<Rightarrow> page_result \<Rightarrow> layout_group \<Rightarrow> page_result" where
  "draft_group words r g =
     (if lg_heading g = [] then
        r\<lparr>pr_lead_tokens := pr_lead_tokens r + lg_tokens g, pr_lead_summary := first_words (lg_body g) words\<rparr>
      else
        (let src = (if lg_body g = [] then lg_heading g else lg_body g) in
         r\<lparr>pr_nodes := pr_nodes r @ [\<lparr>pn_title = truncate_text (lg_heading g) 120, pn_level = lg_level g,
             pn_summary = first_words src words, pn_tokens = lg_tokens g\<rparr>]\<rparr>))"

definition draft_result :: "layout_group list \<Rightarrow> nat \<Rightarrow> page_result" where
  "draft_result gs words = foldl (draft_group words) \<lparr>pr_lead_tokens = 0, pr_lead_summary = [], pr_nodes = []\<rparr> gs"

datatype pdf_bookmark = PDFBookmark (bm_title: string) (bm_page: int) (bm_children: "pdf_bookmark list")

record bookmark =
  bk_title :: string
  bk_at :: int
  bk_depth :: nat

fun flatten_bookmark :: "int \<Rightarrow> nat \<Rightarrow> pdf_bookmark \<Rightarrow> bookmark list" where
  "flatten_bookmark n depth (PDFBookmark title p children) =
     (if 1 \<le> p \<and> p \<le> n \<and> trim_space title \<noteq> [] then [\<lparr>bk_title = trim_space title, bk_at = p, bk_depth = depth\<rparr>] else [])
     @ concat (map (flatten_bookmark n (depth + 1)) children)"

definition flatten_bookmarks :: "pdf_bookmark list \<Rightarrow> int \<Rightarrow> bookmark list" where
  "flatten_bookmarks bms n = sort_key bk_at (concat (map (flatten_bookmark n 1) bms))"

record doc_span =
  ds_label :: string
  ds_title :: string
  ds_start :: int
  ds_end :: int

subsection \<open>Building the tree\<close>

record tnode =
  tn_title :: string
  tn_origin :: string
  tn_level :: nat
  tn_start :: int
  tn_end :: int
  tn_children :: "nat list"
  tn_sections :: "nat list"
  tn_summary :: string
  tn_tokens :: nat
  tn_doctype :: string

definition new_node :: "string \<Rightarrow> string \<Rightarrow> nat \<Rightarrow> int \<Rightarrow> string \<Rightarrow> nat \<Rightarrow> string \<Rightarrow> tnode" where
  "new_node title origin level p summary tokens doctype =
     \<lparr>tn_title = title, tn_origin = origin, tn_level = level, tn_start = p, tn_end = p, tn_children = [], tn_sections = [],
      tn_summary = summary, tn_tokens = tokens, tn_doctype = doctype\<rparr>"

text \<open>
  The nodes and the stack of open nodes, the deepest first and the root last. The variable \<^verbatim>\<open>last\<close> is
  always the deepest open node: every push sets it, and nodes are only popped just before a push.
\<close>

record tree_state =
  ts_nodes :: "tnode list"
  ts_stack :: "nat list"

definition change_node :: "nat \<Rightarrow> (tnode \<Rightarrow> tnode) \<Rightarrow> tree_state \<Rightarrow> tree_state" where
  "change_node i f s = s\<lparr>ts_nodes := (ts_nodes s)[i := f (ts_nodes s ! i)]\<rparr>"

fun pop_open :: "tnode list \<Rightarrow> nat \<Rightarrow> nat list \<Rightarrow> nat list" where
  "pop_open nodes l (i # j # js) = (if tn_level (nodes ! i) \<ge> l then pop_open nodes l (j # js) else i # j # js)"
| "pop_open nodes l js = js"

definition push_node :: "tnode \<Rightarrow> tree_state \<Rightarrow> tree_state" where
  "push_node n s =
     (let stack = pop_open (ts_nodes s) (tn_level n) (ts_stack s); parent = hd stack; i = length (ts_nodes s);
          n = n\<lparr>tn_level := max (tn_level n) (tn_level (ts_nodes s ! parent) + 1)\<rparr>;
          nodes = (ts_nodes s)[parent := (ts_nodes s ! parent)\<lparr>tn_children := tn_children (ts_nodes s ! parent) @ [i]\<rparr>]
      in \<lparr>ts_nodes = nodes @ [n], ts_stack = i # stack\<rparr>)"

text \<open>The open nodes but the root reach the page \<open>p\<close>.\<close>

definition reach_page :: "int \<Rightarrow> tree_state \<Rightarrow> tree_state" where
  "reach_page p s = foldl (\<lambda>s i. change_node i (\<lambda>n. n\<lparr>tn_end := p\<rparr>) s) s (butlast (ts_stack s))"

fun open_spans :: "int \<Rightarrow> doc_span list \<Rightarrow> tree_state \<Rightarrow> doc_span list \<times> tree_state" where
  "open_spans p [] s = ([], s)"
| "open_spans p (d # ds) s =
     (if ds_start d \<le> p then
        open_spans p ds (push_node (new_node (ds_title d) ''doctype'' 1 p [] 0 (ds_label d)) (s\<lparr>ts_stack := [last (ts_stack s)]\<rparr>))
      else (d # ds, s))"

text \<open>The bookmarks of page \<open>p\<close>, and the nodes started for them.\<close>

fun open_bookmarks :: "nat \<Rightarrow> int \<Rightarrow> bookmark list \<Rightarrow> nat list \<Rightarrow> tree_state \<Rightarrow> bookmark list \<times> nat list \<times> tree_state" where
  "open_bookmarks off p [] started s = ([], started, s)"
| "open_bookmarks off p (b # bs) started s =
     (if bk_at b = p then
        open_bookmarks off p bs (started @ [length (ts_nodes s)])
          (push_node (new_node (bk_title b) ''bookmark'' (bk_depth b + off) p [] 0 []) s)
      else (b # bs, started, s))"

text \<open>The level of the deepest open bookmark.\<close>

definition base_level :: "nat \<Rightarrow> tree_state \<Rightarrow> nat" where
  "base_level off s =
     (case find (\<lambda>i. tn_origin (ts_nodes s ! i) = ''bookmark'') (ts_stack s) of
        Some i \<Rightarrow> tn_level (ts_nodes s ! i) | None \<Rightarrow> off)"

definition same_title :: "(string \<Rightarrow> string option) \<Rightarrow> tnode list \<Rightarrow> nat list \<Rightarrow> string \<Rightarrow> nat option" where
  "same_title nfd nodes started title =
     (let t = normalize_text nfd title in
      find (\<lambda>i. let bt = normalize_text nfd (tn_title (nodes ! i)) in t \<noteq> [] \<and> (bt = t \<or> prefix bt t \<or> prefix t bt)) started)"

definition join_summary :: "string \<Rightarrow> string \<Rightarrow> nat \<Rightarrow> string" where
  "join_summary a b words =
     (if trim_space b = [] then a else if trim_space a = [] then b
      else if length (fields_at [] a) \<ge> 2 * words then a else first_words (a @ ''; '' @ b) (2 * words))"

definition page_title :: "(int \<rightharpoonup> string) \<Rightarrow> int \<Rightarrow> string" where
  "page_title titles p =
     (let t = trim_space (case titles p of Some t \<Rightarrow> t | None \<Rightarrow> [])
      in if t \<noteq> [] then truncate_text t 80 else ''Trang '' @ int_string p)"

definition add_content :: "nat \<Rightarrow> string \<Rightarrow> nat \<Rightarrow> nat \<Rightarrow> tree_state \<Rightarrow> tree_state" where
  "add_content words summary tokens i s =
     change_node i (\<lambda>n. n\<lparr>tn_tokens := tn_tokens n + tokens, tn_summary := join_summary (tn_summary n) summary words\<rparr>) s"

text \<open>Leading content extends the deepest open node; a node is made for it when only the root is open.\<close>

definition add_lead :: "nat \<Rightarrow> (int \<rightharpoonup> string) \<Rightarrow> nat \<Rightarrow> int \<Rightarrow> page_result \<Rightarrow> tree_state \<Rightarrow> tree_state" where
  "add_lead words titles base p r s =
     (if pr_lead_tokens r = 0 then s
      else
        (let s = (if ts_stack s = [0] then push_node (new_node (page_title titles p) ''layout'' (base + 1) p [] 0 []) s else s)
         in reach_page p (add_content words (pr_lead_summary r) (pr_lead_tokens r) (hd (ts_stack s)) s)))"

definition add_page_node ::
  "(string \<Rightarrow> string option) \<Rightarrow> nat \<Rightarrow> nat \<Rightarrow> int \<Rightarrow> nat list \<Rightarrow> tree_state \<Rightarrow> page_node \<Rightarrow> tree_state"
where
  "add_page_node nfd words base p started s pn =
     (case same_title nfd (ts_nodes s) started (pn_title pn) of
        Some i \<Rightarrow> add_content words (pn_summary pn) (pn_tokens pn) i s
      | None \<Rightarrow> push_node (new_node (pn_title pn) ''layout'' (base + pn_level pn) p (pn_summary pn) (pn_tokens pn) []) s)"

record tree_env =
  te_nfd :: "string \<Rightarrow> string option"
  te_words :: nat
  te_titles :: "int \<rightharpoonup> string"
  te_results :: "int \<rightharpoonup> page_result"
  te_off :: nat

definition tree_page ::
  "tree_env \<Rightarrow> doc_span list \<times> bookmark list \<times> tree_state \<Rightarrow> int \<Rightarrow> doc_span list \<times> bookmark list \<times> tree_state"
where
  "tree_page e x p =
     (let (spans, bms, s) = x;
          (spans, s) = open_spans p spans s;
          (bms, started, s) = open_bookmarks (te_off e) p bms [] s;
          base = base_level (te_off e) s;
          s = (case te_results e p of
                 None \<Rightarrow> s
               | Some r \<Rightarrow>
                   foldl (add_page_node (te_nfd e) (te_words e) base p started) (add_lead (te_words e) (te_titles e) base p r s) (pr_nodes r))
      in (spans, bms, reach_page p s))"

definition root_node :: "int \<Rightarrow> tnode" where
  "root_node n = (new_node [] ''root'' 0 1 [] 0 [])\<lparr>tn_end := n\<rparr>"

definition build_tree ::
  "(string \<Rightarrow> string option) \<Rightarrow> int \<Rightarrow> pdf_bookmark list \<Rightarrow> (int \<rightharpoonup> page_result) \<Rightarrow> (int \<rightharpoonup> string) \<Rightarrow> nat \<Rightarrow> doc_span list \<Rightarrow> tnode list"
where
  "build_tree nfd page_count bookmarks results titles words spans =
     (let n = max page_count 1;
          e = \<lparr>te_nfd = nfd, te_words = words, te_titles = titles, te_results = results, te_off = (if spans \<noteq> [] then 1 else 0)\<rparr>;
          (_, _, s) = foldl (tree_page e)
            (spans, flatten_bookmarks bookmarks n, \<lparr>ts_nodes = [root_node n], ts_stack = [0]\<rparr>) [1..n]
      in ts_nodes s)"

subsection \<open>Sections and rows\<close>

text \<open>
  The deepest node with the page of a section: from the root, the first child whose pages contain it.
  The fuel is the number of nodes; a child comes after its parent in the list.
\<close>

fun deepest :: "nat \<Rightarrow> tnode list \<Rightarrow> int \<Rightarrow> nat \<Rightarrow> nat" where
  "deepest 0 nodes p i = i"
| "deepest (Suc k) nodes p i =
     (case find (\<lambda>c. tn_start (nodes ! c) \<le> p \<and> p \<le> tn_end (nodes ! c)) (tn_children (nodes ! i)) of
        None \<Rightarrow> i
      | Some c \<Rightarrow> deepest k nodes p c)"

definition assign_section :: "tnode list \<Rightarrow> nat \<times> doc_section \<Rightarrow> tnode list" where
  "assign_section nodes x =
     (let i = deepest (length nodes) nodes (sc_page_from (snd x)) 0
      in nodes[i := (nodes ! i)\<lparr>tn_sections := tn_sections (nodes ! i) @ [fst x]\<rparr>])"

definition assign_by_page :: "tnode list \<Rightarrow> doc_section list \<Rightarrow> tnode list" where
  "assign_by_page nodes secs = foldl assign_section nodes (zip [0..<length secs] secs)"

text \<open>\<^verbatim>\<open>finish\<close>: tokens from the leaves up, summaries from the titles of the children, at least one token.\<close>

definition finish_node :: "tnode list \<Rightarrow> tnode \<Rightarrow> tnode" where
  "finish_node nodes n =
     n\<lparr>tn_end := max (tn_end n) (tn_start n),
       tn_summary := (if trim_space (tn_summary n) = [] \<and> tn_children n \<noteq> [] \<and> tn_origin n \<noteq> ''root''
          then truncate_text (join_with ''; '' (map (\<lambda>c. tn_title (nodes ! c)) (tn_children n))) 300 else tn_summary n),
       tn_tokens := max (tn_tokens n) 1\<rparr>"

fun fix_node :: "nat \<Rightarrow> nat \<Rightarrow> tnode list \<Rightarrow> tnode list" where
  "fix_node 0 i nodes = nodes"
| "fix_node (Suc k) i nodes =
     (let nodes = foldl (\<lambda>nodes c.
            (let nodes = fix_node k c nodes
             in nodes[i := (nodes ! i)\<lparr>tn_tokens := tn_tokens (nodes ! i) + tn_tokens (nodes ! c)\<rparr>]))
          nodes (tn_children (nodes ! i))
      in nodes[i := finish_node nodes (nodes ! i)])"

text \<open>The nodes in breadth-first order: the places are the short identifiers.\<close>

fun breadth_first :: "nat \<Rightarrow> tnode list \<Rightarrow> nat list \<Rightarrow> nat list" where
  "breadth_first (Suc k) nodes (i # is) = i # breadth_first k nodes (is @ tn_children (nodes ! i))"
| "breadth_first _ nodes _ = []"

definition short_id :: "tnode list \<Rightarrow> nat \<Rightarrow> string" where
  "short_id nodes i =
     ''n'' @ nat_string (length (takeWhile (\<lambda>j. j \<noteq> i) (breadth_first (length nodes) nodes [0])))"

record tree_row =
  tr_node :: nat
  tr_parent :: "nat option"
  tr_short :: string
  tr_ord :: nat
  tr_level :: nat
  tr_data :: tnode

fun flatten_rows :: "nat \<Rightarrow> tnode list \<Rightarrow> nat option \<Rightarrow> nat \<Rightarrow> nat \<times> nat \<Rightarrow> tree_row list" where
  "flatten_rows 0 nodes parent level x = []"
| "flatten_rows (Suc k) nodes parent level (ord, i) =
     \<lparr>tr_node = i, tr_parent = parent, tr_short = short_id nodes i, tr_ord = ord, tr_level = level, tr_data = nodes ! i\<rparr>
     # concat (map (flatten_rows k nodes (Some i) (level + 1))
         (zip [0..<length (tn_children (nodes ! i))] (tn_children (nodes ! i))))"

text \<open>The rows of a document: build, assign, finish, flatten.\<close>

definition tree_rows :: "tnode list \<Rightarrow> doc_section list \<Rightarrow> tree_row list" where
  "tree_rows nodes secs =
     (let nodes = fix_node (length nodes) 0 (assign_by_page nodes secs)
      in flatten_rows (length nodes) nodes None 0 (0, 0))"

end
