(* ===== verification/DocTypes.thy ===== *)
theory DocTypes
  imports DocTree SplitShown
begin

text \<open>
  The documents of a file (\<^verbatim>\<open>docpipe/group.go\<close>, \<^verbatim>\<open>internal/application/service/index/doctypes.go\<close>): pages
  grouped at the first pages, the segments proposed from them, and the spans of the tree, which cover
  every page of the file.
\<close>

subsection \<open>Documents from first pages\<close>

record page_doctype =
  pd_no :: int
  pd_label :: string
  pd_conf :: rat
  pd_first :: bool

record doc_group =
  dg_start :: int
  dg_end :: int
  dg_label :: string
  dg_proposed :: string
  dg_conf :: rat

definition new_doc :: "rat \<Rightarrow> page_doctype \<Rightarrow> doc_group" where
  "new_doc mc p =
     (if pd_label p = [] \<or> pd_conf p < mc
      then \<lparr>dg_start = pd_no p, dg_end = pd_no p, dg_label = ''unknown'', dg_proposed = pd_label p, dg_conf = pd_conf p\<rparr>
      else \<lparr>dg_start = pd_no p, dg_end = pd_no p, dg_label = pd_label p, dg_proposed = [], dg_conf = pd_conf p\<rparr>)"

definition group_page :: "rat \<Rightarrow> doc_group list \<Rightarrow> page_doctype \<Rightarrow> doc_group list" where
  "group_page mc out p =
     (if out \<noteq> [] \<and> \<not> pd_first p then butlast out @ [(last out)\<lparr>dg_end := pd_no p\<rparr>] else out @ [new_doc mc p])"

definition group_by_first_page :: "page_doctype list \<Rightarrow> rat \<Rightarrow> doc_group list" where
  "group_by_first_page pages mc =
     (if list_ex (\<lambda>p. pd_label p \<noteq> []) pages then foldl (group_page mc) [] pages else [])"

text \<open>The pages after \<open>p\<close> whose numbers follow one another, and the pages after those.\<close>

fun take_run :: "page_doctype \<Rightarrow> page_doctype list \<Rightarrow> page_doctype list \<times> page_doctype list" where
  "take_run p [] = ([], [])"
| "take_run p (q # qs) =
     (if pd_no q = pd_no p + 1 then (let (run, rest) = take_run q qs in (q # run, rest)) else ([], q # qs))"

lemma take_run_split: "take_run p qs = (run, rest) \<Longrightarrow> qs = run @ rest"
  by (induction p qs arbitrary: run rule: take_run.induct) (auto split: if_splits prod.splits)

lemma take_run_length: "length (snd (take_run p qs)) \<le> length qs"
  by (metis take_run_split prod.collapse length_append le_add2)

function page_runs :: "page_doctype list \<Rightarrow> page_doctype list list" where
  "page_runs [] = []"
| "page_runs (p # ps) = (p # fst (take_run p ps)) # page_runs (snd (take_run p ps))"
  by pat_completeness auto
termination
  by (relation "measure length") (simp_all add: take_run_length less_Suc_eq_le)

definition segments_from_pages :: "page_doctype list \<Rightarrow> rat \<Rightarrow> doc_group list" where
  "segments_from_pages pages mc = concat (map (\<lambda>run. group_by_first_page run mc) (page_runs pages))"

definition uncovered :: "page_doctype list \<Rightarrow> segment list \<Rightarrow> bool" where
  "uncovered pages segs \<longleftrightarrow>
     list_ex (\<lambda>p. pd_label p \<noteq> [] \<and> \<not> list_ex (\<lambda>g. sg_start g \<le> pd_no p \<and> pd_no p \<le> sg_end g) segs) pages"

subsection \<open>Spans of the tree\<close>

text \<open>The display title of a label; the labels of a case come with theirs.\<close>

definition label_title :: "(string \<times> string) list \<Rightarrow> string \<Rightarrow> string" where
  "label_title labels name =
     (case map_of labels name of
        Some t \<Rightarrow> t
      | None \<Rightarrow>
          if name = ''other'' then (vn ''Kh~E1;c'')
          else if name = ''unknown'' then (vn ''Ch~1B0;a r~F5;'')
          else if name = ''not_processed'' then (vn ''Ch~1B0;a x~1EED; l~FD;'')
          else name)"

definition label_span :: "(string \<times> string) list \<Rightarrow> string \<Rightarrow> int \<Rightarrow> int \<Rightarrow> doc_span" where
  "label_span labels label a b = \<lparr>ds_label = label, ds_title = label_title labels label, ds_start = a, ds_end = b\<rparr>"

text \<open>The last page up to \<open>t\<close> that is skipped, or not, as the page \<open>e\<close>.\<close>

function gap_end :: "(int \<Rightarrow> bool) \<Rightarrow> int \<Rightarrow> int \<Rightarrow> int" where
  "gap_end skipped t e = (if e < t \<and> skipped (e + 1) = skipped e then gap_end skipped t (e + 1) else e)"
  by pat_completeness auto
termination
  by (relation "measure (\<lambda>(skipped, t, e). nat (t - e))") auto

declare gap_end.simps [simp del]

lemma gap_end_range: "e \<le> gap_end skipped t e \<and> (e \<le> t \<longrightarrow> gap_end skipped t e \<le> t)"
  by (induction skipped t e rule: gap_end.induct) (subst (1 2) gap_end.simps, force)

lemma gap_end_after: "nxt \<le> t \<Longrightarrow> nat (t + 1 - (gap_end skipped t nxt + 1)) < nat (t + 1 - nxt)"
  using gap_end_range [of nxt skipped t] by linarith

function gap_spans :: "(string \<times> string) list \<Rightarrow> (int \<Rightarrow> bool) \<Rightarrow> int \<Rightarrow> int \<Rightarrow> doc_span list" where
  "gap_spans labels skipped t nxt =
     (if nxt \<le> t then
        label_span labels (if skipped nxt then ''not_processed'' else ''unknown'') nxt (gap_end skipped t nxt)
        # gap_spans labels skipped t (gap_end skipped t nxt + 1)
      else [])"
  by pat_completeness auto
termination
  by (relation "measure (\<lambda>(labels, skipped, t, nxt). nat (t + 1 - nxt))") (simp only: wf_measure, simp only: in_measure prod.case gap_end_after)

declare gap_spans.simps [simp del]

fun span_all :: "(string \<times> string) list \<Rightarrow> (int \<Rightarrow> bool) \<Rightarrow> int \<Rightarrow> int \<Rightarrow> segment list \<Rightarrow> doc_span list" where
  "span_all labels skipped n nxt [] = gap_spans labels skipped n nxt"
| "span_all labels skipped n nxt (g # gs) =
     gap_spans labels skipped (sg_start g - 1) nxt
     @ label_span labels (sg_label g) (sg_start g) (sg_end g) # span_all labels skipped n (sg_end g + 1) gs"

text \<open>The segments of the user come first, each kind in the order of the pages; overlapping ones are dropped.\<close>

definition spans_order :: "segment list \<Rightarrow> segment list" where
  "spans_order segs = sort_key (\<lambda>g. if sg_source g = ''user'' then 0 else 1 :: nat) (sort_key sg_start segs)"

definition kept_segments :: "segment list \<Rightarrow> segment list" where
  "kept_segments segs = sort_key sg_start (keep_disjoint [] (spans_order segs))"

definition doc_spans :: "segment list \<Rightarrow> int \<Rightarrow> (int \<Rightarrow> bool) \<Rightarrow> (string \<times> string) list \<Rightarrow> doc_span list" where
  "doc_spans segs page_count skipped labels =
     (if segs = [] then [] else span_all labels skipped page_count 1 (kept_segments segs))"

text \<open>
  \<^verbatim>\<open>spansOf\<close>: the store gives the case (\<open>None\<close> when it is gone), the segments and the page types, and
  saves proposals, after which the segments are read again.
\<close>

definition skipped_pages :: "page_doctype list \<Rightarrow> int \<Rightarrow> int \<Rightarrow> bool" where
  "skipped_pages pages page_count p \<longleftrightarrow> 1 \<le> p \<and> p \<le> page_count \<and> p \<notin> pd_no ` set pages"

record span_store =
  ss_cases :: bool
  ss_rule :: "((string \<times> string) list \<times> rat) option"
  ss_segments :: "string + segment list"
  ss_pages :: "string + page_doctype list"
  ss_save :: "doc_group list \<Rightarrow> string + segment list"

definition spans_of :: "rat \<Rightarrow> span_store \<Rightarrow> int \<Rightarrow> string + doc_span list" where
  "spans_of cfg_min st page_count =
     (if \<not> ss_cases st then Inr []
      else case ss_rule st of
        None \<Rightarrow> Inr []
      | Some (labels, rule_min) \<Rightarrow>
          (case ss_segments st of
             Inl e \<Rightarrow> Inl e
           | Inr segs \<Rightarrow>
               (case ss_pages st of
                  Inl e \<Rightarrow> Inl e
                | Inr pages \<Rightarrow>
                    (let mc = (if rule_min \<le> 0 then cfg_min else rule_min); props = segments_from_pages pages mc;
                         segs' = (if (segs = [] \<or> uncovered pages segs) \<and> props \<noteq> [] then ss_save st props else Inr segs)
                     in case segs' of
                          Inl e \<Rightarrow> Inl e
                        | Inr segs \<Rightarrow> Inr (doc_spans segs page_count (skipped_pages pages page_count) labels)))))"

end
