(* ===== verification/TreeView.thy ===== *)
theory TreeView
  imports DocTypes
begin

text \<open>
  The stored tree of a document as the model reads it (\<^verbatim>\<open>internal/application/service/index/treeview.go\<close>)
  and the building of that tree from the pages of a document (\<^verbatim>\<open>index/service.go\<close>).
\<close>

subsection \<open>The stored tree\<close>

text \<open>
  The rows of a tree. The maps of \<^verbatim>\<open>newTreeView\<close> are searches in the list: the row of an id is the last
  one with it, the root the last one without a parent, and the children of a row are sorted by their place.
\<close>

definition view_row :: "tree_row list \<Rightarrow> nat \<Rightarrow> tree_row option" where
  "view_row rows i = find (\<lambda>r. tr_node r = i) (rev rows)"

definition view_root :: "tree_row list \<Rightarrow> tree_row option" where
  "view_root rows = find (\<lambda>r. tr_parent r = None) (rev rows)"

definition view_children :: "tree_row list \<Rightarrow> nat \<Rightarrow> tree_row list" where
  "view_children rows i = sort_key tr_ord (filter (\<lambda>r. tr_parent r = Some i) rows)"

definition node_line_tokens :: "tree_row \<Rightarrow> nat" where
  "node_line_tokens r =
     estimate_tokens (tn_title (tr_data r) @ '' '' @ truncate_text (tn_summary (tr_data r)) 300) + 10"

text \<open>The tokens of the lines of a subtree; the root has no line. The fuel bounds the depth.\<close>

fun subtree_tokens :: "nat \<Rightarrow> tree_row list \<Rightarrow> tree_row \<Rightarrow> nat" where
  "subtree_tokens 0 rows r = 0"
| "subtree_tokens (Suc k) rows r =
     (if tr_parent r \<noteq> None then node_line_tokens r else 0)
     + sum_list (map (subtree_tokens k rows) (filter (\<lambda>c. tr_parent c = Some (tr_node r)) rows))"

text \<open>\<^verbatim>\<open>FillTreeTokens\<close>: the value set on each row below a root; \<open>None\<close> for a row that no root reaches.\<close>

fun below_root_rows :: "nat \<Rightarrow> tree_row list \<Rightarrow> tree_row \<Rightarrow> bool" where
  "below_root_rows 0 rows r = False"
| "below_root_rows (Suc k) rows r =
     (case tr_parent r of
        None \<Rightarrow> True
      | Some i \<Rightarrow> list_ex (\<lambda>q. tr_node q = i \<and> below_root_rows k rows q) rows)"

definition fill_tree_tokens :: "tree_row list \<Rightarrow> (tree_row \<times> nat option) list" where
  "fill_tree_tokens rows =
     map (\<lambda>r. (r, if below_root_rows (length rows) rows r then Some (subtree_tokens (length rows) rows r) else None)) rows"

text \<open>\<^verbatim>\<open>treeTokens\<close>: the recorded value, or the sum over the subtree. The memo only saves time.\<close>

fun tree_tokens :: "nat \<Rightarrow> (nat \<Rightarrow> nat) \<Rightarrow> tree_row list \<Rightarrow> nat \<Rightarrow> nat" where
  "tree_tokens 0 recorded rows i = 0"
| "tree_tokens (Suc k) recorded rows i =
     (if view_row rows i \<noteq> None \<and> recorded i > 0 then recorded i
      else (case view_row rows i of Some r \<Rightarrow> (if tr_parent r \<noteq> None then node_line_tokens r else 0) | None \<Rightarrow> 0)
        + sum_list (map (\<lambda>c. tree_tokens k recorded rows (tr_node c)) (view_children rows i)))"

subsection \<open>The part of a tree that is shown\<close>

text \<open>Whole levels while they fit the budget, the first one always.\<close>

fun view_levels :: "nat \<Rightarrow> tree_row list \<Rightarrow> nat \<Rightarrow> nat \<Rightarrow> tree_row list \<Rightarrow> tree_row list" where
  "view_levels 0 rows budget used level = []"
| "view_levels (Suc k) rows budget used level =
     (let cost = sum_list (map node_line_tokens level) in
      if level = [] \<or> used > 0 \<and> used + cost > budget then []
      else level @ view_levels k rows budget (used + cost) (concat (map (\<lambda>r. view_children rows (tr_node r)) level)))"

definition view_shown :: "tree_row list \<Rightarrow> nat \<Rightarrow> nat \<Rightarrow> nat list" where
  "view_shown rows node budget = map tr_node (view_levels (length rows + 1) rows budget 0 (view_children rows node))"

fun descendants :: "nat \<Rightarrow> tree_row list \<Rightarrow> nat \<Rightarrow> nat" where
  "descendants 0 rows i = 0"
| "descendants (Suc k) rows i = sum_list (map (\<lambda>c. 1 + descendants k rows (tr_node c)) (view_children rows i))"

definition page_range :: "int \<Rightarrow> int \<Rightarrow> string" where
  "page_range a b = (if a = b then int_string a else int_string a @ (vn ''~2013;'') @ int_string b)"

definition node_title :: "tree_row \<Rightarrow> nat \<Rightarrow> string" where
  "node_title r mx =
     (let t = tn_title (tr_data r); title = (if mx > 0 then truncate_text t mx else t)
      in if tn_doctype (tr_data r) \<noteq> [] then title @ (vn '' [lo~1EA1;i: '') @ tn_doctype (tr_data r) @ '']'' else title)"

definition node_line :: "tree_row list \<Rightarrow> nat list \<Rightarrow> string \<Rightarrow> nat \<Rightarrow> tree_row \<Rightarrow> string" where
  "node_line rows shown pre depth r =
     (let d = tr_data r; kids = view_children rows (tr_node r); s = trim_space (tn_summary d) in
      concat (replicate depth ''  '') @ ''['' @ pre @ tr_short r @ ''] '' @ node_title r 0 @ '' (tr. '' @ page_range (tn_start d) (tn_end d) @ '')''
      @ (if s \<noteq> [] then (vn '' ~2014; '') @ truncate_text (collapse_space s) 300 else [])
      @ (if kids \<noteq> [] \<and> tr_node (hd kids) \<notin> set shown
         then ''   (+'' @ nat_string (descendants (length rows) rows (tr_node r)) @ (vn '' m~1EE5;c, expand '') @ pre @ tr_short r @ '')'' else [])
      @ [CHR 0x0A])"

fun render_rows :: "nat \<Rightarrow> tree_row list \<Rightarrow> nat list \<Rightarrow> string \<Rightarrow> nat \<Rightarrow> nat \<Rightarrow> string" where
  "render_rows 0 rows shown pre depth i = []"
| "render_rows (Suc k) rows shown pre depth i =
     concat (map (\<lambda>r. node_line rows shown pre depth r @ render_rows k rows shown pre (depth + 1) (tr_node r))
       (filter (\<lambda>r. tr_node r \<in> set shown) (view_children rows i)))"

text \<open>Whether a shown row has hidden children.\<close>

fun render_cut :: "nat \<Rightarrow> tree_row list \<Rightarrow> nat list \<Rightarrow> nat \<Rightarrow> bool" where
  "render_cut 0 rows shown i = False"
| "render_cut (Suc k) rows shown i =
     list_ex (\<lambda>r. (let kids = view_children rows (tr_node r) in kids \<noteq> [] \<and> tr_node (hd kids) \<notin> set shown) \<or> render_cut k rows shown (tr_node r))
       (filter (\<lambda>r. tr_node r \<in> set shown) (view_children rows i))"

definition render_tree :: "tree_row list \<Rightarrow> nat \<Rightarrow> string \<Rightarrow> nat \<Rightarrow> string \<times> bool" where
  "render_tree rows node pre budget =
     (let shown = view_shown rows node budget
      in (render_rows (length rows) rows shown pre 0 node, render_cut (length rows) rows shown node))"

subsection \<open>Paths\<close>

text \<open>The titles from below the root down to a row.\<close>

fun row_path :: "nat \<Rightarrow> tree_row list \<Rightarrow> tree_row \<Rightarrow> string list" where
  "row_path 0 rows r = []"
| "row_path (Suc k) rows r =
     (case tr_parent r of
        None \<Rightarrow> []
      | Some i \<Rightarrow>
          (case view_row rows i of Some q \<Rightarrow> row_path k rows q | None \<Rightarrow> []) @ [tn_title (tr_data r)])"

fun row_for_page :: "nat \<Rightarrow> tree_row list \<Rightarrow> int \<Rightarrow> tree_row \<Rightarrow> tree_row" where
  "row_for_page 0 rows p r = r"
| "row_for_page (Suc k) rows p r =
     (case find (\<lambda>c. p \<ge> tn_start (tr_data c) \<and> p \<le> tn_end (tr_data c)) (view_children rows (tr_node r)) of
        None \<Rightarrow> r
      | Some c \<Rightarrow> row_for_page k rows p c)"

definition path_for_page :: "tree_row list \<Rightarrow> int \<Rightarrow> string list" where
  "path_for_page rows p =
     (case view_root rows of None \<Rightarrow> [] | Some r \<Rightarrow> row_path (length rows) rows (row_for_page (length rows) rows p r))"

subsection \<open>The tree of a document\<close>

definition first_line :: "string \<Rightarrow> string" where
  "first_line md =
     (case find (\<lambda>t. t \<noteq> [] \<and> \<not> prefix ''!['' t) (map (\<lambda>l. trim_space (strip_md l)) (split_on (CHR 0x0A) md)) of
        Some t \<Rightarrow> t | None \<Rightarrow> [])"

definition first_non_empty :: "string list \<Rightarrow> string" where
  "first_non_empty vs = (case find (\<lambda>s. trim_space s \<noteq> []) vs of Some s \<Rightarrow> s | None \<Rightarrow> [])"

definition first_page_text :: "parsed_page list \<Rightarrow> string" where
  "first_page_text pages =
     (case find (\<lambda>p. trim_space (pp_markdown p) \<noteq> []) (sort_key pp_no pages) of Some p \<Rightarrow> strip_md (pp_markdown p) | None \<Rightarrow> [])"

text \<open>
  \<^verbatim>\<open>buildTree\<close> and what is stored: the pages in order, their first lines and drafted results (a later page
  of the same number replaces an earlier one), the tree with the sections in it, its rows.
\<close>

definition document_rows ::
  "(string \<Rightarrow> string option) \<Rightarrow> nat \<Rightarrow> nat \<Rightarrow> int \<Rightarrow> pdf_bookmark list \<Rightarrow> parsed_page list \<Rightarrow> doc_section list \<Rightarrow> doc_span list \<Rightarrow> tree_row list"
where
  "document_rows nfd min_tokens words page_count bookmarks pages secs spans =
     (let pages = sort_key pp_no pages;
          n = foldl (\<lambda>n p. max n (pp_no p)) page_count pages;
          titles = map_of (rev (map (\<lambda>p. (pp_no p, first_line (pp_markdown p))) pages));
          results = map_of (rev (map (\<lambda>p. (pp_no p, draft_result (page_groups p min_tokens) words)) pages))
      in tree_rows (build_tree nfd n bookmarks results titles words spans) secs)"

end
