(* ===== verification/TreeFacts.thy ===== *)
theory TreeFacts
  imports DocTree "HOL-Library.Multiset"
begin

text \<open>
  What the tree of a document promises: it is a tree whose levels grow and whose nodes begin in the
  order of the pages, every section is put into one node, and every node becomes one row with a short
  identifier of its own.
\<close>

subsection \<open>The shape\<close>

text \<open>Every node but the root, which is the first, is the child of exactly one node, which comes before it.\<close>

definition child_ok :: "tnode list \<Rightarrow> nat \<Rightarrow> nat \<Rightarrow> bool" where
  "child_ok nodes i c \<longleftrightarrow>
     i < c \<and> c < length nodes \<and> tn_level (nodes ! i) < tn_level (nodes ! c) \<and> tn_start (nodes ! i) \<le> tn_start (nodes ! c)"

definition tree_shape :: "tnode list \<Rightarrow> bool" where
  "tree_shape nodes \<longleftrightarrow>
     nodes \<noteq> [] \<and> mset (concat (map tn_children nodes)) = mset [1..<length nodes]
     \<and> (\<forall>i<length nodes. \<forall>c\<in>set (tn_children (nodes ! i)). child_ok nodes i c)"

definition paged :: "int \<Rightarrow> tnode \<Rightarrow> bool" where
  "paged p n \<longleftrightarrow> 1 \<le> tn_start n \<and> tn_start n \<le> tn_end n \<and> tn_start n \<le> p \<and> tn_sections n = []"

definition growing :: "int \<Rightarrow> tree_state \<Rightarrow> bool" where
  "growing p s \<longleftrightarrow>
     tree_shape (ts_nodes s) \<and> list_all (paged p) (ts_nodes s)
     \<and> ts_stack s \<noteq> [] \<and> last (ts_stack s) = 0 \<and> set (ts_stack s) \<subseteq> {..<length (ts_nodes s)}"

text \<open>A change of a node that keeps what the shape depends on.\<close>

definition keeps :: "(tnode \<Rightarrow> tnode) \<Rightarrow> bool" where
  "keeps f \<longleftrightarrow>
     (\<forall>n. tn_children (f n) = tn_children n \<and> tn_level (f n) = tn_level n \<and> tn_start (f n) = tn_start n)"

lemma children_update:
  "i < length nodes \<Longrightarrow> tn_children n = tn_children (nodes ! i) \<Longrightarrow> map tn_children (nodes[i := n]) = map tn_children nodes"
  by (simp add: map_update list_update_same_conv)

lemma tree_shape_update:
  assumes "tree_shape nodes" "i < length nodes"
    "tn_children n = tn_children (nodes ! i)" "tn_level n = tn_level (nodes ! i)" "tn_start n = tn_start (nodes ! i)"
  shows "tree_shape (nodes[i := n])"
proof -
  have same: "tn_children (nodes[i := n] ! j) = tn_children (nodes ! j)" "tn_level (nodes[i := n] ! j) = tn_level (nodes ! j)"
    "tn_start (nodes[i := n] ! j) = tn_start (nodes ! j)" for j
    using assms(2-5) by (metis nth_list_update_eq nth_list_update_neq)+
  have "tree_shape (nodes[i := n]) = tree_shape nodes"
    unfolding tree_shape_def child_ok_def same length_list_update children_update [OF assms(2,3)] list_update_nonempty
    by (rule refl)
  then show ?thesis using assms(1) by simp
qed

lemma growing_change:
  assumes "growing p s" "i < length (ts_nodes s)" "keeps f" "\<And>n. paged p n \<Longrightarrow> paged p (f n)"
  shows "growing p (change_node i f s)"
proof -
  have "tree_shape ((ts_nodes s)[i := f (ts_nodes s ! i)])"
    using assms(1-3) by (intro tree_shape_update) (simp_all add: growing_def keeps_def)
  moreover have "paged p (f (ts_nodes s ! i))" using assms(1,2,4) by (simp add: growing_def list_all_length)
  then have "list_all (paged p) ((ts_nodes s)[i := f (ts_nodes s ! i)])"
    using assms(1,2) unfolding growing_def list_all_length by (metis length_list_update nth_list_update)
  ultimately show ?thesis using assms(1) by (simp add: growing_def change_node_def)
qed

lemma pop_open_stack:
  "js \<noteq> [] \<Longrightarrow> pop_open nodes l js \<noteq> [] \<and> last (pop_open nodes l js) = last js \<and> set (pop_open nodes l js) \<subseteq> set js"
  by (induction nodes l js rule: pop_open.induct) auto

lemma tree_shape_push:
  assumes "tree_shape nodes" "q < length nodes" "tn_children n = []" "tn_level (nodes ! q) < tn_level n" "tn_start (nodes ! q) \<le> tn_start n"
  shows "tree_shape (nodes[q := (nodes ! q)\<lparr>tn_children := tn_children (nodes ! q) @ [length nodes]\<rparr>] @ [n])"
proof -
  let ?q = "(nodes ! q)\<lparr>tn_children := tn_children (nodes ! q) @ [length nodes]\<rparr>"
  have "mset (concat (map tn_children (nodes[q := ?q]))) = mset (concat (map tn_children nodes)) + {#length nodes#}"
  proof -
    have "map tn_children nodes = map tn_children (take q nodes) @ tn_children (nodes ! q) # map tn_children (drop (Suc q) nodes)"
      by (metis id_take_nth_drop [OF assms(2)] list.simps(9) map_append)
    then show ?thesis using assms(2) by (simp add: upd_conv_take_nth_drop)
  qed
  moreover have "mset [1..<Suc (length nodes)] = mset [1..<length nodes] + {#length nodes#}"
    using assms(1) by (cases nodes) (simp_all add: tree_shape_def)
  ultimately have "mset (concat (map tn_children (nodes[q := ?q] @ [n]))) = mset [1..<length (nodes[q := ?q] @ [n])]"
    using assms(1,3) by (simp add: tree_shape_def)
  moreover have "child_ok (nodes[q := ?q] @ [n]) i c"
    if "i < length (nodes[q := ?q] @ [n])" "c \<in> set (tn_children ((nodes[q := ?q] @ [n]) ! i))" for i c
  proof -
    have same: "tn_level ((nodes[q := ?q] @ [n]) ! j) = tn_level (nodes ! j)" "tn_start ((nodes[q := ?q] @ [n]) ! j) = tn_start (nodes ! j)"
      if "j < length nodes" for j
      using that by (cases "j = q"; simp add: nth_append)+
    have old: "c \<in> set (tn_children (nodes ! i)) \<Longrightarrow> i < length nodes \<Longrightarrow> child_ok nodes i c" using assms(1) by (simp add: tree_shape_def)
    have "i < length nodes \<and> (c \<in> set (tn_children (nodes ! i)) \<or> i = q \<and> c = length nodes)"
      using that assms(3) by (cases "i = q"; cases "i < length nodes") (auto simp: nth_append)
    moreover have "(nodes[q := ?q] @ [n]) ! length nodes = n" by (metis length_list_update nth_append_length)
    ultimately show ?thesis
      using old assms(2,4,5) same by (auto simp: child_ok_def)
  qed
  ultimately show ?thesis unfolding tree_shape_def by simp
qed

lemma growing_push:
  assumes "growing p s" "tn_start n = p" "tn_end n = p" "tn_children n = []" "1 \<le> p" "tn_sections n = []"
  shows "growing p (push_node n s)"
proof -
  let ?stack = "pop_open (ts_nodes s) (tn_level n) (ts_stack s)"
  have stack: "?stack \<noteq> []" "last ?stack = 0" "set ?stack \<subseteq> {..<length (ts_nodes s)}"
    using pop_open_stack [of "ts_stack s" "ts_nodes s" "tn_level n"] assms(1) by (auto simp: growing_def)
  then have q: "hd ?stack < length (ts_nodes s)" by (meson hd_in_set lessThan_iff subsetD)
  have pages: "list_all (paged p) (ts_nodes s)" using assms(1) by (simp add: growing_def)
  then have "tn_start (ts_nodes s ! hd ?stack) \<le> p" using q by (simp add: list_all_length paged_def)
  moreover have "tree_shape (ts_nodes s)" using assms(1) by (simp add: growing_def)
  ultimately have "tree_shape (ts_nodes (push_node n s))"
    unfolding push_node_def Let_def using q assms(2,4) by (auto intro!: tree_shape_push)
  moreover have "list_all (paged p) (ts_nodes (push_node n s))"
    unfolding push_node_def Let_def using pages q assms(2,3,5,6)
    by (auto simp: list_all_length nth_list_update nth_append less_Suc_eq paged_def)
  ultimately show ?thesis
    using stack by (auto simp: growing_def push_node_def Let_def)
qed

subsection \<open>The whole tree\<close>

text \<open>Every step of a page keeps the shape, and the nodes only get more.\<close>

definition grows :: "int \<Rightarrow> (tree_state \<Rightarrow> tree_state) \<Rightarrow> bool" where
  "grows p f \<longleftrightarrow> (\<forall>s. growing p s \<longrightarrow> growing p (f s) \<and> length (ts_nodes s) \<le> length (ts_nodes (f s)))"

lemma grows_comp: "grows p f \<Longrightarrow> grows p g \<Longrightarrow> grows p (\<lambda>s. g (f s))"
  unfolding grows_def by (meson le_trans)

lemma growing_changes:
  "growing p s \<Longrightarrow> set is \<subseteq> {..<length (ts_nodes s)} \<Longrightarrow> keeps f \<Longrightarrow> (\<And>n. paged p n \<Longrightarrow> paged p (f n)) \<Longrightarrow>
     growing p (foldl (\<lambda>s i. change_node i f s) s is)
     \<and> length (ts_nodes (foldl (\<lambda>s i. change_node i f s) s is)) = length (ts_nodes s)"
proof (induction "is" arbitrary: s)
  case (Cons i "is")
  have "growing p (change_node i f s)" using Cons.prems by (intro growing_change) auto
  then show ?case using Cons.IH [of "change_node i f s"] Cons.prems by (simp add: change_node_def)
qed simp

lemma reach_page_grows: "grows p (reach_page p)"
proof -
  have "growing p (reach_page p s) \<and> length (ts_nodes (reach_page p s)) = length (ts_nodes s)" if g: "growing p s" for s
    unfolding reach_page_def
  proof (rule growing_changes [OF g])
    show "set (butlast (ts_stack s)) \<subseteq> {..<length (ts_nodes s)}"
      using g by (auto simp: growing_def dest!: in_set_butlastD)
  qed (simp_all add: keeps_def paged_def)
  then show ?thesis by (simp add: grows_def)
qed

lemma push_node_length [simp]: "length (ts_nodes (push_node n s)) = Suc (length (ts_nodes s))"
  by (simp add: push_node_def Let_def)

lemma push_new_grows: "1 \<le> p \<Longrightarrow> grows p (push_node (new_node t og l p sm tok dt))"
  unfolding grows_def by (auto intro!: growing_push simp: new_node_def)

lemma add_content_growing:
  "growing p s \<Longrightarrow> i < length (ts_nodes s) \<Longrightarrow> growing p (add_content w sm tok i s)"
  unfolding add_content_def by (rule growing_change) (simp_all add: keeps_def paged_def)

lemma add_content_length [simp]: "length (ts_nodes (add_content w sm tok i s)) = length (ts_nodes s)"
  by (simp add: add_content_def change_node_def)

lemma growing_stack_hd: "growing p s \<Longrightarrow> hd (ts_stack s) < length (ts_nodes s)"
  unfolding growing_def by (meson hd_in_set lessThan_iff subsetD)

lemma started_later: "set is \<subseteq> {..<m} \<Longrightarrow> m \<le> n \<Longrightarrow> set is \<subseteq> {..<n::nat}"
  by auto

lemma open_spans_grows: "1 \<le> p \<Longrightarrow> grows p (\<lambda>s. snd (open_spans p ds s))"
proof (induction ds)
  case (Cons d ds)
  have "grows p (\<lambda>s. s\<lparr>ts_stack := [last (ts_stack s)]\<rparr>)"
    unfolding grows_def growing_def by (auto dest: last_in_set)
  from grows_comp [OF grows_comp [OF this push_new_grows [OF Cons.prems]] Cons.IH [OF Cons.prems]]
  show ?case by (cases "ds_start d \<le> p") (simp_all add: grows_def)
qed (simp add: grows_def)

lemma open_bookmarks_growing:
  assumes "1 \<le> p"
  shows "growing p s \<Longrightarrow> set started \<subseteq> {..<length (ts_nodes s)} \<Longrightarrow> open_bookmarks off p bs started s = (bs', st', s') \<Longrightarrow>
     growing p s' \<and> set st' \<subseteq> {..<length (ts_nodes s')}"
proof (induction bs arbitrary: started s)
  case (Cons b bs)
  show ?case
  proof (cases "bk_at b = p")
    case True
    show ?thesis
    proof (rule Cons.IH)
      show "open_bookmarks off p bs (started @ [length (ts_nodes s)])
          (push_node (new_node (bk_title b) ''bookmark'' (bk_depth b + off) p [] 0 []) s) = (bs', st', s')"
        using Cons.prems(3) True by simp
      show "growing p (push_node (new_node (bk_title b) ''bookmark'' (bk_depth b + off) p [] 0 []) s)"
        using push_new_grows [OF assms] Cons.prems(1) by (simp add: grows_def)
    qed (use Cons.prems(2) in auto)
  qed (use Cons.prems in auto)
qed auto

lemma add_lead_grows: "1 \<le> p \<Longrightarrow> grows p (add_lead w titles base p r)"
proof -
  assume p: "1 \<le> p"
  let ?open = "\<lambda>s. if ts_stack s = [0] then push_node (new_node (page_title titles p) ''layout'' (base + 1) p [] 0 []) s else s"
  let ?add = "\<lambda>s. add_content w (pr_lead_summary r) (pr_lead_tokens r) (hd (ts_stack s)) s"
  have opens: "grows p ?open" using push_new_grows [OF p] by (simp add: grows_def)
  have adds: "grows p ?add" by (simp add: grows_def add_content_growing growing_stack_hd)
  have "grows p (\<lambda>s. reach_page p (?add (?open s)))"
    by (rule grows_comp [OF grows_comp [OF opens adds] reach_page_grows])
  moreover have "add_lead w titles base p r = (if pr_lead_tokens r = 0 then (\<lambda>s. s) else (\<lambda>s. reach_page p (?add (?open s))))"
    by (rule ext) (simp add: add_lead_def Let_def)
  ultimately show ?thesis by (simp add: grows_def)
qed

lemma same_title_started: "same_title nfd nodes started t = Some i \<Longrightarrow> i \<in> set started"
  by (auto simp: same_title_def Let_def find_Some_iff)

lemma add_page_node_growing:
  assumes "1 \<le> p" "growing p s" "set started \<subseteq> {..<length (ts_nodes s)}"
  shows "growing p (add_page_node nfd w base p started s pn)
     \<and> length (ts_nodes s) \<le> length (ts_nodes (add_page_node nfd w base p started s pn))"
  using assms push_new_grows [OF assms(1)] add_content_growing [OF assms(2)]
  by (auto simp: add_page_node_def grows_def dest!: same_title_started split: option.split)

lemma add_page_nodes_growing:
  "1 \<le> p \<Longrightarrow> growing p s \<Longrightarrow> set started \<subseteq> {..<length (ts_nodes s)} \<Longrightarrow>
     growing p (foldl (add_page_node nfd w base p started) s pns)"
proof (induction pns arbitrary: s)
  case (Cons pn pns)
  have "growing p (add_page_node nfd w base p started s pn)"
    "length (ts_nodes s) \<le> length (ts_nodes (add_page_node nfd w base p started s pn))"
    using add_page_node_growing Cons.prems by auto
  then have "growing p (foldl (add_page_node nfd w base p started) (add_page_node nfd w base p started s pn) pns)"
    using Cons.prems by (intro Cons.IH started_later [OF Cons.prems(3)])
  then show ?case by simp
qed simp

lemma tree_page_growing:
  assumes "1 \<le> p" "growing p s" shows "growing p (snd (snd (tree_page e (spans, bms, s) p)))"
proof -
  obtain spans' s1 where spans: "open_spans p spans s = (spans', s1)" by force
  have "growing p s1" using open_spans_grows [OF assms(1)] assms(2) spans by (metis grows_def snd_conv)
  moreover obtain bms' started s2 where bms: "open_bookmarks (te_off e) p bms [] s1 = (bms', started, s2)"
    by (metis prod_cases3)
  ultimately have s2: "growing p s2" "set started \<subseteq> {..<length (ts_nodes s2)}"
    using open_bookmarks_growing [OF assms(1) _ _ bms] by simp_all
  have lead: "growing p (add_lead (te_words e) (te_titles e) base p r s2)"
    "set started \<subseteq> {..<length (ts_nodes (add_lead (te_words e) (te_titles e) base p r s2))}" for base r
    using add_lead_grows [OF assms(1)] s2(1) started_later [OF s2(2)] by (simp_all add: grows_def)
  have reach: "growing p x \<Longrightarrow> growing p (reach_page p x)" for x using reach_page_grows by (simp add: grows_def)
  show ?thesis
    unfolding tree_page_def Let_def spans bms prod.case snd_conv
    by (cases "te_results e p") (simp_all add: reach s2(1) add_page_nodes_growing [OF assms(1) lead])
qed

lemma growing_later: "growing p s \<Longrightarrow> p \<le> q \<Longrightarrow> growing q s"
  unfolding growing_def by (auto simp: paged_def list_all_iff)

lemma tree_pages_growing:
  "growing (max (a - 1) 1) s \<Longrightarrow> 1 \<le> a \<Longrightarrow> a \<le> n + 1 \<Longrightarrow> growing (max n 1) (snd (snd (foldl (tree_page e) (spans, bms, s) [a..n])))"
proof (induction "nat (n + 1 - a)" arbitrary: a spans bms s)
  case 0
  then have "max (a - 1) 1 = max n 1" by simp
  with 0 show ?case by simp
next
  case (Suc k)
  then have upto: "[a..n] = a # [a + 1..n]" by (subst upto.simps) simp
  obtain spans' bms' s' where step: "tree_page e (spans, bms, s) a = (spans', bms', s')" by (metis prod_cases3)
  have "growing a s" using Suc.prems by (auto intro: growing_later)
  then have "growing (max (a + 1 - 1) 1) s'"
    using tree_page_growing [OF Suc.prems(2), of s e spans bms] step by (auto intro: growing_later)
  then have "growing (max n 1) (snd (snd (foldl (tree_page e) (spans', bms', s') [a + 1..n])))"
    using Suc.hyps(2) Suc.prems by (intro Suc.hyps(1)) auto
  then show ?case by (simp add: upto step)
qed

lemma build_tree_growing: "\<exists>s. build_tree nfd pc bms rs titles w spans = ts_nodes s \<and> growing (max pc 1) s"
proof -
  let ?n = "max pc 1"
  have "growing 1 \<lparr>ts_nodes = [root_node ?n], ts_stack = [0]\<rparr>"
    by (simp add: growing_def tree_shape_def child_ok_def paged_def root_node_def new_node_def)
  then have "growing (max (1 - 1) 1) \<lparr>ts_nodes = [root_node ?n], ts_stack = [0]\<rparr>" by simp
  from tree_pages_growing [OF this, of ?n] show ?thesis
    by (auto simp: build_tree_def Let_def split_beta)
qed

subsection \<open>The sections\<close>

definition covers :: "tnode \<Rightarrow> int \<Rightarrow> bool" where
  "covers n p \<longleftrightarrow> tn_start n \<le> p \<and> p \<le> tn_end n"

text \<open>The node of a page is the root or has the page, and none of its children has it.\<close>

definition node_of_page :: "tnode list \<Rightarrow> int \<Rightarrow> nat \<Rightarrow> bool" where
  "node_of_page nodes p i \<longleftrightarrow>
     i < length nodes \<and> (i = 0 \<or> covers (nodes ! i) p) \<and> (\<forall>c\<in>set (tn_children (nodes ! i)). \<not> covers (nodes ! c) p)"

definition sections_placed :: "tnode list \<Rightarrow> doc_section list \<Rightarrow> tnode list \<Rightarrow> bool" where
  "sections_placed nodes secs out \<longleftrightarrow>
     mset (concat (map tn_sections out)) = mset [0..<length secs]
     \<and> (\<forall>i<length out. \<forall>k\<in>set (tn_sections (out ! i)). node_of_page nodes (sc_page_from (secs ! k)) i)"

lemma shape_child: "tree_shape nodes \<Longrightarrow> i < length nodes \<Longrightarrow> c \<in> set (tn_children (nodes ! i)) \<Longrightarrow> child_ok nodes i c"
  by (simp add: tree_shape_def)

lemma deepest_node:
  assumes "tree_shape nodes"
  shows "i < length nodes \<Longrightarrow> length nodes - i \<le> k \<Longrightarrow> i = 0 \<or> covers (nodes ! i) p \<Longrightarrow> node_of_page nodes p (deepest k nodes p i)"
proof (induction k arbitrary: i)
  case (Suc k)
  show ?case
  proof (cases "find (\<lambda>c. tn_start (nodes ! c) \<le> p \<and> p \<le> tn_end (nodes ! c)) (tn_children (nodes ! i))")
    case None
    then have "\<forall>c\<in>set (tn_children (nodes ! i)). \<not> covers (nodes ! c) p" by (auto simp: find_None_iff covers_def)
    moreover have "deepest (Suc k) nodes p i = i" by (simp add: None)
    ultimately show ?thesis using Suc.prems by (simp add: node_of_page_def)
  next
    case (Some c)
    then have c: "c \<in> set (tn_children (nodes ! i))" "covers (nodes ! c) p" by (auto simp: find_Some_iff covers_def)
    have "child_ok nodes i c" by (rule shape_child [OF assms Suc.prems(1) c(1)])
    then have "node_of_page nodes p (deepest k nodes p c)"
      using Suc.prems(2) c(2) by (intro Suc.IH) (auto simp: child_ok_def)
    then show ?thesis by (simp add: Some)
  qed
qed simp

lemma children_shape:
  "map tn_children xs = map tn_children ys \<Longrightarrow> i < length ys \<Longrightarrow> tn_children (xs ! i) = tn_children (ys ! i)"
  by (metis length_map nth_map)

lemma deepest_congr:
  assumes "\<And>i. tn_children (xs ! i) = tn_children (ys ! i)" "\<And>i. tn_start (xs ! i) = tn_start (ys ! i)" "\<And>i. tn_end (xs ! i) = tn_end (ys ! i)"
  shows "deepest k xs p i = deepest k ys p i"
  by (induction k arbitrary: i) (simp_all add: assms split: option.split)

text \<open>A change of the sections of a node changes nothing else.\<close>

definition same_tree :: "tnode list \<Rightarrow> tnode list \<Rightarrow> bool" where
  "same_tree xs ys \<longleftrightarrow> length xs = length ys \<and> (\<forall>i. tn_children (xs ! i) = tn_children (ys ! i)
     \<and> tn_start (xs ! i) = tn_start (ys ! i) \<and> tn_end (xs ! i) = tn_end (ys ! i))"

lemma same_tree_sections: "same_tree (xs[i := (xs ! i)\<lparr>tn_sections := ks\<rparr>]) xs"
  by (cases "i < length xs") (auto simp: same_tree_def nth_list_update list_update_beyond)

lemma same_tree_trans: "same_tree xs ys \<Longrightarrow> same_tree ys zs \<Longrightarrow> same_tree xs zs"
  by (simp add: same_tree_def)

lemma mset_update_sections:
  "i < length xs \<Longrightarrow> tn_sections n = tn_sections (xs ! i) @ [k] \<Longrightarrow>
     mset (concat (map tn_sections (xs[i := n]))) = add_mset k (mset (concat (map tn_sections xs)))"
proof -
  assume i: "i < length xs" and n: "tn_sections n = tn_sections (xs ! i) @ [k]"
  have "map tn_sections xs = map tn_sections (take i xs) @ tn_sections (xs ! i) # map tn_sections (drop (Suc i) xs)"
    by (metis id_take_nth_drop [OF i] list.simps(9) map_append)
  then show ?thesis using i n by (simp add: upd_conv_take_nth_drop)
qed

lemma sections_placed_step:
  assumes shape: "tree_shape nodes" and same: "same_tree out nodes" and placed: "sections_placed nodes secs out"
  shows "same_tree (assign_section out (length secs, sec)) nodes
     \<and> sections_placed nodes (secs @ [sec]) (assign_section out (length secs, sec))"
proof -
  let ?i = "deepest (length out) out (sc_page_from sec) 0"
  let ?n = "(out ! ?i)\<lparr>tn_sections := tn_sections (out ! ?i) @ [length secs]\<rparr>"
  have out: "assign_section out (length secs, sec) = out[?i := ?n]" by (simp add: assign_section_def Let_def)
  have "?i = deepest (length nodes) nodes (sc_page_from sec) 0"
    using same deepest_congr [of out nodes] by (simp add: same_tree_def)
  moreover have "nodes \<noteq> []" using shape by (simp add: tree_shape_def)
  ultimately have node: "node_of_page nodes (sc_page_from sec) ?i" using deepest_node [OF shape, of 0] by simp
  then have i: "?i < length out" using same by (simp add: node_of_page_def same_tree_def)
  have tree: "same_tree (out[?i := ?n]) nodes" by (rule same_tree_trans [OF same_tree_sections same])
  have "mset (concat (map tn_sections (out[?i := ?n]))) = mset [0..<length (secs @ [sec])]"
    using placed i by (simp add: mset_update_sections sections_placed_def)
  moreover have "node_of_page nodes (sc_page_from ((secs @ [sec]) ! k)) j"
    if "j < length out" "k \<in> set (tn_sections (out[?i := ?n] ! j))" for j k
  proof (cases "k \<in> set (tn_sections (out ! j))")
    case True
    then have "k \<in># mset (concat (map tn_sections out))" using that(1) by auto
    then have "k \<in># mset [0..<length secs]" using placed by (simp only: sections_placed_def)
    then have "k < length secs" by simp
    then show ?thesis using placed that(1) True by (simp add: sections_placed_def nth_append)
  next
    case False
    then have "j = ?i" "k = length secs" using that i by (cases "j = ?i"; simp)+
    then show ?thesis using node by simp
  qed
  ultimately show ?thesis unfolding out using tree by (simp add: sections_placed_def)
qed

lemma assign_by_page_snoc:
  "assign_by_page nodes (secs @ [sec]) = assign_section (assign_by_page nodes secs) (length secs, sec)"
  by (simp add: assign_by_page_def)

lemma assign_by_page_places:
  assumes "tree_shape nodes" "\<And>i. i < length nodes \<Longrightarrow> tn_sections (nodes ! i) = []"
  shows "same_tree (assign_by_page nodes secs) nodes \<and> sections_placed nodes secs (assign_by_page nodes secs)"
proof (induction secs rule: rev_induct)
  case Nil
  have "concat (map tn_sections nodes) = []" using assms(2) by (auto simp: in_set_conv_nth)
  then show ?case using assms(2) by (simp add: assign_by_page_def sections_placed_def same_tree_def)
next
  case (snoc sec secs)
  then show ?case unfolding assign_by_page_snoc by (intro sections_placed_step [OF assms(1)]) auto
qed

subsection \<open>The rows\<close>

text \<open>The nodes in preorder, as \<^const>\<open>flatten_rows\<close> visits them.\<close>

fun preorder :: "nat \<Rightarrow> tnode list \<Rightarrow> nat \<Rightarrow> nat list" where
  "preorder 0 nodes i = []"
| "preorder (Suc k) nodes i = i # concat (map (preorder k nodes) (tn_children (nodes ! i)))"

text \<open>What follows speaks of the lists of children only.\<close>

definition downward :: "tnode list \<Rightarrow> bool" where
  "downward nodes \<longleftrightarrow> (\<forall>i<length nodes. \<forall>c\<in>set (tn_children (nodes ! i)). i < c \<and> c < length nodes)"

lemma downward_child: "downward nodes \<Longrightarrow> i < length nodes \<Longrightarrow> c \<in> set (tn_children (nodes ! i)) \<Longrightarrow> i < c \<and> c < length nodes"
  unfolding downward_def by blast

lemma shape_downward: "tree_shape nodes \<Longrightarrow> downward nodes"
  unfolding downward_def using shape_child child_ok_def by blast

lemma preorder_fuel:
  "downward nodes \<Longrightarrow> i < length nodes \<Longrightarrow> length nodes - i \<le> k \<Longrightarrow> preorder k nodes i = preorder (length nodes) nodes i"
proof (induction "length nodes - i" arbitrary: i k rule: less_induct)
  case less
  obtain k' where k: "k = Suc k'" using less.prems by (cases k) auto
  obtain l where l: "length nodes = Suc l" using less.prems(2) by (cases "length nodes") auto
  have "preorder k' nodes c = preorder l nodes c" if "c \<in> set (tn_children (nodes ! i))" for c
  proof -
    have c: "i < c" "c < length nodes" using downward_child [OF less.prems(1,2) that] by auto
    then have "preorder k' nodes c = preorder (length nodes) nodes c" "preorder l nodes c = preorder (length nodes) nodes c"
      using less.prems k l by (intro less.hyps; simp)+
    then show ?thesis by simp
  qed
  then show ?case by (simp add: k l cong: map_cong)
qed

abbreviation below :: "tnode list \<Rightarrow> nat \<Rightarrow> nat multiset" where
  "below nodes i \<equiv> mset (preorder (length nodes) nodes i)"

lemma mset_concat_map: "mset (concat (map f xs)) = (\<Sum>x\<leftarrow>xs. mset (f x))"
  by (induction xs) simp_all

lemma below_children:
  assumes "downward nodes" "i < length nodes"
  shows "below nodes i = add_mset i (\<Sum>c\<leftarrow>tn_children (nodes ! i). below nodes c)"
proof -
  obtain l where l: "length nodes = Suc l" using assms(2) by (cases "length nodes") auto
  have "preorder l nodes c = preorder (length nodes) nodes c" if "c \<in> set (tn_children (nodes ! i))" for c
    using downward_child [OF assms that] l by (intro preorder_fuel [OF assms(1)]) auto
  then have "(\<Sum>c\<leftarrow>tn_children (nodes ! i). mset (preorder l nodes c)) = (\<Sum>c\<leftarrow>tn_children (nodes ! i). below nodes c)"
    by (simp cong: map_cong)
  moreover have "below nodes i = add_mset i (\<Sum>c\<leftarrow>tn_children (nodes ! i). mset (preorder l nodes c))"
    by (subst l) (simp add: mset_concat_map)
  ultimately show ?thesis by simp
qed

text \<open>A visited node but the first is visited from its parent.\<close>

lemma sum_list_add_mset: "(\<Sum>x\<leftarrow>xs. add_mset x (f x)) = mset xs + (\<Sum>x\<leftarrow>xs. f x)"
  by (induction xs) simp_all

definition children_of :: "tnode list \<Rightarrow> nat multiset \<Rightarrow> nat multiset" where
  "children_of nodes M = \<Sum>\<^sub># (image_mset (\<lambda>q. mset (tn_children (nodes ! q))) M)"

lemma children_of_simps [simp]:
  "children_of nodes {#} = {#}" "children_of nodes (M + N) = children_of nodes M + children_of nodes N"
  "children_of nodes (add_mset q M) = mset (tn_children (nodes ! q)) + children_of nodes M"
  by (simp_all add: children_of_def)

lemma children_of_sum: "children_of nodes (\<Sum>x\<leftarrow>xs. f x) = (\<Sum>x\<leftarrow>xs. children_of nodes (f x))"
  by (induction xs) simp_all

lemma below_from_parents:
  "downward nodes \<Longrightarrow> i < length nodes \<Longrightarrow> below nodes i = add_mset i (children_of nodes (below nodes i))"
proof (induction "length nodes - i" arbitrary: i rule: less_induct)
  case less
  let ?cs = "tn_children (nodes ! i)"
  have "(\<Sum>c\<leftarrow>?cs. below nodes c) = (\<Sum>c\<leftarrow>?cs. add_mset c (children_of nodes (below nodes c)))"
  proof (rule arg_cong [where f = sum_list], rule map_cong [OF refl])
    fix c assume "c \<in> set ?cs"
    with downward_child [OF less.prems this] show "below nodes c = add_mset c (children_of nodes (below nodes c))"
      using less.prems by (intro less.hyps) auto
  qed
  also have "\<dots> = mset ?cs + (\<Sum>c\<leftarrow>?cs. children_of nodes (below nodes c))"
    by (rule sum_list_add_mset)
  finally have "(\<Sum>c\<leftarrow>?cs. below nodes c) = mset ?cs + children_of nodes (\<Sum>c\<leftarrow>?cs. below nodes c)"
    unfolding children_of_sum .
  then show ?case by (metis below_children [OF less.prems] children_of_simps(3))
qed

text \<open>What is closed in this way is determined, because a child comes after its parent.\<close>

lemma filter_children_of:
  assumes "downward nodes" "set_mset M \<subseteq> {..<length nodes}"
  shows "filter_mset (\<lambda>x. x < Suc j) (children_of nodes M)
     = filter_mset (\<lambda>x. x < Suc j) (children_of nodes (filter_mset (\<lambda>x. x < j) M))"
  using assms(2)
proof (induction M)
  case (add q M)
  have q: "q < length nodes" "set_mset M \<subseteq> {..<length nodes}" using add.prems by simp_all
  have "\<forall>c\<in>set (tn_children (nodes ! q)). q < c" using downward_child [OF assms(1) q(1)] by blast
  then have none: "filter_mset (\<lambda>x. x < Suc j) (mset (tn_children (nodes ! q))) = {#}" if "\<not> q < j"
    using that by auto
  have "filter_mset (\<lambda>x. x < Suc j) (children_of nodes (add_mset q M))
      = filter_mset (\<lambda>x. x < Suc j) (mset (tn_children (nodes ! q)))
        + filter_mset (\<lambda>x. x < Suc j) (children_of nodes (filter_mset (\<lambda>x. x < j) M))"
    by (simp only: children_of_simps filter_union_mset add.IH [OF q(2)])
  then show ?case
  proof (cases "q < j")
    case False
    have "filter_mset (\<lambda>x. x < Suc j) (children_of nodes (add_mset q M))
        = filter_mset (\<lambda>x. x < Suc j) (children_of nodes (filter_mset (\<lambda>x. x < j) M))"
      by (simp only: children_of_simps filter_union_mset add.IH [OF q(2)] none [OF False] add_0)
    with False show ?thesis by (simp only: filter_mset_add_mset if_False)
  qed (simp only: filter_mset_add_mset children_of_simps filter_union_mset if_True)
qed simp

lemma closed_unique:
  assumes "downward nodes" "set_mset M \<subseteq> {..<length nodes}" "set_mset N \<subseteq> {..<length nodes}"
    "M = add_mset 0 (children_of nodes M)" "N = add_mset 0 (children_of nodes N)"
  shows "M = N"
proof -
  have "filter_mset (\<lambda>x. x < j) M = filter_mset (\<lambda>x. x < j) N" for j
  proof (induction j)
    case (Suc j)
    have "filter_mset (\<lambda>x. x < Suc j) X = add_mset 0 (filter_mset (\<lambda>x. x < Suc j) (children_of nodes (filter_mset (\<lambda>x. x < j) X)))"
      if "X = add_mset 0 (children_of nodes X)" "set_mset X \<subseteq> {..<length nodes}" for X
    proof -
      have "filter_mset (\<lambda>x. x < Suc j) X = filter_mset (\<lambda>x. x < Suc j) (add_mset 0 (children_of nodes X))"
        by (rule arg_cong [OF that(1)])
      also have "\<dots> = add_mset 0 (filter_mset (\<lambda>x. x < Suc j) (children_of nodes X))" by simp
      finally show ?thesis by (simp only: filter_children_of [OF assms(1) that(2), of j])
    qed
    from this [OF assms(4,2)] this [OF assms(5,3)] show ?case by (simp only: Suc.IH)
  qed simp
  then have "filter_mset (\<lambda>x. x < length nodes) M = filter_mset (\<lambda>x. x < length nodes) N" .
  moreover have "filter_mset (\<lambda>x. x < length nodes) X = X" if "set_mset X \<subseteq> {..<length nodes}" for X
    using that by (subst filter_mset_eq_conv) auto
  ultimately show ?thesis using assms(2,3) by simp
qed

lemma preorder_bounded: "downward nodes \<Longrightarrow> i < length nodes \<Longrightarrow> set (preorder k nodes i) \<subseteq> {..<length nodes}"
proof (induction k arbitrary: i)
  case (Suc k)
  have "set (preorder k nodes c) \<subseteq> {..<length nodes}" if "c \<in> set (tn_children (nodes ! i))" for c
    using downward_child [OF Suc.prems that] Suc.IH Suc.prems(1) by blast
  then show ?case using Suc.prems by auto
qed simp

lemma children_of_mset: "children_of nodes (mset is) = mset (concat (map (\<lambda>i. tn_children (nodes ! i)) is))"
  by (induction "is") simp_all

lemma children_of_all: "children_of nodes (mset [0..<length nodes]) = mset (concat (map tn_children nodes))"
proof -
  have all: "map (\<lambda>i. tn_children (nodes ! i)) [0..<length nodes] = map tn_children nodes"
    by (rule nth_equalityI) simp_all
  show ?thesis unfolding children_of_mset all by (rule refl)
qed

definition tree_children :: "tnode list \<Rightarrow> bool" where
  "tree_children nodes \<longleftrightarrow> downward nodes \<and> nodes \<noteq> [] \<and> mset (concat (map tn_children nodes)) = mset [1..<length nodes]"

lemma below_root:
  assumes "tree_children nodes" shows "below nodes 0 = mset [0..<length nodes]"
proof (rule closed_unique)
  show down: "downward nodes" using assms by (simp add: tree_children_def)
  have root: "0 < length nodes" using assms by (simp add: tree_children_def)
  show "set_mset (below nodes 0) \<subseteq> {..<length nodes}" using preorder_bounded [OF down root] by simp
  show "set_mset (mset [0..<length nodes]) \<subseteq> {..<length nodes}" by auto
  show "below nodes 0 = add_mset 0 (children_of nodes (below nodes 0))" by (rule below_from_parents [OF down root])
  have "[0..<length nodes] = 0 # [1..<length nodes]" using root by (simp add: upt_conv_Cons)
  then show "mset [0..<length nodes] = add_mset 0 (children_of nodes (mset [0..<length nodes]))"
    unfolding children_of_all using assms by (simp add: tree_children_def)
qed

text \<open>Breadth-first search lists what is below its queue.\<close>

lemma breadth_first_below:
  assumes "downward nodes"
  shows "set is \<subseteq> {..<length nodes} \<Longrightarrow> size (\<Sum>i\<leftarrow>is. below nodes i) \<le> k \<Longrightarrow>
     mset (breadth_first k nodes is) = (\<Sum>i\<leftarrow>is. below nodes i)"
proof (induction k arbitrary: "is")
  case 0
  then show ?case by (cases "is") (auto simp: below_children [OF assms])
next
  case (Suc k)
  show ?case
  proof (cases "is")
    case (Cons i js)
    have i: "i < length nodes" and js: "set js \<subseteq> {..<length nodes}" using Suc.prems(1) Cons by auto
    let ?q = "js @ tn_children (nodes ! i)"
    have split: "(\<Sum>i\<leftarrow>is. below nodes i) = add_mset i (\<Sum>i\<leftarrow>?q. below nodes i)"
      using below_children [OF assms i] by (simp add: Cons)
    have "set ?q \<subseteq> {..<length nodes}" using js downward_child [OF assms i] by auto
    moreover have "size (\<Sum>i\<leftarrow>?q. below nodes i) \<le> k" using Suc.prems(2) unfolding split by simp
    ultimately have "mset (breadth_first k nodes ?q) = (\<Sum>i\<leftarrow>?q. below nodes i)" by (rule Suc.IH)
    then show ?thesis unfolding split unfolding Cons by (simp del: map_append)
  qed simp
qed

lemma breadth_first_all:
  assumes "tree_children nodes"
  shows "mset (breadth_first (length nodes) nodes [0]) = mset [0..<length nodes]"
proof -
  have "downward nodes" "0 < length nodes" using assms by (auto simp: tree_children_def)
  then show ?thesis using breadth_first_below [of nodes "[0]" "length nodes"] below_root [OF assms] by simp
qed

lemma nat_string_inj: "nat_string m = nat_string n \<longleftrightarrow> m = n"
  by (metis digits_value_nat_string)

lemma short_id_inj:
  assumes "tree_children nodes" "i < length nodes" "j < length nodes" "short_id nodes i = short_id nodes j"
  shows "i = j"
proof -
  have "set (breadth_first (length nodes) nodes [0]) = {0..<length nodes}"
    using breadth_first_all [OF assms(1)] by (metis set_mset_mset set_upt)
  moreover have "length (takeWhile (\<lambda>x. x \<noteq> i) (breadth_first (length nodes) nodes [0]))
      = length (takeWhile (\<lambda>x. x \<noteq> j) (breadth_first (length nodes) nodes [0]))"
    using assms(4) by (simp add: short_id_def nat_string_inj)
  ultimately show ?thesis using assms(2,3) place_inj [of i "breadth_first (length nodes) nodes [0]" j] by simp
qed

text \<open>Assigning and finishing keep the children.\<close>

lemma children_list_update:
  "tn_children n = tn_children (nodes ! i) \<Longrightarrow> map tn_children (nodes[i := n]) = map tn_children nodes"
  by (cases "i < length nodes") (simp_all add: children_update list_update_beyond)

lemma fix_node_children: "map tn_children (fix_node k i nodes) = map tn_children nodes"
proof (induction k arbitrary: i nodes)
  case (Suc k)
  let ?step = "\<lambda>nodes c. (let nodes = fix_node k c nodes
     in nodes[i := (nodes ! i)\<lparr>tn_tokens := tn_tokens (nodes ! i) + tn_tokens (nodes ! c)\<rparr>])"
  have "map tn_children (foldl ?step nodes cs) = map tn_children nodes" for cs
    by (induction cs arbitrary: nodes) (simp_all add: Let_def children_list_update Suc.IH)
  then show ?case by (simp add: Let_def children_list_update finish_node_def)
qed simp

lemma tree_children_congr:
  assumes "map tn_children xs = map tn_children ys" "tree_children ys" shows "tree_children xs"
proof -
  have len: "length xs = length ys" using assms(1) by (metis length_map)
  have "downward xs"
  proof -
    have "i < c \<and> c < length xs" if "i < length xs" "c \<in> set (tn_children (xs ! i))" for i c
    proof -
      have "i < length ys" "c \<in> set (tn_children (ys ! i))" using that children_shape [OF assms(1)] len by simp_all
      then show ?thesis using assms(2) downward_child len by (metis tree_children_def)
    qed
    then show ?thesis unfolding downward_def by blast
  qed
  moreover have "xs \<noteq> []" using assms len by (auto simp: tree_children_def)
  ultimately show ?thesis using assms len by (simp add: tree_children_def)
qed

text \<open>A row names the row above it, and its place among the rows below that one.\<close>

definition row_linked :: "tnode list \<Rightarrow> tree_row \<Rightarrow> bool" where
  "row_linked nodes r \<longleftrightarrow>
     (case tr_parent r of
        None \<Rightarrow> tr_node r = 0 \<and> tr_level r = 0
      | Some i \<Rightarrow> i < length nodes \<and> tr_ord r < length (tn_children (nodes ! i)) \<and> tn_children (nodes ! i) ! tr_ord r = tr_node r)"

lemma flatten_rows_nodes: "map tr_node (flatten_rows k nodes parent level (ord, i)) = preorder k nodes i"
proof (induction k arbitrary: parent level ord i)
  case (Suc k)
  have "map tr_node (concat (map (flatten_rows k nodes (Some i) (level + 1)) (zip [0..<length cs] cs))) = concat (map (preorder k nodes) cs)"
    for cs
  proof -
    have "map tr_node (flatten_rows k nodes (Some i) (level + 1) x) = preorder k nodes (snd x)" for x
      by (metis Suc.IH prod.collapse)
    then have "map tr_node \<circ> flatten_rows k nodes (Some i) (level + 1) = preorder k nodes \<circ> snd"
      by (simp add: fun_eq_iff)
    then have "map tr_node (concat (map (flatten_rows k nodes (Some i) (level + 1)) (zip [0..<length cs] cs)))
        = concat (map (preorder k nodes) (map snd (zip [0..<length cs] cs)))"
      by (simp only: map_concat map_map)
    then show ?thesis by simp
  qed
  then show ?case by simp
qed simp

lemma flatten_rows_short: "r \<in> set (flatten_rows k nodes parent level x) \<Longrightarrow> tr_short r = short_id nodes (tr_node r)"
proof (induction k arbitrary: parent level x)
  case (Suc k)
  then show ?case by (cases x) auto
qed simp

lemma row_linked_simp [simp]:
  "row_linked nodes \<lparr>tr_node = i, tr_parent = parent, tr_short = sh, tr_ord = ord, tr_level = level, tr_data = d\<rparr> \<longleftrightarrow>
     (case parent of None \<Rightarrow> i = 0 \<and> level = 0
      | Some q \<Rightarrow> q < length nodes \<and> ord < length (tn_children (nodes ! q)) \<and> tn_children (nodes ! q) ! ord = i)"
  by (cases parent) (simp_all add: row_linked_def)

lemma flatten_rows_linked:
  assumes "downward nodes"
  shows "i < length nodes \<Longrightarrow> (case parent of None \<Rightarrow> i = 0 \<and> level = 0
       | Some q \<Rightarrow> q < length nodes \<and> ord < length (tn_children (nodes ! q)) \<and> tn_children (nodes ! q) ! ord = i) \<Longrightarrow>
     list_all (row_linked nodes) (flatten_rows k nodes parent level (ord, i))"
proof (induction k arbitrary: parent level ord i)
  case (Suc k)
  have "list_all (row_linked nodes) (flatten_rows k nodes (Some i) (level + 1) (n, tn_children (nodes ! i) ! n))"
    if "n < length (tn_children (nodes ! i))" for n
    using that Suc.prems(1) downward_child [OF assms Suc.prems(1)] by (intro Suc.IH) simp_all
  then have "list_all (row_linked nodes) (concat (map (flatten_rows k nodes (Some i) (level + 1))
      (zip [0..<length (tn_children (nodes ! i))] (tn_children (nodes ! i)))))"
    by (auto simp: list_all_iff set_zip)
  then show ?case using Suc.prems(2) by simp
qed simp

text \<open>The rows of a tree: one for every node, a short identifier each, and the links of the tree.\<close>

definition rows_ok :: "tnode list \<Rightarrow> tree_row list \<Rightarrow> bool" where
  "rows_ok nodes rows \<longleftrightarrow>
     mset (map tr_node rows) = mset [0..<length nodes] \<and> distinct (map tr_short rows) \<and> list_all (row_linked nodes) rows"

lemma flatten_rows_ok:
  assumes "tree_children nodes" shows "rows_ok nodes (flatten_rows (length nodes) nodes None 0 (0, 0))"
proof -
  let ?rows = "flatten_rows (length nodes) nodes None 0 (0, 0)"
  have down: "downward nodes" and root: "0 < length nodes" using assms by (simp_all add: tree_children_def)
  have nodes: "mset (map tr_node ?rows) = mset [0..<length nodes]"
    unfolding flatten_rows_nodes by (rule below_root [OF assms])
  then have "set (map tr_node ?rows) = {..<length nodes}" by (metis set_mset_mset set_upt atLeast0LessThan)
  moreover have "distinct (map tr_node ?rows)" using nodes by (metis mset_eq_imp_distinct_iff distinct_upt)
  moreover have "map tr_short ?rows = map (short_id nodes) (map tr_node ?rows)"
    by (auto dest: flatten_rows_short)
  moreover have "inj_on (short_id nodes) {..<length nodes}"
    using short_id_inj [OF assms] by (auto intro!: inj_onI)
  ultimately have "distinct (map tr_short ?rows)" by (simp add: distinct_map del: map_map)
  moreover have "list_all (row_linked nodes) ?rows" by (rule flatten_rows_linked [OF down root]) simp
  ultimately show ?thesis using nodes by (simp add: rows_ok_def)
qed

lemma row_linked_congr:
  assumes "map tn_children xs = map tn_children ys" "row_linked xs r" shows "row_linked ys r"
proof -
  have len: "length xs = length ys" using assms(1) by (metis length_map)
  show ?thesis using assms(2) children_shape [OF assms(1)] len
    by (cases "tr_parent r") (auto simp: row_linked_def)
qed

lemma assign_by_page_children: "map tn_children (assign_by_page nodes secs) = map tn_children nodes"
  by (induction secs rule: rev_induct)
    (simp_all add: assign_by_page_snoc assign_section_def Let_def children_list_update, simp add: assign_by_page_def)

lemma shape_tree_children: "tree_shape nodes \<Longrightarrow> tree_children nodes"
  by (simp add: tree_children_def shape_downward) (simp add: tree_shape_def)

lemma tree_rows_ok: assumes "tree_shape nodes" shows "rows_ok nodes (tree_rows nodes secs)"
proof -
  let ?fixed = "fix_node (length nodes) 0 (assign_by_page nodes secs)"
  have same: "map tn_children ?fixed = map tn_children nodes"
    by (simp add: fix_node_children assign_by_page_children)
  then have len: "length ?fixed = length nodes" by (metis length_map)
  have "rows_ok ?fixed (tree_rows nodes secs)"
    using flatten_rows_ok [OF tree_children_congr [OF same shape_tree_children [OF assms]]]
    by (simp add: tree_rows_def len)
  then show ?thesis
    using row_linked_congr [OF same] unfolding rows_ok_def len by (auto simp: list_all_iff)
qed

subsection \<open>Properties\<close>


text \<open>
  C7: Every section of the document goes to exactly one node. The node has the page of the section, or
  is the root when no child of the root has the page, and no child of the node has it.
\<close>

theorem sections_in_deepest_node:
  "sections_placed (build_tree nfd page_count bookmarks results titles words spans) secs
     (assign_by_page (build_tree nfd page_count bookmarks results titles words spans) secs)"
proof -
  obtain s where s: "build_tree nfd page_count bookmarks results titles words spans = ts_nodes s" "growing (max page_count 1) s"
    using build_tree_growing by blast
  then have "tree_shape (ts_nodes s)" "list_all (paged (max page_count 1)) (ts_nodes s)" by (simp_all add: growing_def)
  then show ?thesis unfolding s(1) using assign_by_page_places by (simp add: list_all_length paged_def)
qed

text \<open>
  C6: The stored rows are the nodes of the tree, each exactly once, with pairwise different short
  identifiers; every row but that of the root names its parent and its place among the children.
\<close>

theorem rows_of_tree:
  "rows_ok (build_tree nfd page_count bookmarks results titles words spans)
     (tree_rows (build_tree nfd page_count bookmarks results titles words spans) secs)"
proof -
  obtain s where "build_tree nfd page_count bookmarks results titles words spans = ts_nodes s" "growing (max page_count 1) s"
    using build_tree_growing by blast
  then show ?thesis by (auto simp: growing_def intro: tree_rows_ok)
qed

text \<open>
  A node may end before its child begins. Page 1 has the heading A; page 2 has B one level below
  it and then C at the level of A. C closes A before the open nodes reach page 2, so A ends on page 1
  while its child B begins on page 2, and a section of page 2 goes to C and never to B.
\<close>

definition late_results :: "int \<rightharpoonup> page_result" where
  "late_results = [1 \<mapsto> \<lparr>pr_lead_tokens = 0, pr_lead_summary = [], pr_nodes = [\<lparr>pn_title = ''A'', pn_level = 1, pn_summary = [], pn_tokens = 1\<rparr>]\<rparr>,
     2 \<mapsto> \<lparr>pr_lead_tokens = 0, pr_lead_summary = [], pr_nodes = [\<lparr>pn_title = ''B'', pn_level = 2, pn_summary = [], pn_tokens = 1\<rparr>,
       \<lparr>pn_title = ''C'', pn_level = 1, pn_summary = [], pn_tokens = 1\<rparr>]\<rparr>]"

theorem child_outside_parent:
  "(let nodes = build_tree Some 2 [] late_results Map.empty 10 [] in
      map tn_title nodes = [[], ''A'', ''B'', ''C''] \<and> tn_children (nodes ! 1) = [2]
      \<and> tn_end (nodes ! 1) = 1 \<and> tn_start (nodes ! 2) = 2 \<and> deepest (length nodes) nodes 2 0 = 3)"
  by (simp add: build_tree_def Let_def upto.simps flatten_bookmarks_def root_node_def new_node_def tree_page_def base_level_def
      late_results_def add_lead_def add_page_node_def same_title_def push_node_def reach_page_def change_node_def eval_nat_numeral)

end
