(* ===== verification/ViewFacts.thy ===== *)
theory ViewFacts
  imports TreeView TreeFacts
begin

text \<open>
  What the stored tree of a document gives back: the children of a row are those of its node, the row
  found for a page is the node that holds the sections of the page, and a view shows whole levels within
  its budget.
\<close>

subsection \<open>Rows and nodes\<close>

lemma distinct_concat_index:
  "distinct (concat xss) \<Longrightarrow> i < length xss \<Longrightarrow> j < length xss \<Longrightarrow> x \<in> set (xss ! i) \<Longrightarrow> x \<in> set (xss ! j) \<Longrightarrow> i = j"
proof (induction xss arbitrary: i j)
  case (Cons xs xss)
  have "x \<in> set xs \<Longrightarrow> x \<in> set (xss ! k) \<Longrightarrow> k < length xss \<Longrightarrow> False" for k
    using Cons.prems(1) by (auto dest!: nth_mem)
  then show ?case using Cons by (cases i; cases j) auto
qed simp

text \<open>Rows that carry the nodes of a tree.\<close>

definition rows_of_nodes :: "tnode list \<Rightarrow> tree_row list \<Rightarrow> bool" where
  "rows_of_nodes nodes rows \<longleftrightarrow>
     tree_children nodes \<and> rows_ok nodes rows \<and> list_all (\<lambda>r. tr_data r = nodes ! tr_node r) rows"

lemma rows_of_nodesD:
  assumes "rows_of_nodes nodes rows"
  shows "distinct (map tr_node rows)" "set (map tr_node rows) = {..<length nodes}" "length rows = length nodes"
    "r \<in> set rows \<Longrightarrow> row_linked nodes r" "r \<in> set rows \<Longrightarrow> tr_data r = nodes ! tr_node r" "r \<in> set rows \<Longrightarrow> tr_node r < length nodes"
proof -
  have nodes: "mset (map tr_node rows) = mset [0..<length nodes]" using assms by (simp add: rows_of_nodes_def rows_ok_def)
  then show "distinct (map tr_node rows)" by (metis mset_eq_imp_distinct_iff distinct_upt)
  show set: "set (map tr_node rows) = {..<length nodes}" using nodes by (metis set_mset_mset set_upt atLeast0LessThan)
  show "length rows = length nodes" using nodes by (metis length_map length_upt mset_eq_length minus_nat.diff_0)
  show "r \<in> set rows \<Longrightarrow> row_linked nodes r" "r \<in> set rows \<Longrightarrow> tr_data r = nodes ! tr_node r"
    using assms by (simp_all add: rows_of_nodes_def rows_ok_def list_all_iff)
  show "r \<in> set rows \<Longrightarrow> tr_node r < length nodes" using set by auto
qed

text \<open>A row is below its parent's row at its place.\<close>

lemma row_parent:
  assumes "rows_of_nodes nodes rows" "r \<in> set rows" "i < length nodes" "j < length (tn_children (nodes ! i))"
  shows "tr_parent r = Some i \<and> tr_ord r = j \<longleftrightarrow> tr_node r = tn_children (nodes ! i) ! j"
proof
  have linked: "row_linked nodes r" by (rule rows_of_nodesD(4) [OF assms(1,2)])
  then show "tr_parent r = Some i \<and> tr_ord r = j \<Longrightarrow> tr_node r = tn_children (nodes ! i) ! j"
    by (simp add: row_linked_def)
  assume node: "tr_node r = tn_children (nodes ! i) ! j"
  have tree: "tree_children nodes" using assms(1) by (simp add: rows_of_nodes_def)
  then have once: "distinct (concat (map tn_children nodes))"
    by (metis mset_eq_imp_distinct_iff distinct_upt tree_children_def)
  have child: "tr_node r \<in> set (tn_children (nodes ! i))" using node assms(4) by simp
  then have "0 < tr_node r" using downward_child [of nodes i] tree assms(3) by (fastforce simp: tree_children_def)
  then obtain q where q: "tr_parent r = Some q" "q < length nodes" "tr_ord r < length (tn_children (nodes ! q))"
    "tn_children (nodes ! q) ! tr_ord r = tr_node r"
    using linked by (auto simp: row_linked_def split: option.splits)
  then have "tr_node r \<in> set (tn_children (nodes ! q))" by (metis nth_mem)
  then have "q = i" using distinct_concat_index [OF once, of q i "tr_node r"] child q(2) assms(3) by simp
  moreover have "distinct (tn_children (nodes ! i))" using once assms(3) by (auto simp: distinct_concat_iff)
  ultimately show "tr_parent r = Some i \<and> tr_ord r = j"
    using q node assms(4) by (metis nth_eq_iff_index_eq)
qed

lemma view_children_nodes:
  assumes "rows_of_nodes nodes rows" "i < length nodes"
  shows "map tr_node (view_children rows i) = tn_children (nodes ! i)"
proof -
  let ?cs = "tn_children (nodes ! i)" and ?L = "view_children rows i"
  note rows = rows_of_nodesD [OF assms(1)]
  have L: "r \<in> set ?L \<longleftrightarrow> r \<in> set rows \<and> tr_parent r = Some i" for r by (simp add: view_children_def)
  have ord: "tr_ord r < length ?cs \<and> tr_node r = ?cs ! tr_ord r" if "r \<in> set ?L" for r
    using rows(4) [of r] that by (simp add: L row_linked_def)
  have "\<exists>r\<in>set ?L. tr_ord r = j" if j: "j < length ?cs" for j
  proof -
    have "?cs ! j < length nodes"
      using assms j downward_child [of nodes i "?cs ! j"] by (simp add: rows_of_nodes_def tree_children_def)
    then have "?cs ! j \<in> set (map tr_node rows)" unfolding rows(2) by simp
    then obtain r where "r \<in> set rows" "tr_node r = ?cs ! j" by auto
    then have "tr_parent r = Some i \<and> tr_ord r = j" using row_parent [OF assms(1) _ assms(2) j] by blast
    then show ?thesis using \<open>r \<in> set rows\<close> L by blast
  qed
  then have "{0..<length ?cs} \<subseteq> tr_ord ` set ?L" by (force simp: image_iff)
  moreover have "tr_ord ` set ?L \<subseteq> {0..<length ?cs}" using ord by auto
  ultimately have ords: "set (map tr_ord ?L) = {0..<length ?cs}" by (simp only: set_map subset_antisym)
  have inj: "inj_on tr_node (set rows)" using rows(1) by (simp add: distinct_map)
  have distinct_ord: "distinct (map tr_ord ?L)"
    unfolding distinct_map
  proof
    have "distinct rows" using rows(1) by (simp add: distinct_map)
    then show "distinct ?L" by (simp add: view_children_def)
    show "inj_on tr_ord (set ?L)"
    proof (rule inj_onI)
      fix r s assume "r \<in> set ?L" "s \<in> set ?L" "tr_ord r = tr_ord s"
      then show "r = s" using ord [of r] ord [of s] inj by (simp add: L inj_on_def)
    qed
  qed
  have sorted_ord: "sorted (map tr_ord ?L)" by (simp add: view_children_def)
  have ord_all: "map tr_ord ?L = [0..<length ?cs]"
    by (rule sorted_distinct_set_unique [OF sorted_ord distinct_ord sorted_upt distinct_upt]) (simp only: ords set_upt)
  have "map tr_node ?L = map ((!) ?cs) (map tr_ord ?L)" using ord by simp
  also have "\<dots> = ?cs" unfolding ord_all by (rule map_nth)
  finally show ?thesis .
qed

subsection \<open>The row of a page\<close>

lemma find_map_node: "find P (map f xs) = map_option f (find (P \<circ> f) xs)"
  by (induction xs) auto

lemma row_for_page_node:
  assumes "rows_of_nodes nodes rows"
  shows "r \<in> set rows \<Longrightarrow> row_for_page k rows p r \<in> set rows \<and> tr_node (row_for_page k rows p r) = deepest k nodes p (tr_node r)"
proof (induction k arbitrary: r)
  case (Suc k)
  let ?on = "\<lambda>c. tn_start (tr_data c) \<le> p \<and> p \<le> tn_end (tr_data c)"
  let ?at = "\<lambda>c. tn_start (nodes ! c) \<le> p \<and> p \<le> tn_end (nodes ! c)"
  have kids: "set (view_children rows (tr_node r)) \<subseteq> set rows" by (auto simp: view_children_def)
  have node: "tr_node r < length nodes" by (rule rows_of_nodesD(6) [OF assms Suc.prems])
  have "find ?at (tn_children (nodes ! tr_node r)) = map_option tr_node (find (?at \<circ> tr_node) (view_children rows (tr_node r)))"
    by (metis view_children_nodes [OF assms node] find_map_node)
  moreover have "find (?at \<circ> tr_node) (view_children rows (tr_node r)) = find ?on (view_children rows (tr_node r))"
  proof (rule find_cong [OF refl])
    fix c assume "c \<in> set (view_children rows (tr_node r))"
    then show "(?at \<circ> tr_node) c = ?on c" using kids rows_of_nodesD(5) [OF assms, of c] by auto
  qed
  ultimately have found: "find ?at (tn_children (nodes ! tr_node r)) = map_option tr_node (find ?on (view_children rows (tr_node r)))"
    by simp
  show ?case
  proof (cases "find ?on (view_children rows (tr_node r))")
    case None
    then show ?thesis using found Suc.prems by simp
  next
    case (Some c)
    then have "c \<in> set rows" using kids by (auto simp: find_Some_iff)
    then show ?thesis using Suc.IH found Some by simp
  qed
qed simp

lemma view_root_node:
  assumes "rows_of_nodes nodes rows"
  shows "\<exists>r. view_root rows = Some r \<and> r \<in> set rows \<and> tr_node r = 0"
proof -
  have tree: "tree_children nodes" using assms by (simp add: rows_of_nodes_def)
  then have "0 \<in> set (map tr_node rows)" using rows_of_nodesD(2) [OF assms] by (simp add: tree_children_def)
  then obtain r where r: "r \<in> set rows" "tr_node r = 0" by auto
  have "tr_parent r = None"
  proof (rule ccontr)
    assume "tr_parent r \<noteq> None"
    then obtain q where "q < length nodes" "0 \<in> set (tn_children (nodes ! q))"
      using rows_of_nodesD(4) [OF assms r(1)] r(2) by (auto simp: row_linked_def split: option.splits) (metis nth_mem)
    then show False using tree downward_child [of nodes q 0] by (simp add: tree_children_def)
  qed
  then have "view_root rows \<noteq> None" using r(1) by (auto simp: view_root_def find_None_iff)
  then obtain s where s: "view_root rows = Some s" by blast
  then have "s \<in> set rows" "tr_parent s = None" by (auto simp: view_root_def find_Some_iff) (metis nth_mem set_rev length_rev)
  then show ?thesis using s rows_of_nodesD(4) [OF assms, of s] by (simp add: row_linked_def)
qed

subsection \<open>The rows of a built tree\<close>

lemma flatten_rows_data: "r \<in> set (flatten_rows k nodes parent level x) \<Longrightarrow> tr_data r = nodes ! tr_node r"
proof (induction k arbitrary: parent level x)
  case (Suc k)
  then show ?case by (cases x) auto
qed simp

definition fixed_tree :: "tnode list \<Rightarrow> doc_section list \<Rightarrow> tnode list" where
  "fixed_tree nodes secs = fix_node (length nodes) 0 (assign_by_page nodes secs)"

lemma fixed_tree_children: "map tn_children (fixed_tree nodes secs) = map tn_children nodes"
  by (simp add: fixed_tree_def fix_node_children assign_by_page_children)

lemma tree_rows_of_nodes:
  assumes "tree_shape nodes" shows "rows_of_nodes (fixed_tree nodes secs) (tree_rows nodes secs)"
proof -
  have len: "length (fixed_tree nodes secs) = length nodes" by (metis fixed_tree_children length_map)
  have rows: "tree_rows nodes secs = flatten_rows (length (fixed_tree nodes secs)) (fixed_tree nodes secs) None 0 (0, 0)"
    by (simp add: tree_rows_def fixed_tree_def [symmetric] len)
  have tree: "tree_children (fixed_tree nodes secs)"
    by (rule tree_children_congr [OF fixed_tree_children shape_tree_children [OF assms]])
  show ?thesis
    unfolding rows_of_nodes_def rows using tree flatten_rows_ok [OF tree] flatten_rows_data by (auto simp: list_all_iff)
qed

text \<open>Assigning and finishing keep the pages of nodes that end no earlier than they start.\<close>

definition same_pages :: "tnode list \<Rightarrow> tnode list \<Rightarrow> bool" where
  "same_pages xs ys \<longleftrightarrow> length xs = length ys \<and> (\<forall>i. tn_start (xs ! i) = tn_start (ys ! i) \<and> tn_end (xs ! i) = tn_end (ys ! i))"

lemma same_pages_update:
  "same_pages xs ys \<Longrightarrow> i < length xs \<Longrightarrow> tn_start n = tn_start (xs ! i) \<Longrightarrow> tn_end n = tn_end (xs ! i) \<Longrightarrow> same_pages (xs[i := n]) ys"
  unfolding same_pages_def by (metis length_list_update nth_list_update_eq nth_list_update_neq)

lemma fix_node_pages:
  assumes "\<And>i. i < length ys \<Longrightarrow> tn_start (ys ! i) \<le> tn_end (ys ! i)"
  shows "same_pages xs ys \<Longrightarrow> same_pages (fix_node k i xs) ys"
proof (induction k arbitrary: i xs)
  case (Suc k)
  let ?step = "\<lambda>nodes c. (let nodes = fix_node k c nodes
     in nodes[i := (nodes ! i)\<lparr>tn_tokens := tn_tokens (nodes ! i) + tn_tokens (nodes ! c)\<rparr>])"
  have update: "same_pages (zs[i := n]) ys" if "same_pages zs ys" "i < length zs \<Longrightarrow> tn_start n = tn_start (zs ! i) \<and> tn_end n = tn_end (zs ! i)" for zs n
    using that same_pages_update [OF that(1), of i n] by (cases "i < length zs") (auto simp: list_update_beyond)
  have fold: "same_pages zs ys \<Longrightarrow> same_pages (foldl ?step zs cs) ys" for zs cs
    by (induction cs arbitrary: zs) (simp_all add: Let_def update Suc.IH)
  let ?zs = "foldl ?step xs (tn_children (xs ! i))"
  have zs: "same_pages ?zs ys" by (rule fold [OF Suc.prems])
  have "same_pages (?zs[i := finish_node ?zs (?zs ! i)]) ys"
  proof (rule update [OF zs])
    assume "i < length ?zs"
    then have "tn_start (?zs ! i) \<le> tn_end (?zs ! i)" using zs assms by (simp add: same_pages_def)
    then show "tn_start (finish_node ?zs (?zs ! i)) = tn_start (?zs ! i) \<and> tn_end (finish_node ?zs (?zs ! i)) = tn_end (?zs ! i)"
      by (simp add: finish_node_def)
  qed
  then show ?case by (simp add: Let_def)
qed simp

lemma assign_by_page_same: "same_tree (assign_by_page nodes secs) nodes"
proof (induction secs rule: rev_induct)
  case (snoc sec secs)
  show ?case unfolding assign_by_page_snoc assign_section_def Let_def fst_conv
    by (rule same_tree_trans [OF same_tree_sections snoc.IH])
qed (simp add: assign_by_page_def same_tree_def)

lemma find_SomeD: "find P xs = Some c \<Longrightarrow> c \<in> set xs"
  by (auto simp: find_Some_iff)

lemma fixed_tree_deepest:
  assumes "tree_shape nodes" "list_all (paged n) nodes" "i < length nodes"
  shows "deepest k (fixed_tree nodes secs) p i = deepest k nodes p i"
proof -
  have "same_pages (assign_by_page nodes secs) nodes"
    using assign_by_page_same [of nodes secs] by (simp add: same_tree_def same_pages_def)
  then have pages: "same_pages (fixed_tree nodes secs) nodes"
    unfolding fixed_tree_def using assms(2) by (intro fix_node_pages) (auto simp: list_all_length paged_def)
  have down: "downward nodes" by (rule shape_downward [OF assms(1)])
  show ?thesis using assms(3)
  proof (induction k arbitrary: i)
    case (Suc k)
    have "tn_children (fixed_tree nodes secs ! i) = tn_children (nodes ! i)"
      by (rule children_shape [OF fixed_tree_children Suc.prems])
    moreover have "deepest k (fixed_tree nodes secs) p c = deepest k nodes p c"
      if "find P (tn_children (nodes ! i)) = Some c" for P c
      using find_SomeD [OF that] downward_child [OF down Suc.prems] Suc.IH by blast
    ultimately show ?case using pages by (simp add: same_pages_def split: option.split)
  qed simp
qed

subsection \<open>Views\<close>

lemma view_levels_bounded:
  "sum_list (map node_line_tokens (view_levels k rows budget used level))
     \<le> (if used = 0 then max budget (sum_list (map node_line_tokens level)) else budget - used)"
proof (induction k arbitrary: used level)
  case (Suc k)
  let ?cost = "sum_list (map node_line_tokens level)" and ?next = "concat (map (\<lambda>r. view_children rows (tr_node r)) level)"
  show ?case
  proof (cases "level = [] \<or> used > 0 \<and> used + ?cost > budget")
    case False
    define v where "v = sum_list (map node_line_tokens (view_levels k rows budget (used + ?cost) ?next))"
    define c where "c = ?cost"
    have "0 < c" using False by (cases level) (simp_all add: c_def node_line_tokens_def)
    then have "v \<le> budget - (used + c)" using Suc.IH [of "used + c" ?next] by (simp add: v_def c_def [symmetric])
    moreover have "sum_list (map node_line_tokens (view_levels (Suc k) rows budget used level)) = c + v"
      by (simp only: view_levels.simps Let_def False if_False map_append sum_list.append v_def c_def)
    ultimately show ?thesis using False unfolding c_def [symmetric] by auto
  qed auto
qed simp

lemma view_levels_first: "level \<noteq> [] \<Longrightarrow> \<exists>rest. view_levels (Suc k) rows budget 0 level = level @ rest"
  by (simp add: Let_def)

text \<open>When the budget is enough for what is below the level, everything below it is shown.\<close>

definition line_tokens :: "tnode \<Rightarrow> nat" where
  "line_tokens n = estimate_tokens (tn_title n @ '' '' @ truncate_text (tn_summary n) 300) + 10"

lemma view_levels_whole:
  assumes "rows_of_nodes nodes rows"
  shows "set level \<subseteq> set rows \<Longrightarrow> size (\<Sum>r\<leftarrow>level. below nodes (tr_node r)) \<le> k \<Longrightarrow>
     used + \<Sum>\<^sub># (image_mset (\<lambda>i. line_tokens (nodes ! i)) (\<Sum>r\<leftarrow>level. below nodes (tr_node r))) \<le> budget \<Longrightarrow>
     mset (map tr_node (view_levels (Suc k) rows budget used level)) = (\<Sum>r\<leftarrow>level. below nodes (tr_node r))"
proof (induction k arbitrary: used level)
  case 0
  have "below nodes (tr_node r) \<noteq> {#}" if "r \<in> set rows" for r
    using below_children [of nodes "tr_node r"] rows_of_nodesD(6) [OF assms that] assms
    by (simp add: rows_of_nodes_def tree_children_def)
  with 0 show ?case by (cases level) auto
next
  case (Suc k)
  let ?next = "concat (map (\<lambda>r. view_children rows (tr_node r)) level)"
  let ?cost = "sum_list (map node_line_tokens level)"
  have split: "(\<Sum>r\<leftarrow>level. below nodes (tr_node r)) = mset (map tr_node level) + (\<Sum>r\<leftarrow>?next. below nodes (tr_node r))"
    using Suc.prems(1)
  proof (induction level)
    case (Cons r level)
    have r: "tr_node r < length nodes" using rows_of_nodesD(6) [OF assms] Cons.prems by simp
    have "below nodes (tr_node r) = add_mset (tr_node r) (\<Sum>c\<leftarrow>map tr_node (view_children rows (tr_node r)). below nodes c)"
      unfolding view_children_nodes [OF assms r] using assms r by (intro below_children) (simp_all add: rows_of_nodes_def tree_children_def)
    with Cons show ?case by (simp add: comp_def)
  qed simp
  have cost: "\<Sum>\<^sub># (image_mset (\<lambda>i. line_tokens (nodes ! i)) (mset (map tr_node level))) = ?cost"
    using Suc.prems(1)
  proof (induction level)
    case (Cons r level)
    then show ?case using rows_of_nodesD(5) [OF assms, of r] by (simp add: line_tokens_def node_line_tokens_def)
  qed simp
  show ?case
  proof (cases "level = []")
    case False
    have "mset (map tr_node (view_levels (Suc k) rows budget (used + ?cost) ?next)) = (\<Sum>r\<leftarrow>?next. below nodes (tr_node r))"
    proof (rule Suc.IH)
      show "set ?next \<subseteq> set rows" by (auto simp: view_children_def)
      have "0 < size (mset (map tr_node level))" using False by simp
      then show "size (\<Sum>r\<leftarrow>?next. below nodes (tr_node r)) \<le> k"
        using Suc.prems(2) unfolding split size_union by linarith
      show "used + ?cost + \<Sum>\<^sub># (image_mset (\<lambda>i. line_tokens (nodes ! i)) (\<Sum>r\<leftarrow>?next. below nodes (tr_node r))) \<le> budget"
        using Suc.prems(3) unfolding split image_mset_union sum_mset.union cost by linarith
    qed
    moreover have "used + ?cost \<le> budget"
      using Suc.prems(3) unfolding split image_mset_union sum_mset.union cost by linarith
    ultimately show ?thesis unfolding split using False by (simp add: Let_def)
  qed simp
qed

subsection \<open>Properties\<close>

text \<open>
  C8: For every page the stored rows lead to the node in which the sections of the page were put:
  searching the rows from the root finds the same node as searching the tree it was built from.
\<close>

theorem stored_tree_finds_page:
  "(let nodes = build_tree nfd page_count bookmarks results titles words spans; rows = tree_rows nodes secs in
    case view_root rows of None \<Rightarrow> False
    | Some r \<Rightarrow> tr_node (row_for_page (length rows) rows p r) = deepest (length nodes) nodes p 0)"
proof -
  let ?nodes = "build_tree nfd page_count bookmarks results titles words spans"
  obtain s where "?nodes = ts_nodes s" "growing (max page_count 1) s" using build_tree_growing by blast
  then have shape: "tree_shape ?nodes" "list_all (paged (max page_count 1)) ?nodes" by (simp_all add: growing_def)
  let ?rows = "tree_rows ?nodes secs"
  have rows: "rows_of_nodes (fixed_tree ?nodes secs) ?rows" by (rule tree_rows_of_nodes [OF shape(1)])
  obtain r where r: "view_root ?rows = Some r" "r \<in> set ?rows" "tr_node r = 0" using view_root_node [OF rows] by blast
  have len: "length ?rows = length ?nodes"
    using rows_of_nodesD(3) [OF rows] by (metis fixed_tree_children length_map)
  have "0 < length ?nodes" using shape(1) by (simp add: tree_shape_def)
  then have "tr_node (row_for_page (length ?rows) ?rows p r) = deepest (length ?nodes) ?nodes p 0"
    using row_for_page_node [OF rows r(2)] r(3) fixed_tree_deepest [OF shape] by (simp add: len)
  then show ?thesis by (simp add: Let_def r(1))
qed


end
