(* ===== verification/DocTypeFacts.thy ===== *)
theory DocTypeFacts
  imports DocTypes
begin

text \<open>
  What the documents of a file promise: the groups of pages cover every run of pages that has a
  classified page, and the spans of the tree cover every page of the file once, in order, the segments
  of the user first.
\<close>

subsection \<open>Groups\<close>

definition group_pages :: "doc_group \<Rightarrow> int list" where
  "group_pages d = [dg_start d..dg_end d]"

definition span_pages :: "doc_span \<Rightarrow> int list" where
  "span_pages d = [ds_start d..ds_end d]"

text \<open>A list of pages whose numbers follow one another.\<close>

fun consecutive :: "page_doctype list \<Rightarrow> bool" where
  "consecutive (p # q # ps) \<longleftrightarrow> pd_no q = pd_no p + 1 \<and> consecutive (q # ps)"
| "consecutive _ \<longleftrightarrow> True"

lemma take_run_consecutive: "consecutive (p # fst (take_run p ps))"
  by (induction p ps rule: take_run.induct) (auto split: prod.splits)

lemma page_runs_pages: "concat (page_runs ps) = ps"
proof (induction ps rule: page_runs.induct)
  case (2 p ps)
  then show ?case using take_run_split [of p ps "fst (take_run p ps)" "snd (take_run p ps)"] by simp
qed simp

lemma page_runs_consecutive: "list_all (\<lambda>run. run \<noteq> [] \<and> consecutive run) (page_runs ps)"
  by (induction ps rule: page_runs.induct) (simp_all add: take_run_consecutive)

lemma new_doc_fields [simp]: "dg_start (new_doc mc p) = pd_no p" "dg_end (new_doc mc p) = pd_no p"
  by (simp_all add: new_doc_def)

text \<open>The groups of a run, seen from the page before the next one.\<close>

lemma group_page_covers:
  assumes "out \<noteq> [] \<Longrightarrow> dg_start (last out) \<le> dg_end (last out) \<and> pd_no p = dg_end (last out) + 1"
  shows "group_page mc out p \<noteq> [] \<and> concat (map group_pages (group_page mc out p)) = concat (map group_pages out) @ [pd_no p]
     \<and> dg_start (last (group_page mc out p)) \<le> dg_end (last (group_page mc out p)) \<and> dg_end (last (group_page mc out p)) = pd_no p"
proof (cases "out \<noteq> [] \<and> \<not> pd_first p")
  case True
  then obtain xs d where out: "out = xs @ [d]" by (meson rev_exhaust)
  have "[dg_start d..pd_no p] = [dg_start d..dg_end d] @ [pd_no p]"
    using assms unfolding out by (simp add: upto_rec2)
  with True assms show ?thesis unfolding out by (simp add: group_page_def group_pages_def)
qed (auto simp: group_page_def group_pages_def)

lemma group_pages_foldl:
  "out \<noteq> [] \<Longrightarrow> dg_start (last out) \<le> dg_end (last out) \<Longrightarrow> dg_end (last out) = pd_no p \<Longrightarrow> consecutive (p # ps) \<Longrightarrow>
     concat (map group_pages (foldl (group_page mc) out ps)) = concat (map group_pages out) @ map pd_no ps"
proof (induction ps arbitrary: out p)
  case (Cons q ps)
  have "group_page mc out q \<noteq> [] \<and> concat (map group_pages (group_page mc out q)) = concat (map group_pages out) @ [pd_no q]
     \<and> dg_start (last (group_page mc out q)) \<le> dg_end (last (group_page mc out q)) \<and> dg_end (last (group_page mc out q)) = pd_no q"
    by (rule group_page_covers) (use Cons.prems in simp)
  with Cons.IH [of "group_page mc out q" q] Cons.prems(4) show ?case by simp
qed simp

lemma group_by_first_page_covers:
  assumes "consecutive run"
  shows "concat (map group_pages (group_by_first_page run mc)) = (if list_ex (\<lambda>p. pd_label p \<noteq> []) run then map pd_no run else [])"
proof (cases run)
  case (Cons p ps)
  have "group_page mc [] p \<noteq> [] \<and> concat (map group_pages (group_page mc [] p)) = [pd_no p]
     \<and> dg_start (last (group_page mc [] p)) \<le> dg_end (last (group_page mc [] p)) \<and> dg_end (last (group_page mc [] p)) = pd_no p"
    using group_page_covers [of "[]" p mc] by simp
  with group_pages_foldl [of "group_page mc [] p" p ps mc] assms show ?thesis
    by (simp add: group_by_first_page_def Cons)
qed (simp add: group_by_first_page_def)

subsection \<open>Spans\<close>

lemma span_pages_label [simp]: "span_pages (label_span labels l a b) = [a..b]"
  by (simp add: span_pages_def label_span_def)

lemma gap_spans_pages:
  "nxt \<le> t + 1 \<Longrightarrow> concat (map span_pages (gap_spans labels skipped t nxt)) = [nxt..t]"
proof (induction labels skipped t nxt rule: gap_spans.induct)
  case (1 labels skipped t nxt)
  show ?case
  proof (cases "nxt \<le> t")
    case True
    let ?e = "gap_end skipped t nxt"
    have e: "nxt \<le> ?e" "?e \<le> t" using gap_end_range [of nxt skipped t] True by auto
    have "[nxt..?e] @ [?e + 1..t] = [nxt..t]" using upto_join [of nxt "?e + 1" t] e by simp
    then show ?thesis using 1 True e by (subst gap_spans.simps) simp
  next
    case False
    then show ?thesis by (subst gap_spans.simps) simp
  qed
qed

lemma span_all_pages:
  "list_all (in_file n) gs \<Longrightarrow> sorted_wrt (\<lambda>g k. sg_end g < sg_start k) gs \<Longrightarrow> list_all (\<lambda>g. nxt \<le> sg_start g) gs \<Longrightarrow> nxt \<le> n + 1 \<Longrightarrow>
     concat (map span_pages (span_all labels skipped n nxt gs)) = [nxt..n]"
proof (induction gs arbitrary: nxt)
  case Nil
  then show ?case by (simp add: gap_spans_pages)
next
  case (Cons g gs)
  have g: "nxt \<le> sg_start g" "sg_start g \<le> sg_end g" "sg_end g \<le> n" using Cons.prems by (auto simp: in_file_def)
  have "concat (map span_pages (span_all labels skipped n (sg_end g + 1) gs)) = [sg_end g + 1..n]"
    using Cons.prems g by (intro Cons.IH) (auto simp: list_all_iff)
  moreover have "[nxt..sg_start g - 1] @ [sg_start g..sg_end g] @ [sg_end g + 1..n] = [nxt..n]"
    using upto_join [of "sg_start g" "sg_end g + 1" n] upto_join [of nxt "sg_start g" n] g by simp
  ultimately show ?case using g by (simp add: gap_spans_pages)
qed

lemma kept_segments_disjoint:
  assumes "list_all (in_file n) segs"
  shows "list_all (in_file n) (kept_segments segs) \<and> sorted_wrt (\<lambda>g k. sg_end g < sg_start k) (kept_segments segs)"
proof -
  let ?kept = "keep_disjoint [] (spans_order segs)"
  have sub: "set (kept_segments segs) \<subseteq> set segs"
    using keep_disjoint_set(2) [of "[]" "spans_order segs"] by (simp add: kept_segments_def spans_order_def)
  then have inside: "list_all (in_file n) (kept_segments segs)" using assms by (auto simp: list_all_iff)
  have apart: "sorted_wrt (\<lambda>g k. \<not> overlap g k) (kept_segments segs)"
    by (simp add: kept_segments_def sort_key_apart [OF apart_symp] keep_disjoint_apart)
  have ordered: "sorted_wrt (\<lambda>g k. sg_start g \<le> sg_start k) (kept_segments segs)"
    unfolding kept_segments_def by (rule sorted_wrt_sort_key)
  have "sg_end (kept_segments segs ! i) < sg_start (kept_segments segs ! j)" if "i < j" "j < length (kept_segments segs)" for i j
  proof -
    have "\<not> overlap (kept_segments segs ! i) (kept_segments segs ! j)" "sg_start (kept_segments segs ! i) \<le> sg_start (kept_segments segs ! j)"
      using apart ordered that by (simp_all add: sorted_wrt_iff_nth_less)
    moreover have "in_file n (kept_segments segs ! j)" using inside that(2) by (simp add: list_all_length)
    ultimately show ?thesis by (auto simp: overlap_def in_file_def)
  qed
  then show ?thesis using inside by (simp add: sorted_wrt_iff_nth_less)
qed

lemma spans_order_rank:
  "sorted_wrt (\<lambda>g k. (if sg_source k = ''user'' then 1 else 0 :: nat) \<le> (if sg_source g = ''user'' then 1 else 0)) (spans_order segs)"
proof -
  have "sorted_wrt (\<lambda>g k. (if sg_source g = ''user'' then 0 else 1 :: nat) \<le> (if sg_source k = ''user'' then 0 else 1)) (spans_order segs)"
    unfolding spans_order_def by (rule sorted_wrt_sort_key)
  then show ?thesis by (rule sorted_wrt_mono_rel [rotated]) (auto split: if_splits)
qed

subsection \<open>Properties\<close>

text \<open>
  The segments proposed for a file cover exactly the pages of the runs of consecutive pages in which
  some page is classified: each such page once, in order, and no page of another run.
\<close>

theorem proposals_cover_runs:
  "concat (map group_pages (segments_from_pages pages mc))
     = map pd_no (concat (filter (list_ex (\<lambda>p. pd_label p \<noteq> [])) (page_runs pages)))
   \<and> concat (page_runs pages) = pages \<and> list_all (\<lambda>run. run \<noteq> [] \<and> consecutive run) (page_runs pages)"
proof -
  have "list_all consecutive runs \<Longrightarrow>
      concat (map group_pages (concat (map (\<lambda>run. group_by_first_page run mc) runs)))
      = map pd_no (concat (filter (list_ex (\<lambda>p. pd_label p \<noteq> [])) runs))" for runs
    by (induction runs) (auto simp: group_by_first_page_covers)
  from this [of "page_runs pages"] page_runs_consecutive [of pages] show ?thesis
    by (simp add: segments_from_pages_def page_runs_pages list_all_iff)
qed

text \<open>
  C9: When the stored segments lie inside the file, the spans of its tree cover every page once and in
  order, whatever pages the segments leave out and however they overlap.
\<close>

theorem spans_cover_pages:
  "segs \<noteq> [] \<Longrightarrow> list_all (in_file n) segs \<Longrightarrow> concat (map span_pages (doc_spans segs n skipped labels)) = [1..n]"
proof -
  assume segs: "segs \<noteq> []" "list_all (in_file n) segs"
  then have "0 \<le> n" by (cases segs) (auto simp: in_file_def)
  moreover have "list_all (\<lambda>g. 1 \<le> sg_start g) (kept_segments segs)"
    using kept_segments_disjoint [OF segs(2)] by (auto simp: list_all_iff in_file_def)
  ultimately show ?thesis
    using segs(1) kept_segments_disjoint [OF segs(2)] by (simp add: doc_spans_def span_all_pages)
qed

definition sample_segment :: "int \<Rightarrow> int \<Rightarrow> string \<Rightarrow> string \<Rightarrow> segment" where
  "sample_segment a b label source = \<lparr>sg_id = 0, sg_doc = 0, sg_start = a, sg_end = b, sg_label = label, sg_proposed = [], sg_conf = 1,
     sg_source = source, sg_review = False, sg_bundle = []\<rparr>"

lemma spans_cover_pages_witness:
  "concat (map span_pages (doc_spans [sample_segment 1 4 ''contract'' ''pipeline'', sample_segment 3 5 ''invoice'' ''user''] 6 (\<lambda>p. p = 1) [])) = [1, 2, 3, 4, 5, 6]"
proof -
  have "list_all (in_file 6) [sample_segment 1 4 ''contract'' ''pipeline'', sample_segment 3 5 ''invoice'' ''user'']"
    by (simp add: sample_segment_def in_file_def)
  from spans_cover_pages [OF _ this, of "\<lambda>p. p = 1" "[]"] show ?thesis by (simp add: upto.simps)
qed

text \<open>
  The user's segments win: every segment is shown as a span of the tree, or overlaps one that is
  shown, and a segment of the user gives way only to another one of the user.
\<close>

definition user_rank :: "segment \<Rightarrow> nat" where
  "user_rank g = (if sg_source g = ''user'' then 1 else 0)"

lemma span_all_kept: "g \<in> set gs \<Longrightarrow> label_span labels (sg_label g) (sg_start g) (sg_end g) \<in> set (span_all labels skipped n nxt gs)"
  by (induction gs arbitrary: nxt) auto

theorem user_segments_win:
  "list_all (\<lambda>g. list_ex (\<lambda>k. (g = k \<or> overlap g k) \<and> user_rank g \<le> user_rank k
       \<and> label_span labels (sg_label k) (sg_start k) (sg_end k) \<in> set (doc_spans segs n skipped labels)) segs) segs"
proof -
  have "\<exists>k\<in>set segs. (g = k \<or> overlap g k) \<and> user_rank g \<le> user_rank k
      \<and> label_span labels (sg_label k) (sg_start k) (sg_end k) \<in> set (doc_spans segs n skipped labels)" if g: "g \<in> set segs" for g
  proof -
    have "g \<in> set (spans_order segs)" using g by (simp add: spans_order_def)
    then obtain k where k: "k \<in> set (keep_disjoint [] (spans_order segs))" "g = k \<or> overlap g k" "user_rank g \<le> user_rank k"
      using keep_disjoint_best [of user_rank "spans_order segs" "[]" g] spans_order_rank [of segs] unfolding user_rank_def by auto
    have "k \<in> set segs" using k(1) keep_disjoint_set(2) [of "[]" "spans_order segs"] by (auto simp: spans_order_def)
    moreover have "label_span labels (sg_label k) (sg_start k) (sg_end k) \<in> set (doc_spans segs n skipped labels)"
      using k(1) g by (auto simp: doc_spans_def kept_segments_def intro!: span_all_kept)
    ultimately show ?thesis using k(2,3) by blast
  qed
  then show ?thesis by (simp only: list_all_iff list_ex_iff) blast
qed

end
