(* ===== verification/Queue.thy ===== *)
theory Queue
  imports Prelude
begin

text \<open>
  The task queue (\<^verbatim>\<open>internal/queue\<close>, \<^verbatim>\<open>internal/types/task.go\<close>): the topology of queues and worker
  pools, the policy of each task type, and the in-process queue with its drain loop, retries, task-id
  deduplication and dead letters. The Redis queue itself (asynq) is third-party code.
\<close>

subsection \<open>Topology\<close>

record queue_definition =
  qd_name :: string
  qd_pool :: string
  qd_weight :: nat
  qd_tasks :: "string list"

abbreviation queue_def :: "string \<Rightarrow> string \<Rightarrow> nat \<Rightarrow> string list \<Rightarrow> queue_definition" where
  "queue_def n p w ts \<equiv> \<lparr>qd_name = n, qd_pool = p, qd_weight = w, qd_tasks = ts\<rparr>"

definition queue_definitions :: "queue_definition list" where
  "queue_definitions =
     [queue_def ''default'' ''core'' 1 [''document:split'', ''document:assemble''],
      queue_def ''interactive'' ''core'' 3 [''document:split'', ''document:assemble''],
      queue_def ''render'' ''render'' 1 [''page:render''],
      queue_def ''render_interactive'' ''render'' 3 [''page:render''],
      queue_def ''page'' ''ocr'' 1 [''page:ocr''],
      queue_def ''page_interactive'' ''ocr'' 3 [''page:ocr''],
      queue_def ''index'' ''index'' 1 [''index:build'', ''index:tree''],
      queue_def ''index_interactive'' ''index'' 3
        [''index:build'', ''index:tree'', ''case:sheet'', ''document:classify'', ''doctype:sample'', ''doctype:job''],
      queue_def ''low'' ''maintenance'' 1 [''document:delete'', ''case:delete'', ''document:gen_cleanup'', ''housekeeping:sweep''],
      queue_def ''callback'' ''core'' 1 [''document:callback'']]"

definition pools :: "string list" where
  "pools = dedupe_from [] (map qd_pool queue_definitions)"

definition queue_weights :: "string \<Rightarrow> (string \<times> nat) list" where
  "queue_weights pool = map (\<lambda>d. (qd_name d, qd_weight d)) (filter (\<lambda>d. qd_pool d = pool) queue_definitions)"

text \<open>The two nested loops over the definitions and their task types, flattened.\<close>

fun queue_scan :: "string \<Rightarrow> bool \<Rightarrow> string \<Rightarrow> (queue_definition \<times> string) list \<Rightarrow> string" where
  "queue_scan tt interactive first [] = first"
| "queue_scan tt interactive first ((d, t) # xs) =
     (if t \<noteq> tt then queue_scan tt interactive first xs
      else if interactive \<and> qd_weight d > 1 \<or> \<not> interactive \<and> qd_weight d = 1 then qd_name d
      else queue_scan tt interactive (if first = [] then qd_name d else first) xs)"

definition queue_for :: "string \<Rightarrow> bool \<Rightarrow> string" where
  "queue_for tt interactive =
     queue_scan tt interactive [] (concat (map (\<lambda>d. map (\<lambda>t. (d, t)) (qd_tasks d)) queue_definitions))"

subsection \<open>Policies\<close>

text \<open>Durations are nanoseconds.\<close>

record policy =
  po_retry :: nat
  po_timeout :: int

definition minutes :: "int \<Rightarrow> int" where "minutes n = n * 60000000000"

definition policies :: "string \<rightharpoonup> policy" where
  "policies = map_of (map (\<lambda>(t, r, m). (t, \<lparr>po_retry = r, po_timeout = minutes m\<rparr>))
     [(''document:split'', 3, 5), (''page:render'', 3, 10), (''page:ocr'', 3, 15), (''document:assemble'', 3, 10),
      (''index:build'', 3, 30), (''index:tree'', 5, 30), (''document:delete'', 3, 60), (''case:delete'', 3, 60),
      (''document:gen_cleanup'', 3, 60), (''housekeeping:sweep'', 0, 10), (''document:callback'', 3, 2),
      (''case:sheet'', 3, 60), (''doctype:sample'', 3, 30), (''doctype:job'', 3, 60)])"

definition policy_for :: "string \<Rightarrow> policy" where
  "policy_for t = (case policies t of Some p \<Rightarrow> p | None \<Rightarrow> \<lparr>po_retry = 3, po_timeout = minutes 30\<rparr>)"

subsection \<open>The in-process queue\<close>

record task_opts =
  to_id :: string
  to_interactive :: bool
  to_in :: int

text \<open>The zero time, which is before every instant, is \<open>None\<close>.\<close>

record inline_task =
  it_type :: string
  it_payload :: string
  it_id :: string
  it_not_before :: "int option"

text \<open>A failure of a handler: its text, and whether it wraps \<^verbatim>\<open>ErrSkipRetry\<close>.\<close>

datatype task_failure = TaskFailure (tf_text: string) (tf_skip: bool)

text \<open>A call of \<^verbatim>\<open>Enqueue\<close>: the encoded payload (\<open>None\<close> when \<^verbatim>\<open>json.Marshal\<close> fails) and the instant of the call.\<close>

record enqueue_call =
  en_type :: string
  en_payload :: "string option"
  en_opts :: task_opts
  en_now :: int

text \<open>
  A handler gets whether the attempt is the final one, the payload and the world, and returns its
  error, what it enqueued and the world after it. The timeout of its context is part of the world.
\<close>

type_synonym 'w handler = "bool \<Rightarrow> string \<Rightarrow> 'w \<Rightarrow> task_failure option \<times> enqueue_call list \<times> 'w"

record dead_letter =
  dd_type :: string
  dd_queue :: string
  dd_payload :: string
  dd_error :: task_failure
  dd_attempts :: nat

text \<open>\<open>iq_dead\<close> is what the dead-letter sink was called with; \<open>iq_sink\<close> tells whether there is one.\<close>

record 'w inline_queue =
  iq_handlers :: "string \<rightharpoonup> 'w handler"
  iq_queue :: "inline_task list"
  iq_seen :: "string set"
  iq_failed :: "string list"
  iq_sink :: bool
  iq_dead :: "dead_letter list"
  iq_honor :: bool

definition new_inline :: "'w inline_queue" where
  "new_inline = \<lparr>iq_handlers = Map.empty, iq_queue = [], iq_seen = {}, iq_failed = [], iq_sink = False, iq_dead = [], iq_honor = False\<rparr>"

definition register_handlers :: "(string \<rightharpoonup> 'w handler) \<Rightarrow> bool \<Rightarrow> 'w inline_queue \<Rightarrow> 'w inline_queue" where
  "register_handlers hs sink q = q\<lparr>iq_handlers := iq_handlers q ++ hs, iq_sink := sink\<rparr>"

text \<open>\<^verbatim>\<open>Inline.Enqueue\<close>: \<open>False\<close> when the payload cannot be encoded.\<close>

definition enqueue_inline :: "enqueue_call \<Rightarrow> 'w inline_queue \<Rightarrow> bool \<times> 'w inline_queue" where
  "enqueue_inline c q =
     (case en_payload c of
        None \<Rightarrow> (False, q)
      | Some b \<Rightarrow>
          if to_id (en_opts c) \<noteq> [] \<and> to_id (en_opts c) \<in> iq_seen q then (True, q)
          else (True, q\<lparr>iq_seen := (if to_id (en_opts c) \<noteq> [] then insert (to_id (en_opts c)) (iq_seen q) else iq_seen q),
                 iq_queue := iq_queue q @ [\<lparr>it_type = en_type c, it_payload = b, it_id = to_id (en_opts c),
                   it_not_before = (if to_in (en_opts c) > 0 \<and> iq_honor q then Some (en_now c + to_in (en_opts c)) else None)\<rparr>]\<rparr>))"

definition enqueue_all :: "enqueue_call list \<Rightarrow> 'w inline_queue \<Rightarrow> 'w inline_queue" where
  "enqueue_all cs q = foldl (\<lambda>q c. snd (enqueue_inline c q)) q cs"

definition is_due :: "int \<Rightarrow> inline_task \<Rightarrow> bool" where
  "is_due now t \<longleftrightarrow> (case it_not_before t of None \<Rightarrow> True | Some i \<Rightarrow> \<not> i > now)"

fun take_due :: "int \<Rightarrow> inline_task list \<Rightarrow> (inline_task \<times> inline_task list) option" where
  "take_due now [] = None"
| "take_due now (t # ts) =
     (if is_due now t then Some (t, ts) else map_option (\<lambda>(d, rest). (d, t # rest)) (take_due now ts))"

text \<open>The attempts of one task; \<open>k\<close> more are allowed after this one.\<close>

fun run_attempts :: "'w handler \<Rightarrow> string \<Rightarrow> nat \<Rightarrow> 'w \<times> 'w inline_queue \<Rightarrow> task_failure option \<times> 'w \<times> 'w inline_queue" where
  "run_attempts h payload k (w, q) =
     (let (err, calls, w) = h (k = 0) payload w; q = enqueue_all calls q in
      case err of
        None \<Rightarrow> (None, w, q)
      | Some e \<Rightarrow>
          if tf_skip e then (Some e, w, q)
          else (case k of 0 \<Rightarrow> (Some e, w, q) | Suc k \<Rightarrow> run_attempts h payload k (w, q)))"

definition release_id :: "string \<Rightarrow> 'w inline_queue \<Rightarrow> 'w inline_queue" where
  "release_id i q = (if i \<noteq> [] then q\<lparr>iq_seen := iq_seen q - {i}\<rparr> else q)"

definition record_failure :: "inline_task \<Rightarrow> task_failure option \<Rightarrow> 'w inline_queue \<Rightarrow> 'w inline_queue" where
  "record_failure t err q =
     (case err of
        None \<Rightarrow> q
      | Some e \<Rightarrow>
          q\<lparr>iq_failed := iq_failed q @ [it_type t @ '': '' @ tf_text e],
            iq_dead := (if iq_sink q then iq_dead q @ [\<lparr>dd_type = it_type t, dd_queue = ''inline'', dd_payload = it_payload t,
               dd_error = e, dd_attempts = po_retry (policy_for (it_type t)) + 1\<rparr>] else iq_dead q)\<rparr>)"

datatype drain_error = NoHandler string | DrainLimit

text \<open>\<^verbatim>\<open>Drain\<close>: at most \<open>limit\<close> tasks; \<open>clock\<close> reads the time from the world.\<close>

fun drain :: "('w \<Rightarrow> int) \<Rightarrow> nat \<Rightarrow> 'w \<times> 'w inline_queue \<Rightarrow> drain_error option \<times> 'w \<times> 'w inline_queue" where
  "drain clock 0 (w, q) = (Some DrainLimit, w, q)"
| "drain clock (Suc n) (w, q) =
     (case take_due (clock w) (iq_queue q) of
        None \<Rightarrow> (None, w, q)
      | Some (t, rest) \<Rightarrow>
          (let q = q\<lparr>iq_queue := rest\<rparr> in
           case iq_handlers q (it_type t) of
             None \<Rightarrow> (Some (NoHandler (it_type t)), w, q)
           | Some h \<Rightarrow>
               (let (err, w, q) = run_attempts h (it_payload t) (po_retry (policy_for (it_type t))) (w, q)
                in drain clock n (w, record_failure t err (release_id (it_id t) q)))))"

text \<open>The decision of the dead-letter middleware of the Redis workers, and of \<^verbatim>\<open>IsFinalAttempt\<close> there.\<close>

definition middleware_dead :: "bool \<Rightarrow> task_failure option \<Rightarrow> nat \<Rightarrow> nat \<Rightarrow> nat option" where
  "middleware_dead sink err retried max_retry =
     (case err of
        None \<Rightarrow> None
      | Some e \<Rightarrow> if sink \<and> (tf_skip e \<or> retried \<ge> max_retry) then Some (retried + 1) else None)"

definition is_final_attempt :: "nat option \<Rightarrow> nat option \<Rightarrow> bool \<Rightarrow> bool" where
  "is_final_attempt retried max_retry inline_final =
     (case (retried, max_retry) of (Some r, Some m) \<Rightarrow> r \<ge> m | _ \<Rightarrow> inline_final)"

end
