(* ===== verification/QueueFacts.thy ===== *)
theory QueueFacts
  imports Queue
begin

text \<open>
  What the in-process queue promises: a drain with a large enough limit leaves no due task, no task id
  is pending twice, and the attempts of a task end as its policy says.
\<close>

subsection \<open>Enqueueing\<close>

definition call_cost :: "(string \<Rightarrow> string \<Rightarrow> nat) \<Rightarrow> enqueue_call \<Rightarrow> nat" where
  "call_cost cost c = (case en_payload c of None \<Rightarrow> 0 | Some b \<Rightarrow> cost (en_type c) b)"

definition queue_cost :: "(string \<Rightarrow> string \<Rightarrow> nat) \<Rightarrow> inline_task list \<Rightarrow> nat" where
  "queue_cost cost ts = (\<Sum>t\<leftarrow>ts. cost (it_type t) (it_payload t))"

lemma enqueue_inline_fields [simp]:
  "iq_handlers (snd (enqueue_inline c q)) = iq_handlers q"
  by (simp add: enqueue_inline_def split: option.split)

lemma enqueue_inline_cost:
  "queue_cost cost (iq_queue (snd (enqueue_inline c q))) \<le> queue_cost cost (iq_queue q) + call_cost cost c"
  by (auto simp: enqueue_inline_def queue_cost_def call_cost_def split: option.split)

lemma enqueue_inline_types:
  "it_type ` set (iq_queue (snd (enqueue_inline c q))) \<subseteq> insert (en_type c) (it_type ` set (iq_queue q))"
  by (auto simp: enqueue_inline_def split: option.split)

lemma enqueue_all_simps [simp]:
  "enqueue_all [] q = q" "enqueue_all (c # cs) q = enqueue_all cs (snd (enqueue_inline c q))"
  by (simp_all add: enqueue_all_def)

lemma enqueue_all_handlers [simp]: "iq_handlers (enqueue_all cs q) = iq_handlers q"
  by (induction cs arbitrary: q) simp_all

lemma enqueue_all_cost:
  "queue_cost cost (iq_queue (enqueue_all cs q)) \<le> queue_cost cost (iq_queue q) + (\<Sum>c\<leftarrow>cs. call_cost cost c)"
proof (induction cs arbitrary: q)
  case (Cons c cs)
  show ?case using Cons.IH [of "snd (enqueue_inline c q)"] enqueue_inline_cost [of cost c q] by simp
qed simp

lemma enqueue_all_types: "it_type ` set (iq_queue (enqueue_all cs q)) \<subseteq> en_type ` set cs \<union> it_type ` set (iq_queue q)"
proof (induction cs arbitrary: q)
  case (Cons c cs)
  show ?case using Cons.IH [of "snd (enqueue_inline c q)"] enqueue_inline_types [of c q]
    unfolding enqueue_all_simps list.set image_insert by blast
qed simp

subsection \<open>A drain comes to its end\<close>

text \<open>
  Tasks have a cost when whatever all the attempts of a task enqueue costs less than the task, and
  is of a type that has a handler.
\<close>

definition tasks_shrink :: "(string \<Rightarrow> string \<Rightarrow> nat) \<Rightarrow> (string \<rightharpoonup> 'w handler) \<Rightarrow> bool" where
  "tasks_shrink cost H \<longleftrightarrow>
     (\<forall>t h final payload w. H t = Some h \<longrightarrow>
        (case h final payload w of (err, calls, w') \<Rightarrow>
           en_type ` set calls \<subseteq> dom H \<and> (po_retry (policy_for t) + 1) * (\<Sum>c\<leftarrow>calls. call_cost cost c) < cost t payload))"

lemma tasks_shrinkD:
  assumes "tasks_shrink cost H" "H t = Some h" "h final payload w = (err, calls, w')"
  shows "en_type ` set calls \<subseteq> dom H \<and> (po_retry (policy_for t) + 1) * (\<Sum>c\<leftarrow>calls. call_cost cost c) < cost t payload"
  using assms(1) [unfolded tasks_shrink_def, rule_format, OF assms(2), where final = final and payload = payload and w = w] unfolding assms(3) prod.case .

lemma run_attempts_step:
  assumes "h (k = 0) payload w = (err, calls, w')"
  shows "run_attempts h payload k (w, q) =
     (case err of None \<Rightarrow> (None, w', enqueue_all calls q)
      | Some e \<Rightarrow> if tf_skip e \<or> k = 0 then (Some e, w', enqueue_all calls q) else run_attempts h payload (k - 1) (w', enqueue_all calls q))"
  using assms by (cases k) (auto simp: Let_def split: option.split)

declare run_attempts.simps [simp del]

lemma run_attempts_bounded:
  assumes "\<And>final w err calls w'. h final payload w = (err, calls, w') \<Longrightarrow>
      en_type ` set calls \<subseteq> D \<and> (\<Sum>c\<leftarrow>calls. call_cost cost c) \<le> B"
  shows "run_attempts h payload k (w, q) = (r, w1, q1) \<Longrightarrow>
     iq_handlers q1 = iq_handlers q \<and> it_type ` set (iq_queue q1) \<subseteq> D \<union> it_type ` set (iq_queue q)
     \<and> queue_cost cost (iq_queue q1) \<le> queue_cost cost (iq_queue q) + (k + 1) * B"
proof (induction k arbitrary: w q)
  case 0
  obtain err calls w' where run: "h True payload w = (err, calls, w')" by (metis prod_cases3)
  then have q1: "q1 = enqueue_all calls q"
    using 0 run_attempts_step [of h 0 payload w err calls w' q] by (auto split: option.splits)
  show ?case using assms [OF run] enqueue_all_types [of calls q] enqueue_all_cost [of cost calls q] unfolding q1 by auto
next
  case (Suc k)
  obtain err calls w' where run: "h False payload w = (err, calls, w')" by (metis prod_cases3)
  let ?q = "enqueue_all calls q"
  have one: "it_type ` set (iq_queue ?q) \<subseteq> D \<union> it_type ` set (iq_queue q)"
    "queue_cost cost (iq_queue ?q) \<le> queue_cost cost (iq_queue q) + B"
    using assms [OF run] enqueue_all_types [of calls q] enqueue_all_cost [of cost calls q] by auto
  consider "q1 = ?q" | "run_attempts h payload k (w', ?q) = (r, w1, q1)"
    using Suc.prems run run_attempts_step [of h "Suc k" payload w err calls w' q] by (auto split: option.splits if_splits)
  then show ?case
  proof cases
    case 1
    then show ?thesis using one by auto
  next
    case 2
    have "it_type ` set (iq_queue q1) \<subseteq> D \<union> it_type ` set (iq_queue q)" using Suc.IH [OF 2] one(1) by blast
    moreover have "queue_cost cost (iq_queue q1) \<le> queue_cost cost (iq_queue q) + (Suc k + 1) * B"
      using Suc.IH [OF 2] one(2) by simp
    ultimately show ?thesis using Suc.IH [OF 2] by simp
  qed
qed

lemma take_due_None: "take_due now ts = None \<longleftrightarrow> list_all (\<lambda>t. \<not> is_due now t) ts"
  by (induction ts) auto

lemma take_due_Some:
  "take_due now ts = Some (t, rest) \<Longrightarrow>
     \<exists>as bs. ts = as @ t # bs \<and> rest = as @ bs \<and> is_due now t \<and> list_all (\<lambda>t. \<not> is_due now t) as"
proof (induction ts arbitrary: rest)
  case (Cons x xs)
  show ?case
  proof (cases "is_due now x")
    case True
    then show ?thesis using Cons.prems by (intro exI [of _ "[]"] exI [of _ xs]) simp
  next
    case False
    then obtain rest' where "take_due now xs = Some (t, rest')" "rest = x # rest'" using Cons.prems by auto
    then obtain as bs where "xs = as @ t # bs" "rest' = as @ bs" "is_due now t" "list_all (\<lambda>t. \<not> is_due now t) as"
      using Cons.IH by blast
    then show ?thesis using False \<open>rest = x # rest'\<close> by (intro exI [of _ "x # as"] exI [of _ bs]) simp
  qed
qed simp

lemma release_id_fields [simp]:
  "iq_queue (release_id i q) = iq_queue q" "iq_handlers (release_id i q) = iq_handlers q"
  by (simp_all add: release_id_def)

lemma record_failure_fields [simp]:
  "iq_queue (record_failure t err q) = iq_queue q" "iq_handlers (record_failure t err q) = iq_handlers q"
  "iq_seen (record_failure t err q) = iq_seen q"
  by (simp_all add: record_failure_def split: option.split)

lemma drain_ends:
  assumes "tasks_shrink cost H"
  shows "iq_handlers q = H \<Longrightarrow> it_type ` set (iq_queue q) \<subseteq> dom H \<Longrightarrow> queue_cost cost (iq_queue q) < n \<Longrightarrow>
     \<exists>w' q'. drain clock n (w, q) = (None, w', q') \<and> list_all (\<lambda>t. \<not> is_due (clock w') t) (iq_queue q')"
proof (induction n arbitrary: w q)
  case (Suc n)
  show ?case
  proof (cases "take_due (clock w) (iq_queue q)")
    case None
    then show ?thesis using take_due_None [of "clock w" "iq_queue q"] by simp
  next
    case (Some x)
    then obtain t rest where due: "take_due (clock w) (iq_queue q) = Some (t, rest)" by (cases x) auto
    then obtain as bs where q: "iq_queue q = as @ t # bs" "rest = as @ bs" using take_due_Some by blast
    then obtain h where h: "iq_handlers q (it_type t) = Some h" using Suc.prems by auto
    let ?k = "po_retry (policy_for (it_type t))"
    obtain r w1 q1 where run: "run_attempts h (it_payload t) ?k (w, q\<lparr>iq_queue := rest\<rparr>) = (r, w1, q1)" by (metis prod_cases3)
    let ?B = "(cost (it_type t) (it_payload t) - 1) div (?k + 1)"
    have "en_type ` set calls \<subseteq> dom H \<and> (\<Sum>c\<leftarrow>calls. call_cost cost c) \<le> ?B"
      if "h final (it_payload t) w2 = (err, calls, w3)" for final w2 err calls w3
    proof -
      have "en_type ` set calls \<subseteq> dom H \<and> (?k + 1) * (\<Sum>c\<leftarrow>calls. call_cost cost c) < cost (it_type t) (it_payload t)"
        using tasks_shrinkD [of cost H "it_type t" h final "it_payload t" w2 err calls w3] assms h Suc.prems(1) that by simp
      then have "(\<Sum>c\<leftarrow>calls. call_cost cost c) * (?k + 1) \<le> cost (it_type t) (it_payload t) - 1"
        unfolding mult.commute [of "sum_list _"] by linarith
      then show ?thesis using \<open>_ \<and> _\<close> by (simp only: less_eq_div_iff_mult_less_eq add_gr_0 zero_less_one simp_thms)
    qed
    from run_attempts_bounded [of h "it_payload t" "dom H" cost ?B, OF this run]
    have q1: "iq_handlers q1 = H" "it_type ` set (iq_queue q1) \<subseteq> dom H \<union> it_type ` set rest"
      "queue_cost cost (iq_queue q1) \<le> queue_cost cost rest + (?k + 1) * ?B" using Suc.prems(1) by auto
    have pos: "0 < cost (it_type t) (it_payload t)"
    proof -
      obtain err calls w2 where "h True (it_payload t) w = (err, calls, w2)" by (metis prod_cases3)
      with tasks_shrinkD [of cost H "it_type t" h True "it_payload t" w err calls w2] assms h Suc.prems(1) show ?thesis by simp
    qed
    have "(?k + 1) * ?B \<le> cost (it_type t) (it_payload t) - 1" by (rule times_div_less_eq_dividend)
    then have "queue_cost cost (iq_queue q1) < n"
      using q1(3) pos Suc.prems(3) q by (simp add: queue_cost_def)
    moreover have "it_type ` set (iq_queue q1) \<subseteq> dom H" using q1(2) Suc.prems(2) q by auto
    ultimately have "\<exists>w' q'. drain clock n (w1, record_failure t r (release_id (it_id t) q1)) = (None, w', q')
        \<and> list_all (\<lambda>t. \<not> is_due (clock w') t) (iq_queue q')"
      using q1(1) by (intro Suc.IH) simp_all
    then show ?thesis using h run by (simp add: due)
  qed
qed simp

subsection \<open>The attempts of a task\<close>

text \<open>A handler with a log of its attempts: whether each was told to be the final one, and its error.\<close>

definition logged :: "'w handler \<Rightarrow> ('w \<times> (bool \<times> task_failure option) list) handler" where
  "logged h final payload x =
     (let (err, calls, w) = h final payload (fst x) in (err, calls, (w, snd x @ [(final, err)])))"

text \<open>
  The log of a task whose policy allows \<open>k\<close> retries, from the attempt \<open>i\<close> on: an attempt is told to be
  final as the Redis workers would tell it; after each attempt but the last the task failed and their
  middleware would not send a dead letter; after the last it would exactly when the task failed.
\<close>

fun attempts_ok :: "nat \<Rightarrow> nat \<Rightarrow> task_failure option \<Rightarrow> (bool \<times> task_failure option) list \<Rightarrow> bool" where
  "attempts_ok k i err [] = False"
| "attempts_ok k i err [(final, e)] \<longleftrightarrow>
     i \<le> k \<and> e = err \<and> final = is_final_attempt (Some i) (Some k) False
     \<and> middleware_dead True err i k = (if err = None then None else Some (i + 1))"
| "attempts_ok k i err ((final, e) # x # xs) \<longleftrightarrow>
     i < k \<and> e \<noteq> None \<and> final = is_final_attempt (Some i) (Some k) False
     \<and> middleware_dead True e i k = None \<and> attempts_ok k (i + 1) err (x # xs)"

lemma attempts_ok_length: "attempts_ok k i err xs \<Longrightarrow> i + length xs \<le> k + 1"
  by (induction k i err xs rule: attempts_ok.induct) auto

lemma attempts_ok_Cons:
  "attempts_ok k (Suc i) err xs \<Longrightarrow> i < k \<Longrightarrow> \<not> tf_skip e \<Longrightarrow> attempts_ok k i err ((False, Some e) # xs)"
  by (cases xs) (auto simp: is_final_attempt_def middleware_dead_def)

lemma run_attempts_logged:
  "i + k = m \<Longrightarrow> run_attempts (logged h) payload k ((w, log), q) = (err, (w', log'), q') \<Longrightarrow>
     \<exists>xs. log' = log @ xs \<and> attempts_ok m i err xs"
proof (induction k arbitrary: i w log q)
  case 0
  obtain e calls w1 where "h True payload w = (e, calls, w1)" by (metis prod_cases3)
  then have "logged h (0 = (0::nat)) payload (w, log) = (e, calls, (w1, log @ [(True, e)]))" by (simp add: logged_def)
  from run_attempts_step [of "logged h" 0 payload "(w, log)" e calls "(w1, log @ [(True, e)])" q, OF this] have "log' = log @ [(True, e)] \<and> err = e"
    using "0.prems"(2) by (auto split: option.splits)
  then show ?case using "0.prems"(1)
    by (intro exI [of _ "[(True, e)]"]) (auto simp: is_final_attempt_def middleware_dead_def split: option.split)
next
  case (Suc k)
  obtain e calls w1 where "h False payload w = (e, calls, w1)" by (metis prod_cases3)
  then have run: "logged h (Suc k = 0) payload (w, log) = (e, calls, (w1, log @ [(False, e)]))" by (simp add: logged_def)
  show ?case
  proof (cases "\<exists>f. e = Some f \<and> \<not> tf_skip f")
    case False
    then have "log' = log @ [(False, e)] \<and> err = e"
      using Suc.prems(2) run_attempts_step [of "logged h" "Suc k" payload "(w, log)" e calls "(w1, log @ [(False, e)])" q, OF run] by (auto split: option.splits)
    then show ?thesis using Suc.prems(1) False
      by (intro exI [of _ "[(False, e)]"]) (auto simp: is_final_attempt_def middleware_dead_def split: option.split)
  next
    case True
    then obtain f where f: "e = Some f" "\<not> tf_skip f" by blast
    then have "run_attempts (logged h) payload k ((w1, log @ [(False, e)]), enqueue_all calls q) = (err, (w', log'), q')"
      using Suc.prems(2) run_attempts_step [of "logged h" "Suc k" payload "(w, log)" e calls "(w1, log @ [(False, e)])" q, OF run] by simp
    from Suc.IH [OF _ this, of "Suc i"] Suc.prems(1)
    obtain xs where xs: "log' = (log @ [(False, e)]) @ xs" "attempts_ok m (Suc i) err xs" by auto
    have "attempts_ok m i err ((False, e) # xs)"
      unfolding f(1) using Suc.prems(1) by (intro attempts_ok_Cons [OF xs(2) _ f(2)]) simp
    with xs(1) show ?thesis by (intro exI [of _ "(False, e) # xs"]) simp
  qed
qed

subsection \<open>Task ids\<close>

definition pending_ids :: "'w inline_queue \<Rightarrow> string list" where
  "pending_ids q = filter (\<lambda>i. i \<noteq> []) (map it_id (iq_queue q))"

text \<open>No id is pending twice, and the ids that are pending, or the id of the running task, are taken.\<close>

definition ids_once :: "string \<Rightarrow> 'w inline_queue \<Rightarrow> bool" where
  "ids_once running q \<longleftrightarrow>
     distinct (pending_ids q) \<and> set (pending_ids q) \<subseteq> iq_seen q
     \<and> (running \<noteq> [] \<longrightarrow> running \<in> iq_seen q \<and> running \<notin> set (pending_ids q))"

lemma enqueue_inline_ids: "ids_once r q \<Longrightarrow> ids_once r (snd (enqueue_inline c q))"
  by (auto simp: ids_once_def pending_ids_def enqueue_inline_def split: option.split)

lemma enqueue_all_ids: "ids_once r q \<Longrightarrow> ids_once r (enqueue_all cs q)"
  by (induction cs arbitrary: q) (simp_all add: enqueue_inline_ids)

lemma run_attempts_ids:
  "run_attempts h payload k (w, q) = (err, w', q') \<Longrightarrow> ids_once r q \<Longrightarrow> ids_once r q'"
proof (induction k arbitrary: w q)
  case 0
  obtain e calls w1 where "h (0 = (0::nat)) payload w = (e, calls, w1)" by (metis prod_cases3)
  from run_attempts_step [of h 0 payload w e calls w1 q, OF this] 0 show ?case by (auto intro: enqueue_all_ids split: option.splits)
next
  case (Suc k)
  obtain e calls w1 where "h (Suc k = 0) payload w = (e, calls, w1)" by (metis prod_cases3)
  from run_attempts_step [of h "Suc k" payload w e calls w1 q, OF this] Suc.prems Suc.IH [of w1 "enqueue_all calls q"] show ?case
    by (auto intro: enqueue_all_ids split: option.splits if_splits)
qed

lemma register_ids: "ids_once r q \<Longrightarrow> ids_once r (register_handlers hs sink q)"
  by (simp add: ids_once_def pending_ids_def register_handlers_def)

lemma release_ids: "ids_once i q \<Longrightarrow> ids_once [] (record_failure t e (release_id i q))"
  by (cases "i = []") (auto simp: ids_once_def pending_ids_def release_id_def)

lemma drain_ids: "drain clock n (w, q) = (r, w', q') \<Longrightarrow> ids_once [] q \<Longrightarrow> ids_once [] q'"
proof (induction n arbitrary: w q)
  case (Suc n)
  show ?case
  proof (cases "take_due (clock w) (iq_queue q)")
    case None
    then show ?thesis using Suc.prems by simp
  next
    case (Some x)
    then obtain t rest where due: "take_due (clock w) (iq_queue q) = Some (t, rest)" by (cases x) auto
    then obtain as bs where q: "iq_queue q = as @ t # bs" "rest = as @ bs" using take_due_Some by blast
    let ?q = "q\<lparr>iq_queue := rest\<rparr>"
    have ids: "ids_once (it_id t) ?q" using Suc.prems(2) q by (cases "it_id t = []") (auto simp: ids_once_def pending_ids_def)
    show ?thesis
    proof (cases "iq_handlers q (it_type t)")
      case None
      then show ?thesis using Suc.prems(1) ids by (auto simp: due ids_once_def pending_ids_def)
    next
      case (Some h)
      obtain e w1 q1 where run: "run_attempts h (it_payload t) (po_retry (policy_for (it_type t))) (w, ?q) = (e, w1, q1)"
        by (metis prod_cases3)
      have "ids_once [] (record_failure t e (release_id (it_id t) q1))"
        by (rule release_ids [OF run_attempts_ids [OF run ids]])
      then show ?thesis using Suc.IH Suc.prems(1) Some run by (simp add: due)
    qed
  qed
qed simp

text \<open>The queue as a state machine: handlers are registered, tasks enqueued and drained, and the world moves on.\<close>

inductive inline_step :: "('w \<Rightarrow> int) \<Rightarrow> 'w \<times> 'w inline_queue \<Rightarrow> 'w \<times> 'w inline_queue \<Rightarrow> bool" for clock where
  step_register: "inline_step clock (w, q) (w, register_handlers hs sink q)"
| step_enqueue: "inline_step clock (w, q) (w, snd (enqueue_inline c q))"
| step_drain: "drain clock n (w, q) = (r, w', q') \<Longrightarrow> inline_step clock (w, q) (w', q')"
| step_world: "inline_step clock (w, q) (w', q)"

interpretation queue_runs: preserved "inline_step clock" "(w, new_inline)" "\<lambda>x. ids_once [] (snd x)" for clock w
proof unfold_locales
  show "ids_once [] (snd (w, new_inline))" by (simp add: ids_once_def pending_ids_def new_inline_def)
  fix s s' assume "inline_step clock s s'" "ids_once [] (snd s)"
  then show "ids_once [] (snd s')"
    by cases (auto intro: enqueue_inline_ids drain_ids register_ids)
qed

subsection \<open>Properties\<close>

text \<open>Every task type of the topology is put on a queue that serves it; a heavier lane is used for interactive tasks only.\<close>

definition lane_ok :: "bool \<Rightarrow> string \<Rightarrow> bool" where
  "lane_ok interactive t \<longleftrightarrow>
     (case find (\<lambda>d. qd_name d = queue_for t interactive) queue_definitions of
        None \<Rightarrow> False
      | Some d \<Rightarrow> t \<in> set (qd_tasks d) \<and> qd_pool d \<in> set pools
          \<and> (interactive \<or> qd_weight d = 1 \<or> filter (\<lambda>d. t \<in> set (qd_tasks d)) queue_definitions = [d]))"

lemma topology_routes:
  "list_all (lane_ok True) (concat (map qd_tasks queue_definitions)) \<and> list_all (lane_ok False) (concat (map qd_tasks queue_definitions))"
  by code_simp

text \<open>
  C11: A drain returns without an error and leaves no task that is due, whatever the handlers do, when
  every task has a handler and a cost above what all its attempts enqueue, and the limit is above the
  cost of the queue.
\<close>

theorem drain_completes:
  "tasks_shrink cost (iq_handlers q) \<Longrightarrow> it_type ` set (iq_queue q) \<subseteq> dom (iq_handlers q) \<Longrightarrow>
   queue_cost cost (iq_queue q) < n \<Longrightarrow>
   (case drain clock n (w, q) of (err, w', q') \<Rightarrow> err = None \<and> list_all (\<lambda>t. \<not> is_due (clock w') t) (iq_queue q'))"
  using drain_ends [of cost "iq_handlers q" q n clock w] by auto

definition render_handlers :: "string \<rightharpoonup> unit handler" where
  "render_handlers =
     [''page:render'' \<mapsto> (\<lambda>final payload w. (Some (TaskFailure ''busy'' False),
        [\<lparr>en_type = ''page:ocr'', en_payload = Some payload, en_opts = \<lparr>to_id = payload, to_interactive = False, to_in = 0\<rparr>, en_now = 0\<rparr>], w)),
      ''page:ocr'' \<mapsto> (\<lambda>final payload w. (None, [], w))]"

definition render_cost :: "string \<Rightarrow> string \<Rightarrow> nat" where
  "render_cost t payload = (if t = ''page:render'' then 5 else 1)"

definition render_queue :: "unit inline_queue" where
  "render_queue = snd (enqueue_inline \<lparr>en_type = ''page:render'', en_payload = Some ''7'',
     en_opts = \<lparr>to_id = ''render:7'', to_interactive = False, to_in = 0\<rparr>, en_now = 0\<rparr>
     (register_handlers render_handlers True new_inline))"

lemma render_shrinks: "tasks_shrink render_cost render_handlers"
  by (simp add: tasks_shrink_def render_handlers_def render_cost_def call_cost_def policy_for_def policies_def)

lemma drain_completes_witness:
  "case drain (\<lambda>_. 0) 6 ((), render_queue) of (err, w', q') \<Rightarrow> err = None \<and> list_all (\<lambda>t. \<not> is_due 0 t) (iq_queue q')"
proof -
  have "iq_handlers render_queue = render_handlers" "it_type ` set (iq_queue render_queue) = {''page:render''}"
    "queue_cost render_cost (iq_queue render_queue) < 6"
    by (simp_all add: render_queue_def enqueue_inline_def register_handlers_def new_inline_def queue_cost_def render_cost_def)
  moreover have "''page:render'' \<in> dom render_handlers" by (simp add: render_handlers_def)
  ultimately show ?thesis
    using drain_completes [of render_cost render_queue 6 "\<lambda>_. 0" "()"] render_shrinks by simp
qed

text \<open>
  Whatever is registered, enqueued and drained, no task id is pending twice: every pending id is
  marked as taken, so another task with it is not accepted.
\<close>

theorem task_ids_once:
  "(inline_step clock)\<^sup>*\<^sup>* (w, new_inline) (w', q) \<Longrightarrow> distinct (pending_ids q) \<and> set (pending_ids q) \<subseteq> iq_seen q"
  using queue_runs.always [of clock w "(w', q)"] by (simp add: ids_once_def)

definition twice_enqueued :: "unit inline_queue" where
  "twice_enqueued =
     (let c = \<lparr>en_type = ''page:ocr'', en_payload = Some ''7'', en_opts = \<lparr>to_id = ''ocr:7'', to_interactive = False, to_in = 0\<rparr>, en_now = 0\<rparr>
      in snd (enqueue_inline c (snd (enqueue_inline c new_inline))))"

lemma task_ids_once_witness: "distinct (pending_ids twice_enqueued) \<and> pending_ids twice_enqueued = [''ocr:7'']"
proof -
  have "(inline_step (\<lambda>_. 0))\<^sup>*\<^sup>* ((), new_inline) ((), twice_enqueued)"
    unfolding twice_enqueued_def Let_def
    by (rule rtranclp.rtrancl_into_rtrancl, rule r_into_rtranclp, rule step_enqueue, rule step_enqueue)
  from task_ids_once [OF this] show ?thesis
    by (simp add: twice_enqueued_def enqueue_inline_def new_inline_def pending_ids_def)
qed

text \<open>
  C13: A task is attempted at most once more than its policy retries, and as the Redis workers would:
  each attempt is told rightly whether it is the final one, the task is attempted again exactly after a
  failure for which the middleware of the workers sends no dead letter, and it fails at the end
  exactly when the middleware sends one.
\<close>

theorem attempts_follow_policy:
  "(case run_attempts (logged h) payload (po_retry (policy_for t)) ((w, []), q) of
      (err, (w', log), q') \<Rightarrow> attempts_ok (po_retry (policy_for t)) 0 err log \<and> length log \<le> po_retry (policy_for t) + 1)"
proof -
  let ?k = "po_retry (policy_for t)"
  obtain err w' log q' where run: "run_attempts (logged h) payload ?k ((w, []), q) = (err, (w', log), q')"
    by (metis prod_cases3 surj_pair)
  from run_attempts_logged [OF _ run, of 0 ?k] have "attempts_ok ?k 0 err log" by simp
  with attempts_ok_length [OF this] run show ?thesis by simp
qed

text \<open>
  A task of a type without a handler is taken off the queue while its id stays taken: when its
  handler is registered later, the task can never be enqueued again under its id.
\<close>

theorem unhandled_id_stays_taken:
  "(let c = \<lparr>en_type = ''page:ocr'', en_payload = Some ''7'', en_opts = \<lparr>to_id = ''ocr:7'', to_interactive = False, to_in = 0\<rparr>, en_now = 0\<rparr>;
        (err, w, q) = drain (\<lambda>_. 0) 5 ((), snd (enqueue_inline c new_inline));
        (ok, q') = enqueue_inline c (register_handlers [''page:ocr'' \<mapsto> h] True q)
    in err = Some (NoHandler ''page:ocr'') \<and> ok \<and> iq_queue q' = [] \<and> iq_failed q' = [])"
  by (simp add: enqueue_inline_def new_inline_def is_due_def register_handlers_def eval_nat_numeral)

text \<open>The dead letter of a task that gave up at its first attempt counts all the attempts of its policy.\<close>

lemma skipped_task_attempts:
  "map dd_attempts (iq_dead (snd (snd (drain (\<lambda>_. 0) 5 ((), snd (enqueue_inline
      \<lparr>en_type = ''page:ocr'', en_payload = Some ''7'', en_opts = \<lparr>to_id = [], to_interactive = False, to_in = 0\<rparr>, en_now = 0\<rparr>
      (register_handlers [''page:ocr'' \<mapsto> (\<lambda>_ _ w. (Some (TaskFailure ''bad page'' True), [], w))] True new_inline))))))) = [4]"
  by (simp add: enqueue_inline_def new_inline_def is_due_def register_handlers_def run_attempts.simps record_failure_def release_id_def
      policy_for_def policies_def eval_nat_numeral)

end
