(* ===== verification/Utf8.thy ===== *)
theory Utf8
  imports TextUtil
begin

text \<open>
  Valid UTF-8: the texts that decoding and encoding give back. A valid text decodes on its own wherever it
  stands, and a valid text found inside another begins and ends at rune boundaries.
\<close>

definition utf8 :: "string \<Rightarrow> bool" where
  "utf8 s \<longleftrightarrow> list_all valid_rune (runes s) \<and> encode (runes s) = s"

lemma utf8_encode [intro]: "list_all valid_rune rs \<Longrightarrow> utf8 (encode rs)"
  by (simp add: utf8_def runes_encode)

lemma utf8_obtain:
  assumes "utf8 s"
  obtains rs where "list_all valid_rune rs" "s = encode rs"
  using assms unfolding utf8_def by metis

lemma encode_append [simp]: "encode (rs @ rs') = encode rs @ encode rs'"
  by (simp add: encode_def)

lemma encode_simps [simp]: "encode [] = []" "encode (r # rs) = encode_rune r @ encode rs"
  by (simp_all add: encode_def)

lemma runes_encode_append: "list_all valid_rune rs \<Longrightarrow> runes (encode rs @ s) = rs @ runes s"
proof (induction rs)
  case (Cons r rs)
  have "encode_rune r @ encode rs @ s \<noteq> []" by simp
  then show ?case using Cons
    by (subst runes.simps) (simp add: decode_encode_rune)
qed simp

lemma runes_append: "utf8 s \<Longrightarrow> runes (s @ t) = runes s @ runes t"
  by (metis runes_encode_append utf8_def)

lemma utf8_append [intro]: "utf8 s \<Longrightarrow> utf8 t \<Longrightarrow> utf8 (s @ t)"
  by (simp add: utf8_def runes_append)

lemma utf8_Nil [simp]: "utf8 []"
  by (simp add: utf8_def)

lemma utf8_ascii: "ascii s \<Longrightarrow> utf8 s"
  by (induction s) (simp_all add: utf8_def valid_rune_def encode_rune_def)

lemma rune_len_append: "utf8 s \<Longrightarrow> rune_len (s @ t) = rune_len s + rune_len t"
  by (simp add: rune_len_def runes_append)

subsection \<open>Boundaries\<close>

lemma encode_rune_bytes:
  assumes "valid_rune r"
  obtains c cs where "encode_rune r = c # cs" "\<not> is_cont (of_char c)" "list_all (\<lambda>c. is_cont (of_char c)) cs"
proof -
  have m: "x mod 64 < 64" for x :: nat by simp
  have d: "r < 2048 \<Longrightarrow> r div 64 < 32" "r < 65536 \<Longrightarrow> r div 4096 < 16" "r < 1114112 \<Longrightarrow> r div 262144 < 5" by auto
  have "\<exists>c cs. encode_rune r = c # cs \<and> \<not> is_cont (of_char c) \<and> list_all (\<lambda>c. is_cont (of_char c)) cs"
    using assms d m [of r] m [of "r div 64"] m [of "r div 4096"]
    by (auto simp: encode_rune_def valid_rune_def is_cont_def)
  then show ?thesis using that by blast
qed

lemma encode_hd_boundary:
  assumes "list_all valid_rune rs" "encode rs = c # s"
  shows "\<not> is_cont (of_char c)"
proof (cases rs)
  case (Cons r rs')
  from assms Cons obtain d ds where "encode_rune r = d # ds" "\<not> is_cont (of_char d)"
    by (metis encode_rune_bytes list.pred_inject(2))
  then show ?thesis using assms Cons by simp
qed (use assms in simp)

text \<open>A place before a byte that starts a rune is a boundary.\<close>

lemma encode_split:
  assumes "list_all valid_rune rs" "encode rs = x @ c # y" "\<not> is_cont (of_char c)"
  shows "\<exists>as bs. rs = as @ bs \<and> x = encode as \<and> c # y = encode bs"
  using assms
proof (induction rs arbitrary: x)
  case (Cons r rs)
  from Cons.prems(1) obtain d ds where r: "encode_rune r = d # ds" "list_all (\<lambda>c. is_cont (of_char c)) ds"
    by (metis encode_rune_bytes list.pred_inject(2))
  show ?case
  proof (cases x)
    case Nil
    then show ?thesis using Cons.prems by (metis append_Nil encode_simps(1))
  next
    case (Cons e x')
    with Cons.prems(2) r have eq: "ds @ encode rs = x' @ c # y" "e = d" by simp_all
    from eq(1) consider x'' where "x' = ds @ x''" "encode rs = x'' @ c # y" | u where "ds = x' @ c # u"
      by (auto simp: append_eq_append_conv2 append_eq_Cons_conv Cons_eq_append_conv)
    then show ?thesis
    proof cases
      case 1
      then obtain as bs where "rs = as @ bs" "x'' = encode as" "c # y = encode bs"
        using Cons.IH [of x''] Cons.prems by auto
      with 1 eq(2) r Cons show ?thesis by (intro exI [of _ "r # as"] exI [of _ bs]) simp
    next
      case 2
      with r Cons.prems(3) show ?thesis by simp
    qed
  qed
qed simp

lemma encode_prefix:
  assumes "list_all valid_rune ts" "list_all valid_rune rs" "encode rs = encode ts @ u"
  shows "\<exists>bs. rs = ts @ bs \<and> u = encode bs"
  using assms
proof (induction ts arbitrary: rs)
  case Nil
  then show ?case by simp
next
  case (Cons t ts)
  have "encode_rune t \<noteq> []" by simp
  with Cons.prems obtain r rs' where rs: "rs = r # rs'"
    by (cases rs) auto
  have "decode_rune (encode_rune r @ encode rs') = decode_rune (encode_rune t @ encode ts @ u)"
    using Cons.prems(3) rs by simp
  moreover have "valid_rune r" "valid_rune t" using Cons.prems rs by simp_all
  ultimately have "r = t" by (metis decode_encode_rune fst_conv)
  with Cons rs show ?case by simp
qed

text \<open>A valid text found in a valid text: what stands before and after it is valid.\<close>

lemma utf8_found:
  assumes "utf8 (x @ t @ u)" "utf8 t" "t \<noteq> []"
  shows "utf8 x \<and> utf8 u"
proof -
  obtain rs where rs: "list_all valid_rune rs" "encode rs = x @ t @ u" using assms(1) by (metis utf8_obtain)
  obtain ts where ts: "list_all valid_rune ts" "t = encode ts" using assms(2) by (metis utf8_obtain)
  obtain c t' where t: "t = c # t'" using assms(3) by (cases t) auto
  have c: "\<not> is_cont (of_char c)" using encode_hd_boundary [OF ts(1)] ts(2) t by metis
  have "encode rs = x @ c # (t' @ u)" using rs t by simp
  from encode_split [OF rs(1) this c] obtain as bs where
    split: "rs = as @ bs" "x = encode as" "t @ u = encode bs" using t by auto
  have bs: "list_all valid_rune bs" and as: "list_all valid_rune as" using rs(1) split(1) by simp_all
  from split(3) ts(2) have "encode bs = encode ts @ u" by simp
  from encode_prefix [OF ts(1) bs this] obtain cs where "bs = ts @ cs" "u = encode cs" by blast
  with split as bs show ?thesis by auto
qed

end
