(* ===== verification/PageLayout.thy ===== *)
theory PageLayout
  imports Sections
begin

text \<open>
  The layout of a page (\<^verbatim>\<open>docpipe/parser/engine.go\<close>, \<^verbatim>\<open>docpipe/types/parse.go\<close> and the first half of
  \<^verbatim>\<open>docpipe/parser/assemble/build.go\<close>): the raw page of an engine, the reading order of its lines, the
  blocks they go to, and the order of the blocks. The argument \<open>rnd\<close> rounds to a \<^verbatim>\<open>float64\<close>.
\<close>

subsection \<open>Geometry\<close>

type_synonym point = "rat \<times> rat"
type_synonym quad = "point \<times> point \<times> point \<times> point"

definition point_box :: "bbox \<Rightarrow> point \<Rightarrow> bbox" where
  "point_box b p = \<lparr>bx0 = min (bx0 b) (fst p), by0 = min (by0 b) (snd p), bx1 = max (bx1 b) (fst p), by1 = max (by1 b) (snd p)\<rparr>"

definition quad_box :: "quad \<Rightarrow> bbox" where
  "quad_box q =
     (case q of (a, b, c, d) \<Rightarrow>
        foldl point_box \<lparr>bx0 = fst a, by0 = snd a, bx1 = fst a, by1 = snd a\<rparr> [b, c, d])"

definition quad_from_box :: "bbox \<Rightarrow> quad" where
  "quad_from_box b = ((bx0 b, by0 b), (bx1 b, by0 b), (bx1 b, by1 b), (bx0 b, by1 b))"

definition box_width :: "(rat \<Rightarrow> rat) \<Rightarrow> bbox \<Rightarrow> rat" where
  "box_width rnd b = rnd (bx1 b - bx0 b)"

definition box_height :: "(rat \<Rightarrow> rat) \<Rightarrow> bbox \<Rightarrow> rat" where
  "box_height rnd b = rnd (by1 b - by0 b)"

definition box_contains :: "bbox \<Rightarrow> rat \<Rightarrow> rat \<Rightarrow> bool" where
  "box_contains b x y \<longleftrightarrow> bx0 b \<le> x \<and> x \<le> bx1 b \<and> by0 b \<le> y \<and> y \<le> by1 b"

definition h_overlap :: "(rat \<Rightarrow> rat) \<Rightarrow> bbox \<Rightarrow> bbox \<Rightarrow> rat" where
  "h_overlap rnd a b = max 0 (rnd (min (bx1 a) (bx1 b) - max (bx0 a) (bx0 b)))"

text \<open>\<open>a\<close> lies above \<open>b\<close> and they share at least 30\% of the width of the narrower one.\<close>

definition must_precede :: "(rat \<Rightarrow> rat) \<Rightarrow> bbox \<Rightarrow> bbox \<Rightarrow> bool" where
  "must_precede rnd a b \<longleftrightarrow>
     (let tol = rnd (min (box_height rnd a) (box_height rnd b) * rnd (1 / 5)); w = min (box_width rnd a) (box_width rnd b)
      in \<not> by1 a > rnd (by0 b + tol) \<and> w > 0 \<and> h_overlap rnd a b \<ge> rnd (rnd (3 / 10) * w))"

subsection \<open>The raw page\<close>

record raw_line =
  rl_id :: int
  rl_text :: string
  rl_conf :: rat
  rl_quad :: quad
  rl_layout :: int

record raw_region =
  rr_id :: int
  rr_class :: string
  rr_conf :: rat
  rr_quad :: quad
  rr_html :: string
  rr_latex :: string
  rr_text :: string

record raw_page =
  rp_width :: int
  rp_height :: int
  rp_lines :: "raw_line list"
  rp_regions :: "raw_region list"
  rp_order :: "int list"
  rp_markdown :: string

definition line_box :: "raw_page \<Rightarrow> nat \<Rightarrow> bbox" where
  "line_box p i = quad_box (rl_quad (rp_lines p ! i))"

subsection \<open>Reading order\<close>

text \<open>The last index with an id: what a map filled in a loop holds.\<close>

definition last_index :: "('a \<Rightarrow> bool) \<Rightarrow> 'a list \<Rightarrow> nat option" where
  "last_index P xs = (case filter (\<lambda>i. P (xs ! i)) [0..<length xs] of [] \<Rightarrow> None | is \<Rightarrow> Some (last is))"

definition see_line :: "raw_page \<Rightarrow> nat list \<Rightarrow> int \<Rightarrow> nat list" where
  "see_line p seen i =
     (case last_index (\<lambda>l. rl_id l = i) (rp_lines p) of
        None \<Rightarrow> seen
      | Some j \<Rightarrow> if j \<in> set seen then seen else seen @ [j])"

text \<open>
  The comparison of the lines that the reading order misses: by height when they are more than half a
  line apart, else from left to right. It is not an order, so what \<^verbatim>\<open>sort.SliceStable\<close> makes of it is the
  argument \<open>arrange\<close>, of which only is used that it gives the same lines in some order.
\<close>

definition reads_before :: "(rat \<Rightarrow> rat) \<Rightarrow> raw_page \<Rightarrow> nat \<Rightarrow> nat \<Rightarrow> bool" where
  "reads_before rnd p i j \<longleftrightarrow>
     (let a = line_box p i; b = line_box p j in
      if \<bar>rnd (by0 a - by0 b)\<bar> > rnd (min (box_height rnd a) (box_height rnd b) / 2) then by0 a < by0 b else bx0 a < bx0 b)"

type_synonym arrange = "(nat \<Rightarrow> nat \<Rightarrow> bool) \<Rightarrow> nat list \<Rightarrow> nat list"

definition reading_order :: "(rat \<Rightarrow> rat) \<Rightarrow> arrange \<Rightarrow> raw_page \<Rightarrow> nat list" where
  "reading_order rnd arrange p =
     (let seen = foldl (see_line p) [] (rp_order p)
      in seen @ arrange (reads_before rnd p) (filter (\<lambda>i. i \<notin> set seen) [0..<length (rp_lines p)]))"

text \<open>The rank of a line is its place in the reading order.\<close>

definition place_of :: "nat list \<Rightarrow> nat \<Rightarrow> nat" where
  "place_of xs i = length (takeWhile (\<lambda>j. j \<noteq> i) xs)"

definition line_ranks :: "(rat \<Rightarrow> rat) \<Rightarrow> arrange \<Rightarrow> raw_page \<Rightarrow> nat list" where
  "line_ranks rnd arrange p = map (place_of (reading_order rnd arrange p)) [0..<length (rp_lines p)]"

subsection \<open>Blocks\<close>

record pblock =
  bl_no :: nat
  bl_source :: int
  bl_type :: string
  bl_class :: string
  bl_conf :: rat
  bl_box :: bbox
  bl_text :: string
  bl_html :: string
  bl_latex :: string
  bl_asset :: string
  bl_furniture :: bool
  bl_text_source :: string
  bl_from :: int
  bl_to :: int

definition default_class_map :: "(string \<times> string) list" where
  "default_class_map =
     [(''doc_title'', ''title''), (''paragraph_title'', ''heading''), (''text'', ''paragraph''), (''abstract'', ''paragraph''),
      (''content'', ''paragraph''), (''reference'', ''paragraph''), (''aside_text'', ''paragraph''), (''algorithm'', ''paragraph''),
      (''table'', ''table''), (''formula'', ''formula''), (''formula_number'', ''formula''), (''image'', ''figure''),
      (''figure'', ''figure''), (''chart'', ''figure''), (''seal'', ''figure''), (''header_image'', ''figure''),
      (''footer_image'', ''figure''), (''figure_title'', ''caption''), (''table_title'', ''caption''), (''chart_title'', ''caption''),
      (''header'', ''header''), (''footer'', ''footer''), (''number'', ''page_number''), (''footnote'', ''footnote'')]"

definition block_type_of :: "string \<Rightarrow> (string \<rightharpoonup> string) \<Rightarrow> string" where
  "block_type_of class overrides =
     (let c = to_lower (trim_space class) in
      case overrides c of Some v \<Rightarrow> v
      | None \<Rightarrow> (case map_of default_class_map c of Some v \<Rightarrow> v | None \<Rightarrow> ''unknown''))"

record work_block =
  wb_block :: pblock
  wb_lines :: "nat list"
  wb_rank :: rat
  wb_refined :: string

definition region_block :: "(string \<rightharpoonup> string) \<Rightarrow> raw_region \<Rightarrow> pblock" where
  "region_block overrides r =
     \<lparr>bl_no = 0, bl_source = rr_id r, bl_type = block_type_of (rr_class r) overrides, bl_class = rr_class r, bl_conf = rr_conf r,
      bl_box = quad_box (rr_quad r), bl_text = [], bl_html = rr_html r, bl_latex = rr_latex r, bl_asset = [], bl_furniture = False,
      bl_text_source = [], bl_from = 0, bl_to = 0\<rparr>"

text \<open>The smallest region whose box has the centre of a box; of equal ones the first.\<close>

definition box_area :: "(rat \<Rightarrow> rat) \<Rightarrow> bbox \<Rightarrow> rat" where
  "box_area rnd b = rnd (box_width rnd b * box_height rnd b)"

definition containing :: "(rat \<Rightarrow> rat) \<Rightarrow> bbox list \<Rightarrow> bbox \<Rightarrow> nat option" where
  "containing rnd boxes b =
     (let cx = rnd (rnd (bx0 b + bx1 b) / 2); cy = rnd (rnd (by0 b + by1 b) / 2) in
      foldl (\<lambda>best i. if \<not> box_contains (boxes ! i) cx cy then best
          else case best of None \<Rightarrow> Some i
            | Some j \<Rightarrow> if box_area rnd (boxes ! i) < box_area rnd (boxes ! j) then Some i else Some j)
        None [0..<length boxes])"

text \<open>The region of a line: that of the engine, else the smallest one around it.\<close>

definition line_region :: "(rat \<Rightarrow> rat) \<Rightarrow> raw_page \<Rightarrow> nat \<Rightarrow> nat option" where
  "line_region rnd p i =
     (case last_index (\<lambda>r. rr_id r = rl_layout (rp_lines p ! i)) (rp_regions p) of
        Some j \<Rightarrow> Some j
      | None \<Rightarrow> containing rnd (map (\<lambda>r. quad_box (rr_quad r)) (rp_regions p)) (line_box p i))"

text \<open>Orphans: runs of lines of consecutive ranks; \<open>xs\<close> is sorted by rank.\<close>

fun rank_runs :: "(nat \<Rightarrow> nat) \<Rightarrow> nat list \<Rightarrow> nat list list" where
  "rank_runs rank [] = []"
| "rank_runs rank (x # xs) =
     (case rank_runs rank xs of
        (y # ys) # runs \<Rightarrow> if rank y = rank x + 1 then (x # y # ys) # runs else [x] # (y # ys) # runs
      | runs \<Rightarrow> [x] # runs)"

definition orphan_block :: "raw_page \<Rightarrow> nat list \<Rightarrow> work_block" where
  "orphan_block p lines =
     \<lparr>wb_block = \<lparr>bl_no = 0, bl_source = -1, bl_type = ''paragraph'', bl_class = [], bl_conf = 1,
        bl_box = foldl (\<lambda>b i. box_union b (line_box p i)) zero_box lines, bl_text = [], bl_html = [], bl_latex = [], bl_asset = [],
        bl_furniture = False, bl_text_source = [], bl_from = 0, bl_to = 0\<rparr>,
      wb_lines = lines, wb_rank = 0, wb_refined = []\<rparr>"

text \<open>Steps 1 to 3: the regions with their lines, then a block for every run of orphans.\<close>

definition assigned_blocks :: "(rat \<Rightarrow> rat) \<Rightarrow> (string \<rightharpoonup> string) \<Rightarrow> (nat \<Rightarrow> nat) \<Rightarrow> raw_page \<Rightarrow> work_block list" where
  "assigned_blocks rnd overrides rank p =
     (let lines = [0..<length (rp_lines p)] in
      map (\<lambda>j. \<lparr>wb_block = region_block overrides (rp_regions p ! j), wb_lines = filter (\<lambda>i. line_region rnd p i = Some j) lines,
          wb_rank = 0, wb_refined = rr_text (rp_regions p ! j)\<rparr>) [0..<length (rp_regions p)]
      @ map (orphan_block p) (rank_runs rank (sort_key rank (filter (\<lambda>i. line_region rnd p i = None) lines))))"

text \<open>Step 4: lines in reading order, blocks by their first line; blocks without lines are placed between.\<close>

definition rank_block :: "(nat \<Rightarrow> nat) \<Rightarrow> work_block \<Rightarrow> work_block" where
  "rank_block rank b =
     (let lines = sort_key rank (wb_lines b)
      in b\<lparr>wb_lines := lines, wb_rank := (if lines = [] then wb_rank b else of_nat (rank (hd lines)))\<rparr>)"

definition place_block :: "(rat \<Rightarrow> rat) \<Rightarrow> work_block list \<Rightarrow> work_block \<Rightarrow> work_block" where
  "place_block rnd bs b =
     (if wb_lines b \<noteq> [] then b
      else
        (let lined = filter (\<lambda>o'. wb_lines o' \<noteq> []) bs;
             top = foldl (\<lambda>m o'. if wb_rank o' > m then wb_rank o' else m) (-1) lined;
             box = bl_box (wb_block b) in
         b\<lparr>wb_rank := foldl (\<lambda>best o'.
               if by0 (bl_box (wb_block o')) \<ge> by0 box \<and> h_overlap rnd (bl_box (wb_block o')) box > 0 \<and> rnd (wb_rank o' - 1 / 2) < best
               then rnd (wb_rank o' - 1 / 2) else best)
             (rnd (rnd (top + 1) + rnd (by0 box / 1000000))) lined\<rparr>))"

definition place_lineless :: "(rat \<Rightarrow> rat) \<Rightarrow> work_block list \<Rightarrow> work_block list" where
  "place_lineless rnd bs = map (place_block rnd bs) bs"

subsection \<open>Order of the blocks\<close>

definition move_to :: "nat \<Rightarrow> nat \<Rightarrow> 'a list \<Rightarrow> 'a list" where
  "move_to i j bs = take j bs @ [bs ! i] @ drop j (take i bs) @ drop (Suc i) bs"

definition out_of_order :: "(rat \<Rightarrow> rat) \<Rightarrow> work_block list \<Rightarrow> nat \<Rightarrow> nat \<Rightarrow> bool" where
  "out_of_order rnd bs i j \<longleftrightarrow>
     must_precede rnd (bl_box (wb_block (bs ! i))) (bl_box (wb_block (bs ! j)))
     \<and> \<not> must_precede rnd (bl_box (wb_block (bs ! j))) (bl_box (wb_block (bs ! i)))"

text \<open>One pass moves each block before the first of those it must precede; it reports whether any moved.\<close>

definition fix_block :: "(rat \<Rightarrow> rat) \<Rightarrow> bool \<times> work_block list \<Rightarrow> nat \<Rightarrow> bool \<times> work_block list" where
  "fix_block rnd x i =
     (case find (out_of_order rnd (snd x) i) [0..<i] of
        None \<Rightarrow> x
      | Some j \<Rightarrow> (True, move_to i j (snd x)))"

definition fix_pass :: "(rat \<Rightarrow> rat) \<Rightarrow> work_block list \<Rightarrow> bool \<times> work_block list" where
  "fix_pass rnd bs = foldl (fix_block rnd) (False, bs) [1..<length bs]"

fun fix_passes :: "(rat \<Rightarrow> rat) \<Rightarrow> nat \<Rightarrow> work_block list \<Rightarrow> work_block list" where
  "fix_passes rnd 0 bs = bs"
| "fix_passes rnd (Suc k) bs = (let (moved, bs) = fix_pass rnd bs in if moved then fix_passes rnd k bs else bs)"

definition fix_order :: "(rat \<Rightarrow> rat) \<Rightarrow> work_block list \<Rightarrow> work_block list" where
  "fix_order rnd bs = fix_passes rnd (length bs) bs"

definition ordered_blocks :: "(rat \<Rightarrow> rat) \<Rightarrow> arrange \<Rightarrow> (string \<rightharpoonup> string) \<Rightarrow> bool \<Rightarrow> raw_page \<Rightarrow> work_block list" where
  "ordered_blocks rnd arrange overrides reorder p =
     (let ranks = line_ranks rnd arrange p; rank = (\<lambda>i. ranks ! i);
          bs = sort_key wb_rank (place_lineless rnd (map (rank_block rank) (assigned_blocks rnd overrides rank p)))
      in if reorder then fix_order rnd bs else bs)"

end
