(* ===== verification/PageRefine.thy ===== *)
theory PageRefine
  imports PageLayout CheckEval
begin

text \<open>
  The transcription of a block by a model (\<^verbatim>\<open>docpipe/parser/assemble/refine.go\<close>): its clean-up, the words
  of a text, the alignment of the words of the OCR lines with those of the transcription, and what the
  lines of the block become.
\<close>

subsection \<open>Clean-up\<close>

text \<open>The expression \<^verbatim>\<open>![...](...)\<close>: what follows a match at the start of a text.\<close>

definition match_image :: "string \<Rightarrow> string option" where
  "match_image s =
     (if \<not> prefix ''!['' s then None
      else case dropWhile (\<lambda>c. c \<noteq> CHR '']'') (drop 2 s) of
        c # d # t \<Rightarrow>
          if d = CHR ''('' then (case dropWhile (\<lambda>c. c \<noteq> CHR '')'') t of [] \<Rightarrow> None | _ # rest \<Rightarrow> Some rest) else None
      | _ \<Rightarrow> None)"

lemma match_image_shorter: "match_image s = Some rest \<Longrightarrow> length rest < length s"
proof -
  assume "match_image s = Some rest"
  then obtain c d t e where t: "dropWhile (\<lambda>c. c \<noteq> CHR '']'') (drop 2 s) = c # d # t" "dropWhile (\<lambda>c. c \<noteq> CHR '')'') t = e # rest"
    by (auto simp: match_image_def split: if_splits list.splits)
  have "length (c # d # t) \<le> length s" "length (e # rest) \<le> length t"
    unfolding t [symmetric] by (rule le_trans [OF length_dropWhile_le]) (simp, rule length_dropWhile_le)
  then show ?thesis by simp
qed

function drop_images :: "string \<Rightarrow> string" where
  "drop_images s =
     (case match_image s of
        Some rest \<Rightarrow> drop_images rest
      | None \<Rightarrow> (case s of [] \<Rightarrow> [] | c # t \<Rightarrow> c # drop_images t))"
  by pat_completeness auto
termination
  by (relation "measure length") (auto dest: match_image_shorter)

declare drop_images.simps [simp del]

text \<open>
  A heading mark at the start of a line: up to three white space bytes, one to six \<^verbatim>\<open>#\<close>, white space.
  The result is what follows it, and whether that is the start of a line again.
\<close>

definition re_blank :: "char \<Rightarrow> bool" where
  "re_blank c \<longleftrightarrow> c \<in> {CHR 0x09, CHR 0x0A, CHR 0x0C, CHR 0x0D, CHR '' ''}"

definition match_heading :: "string \<Rightarrow> (string \<times> bool) option" where
  "match_heading s =
     (let s1 = dropWhile re_blank s; marks = takeWhile (\<lambda>c. c = CHR ''#'') s1; s2 = dropWhile (\<lambda>c. c = CHR ''#'') s1;
          gap = takeWhile re_blank s2
      in if length (takeWhile re_blank s) \<le> 3 \<and> marks \<noteq> [] \<and> length marks \<le> 6 \<and> gap \<noteq> []
         then Some (dropWhile re_blank s2, last gap = CHR 0x0A) else None)"

lemma match_heading_shorter: "match_heading s = Some (rest, b) \<Longrightarrow> length rest < length s"
proof -
  let ?s1 = "dropWhile re_blank s"
  let ?s2 = "dropWhile (\<lambda>c. c = CHR ''#'') ?s1"
  assume "match_heading s = Some (rest, b)"
  then have "rest = dropWhile re_blank ?s2" "takeWhile re_blank ?s2 \<noteq> []"
    by (auto simp: match_heading_def Let_def split: if_splits)
  then have "length rest < length ?s2" by (metis append_self_conv2 length_append length_greater_0_conv less_add_same_cancel2 takeWhile_dropWhile_id)
  also have "\<dots> \<le> length s" using length_dropWhile_le [of _ ?s1] length_dropWhile_le [of _ s] le_trans by blast
  finally show ?thesis .
qed

function drop_headings :: "bool \<Rightarrow> string \<Rightarrow> string" where
  "drop_headings bol s =
     (case (if bol then match_heading s else None) of
        Some (rest, b) \<Rightarrow> drop_headings b rest
      | None \<Rightarrow> (case s of [] \<Rightarrow> [] | c # t \<Rightarrow> c # drop_headings (c = CHR 0x0A) t))"
  by pat_completeness auto
termination
  by (relation "measure (length \<circ> snd)") (auto dest: match_heading_shorter split: if_splits)

declare drop_headings.simps [simp del]

text \<open>Three and more newlines become two.\<close>

function squeeze_blank :: "string \<Rightarrow> string" where
  "squeeze_blank [] = []"
| "squeeze_blank (c # s) =
     (let run = takeWhile (\<lambda>c. c = CHR 0x0A) (c # s) in
      if length run \<ge> 3 then [CHR 0x0A, CHR 0x0A] @ squeeze_blank (dropWhile (\<lambda>c. c = CHR 0x0A) (c # s))
      else c # squeeze_blank s)"
  by pat_completeness auto
termination
proof (relation "measure length")
  fix c s and run :: string
  assume run: "run = takeWhile (\<lambda>c. c = CHR 0x0A) (c # s)" "3 \<le> length run"
  have "length (dropWhile (\<lambda>c. c = CHR 0x0A) (c # s)) + length run = length (c # s)"
    unfolding run(1) by (metis add.commute length_append takeWhile_dropWhile_id)
  with run(2) show "(dropWhile (\<lambda>c. c = CHR 0x0A) (c # s), c # s) \<in> measure length" by simp
qed auto

definition clean_refined :: "string \<Rightarrow> string \<Rightarrow> string" where
  "clean_refined t text' =
     (let s = replace_all [CHR 0x0D, CHR 0x0A] [CHR 0x0A] (drop_images text') in
      if t \<in> {''title'', ''heading''} then collapse_space (filter (\<lambda>c. c \<noteq> CHR ''*'') (drop_headings True s))
      else trim_space (squeeze_blank (join_with [CHR 0x0A] (map trim_right (split_on (CHR 0x0A) s)))))"

subsection \<open>Words\<close>

record word =
  wd_start :: nat
  wd_end :: nat
  wd_key :: string
  wd_line :: int

fun word_spans :: "nat \<Rightarrow> nat option \<Rightarrow> rune list \<Rightarrow> (nat \<times> nat) list" where
  "word_spans pos st [] = (case st of None \<Rightarrow> [] | Some a \<Rightarrow> [(a, pos)])"
| "word_spans pos st (r # rs) =
     (if is_space r then (case st of None \<Rightarrow> [] | Some a \<Rightarrow> [(a, pos)]) @ word_spans (pos + 1) None rs
      else word_spans (pos + 1) (Some (case st of None \<Rightarrow> pos | Some a \<Rightarrow> a)) rs)"

definition word_key :: "(string \<Rightarrow> string option) \<Rightarrow> string \<Rightarrow> string" where
  "word_key nfd raw =
     (let out = (\<lambda>r. \<not> is_letter r \<and> \<not> is_digit r);
          key = encode (rev (dropWhile out (rev (dropWhile out (runes (unaccent nfd raw))))))
      in if key = [] then raw else key)"

definition words :: "(string \<Rightarrow> string option) \<Rightarrow> string \<Rightarrow> int \<Rightarrow> word list" where
  "words nfd s line =
     (let rs = runes s in
      map (\<lambda>(a, b). \<lparr>wd_start = a, wd_end = b, wd_key = word_key nfd (encode (take (b - a) (drop a rs))), wd_line = line\<rparr>)
        (word_spans 0 None rs))"

subsection \<open>Alignment\<close>

definition sub_cost :: "(rat \<Rightarrow> rat) \<Rightarrow> word \<Rightarrow> word \<Rightarrow> rat" where
  "sub_cost rnd a b =
     (if wd_key a = wd_key b then 0
      else (let sim = similarity rnd (wd_key a) (wd_key b) in if sim \<ge> 1 / 2 then rnd (1 - sim) else 1))"

definition align_gap :: "(rat \<Rightarrow> rat) \<Rightarrow> rat" where "align_gap rnd = rnd (7 / 10)"

text \<open>A row of the table: \<open>up\<close> is the row above from the current column on, \<open>left\<close> the entry before.\<close>

fun align_cells :: "(rat \<Rightarrow> rat) \<Rightarrow> word \<Rightarrow> word list \<Rightarrow> rat list \<Rightarrow> rat \<Rightarrow> rat list" where
  "align_cells rnd a (b # bs) (diag # up # ups) left =
     (let best = rnd (diag + sub_cost rnd a b);
          best = (if rnd (up + align_gap rnd) < best then rnd (up + align_gap rnd) else best);
          best = (if rnd (left + align_gap rnd) < best then rnd (left + align_gap rnd) else best)
      in best # align_cells rnd a bs (up # ups) best)"
| "align_cells rnd a _ _ left = []"

fun align_rows :: "(rat \<Rightarrow> rat) \<Rightarrow> nat \<Rightarrow> word list \<Rightarrow> word list \<Rightarrow> rat list \<Rightarrow> rat list list" where
  "align_rows rnd i [] bs prev = []"
| "align_rows rnd i (a # as) bs prev =
     (let first = rnd (of_nat i * align_gap rnd); row = first # align_cells rnd a bs prev first
      in row # align_rows rnd (i + 1) as bs row)"

definition align_table :: "(rat \<Rightarrow> rat) \<Rightarrow> word list \<Rightarrow> word list \<Rightarrow> rat list list" where
  "align_table rnd as bs =
     (let top = map (\<lambda>j. rnd (of_nat j * align_gap rnd)) [0..<length bs + 1] in top # align_rows rnd 1 as bs top)"

text \<open>The way back through the table: pairs of an OCR word and a word of the transcription, with their cost.\<close>

fun align_back :: "(rat \<Rightarrow> rat) \<Rightarrow> rat list list \<Rightarrow> word list \<Rightarrow> word list \<Rightarrow> nat \<Rightarrow> nat \<Rightarrow> (nat \<times> nat \<times> rat) list" where
  "align_back rnd d as bs (Suc i) (Suc j) =
     (let c = sub_cost rnd (as ! i) (bs ! j) in
      if d ! Suc i ! Suc j = rnd (d ! i ! j + c) then align_back rnd d as bs i j @ [(i, j, c)]
      else if d ! Suc i ! Suc j = rnd (d ! i ! Suc j + align_gap rnd) then align_back rnd d as bs i (Suc j)
      else align_back rnd d as bs (Suc i) j)"
| "align_back rnd d as bs _ _ = []"

definition align :: "(rat \<Rightarrow> rat) \<Rightarrow> word list \<Rightarrow> word list \<Rightarrow> (nat \<times> nat \<times> rat) list" where
  "align rnd as bs = align_back rnd (align_table rnd as bs) as bs (length as) (length bs)"

text \<open>The two results: for each OCR word the index it is paired with and the cost; without a pair the cost is 1.\<close>

definition align_pairs :: "(rat \<Rightarrow> rat) \<Rightarrow> word list \<Rightarrow> word list \<Rightarrow> (nat option \<times> rat) list" where
  "align_pairs rnd as bs =
     map (\<lambda>i. case map_of (align rnd as bs) i of None \<Rightarrow> (None, 1) | Some (j, c) \<Rightarrow> (Some j, c)) [0..<length as]"

definition max_align_cells :: nat where "max_align_cells = 4000000"

definition good_match :: "nat option \<times> rat \<Rightarrow> bool" where
  "good_match x \<longleftrightarrow> fst x \<noteq> None \<and> snd x \<le> 1 / 2"

subsection \<open>Lines\<close>

record pline =
  ln_source :: int
  ln_block :: nat
  ln_text :: string
  ln_conf :: rat
  ln_quad :: quad
  ln_box :: bbox
  ln_in_figure :: bool
  ln_low :: bool
  ln_text_source :: string
  ln_ocr :: string
  ln_no :: nat
  ln_from :: int
  ln_to :: int

text \<open>One line for every line of a transcription that has no OCR lines, spread over the box of the block.\<close>

definition synthetic_line :: "(rat \<Rightarrow> rat) \<Rightarrow> pblock \<Rightarrow> rat \<Rightarrow> nat \<Rightarrow> string \<Rightarrow> pline" where
  "synthetic_line rnd b h i s =
     (let box = bl_box b;
          bb = \<lparr>bx0 = bx0 box, by0 = rnd (by0 box + rnd (of_nat i * h)), bx1 = bx1 box, by1 = rnd (by0 box + rnd (of_nat (i + 1) * h))\<rparr>
      in \<lparr>ln_source = -1, ln_block = bl_no b, ln_text = s, ln_conf = 1, ln_quad = quad_from_box bb, ln_box = bb,
          ln_in_figure = (bl_type b = ''figure''), ln_low = False, ln_text_source = ''vlm'', ln_ocr = [], ln_no = 0, ln_from = 0, ln_to = 0\<rparr>)"

definition synthetic_lines :: "(rat \<Rightarrow> rat) \<Rightarrow> pblock \<Rightarrow> string \<Rightarrow> pline list" where
  "synthetic_lines rnd b s =
     (let keep = filter (\<lambda>l. trim_space l \<noteq> []) (split_on (CHR 0x0A) s);
          h = rnd (box_height rnd (bl_box b) / of_nat (max (length keep) 1))
      in map2 (synthetic_line rnd b h) [0..<length keep] keep)"

text \<open>The rows of a table: cells from its HTML (the argument \<open>html_rows\<close>), or of a markdown pipe table.\<close>

definition trim_set :: "string \<Rightarrow> string \<Rightarrow> string" where
  "trim_set cs s = trim_left_set cs (trim_right_set cs s)"

definition pipe_row :: "string \<Rightarrow> string option" where
  "pipe_row l =
     (let l = trim_space l in
      if \<not> prefix ''|'' l \<or> trim_set ''|-: '' l = [] then None
      else Some (join_with '' | '' (map trim_space (split_on (CHR ''|'') (trim_set ''|'' l)))))"

definition table_row_lines :: "(rat \<Rightarrow> rat) \<Rightarrow> (string \<Rightarrow> string list list) \<Rightarrow> pblock \<Rightarrow> string \<Rightarrow> pline list" where
  "table_row_lines rnd html_rows b md =
     (let rows = (if bl_html b \<noteq> [] then map (join_with '' | '') (html_rows (bl_html b))
                  else map the (filter (\<lambda>r. r \<noteq> None) (map pipe_row (split_on (CHR 0x0A) md))))
      in if rows = [] then [] else synthetic_lines rnd b (join_with [CHR 0x0A] rows))"

text \<open>The span of the words of the transcription that a line takes.\<close>

definition line_span :: "word list \<Rightarrow> word list \<Rightarrow> (nat option \<times> rat) list \<Rightarrow> int \<Rightarrow> (nat \<times> nat) option" where
  "line_span ocr vlm pairs line =
     (let js = concat (map (\<lambda>i. if wd_line (ocr ! i) = line then (case fst (pairs ! i) of None \<Rightarrow> [] | Some j \<Rightarrow> [j]) else []) [0..<length ocr])
      in case js of [] \<Rightarrow> None
         | j # js' \<Rightarrow> Some (foldl min (wd_start (vlm ! j)) (map (\<lambda>j. wd_start (vlm ! j)) js'), foldl max (wd_end (vlm ! j)) (map (\<lambda>j. wd_end (vlm ! j)) js')))"

text \<open>A line takes its span when a word of it matches well, or when OCR doubts it; the others keep their text as reference.\<close>

definition refine_line :: "rune list \<Rightarrow> word list \<Rightarrow> word list \<Rightarrow> (nat option \<times> rat) list \<Rightarrow> nat \<Rightarrow> pline \<Rightarrow> pline" where
  "refine_line rs ocr vlm pairs n l =
     (if list_ex (\<lambda>i. wd_line (ocr ! i) = int n \<and> good_match (pairs ! i)) [0..<length ocr] \<or> ln_low l then
        (case line_span ocr vlm pairs (int n) of
           None \<Rightarrow> l
         | Some (a, b) \<Rightarrow> l\<lparr>ln_ocr := ln_text l, ln_text := encode (take (b - a) (drop a rs)), ln_text_source := ''vlm'', ln_low := False\<rparr>)
      else l)"

text \<open>
  \<^verbatim>\<open>refineBlock\<close>: the block and its lines (those the block has, or new ones). The words of a line carry
  its place among the lines of the block.
\<close>

definition refine_block ::
  "(rat \<Rightarrow> rat) \<Rightarrow> (string \<Rightarrow> string option) \<Rightarrow> pblock \<Rightarrow> pline list \<Rightarrow> string \<Rightarrow> pblock \<times> pline list"
where
  "refine_block rnd nfd b lines text' =
     (let t = clean_refined (bl_type b) text' in
      if t = [] then (b, lines)
      else
        (let b = b\<lparr>bl_text := t, bl_text_source := ''vlm''\<rparr> in
         if lines = [] then (b, synthetic_lines rnd b t)
         else
           (let ocr = concat (map2 (\<lambda>n l. words nfd (ln_text l) (int n)) [0..<length lines] lines); vlm = words nfd t (-1) in
            if ocr = [] \<or> vlm = [] \<or> length ocr * length vlm > max_align_cells then (b, lines)
            else
              (let pairs = align_pairs rnd ocr vlm
               in (b, map2 (refine_line (runes t) ocr vlm pairs) [0..<length lines] lines)))))"

end
