(* ===== verification/PageRender.thy ===== *)
theory PageRender
  imports PageRefine DocTree
begin

text \<open>
  The assembly of a page (\<^verbatim>\<open>docpipe/parser/assemble\<close>): the blocks and lines built from the raw page
  (\<^verbatim>\<open>build.go\<close>), tables (\<^verbatim>\<open>table.go\<close>), and the markdown with the offsets of blocks and lines in it
  (\<^verbatim>\<open>markdown.go\<close>).
\<close>

subsection \<open>Tables\<close>

text \<open>
  The parsed HTML is that of \<^verbatim>\<open>golang.org/x/net/html\<close>: the argument \<open>he_parse\<close> gives it (\<open>None\<close> for an
  error), \<open>he_escape\<close> is \<^verbatim>\<open>html.EscapeString\<close>.
\<close>

datatype html_node =
    HtmlElement string "(string \<times> string) list" "html_node list"
  | HtmlText string
  | HtmlOther "html_node list"

record html_env =
  he_parse :: "string \<Rightarrow> html_node option"
  he_escape :: "string \<Rightarrow> string"

record cell =
  ce_text :: string
  ce_rows :: nat
  ce_cols :: nat
  ce_header :: bool

fun text_of :: "html_node \<Rightarrow> string" where
  "text_of (HtmlText s) = s @ '' ''"
| "text_of (HtmlElement tag attrs kids) = (if tag = ''br'' then '' '' else []) @ concat (map text_of kids)"
| "text_of (HtmlOther kids) = concat (map text_of kids)"

text \<open>The digits at the start of the attribute; 1 without the attribute. The \<^verbatim>\<open>int\<close> does not overflow on a span.\<close>

definition span_attr :: "(string \<times> string) list \<Rightarrow> string \<Rightarrow> nat" where
  "span_attr attrs key =
     (case map_of attrs key of None \<Rightarrow> 1 | Some v \<Rightarrow> digits_value (takeWhile is_ascii_digit v))"

definition cell_of :: "html_node \<Rightarrow> cell option" where
  "cell_of n =
     (case n of
        HtmlElement tag attrs kids \<Rightarrow>
          if tag = ''td'' \<or> tag = ''th'' then
            Some \<lparr>ce_text = collapse_space (text_of n), ce_rows = span_attr attrs ''rowspan'', ce_cols = span_attr attrs ''colspan'', ce_header = (tag = ''th'')\<rparr>
          else None
      | _ \<Rightarrow> None)"

fun table_rows :: "html_node \<Rightarrow> cell list list" where
  "table_rows (HtmlElement tag attrs kids) =
     (if tag = ''tr'' then [map the (filter (\<lambda>c. c \<noteq> None) (map cell_of kids))] else concat (map table_rows kids))"
| "table_rows (HtmlText s) = []"
| "table_rows (HtmlOther kids) = concat (map table_rows kids)"

definition parse_table :: "html_env \<Rightarrow> string \<Rightarrow> cell list list" where
  "parse_table he src =
     (if trim_space src = [] then [] else case he_parse he src of None \<Rightarrow> [] | Some d \<Rightarrow> table_rows d)"

definition merged_cell :: "cell \<Rightarrow> bool" where
  "merged_cell c \<longleftrightarrow> ce_rows c > 1 \<or> ce_cols c > 1"

definition escape_cell :: "string \<Rightarrow> string" where
  "escape_cell s = concat (map (\<lambda>c. if c = CHR ''|'' then [CHR 0x5C, CHR ''|''] else [c]) s)"

definition html_cell :: "html_env \<Rightarrow> cell \<Rightarrow> string" where
  "html_cell he c =
     (let tag = (if ce_header c then ''th'' else ''td'') in
      ''<'' @ tag
      @ (if ce_rows c > 1 then '' rowspan='' @ [CHR 0x22] @ nat_string (ce_rows c) @ [CHR 0x22] else [])
      @ (if ce_cols c > 1 then '' colspan='' @ [CHR 0x22] @ nat_string (ce_cols c) @ [CHR 0x22] else [])
      @ ''>'' @ he_escape he (ce_text c) @ ''</'' @ tag @ ''>'')"

definition clean_table_html :: "html_env \<Rightarrow> cell list list \<Rightarrow> string" where
  "clean_table_html he rows =
     ''<table>'' @ concat (map (\<lambda>r. ''<tr>'' @ concat (map (html_cell he) r) @ ''</tr>'') rows) @ ''</table>''"

definition markdown_row :: "nat \<Rightarrow> cell list \<Rightarrow> string" where
  "markdown_row cols r =
     ''|'' @ concat (map (\<lambda>i. '' '' @ (if i < length r then escape_cell (ce_text (r ! i)) else []) @ '' |'') [0..<cols])"

definition table_markdown :: "html_env \<Rightarrow> string \<Rightarrow> string" where
  "table_markdown he src =
     (case parse_table he src of
        [] \<Rightarrow> []
      | r # rs \<Rightarrow>
          if list_ex (list_ex merged_cell) (r # rs) then clean_table_html he (r # rs)
          else (let cols = foldl max 0 (map length (r # rs)) in
            markdown_row cols r @ [CHR 0x0A] @ ''|'' @ concat (replicate cols ''---|'')
            @ concat (map (\<lambda>r. [CHR 0x0A] @ markdown_row cols r) rs)))"

definition html_rows :: "html_env \<Rightarrow> string \<Rightarrow> string list list" where
  "html_rows he src = map (map ce_text) (parse_table he src)"

subsection \<open>Blocks and lines of a page\<close>

record ppage =
  pa_no :: int
  pa_text_source :: string
  pa_vlm_markdown :: string
  pa_blocks :: "pblock list"
  pa_lines :: "pline list"
  pa_markdown :: string
  pa_blank :: bool

record build_opts =
  bo_page :: int
  bo_overrides :: "string \<rightharpoonup> string"
  bo_reorder :: bool
  bo_low :: rat
  bo_asset :: "(int \<Rightarrow> nat \<Rightarrow> string) option"

text \<open>What the code calls of other packages, and the rounding to a \<^verbatim>\<open>float64\<close>.\<close>

record page_env =
  pv_rnd :: "rat \<Rightarrow> rat"
  pv_nfd :: "string \<Rightarrow> string option"
  pv_arrange :: arrange
  pv_html :: html_env

definition ocr_line :: "build_opts \<Rightarrow> raw_page \<Rightarrow> nat \<Rightarrow> string \<Rightarrow> nat \<Rightarrow> pline" where
  "ocr_line opt raw bi t i =
     (let l = rp_lines raw ! i in
      \<lparr>ln_source = rl_id l, ln_block = bi, ln_text = trim_space (rl_text l), ln_conf = rl_conf l, ln_quad = rl_quad l,
       ln_box = quad_box (rl_quad l), ln_in_figure = (t = ''figure''), ln_low = (bo_low opt > 0 \<and> rl_conf l > 0 \<and> rl_conf l < bo_low opt),
       ln_text_source = ''ocr'', ln_ocr = [], ln_no = 0, ln_from = 0, ln_to = 0\<rparr>)"

definition emit_block :: "page_env \<Rightarrow> build_opts \<Rightarrow> raw_page \<Rightarrow> nat \<Rightarrow> work_block \<Rightarrow> pblock \<times> pline list" where
  "emit_block e opt raw bi wb =
     (let b = (wb_block wb)\<lparr>bl_no := bi\<rparr>;
          lines = map (ocr_line opt raw bi (bl_type b)) (wb_lines wb);
          b = b\<lparr>bl_text := join_with [CHR 0x0A] (filter (\<lambda>t. t \<noteq> []) (map ln_text lines))\<rparr>;
          refined = clean_refined (bl_type b) (wb_refined wb);
          lines = (if bl_type b = ''table'' \<and> lines = [] then table_row_lines (pv_rnd e) (html_rows (pv_html e)) b refined else lines);
          (b, lines) =
            (if wb_refined wb = [] then (b, lines)
             else if bl_type b = ''table'' then ((if refined \<noteq> [] then b\<lparr>bl_text := refined, bl_text_source := ''vlm''\<rparr> else b), lines)
             else refine_block (pv_rnd e) (pv_nfd e) b lines (wb_refined wb));
          b = (case bo_asset opt of
                 Some key \<Rightarrow> if bl_type b = ''figure'' then b\<lparr>bl_asset := key (bo_page opt) bi\<rparr> else b
               | None \<Rightarrow> b)
      in (b\<lparr>bl_furniture := (bl_type b = ''page_number'')\<rparr>, lines))"

definition is_refined :: "pblock list \<Rightarrow> bool" where
  "is_refined bs \<longleftrightarrow> list_ex (\<lambda>b. bl_text_source b = ''vlm'') bs"

definition build_page :: "page_env \<Rightarrow> build_opts \<Rightarrow> raw_page \<Rightarrow> ppage" where
  "build_page e opt raw =
     (let wbs = ordered_blocks (pv_rnd e) (pv_arrange e) (bo_overrides opt) (bo_reorder opt) raw;
          out = map2 (emit_block e opt raw) [0..<length wbs] wbs; blocks = map fst out
      in \<lparr>pa_no = bo_page opt, pa_text_source = (if is_refined blocks then ''vlm'' else ''ocr''), pa_vlm_markdown = rp_markdown raw,
          pa_blocks = blocks, pa_lines = concat (map snd out), pa_markdown = [], pa_blank = False\<rparr>)"

subsection \<open>Markdown\<close>

text \<open>The text written so far, its length in runes, the lines, and whether nothing was written yet.\<close>

record render =
  re_out :: string
  re_pos :: nat
  re_lines :: "pline list"
  re_first :: bool

definition write_md :: "string \<Rightarrow> render \<Rightarrow> render" where
  "write_md s st = st\<lparr>re_out := re_out st @ s, re_pos := re_pos st + rune_len s\<rparr>"

definition sep_md :: "render \<Rightarrow> render" where
  "sep_md st = (if re_first st then st else write_md blank_line st)\<lparr>re_first := False\<rparr>"

definition place_line :: "nat \<Rightarrow> nat \<Rightarrow> nat \<Rightarrow> render \<Rightarrow> render" where
  "place_line i a b st = st\<lparr>re_lines := (re_lines st)[i := (re_lines st ! i)\<lparr>ln_from := int a, ln_to := int b\<rparr>]\<rparr>"

text \<open>A line with its prefix; its place is the text after the prefix.\<close>

definition write_line :: "string \<Rightarrow> nat \<Rightarrow> render \<Rightarrow> render" where
  "write_line pre i st =
     (let st = write_md pre st; a = re_pos st; st = write_md (ln_text (re_lines st ! i)) st in place_line i a (re_pos st) st)"

fun write_lines :: "string \<Rightarrow> string \<Rightarrow> nat list \<Rightarrow> render \<Rightarrow> render" where
  "write_lines sep pre [] st = st"
| "write_lines sep pre (i # is) st =
     (if ln_text (re_lines st ! i) = [] then write_lines sep pre is st
      else foldl (\<lambda>st i. if ln_text (re_lines st ! i) = [] then st else write_line pre i (write_md sep st)) (write_line pre i st) is)"

text \<open>\<^verbatim>\<open>strings.Index\<close>.\<close>

fun index_of :: "string \<Rightarrow> string \<Rightarrow> nat option" where
  "index_of sub s =
     (if prefix sub s then Some 0
      else case s of [] \<Rightarrow> None | _ # t \<Rightarrow> map_option Suc (index_of sub t))"

declare index_of.simps [simp del]

text \<open>The lines found one after the other in a text that starts at \<open>base\<close>; \<open>cur\<close> is the byte offset reached.\<close>

fun locate_lines :: "nat list \<Rightarrow> string \<Rightarrow> nat \<Rightarrow> nat \<Rightarrow> render \<Rightarrow> render" where
  "locate_lines [] md base cur st = st"
| "locate_lines (i # is) md base cur st =
     (let t = ln_text (re_lines st ! i) in
      if t = [] then locate_lines is md base cur st
      else case index_of t (drop cur md) of
        None \<Rightarrow> locate_lines is md base cur st
      | Some k \<Rightarrow>
          (let a = base + rune_len (take (cur + k) md)
           in locate_lines is md base (cur + k + length t) (place_line i a (a + rune_len t) st)))"

definition write_located :: "nat list \<Rightarrow> string \<Rightarrow> render \<Rightarrow> render" where
  "write_located is md st = locate_lines is md (re_pos st) 0 (write_md md st)"

definition heading_prefix :: "string \<Rightarrow> string" where
  "heading_prefix t =
     (let rs = runes t; r1 = dropWhile digit_rune rs; r2 = after_numbers rs in
      if rs \<noteq> [] \<and> digit_rune (hd rs) \<and> r2 \<noteq> r1
         \<and> (case r2 of [] \<Rightarrow> False | c # rest \<Rightarrow> re_space c \<or> (c = 46 \<or> c = 41) \<and> (case rest of [] \<Rightarrow> False | d # _ \<Rightarrow> re_space d))
      then ''### '' else ''## '')"

definition figure_label :: "string \<Rightarrow> string" where
  "figure_label class = (if equal_fold class (lit ''SEAL'') then (vn ''con d~1EA5;u'') else ''figure'')"

definition figure_link :: "int \<Rightarrow> pblock \<Rightarrow> string" where
  "figure_link page b =
     ''!['' @ figure_label (bl_class b) @ '' p'' @ int_string page @ ''-b'' @ nat_string (bl_no b) @ '']('' @ bl_asset b @ '')''"

definition block_refined :: "pblock \<Rightarrow> bool" where
  "block_refined b \<longleftrightarrow> bl_text_source b = ''vlm'' \<and> trim_space (bl_text b) \<noteq> []"

text \<open>The body of a block; \<open>None\<close> when the block is not shown.\<close>

definition block_body :: "html_env \<Rightarrow> int \<Rightarrow> pblock \<Rightarrow> nat list \<Rightarrow> bool \<Rightarrow> (render \<Rightarrow> render) option" where
  "block_body he page b is has_text =
     (let refined = block_refined b; md = table_markdown he (bl_html b) in
      if bl_type b = ''table'' then
        (if md = [] \<and> \<not> refined \<and> \<not> has_text then None
         else Some (if md \<noteq> [] then write_located is md
                    else if refined then write_located is (bl_text b) else write_lines [CHR 0x0A] [] is))
      else if bl_type b = ''figure'' then
        (if bl_asset b = [] \<and> \<not> has_text \<and> \<not> refined then None
         else Some (\<lambda>st.
           (let st = (if bl_asset b = [] then st
                      else (let st = write_md (figure_link page b) st in if has_text \<or> refined then write_md [CHR 0x0A] st else st))
            in if refined then write_located is (bl_text b) st else write_lines [CHR 0x0A] ''> '' is st)))
      else if bl_type b = ''formula'' then
        (if bl_latex b = [] \<and> \<not> has_text then None
         else Some (if bl_latex b \<noteq> [] then write_md (''$$'' @ [CHR 0x0A] @ trim_space (bl_latex b) @ [CHR 0x0A] @ ''$$'')
                    else write_lines [CHR 0x0A] [] is))
      else if bl_type b = ''title'' \<or> bl_type b = ''heading'' then
        (if \<not> has_text \<and> \<not> refined then None
         else Some (\<lambda>st.
           (let st = write_md (if bl_type b = ''heading'' then heading_prefix (bl_text b) else ''# '') st
            in if refined then write_located is (bl_text b) st else write_lines '' '' [] is st)))
      else
        (if \<not> has_text \<and> \<not> refined then None
         else Some (if refined then write_located is (bl_text b) else write_lines [CHR 0x0A] [] is)))"

definition lines_of_block :: "pline list \<Rightarrow> nat \<Rightarrow> nat list" where
  "lines_of_block ls n = filter (\<lambda>i. ln_block (ls ! i) = n) [0..<length ls]"

definition render_block :: "html_env \<Rightarrow> bool \<Rightarrow> int \<Rightarrow> pblock list \<times> render \<Rightarrow> pblock \<Rightarrow> pblock list \<times> render" where
  "render_block he vlm_page page x b =
     (let (done, st) = x; hidden = b\<lparr>bl_from := -1, bl_to := -1\<rparr>; unread = vlm_page \<and> \<not> block_refined b;
          is = (if unread then [] else lines_of_block (re_lines st) (bl_no b)) in
      if bl_furniture b \<or> unread \<and> (bl_type b \<noteq> ''figure'' \<or> bl_asset b = []) then (done @ [hidden], st)
      else case block_body he page b is (list_ex (\<lambda>i. ln_text (re_lines st ! i) \<noteq> []) is) of
        None \<Rightarrow> (done @ [hidden], st)
      | Some body \<Rightarrow>
          (let st = sep_md st; a = re_pos st; st = body st
           in (done @ [b\<lparr>bl_from := int a, bl_to := int (re_pos st)\<rparr>], st)))"

text \<open>\<^verbatim>\<open>renumber\<close>: blocks by their place, lines by the block they are in (the last one with their number).\<close>

definition renumber :: "ppage \<Rightarrow> ppage" where
  "renumber pg =
     (let remap = (\<lambda>n. case last_index (\<lambda>b. bl_no b = n) (pa_blocks pg) of Some i \<Rightarrow> i | None \<Rightarrow> n);
          ls = sort_key ln_block (map (\<lambda>l. l\<lparr>ln_block := remap (ln_block l)\<rparr>) (pa_lines pg))
      in pg\<lparr>pa_blocks := map2 (\<lambda>i b. b\<lparr>bl_no := i\<rparr>) [0..<length (pa_blocks pg)] (pa_blocks pg),
            pa_lines := map2 (\<lambda>i l. l\<lparr>ln_no := i\<rparr>) [0..<length ls] ls\<rparr>)"

definition blank_page :: "pblock list \<Rightarrow> pline list \<Rightarrow> bool" where
  "blank_page bs ls \<longleftrightarrow>
     list_all (\<lambda>l. trim_space (ln_text l) = []) ls
     \<and> list_all (\<lambda>b. bl_html b = [] \<and> bl_latex b = [] \<and> \<not> block_refined b) bs"

definition render_page :: "html_env \<Rightarrow> ppage \<Rightarrow> ppage" where
  "render_page he pg =
     (let pg = renumber pg;
          ls = map (\<lambda>l. l\<lparr>ln_from := -1, ln_to := -1\<rparr>) (pa_lines pg);
          (bs, st) = foldl (render_block he (pa_text_source pg = ''vlm'') (pa_no pg)) ([], \<lparr>re_out = [], re_pos = 0, re_lines = ls, re_first = True\<rparr>) (pa_blocks pg)
      in pg\<lparr>pa_blocks := bs, pa_lines := re_lines st, pa_markdown := re_out st, pa_blank := blank_page bs (re_lines st)\<rparr>)"

text \<open>\<^verbatim>\<open>PlainText\<close>: the lines of a page, a transcribed block once and whole.\<close>

primrec plain_parts :: "pblock list \<Rightarrow> pline list \<Rightarrow> nat list \<Rightarrow> string list" where
  "plain_parts bs [] emitted = []"
| "plain_parts bs (l # ls) emitted =
     (let n = ln_block l in
      if list_ex (\<lambda>b. bl_furniture b \<and> bl_no b = n) bs then plain_parts bs ls emitted
      else if n < length bs \<and> bl_no (bs ! n) = n \<and> bl_text_source (bs ! n) = ''vlm'' \<and> bl_type (bs ! n) \<noteq> ''table'' then
        (if n \<in> set emitted then plain_parts bs ls emitted else bl_text (bs ! n) # plain_parts bs ls (n # emitted))
      else (if ln_text l \<noteq> [] then [ln_text l] else []) @ plain_parts bs ls emitted)"

definition plain_text :: "ppage \<Rightarrow> string" where
  "plain_text pg = join_with [CHR 0x0A] (plain_parts (pa_blocks pg) (pa_lines pg) [])"

subsection \<open>Running headers and footers\<close>

definition is_running :: "pblock \<Rightarrow> bool" where
  "is_running b \<longleftrightarrow> bl_type b \<in> {''header'', ''footer''}"

definition furniture_key :: "(string \<Rightarrow> string option) \<Rightarrow> string \<Rightarrow> string" where
  "furniture_key nfd s = encode (map (\<lambda>r. if is_digit r then 35 else r) (runes (normalize_text nfd s)))"

text \<open>On how many pages a running block has a key; the empty key counts on none.\<close>

definition pages_with :: "(string \<Rightarrow> string option) \<Rightarrow> ppage list \<Rightarrow> string \<Rightarrow> nat" where
  "pages_with nfd pages k =
     (if k = [] then 0
      else length (filter (\<lambda>p. list_ex (\<lambda>b. is_running b \<and> furniture_key nfd (bl_text b) = k) (pa_blocks p)) pages))"

definition furniture_need :: "(rat \<Rightarrow> rat) \<Rightarrow> rat \<Rightarrow> nat \<Rightarrow> int" where
  "furniture_need rnd ratio n = max \<lfloor>rnd (rnd (of_nat n * ratio) + rnd (999 / 1000))\<rfloor> 2"

definition becomes_furniture :: "page_env \<Rightarrow> rat \<Rightarrow> ppage list \<Rightarrow> pblock \<Rightarrow> bool" where
  "becomes_furniture e ratio pages b \<longleftrightarrow>
     is_running b \<and> \<not> bl_furniture b
     \<and> int (pages_with (pv_nfd e) pages (furniture_key (pv_nfd e) (bl_text b))) \<ge> furniture_need (pv_rnd e) ratio (length pages)"

text \<open>The pages, those with new furniture rendered again, and the indexes of these.\<close>

definition mark_furniture :: "page_env \<Rightarrow> rat \<Rightarrow> ppage list \<Rightarrow> ppage list \<times> nat list" where
  "mark_furniture e ratio pages =
     (if length pages < 2 \<or> ratio \<le> 0 then (pages, [])
      else
        (let dirty = (\<lambda>p. list_ex (becomes_furniture e ratio pages) (pa_blocks p));
             mark = (\<lambda>p. p\<lparr>pa_blocks := map (\<lambda>b. if becomes_furniture e ratio pages b then b\<lparr>bl_furniture := True\<rparr> else b) (pa_blocks p)\<rparr>)
         in (map (\<lambda>p. if dirty p then render_page (pv_html e) (mark p) else p) pages,
             filter (\<lambda>i. dirty (pages ! i)) [0..<length pages])))"

end
