(* ===== verification/PageMarks.thy ===== *)
theory PageMarks
  imports Utf8 PageRender
begin

text \<open>
  The markdown of a page: the offsets of lines and blocks point at their texts.
\<close>

subsection \<open>What writing changes\<close>

definition render_ok :: "render \<Rightarrow> bool" where
  "render_ok st \<longleftrightarrow> utf8 (re_out st) \<and> re_pos st = rune_len (re_out st) \<and> (\<forall>l \<in> set (re_lines st). utf8 (ln_text l))"

definition rune_slice :: "nat \<Rightarrow> nat \<Rightarrow> string \<Rightarrow> rune list" where
  "rune_slice a b s = take (b - a) (drop a (runes s))"

text \<open>\<open>st'\<close> has more text than \<open>st\<close>, and marks only lines of \<open>is\<close>, each at its text in the new part.\<close>

definition newly_marked :: "render \<Rightarrow> render \<Rightarrow> pline \<Rightarrow> pline \<Rightarrow> bool" where
  "newly_marked st st' l l' \<longleftrightarrow>
     (\<exists>a b. re_pos st \<le> a \<and> a \<le> b \<and> b \<le> re_pos st' \<and> l' = l\<lparr>ln_from := int a, ln_to := int b\<rparr>
        \<and> rune_slice a b (re_out st') = runes (ln_text l))"

definition grows :: "nat list \<Rightarrow> render \<Rightarrow> render \<Rightarrow> bool" where
  "grows is st st' \<longleftrightarrow>
     (\<exists>w. utf8 w \<and> re_out st' = re_out st @ w \<and> re_pos st' = re_pos st + rune_len w)
     \<and> length (re_lines st') = length (re_lines st)
     \<and> (\<forall>i < length (re_lines st). re_lines st' ! i = re_lines st ! i
          \<or> i \<in> set is \<and> newly_marked st st' (re_lines st ! i) (re_lines st' ! i))"

lemma grows_refl: "grows is st st"
  by (auto simp: grows_def rune_len_def intro: exI [of _ "[]"])

lemma grows_length: "grows is st st' \<Longrightarrow> length (re_lines st') = length (re_lines st)"
  by (simp add: grows_def)

lemma grows_pos: "grows is st st' \<Longrightarrow> re_pos st \<le> re_pos st'"
  by (auto simp: grows_def)

lemma grows_text: "grows is st st' \<Longrightarrow> i < length (re_lines st) \<Longrightarrow> ln_text (re_lines st' ! i) = ln_text (re_lines st ! i)"
  unfolding grows_def newly_marked_def by auto

lemma grows_ok:
  assumes "render_ok st" "grows is st st'"
  shows "render_ok st'"
proof -
  have "utf8 (ln_text (re_lines st' ! i))" if "i < length (re_lines st')" for i
    using that assms grows_text [OF assms(2), of i] grows_length [OF assms(2)] by (auto simp: render_ok_def)
  moreover obtain w where "utf8 w" "re_out st' = re_out st @ w" "re_pos st' = re_pos st + rune_len w"
    using assms(2) by (auto simp: grows_def)
  ultimately show ?thesis
    using assms(1) by (auto simp: render_ok_def rune_len_append in_set_conv_nth)
qed

lemma slice_append: "utf8 s \<Longrightarrow> b \<le> rune_len s \<Longrightarrow> rune_slice a b (s @ t) = rune_slice a b s"
  by (cases "a \<le> b") (simp_all add: rune_slice_def runes_append rune_len_def)

lemma grows_write:
  assumes "render_ok st0" "grows is st0 st" "utf8 s"
  shows "grows is st0 (write_md s st)"
proof -
  have ok: "render_ok st" using grows_ok assms by blast
  obtain w where w: "utf8 w" "re_out st = re_out st0 @ w" "re_pos st = re_pos st0 + rune_len w"
    using assms(2) by (auto simp: grows_def)
  have slice: "rune_slice a b (re_out st @ s) = rune_slice a b (re_out st)" if "b \<le> re_pos st" for a b
    using that ok slice_append by (simp add: render_ok_def)
  have "utf8 (w @ s)" "re_pos st + rune_len s = re_pos st0 + rune_len (w @ s)"
    using w assms(3) by (auto simp: rune_len_append)
  then have out: "\<exists>w. utf8 w \<and> re_out st @ s = re_out st0 @ w \<and> re_pos st + rune_len s = re_pos st0 + rune_len w"
    using w(2) by (metis append.assoc)
  have "newly_marked st0 (write_md s st) l l'" if "newly_marked st0 st l l'" for l l'
    using that slice unfolding newly_marked_def write_md_def by simp (metis trans_le_add1)
  then show ?thesis
    using assms(2) out unfolding grows_def by (auto simp: write_md_def)
qed

lemma grows_place:
  assumes "grows is st0 st" "i \<in> set is" "re_pos st0 \<le> a" "a \<le> b" "b \<le> re_pos st"
    and "rune_slice a b (re_out st) = runes (ln_text (re_lines st ! i))"
  shows "grows is st0 (place_line i a b st)"
proof -
  have eq: "re_lines (place_line i a b st) ! j = (if j = i then (re_lines st ! i)\<lparr>ln_from := int a, ln_to := int b\<rparr> else re_lines st ! j)"
    if "j < length (re_lines st0)" for j
    using that grows_length [OF assms(1)] by (simp add: place_line_def nth_list_update)
  have out: "re_out (place_line i a b st) = re_out st" "re_pos (place_line i a b st) = re_pos st"
      "length (re_lines (place_line i a b st)) = length (re_lines st)"
    by (simp_all add: place_line_def)
  have "re_lines (place_line i a b st) ! j = re_lines st0 ! j
      \<or> j \<in> set is \<and> newly_marked st0 (place_line i a b st) (re_lines st0 ! j) (re_lines (place_line i a b st) ! j)"
    if j: "j < length (re_lines st0)" for j
  proof (cases "j = i")
    case True
    have "(re_lines st ! i)\<lparr>ln_from := int a, ln_to := int b\<rparr> = (re_lines st0 ! i)\<lparr>ln_from := int a, ln_to := int b\<rparr>"
      using assms(1) j True unfolding grows_def newly_marked_def by auto
    moreover have "ln_text (re_lines st ! i) = ln_text (re_lines st0 ! i)" using grows_text [OF assms(1)] j True by simp
    ultimately show ?thesis
      using True eq [OF j] assms out by (auto simp: newly_marked_def)
  next
    case False
    then show ?thesis using eq [OF j] assms(1) j out unfolding grows_def newly_marked_def by auto
  qed
  then show ?thesis using assms(1) out unfolding grows_def by simp
qed

lemma grows_line:
  assumes "render_ok st0" "grows is st0 st" "utf8 pre" "i \<in> set is" "i < length (re_lines st0)"
  shows "grows is st0 (write_line pre i st)"
proof -
  let ?s1 = "write_md pre st"
  let ?t = "ln_text (re_lines ?s1 ! i)"
  let ?s2 = "write_md ?t ?s1"
  have g1: "grows is st0 ?s1" using grows_write assms by blast
  have ok1: "render_ok ?s1" using grows_ok assms(1) g1 by blast
  have t: "utf8 ?t" using ok1 grows_length [OF g1] assms(5) by (simp add: render_ok_def)
  have g2: "grows is st0 ?s2" using grows_write [OF assms(1) g1 t] .
  have out: "re_out ?s2 = re_out ?s1 @ ?t" "re_pos ?s2 = re_pos ?s1 + rune_len ?t" "re_lines ?s2 = re_lines ?s1"
    by (simp_all add: write_md_def)
  have "rune_slice (re_pos ?s1) (re_pos ?s2) (re_out ?s2) = runes ?t"
    using ok1 out by (simp add: rune_slice_def render_ok_def runes_append rune_len_def)
  then have "grows is st0 (place_line i (re_pos ?s1) (re_pos ?s2) ?s2)"
    using grows_place [OF g2 assms(4)] grows_pos [OF g1] out by simp
  then show ?thesis by (simp add: write_line_def Let_def)
qed

lemma grows_lines:
  assumes ok: "render_ok st0" and pre: "utf8 sep" "utf8 pre" and "grows is st0 st" "set js \<subseteq> set is" "\<forall>i \<in> set js. i < length (re_lines st0)"
  shows "grows is st0 (write_lines sep pre js st)"
proof -
  let ?f = "\<lambda>st i. if ln_text (re_lines st ! i) = [] then st else write_line pre i (write_md sep st)"
  have f: "grows is st0 (foldl ?f st js)" if "grows is st0 st" "set js \<subseteq> set is" "\<forall>i \<in> set js. i < length (re_lines st0)" for st js
    using that
  proof (induction js arbitrary: st)
    case (Cons j js)
    then have "grows is st0 (?f st j)" using grows_line [OF ok grows_write [OF ok Cons.prems(1) pre(1)] pre(2)] by simp
    with Cons show ?case by (metis (no_types, lifting) foldl_Cons insert_subset list.set_intros(2) list.simps(15))
  qed simp
  show ?thesis using assms(4-6)
  proof (induction js arbitrary: st)
    case (Cons j js)
    show ?case
    proof (cases "ln_text (re_lines st ! j) = []")
      case False
      have "grows is st0 (write_line pre j st)" using grows_line [OF ok Cons.prems(1) pre(2)] Cons.prems by simp
      then show ?thesis using False f Cons.prems by simp
    qed (use Cons in simp)
  qed simp
qed


subsection \<open>Lines found in a text\<close>

lemma index_of_found: "index_of sub s = Some k \<Longrightarrow> k \<le> length s \<and> prefix sub (drop k s)"
proof (induction s arbitrary: k)
  case Nil
  then show ?case by (subst (asm) index_of.simps) (simp split: if_splits)
next
  case (Cons c s)
  then show ?case by (subst (asm) index_of.simps) (auto split: if_splits)
qed

lemma slice_of_part:
  assumes "utf8 x" "utf8 t"
  shows "rune_slice (rune_len x) (rune_len x + rune_len t) (x @ t @ u) = runes t"
  using assms by (simp add: rune_slice_def runes_append rune_len_def)

lemma grows_located:
  assumes "render_ok st0" "grows is st0 st" "set js \<subseteq> set is" "\<forall>i \<in> set js. i < length (re_lines st0)"
    and "re_out st = out @ md" "utf8 out" "re_pos st0 \<le> rune_len out" "re_pos st = rune_len out + rune_len md"
    and "cur \<le> length md" "utf8 (take cur md)" "utf8 (drop cur md)"
  shows "grows is st0 (locate_lines js md (rune_len out) cur st)"
  using assms(2-5,8-11)
proof (induction js arbitrary: cur st)
  case (Cons j js)
  let ?t = "ln_text (re_lines st ! j)"
  have ok: "render_ok st" using grows_ok assms(1) Cons.prems(1) by blast
  show ?case
  proof (cases "?t = [] \<or> index_of ?t (drop cur md) = None")
    case True
    then show ?thesis using Cons by (auto simp: Let_def)
  next
    case False
    then obtain k where k: "index_of ?t (drop cur md) = Some k" by auto
    then obtain u where u: "k \<le> length (drop cur md)" "drop k (drop cur md) = ?t @ u"
      by (metis index_of_found prefixE)
    let ?x = "take k (drop cur md)"
    have t: "utf8 ?t" using ok Cons.prems grows_length [OF Cons.prems(1)] by (simp add: render_ok_def)
    have split: "drop cur md = ?x @ ?t @ u" using u(2) by (metis append_take_drop_id)
    then have parts: "utf8 ?x \<and> utf8 u" using utf8_found [of ?x ?t u] Cons.prems t False by metis
    let ?y = "take (cur + k) md"
    let ?a = "rune_len out + rune_len ?y"
    have y: "?y = take cur md @ ?x" by (simp add: take_add)
    have len: "length ?y = cur + k" using u(1) Cons.prems(6) by simp
    have md: "md = ?y @ ?t @ u" using split y by (metis append.assoc append_take_drop_id)
    have y8: "utf8 ?y" using y parts Cons.prems by auto
    have yt8: "utf8 (out @ ?y)" "utf8 (?y @ ?t)" using y8 t assms(6) by auto
    have mdl: "rune_len md = rune_len ?y + rune_len (?t @ u)" using md y8 rune_len_append by metis
    have ge: "rune_len ?t \<le> rune_len (?t @ u)" using t rune_len_append by simp
    have "rune_len (out @ ?y) = ?a" using rune_len_append assms(6) by simp
    then have slice: "rune_slice ?a (?a + rune_len ?t) (re_out st) = runes ?t"
      using slice_of_part [OF yt8(1) t, of u] md Cons.prems(4) by simp
    let ?st = "place_line j ?a (?a + rune_len ?t) st"
    have g: "grows is st0 ?st"
      by (rule grows_place [OF Cons.prems(1)]) (use Cons.prems assms(7) mdl ge slice in auto)
    have eq: "re_out ?st = re_out st" "re_pos ?st = re_pos st" by (simp_all add: place_line_def)
    have rest: "take (cur + k + length ?t) md = ?y @ ?t" "drop (cur + k + length ?t) md = u" "cur + k + length ?t \<le> length md"
      using md len by (metis append.assoc append_eq_conv_conj length_append, metis append.assoc append_eq_conv_conj length_append, metis append.assoc le_add1 length_append)
    have "grows is st0 (locate_lines js md (rune_len out) (cur + k + length ?t) ?st)"
      by (rule Cons.IH [OF g]) (use Cons.prems eq rest yt8 parts in auto)
    then show ?thesis using k False by (simp add: Let_def)
  qed
qed simp

lemma grows_write_located:
  assumes "render_ok st0" "grows is st0 st" "set js \<subseteq> set is" "\<forall>i \<in> set js. i < length (re_lines st0)" "utf8 md"
  shows "grows is st0 (write_located js md st)"
proof -
  have ok: "render_ok st" using grows_ok assms by blast
  have g: "grows is st0 (write_md md st)" using grows_write assms by blast
  have "grows is st0 (locate_lines js md (rune_len (re_out st)) 0 (write_md md st))"
    by (rule grows_located [OF assms(1) g]) (use assms ok grows_pos [OF assms(2)] in \<open>auto simp: write_md_def render_ok_def\<close>)
  then show ?thesis using ok by (simp add: write_located_def render_ok_def)
qed


subsection \<open>A block\<close>

text \<open>The texts of a block that are written are valid UTF-8.\<close>

definition block_utf8 :: "html_env \<Rightarrow> pblock \<Rightarrow> bool" where
  "block_utf8 he b \<longleftrightarrow>
     utf8 (bl_text b) \<and> utf8 (bl_asset b) \<and> utf8 (trim_space (bl_latex b)) \<and> utf8 (table_markdown he (bl_html b))"

lemma utf8_numbers [simp]: "utf8 (nat_string n)" "utf8 (int_string i)"
proof -
  have ascii: "ascii (nat_string n)" for n
    using nat_string_digits [of n] unfolding ascii_def list_all_iff by (fastforce dest: is_ascii_digit_cases)
  then show "utf8 (nat_string n)" by (rule utf8_ascii)
  show "utf8 (int_string i)" using ascii by (auto simp: int_string_def intro!: utf8_ascii)
qed

lemma utf8_seal: "utf8 (vn ''con d~1EA5;u'')"
proof -
  have "vn ''con d~1EA5;u'' = ''con d'' @ encode [0x1EA5] @ ''u''" by (simp add: vn_def hex_value_def is_ascii_digit_def)
  moreover have "utf8 (encode [0x1EA5])" by (rule utf8_encode) (simp add: valid_rune_def)
  ultimately show ?thesis by (simp add: utf8_append utf8_ascii del: append_Cons append_Nil encode_simps)
qed

lemma utf8_figure_link: "block_utf8 he b \<Longrightarrow> utf8 (figure_link page b)"
proof -
  assume "block_utf8 he b"
  moreover have "utf8 (figure_label (bl_class b))"
    using utf8_seal unfolding figure_label_def by (auto intro!: utf8_ascii)
  ultimately show ?thesis unfolding figure_link_def block_utf8_def
    by (intro utf8_append) (simp_all add: utf8_ascii)
qed

lemma grows_body:
  assumes ok: "render_ok st" and b: "block_utf8 he b" and js: "\<forall>i \<in> set js. i < length (re_lines st)"
    and body: "block_body he page b js has_text = Some body"
  shows "grows js st (body st)"
proof -
  have w: "grows js st (write_md s st')" if "grows js st st'" "utf8 s" for s st'
    using grows_write [OF ok] that by blast
  have l: "grows js st (write_lines sep pre js st')" if "grows js st st'" "utf8 sep" "utf8 pre" for sep pre st'
    using grows_lines [OF ok that(2,3,1)] js by blast
  have t: "grows js st (write_located js s st')" if "grows js st st'" "utf8 s" for s st'
    using grows_write_located [OF ok that(1) _ _ that(2)] js by blast
  have link: "utf8 (figure_link page b)" and head: "utf8 (heading_prefix s)" for s
    using utf8_figure_link b by (auto simp: heading_prefix_def Let_def intro!: utf8_ascii)
  have latex: "utf8 (''$$'' @ [CHR 0x0A] @ trim_space (bl_latex b) @ [CHR 0x0A] @ ''$$'')"
    using b unfolding block_utf8_def by (intro utf8_append) (simp_all add: utf8_ascii)
  have texts: "utf8 (bl_text b)" "utf8 (table_markdown he (bl_html b))" "utf8 [CHR 0x0A]" "utf8 '' ''" "utf8 ''> ''" "utf8 ''# ''"
    using b by (auto simp: block_utf8_def intro: utf8_ascii)
  note writes = w l t grows_refl link head latex latex [simplified] texts utf8_Nil
  show ?thesis
    using body unfolding block_body_def Let_def
    by (auto intro!: writes split: if_split_asm)
qed


subsection \<open>The page\<close>

text \<open>
  A line is not in the markdown, or its offsets are those of its text; then it is within its block.
\<close>

definition marks_text :: "string \<Rightarrow> pline \<Rightarrow> bool" where
  "marks_text md l \<longleftrightarrow>
     ln_from l = -1 \<and> ln_to l = -1
     \<or> 0 \<le> ln_from l \<and> ln_from l \<le> ln_to l \<and> ln_to l \<le> int (rune_len md)
       \<and> rune_slice (nat (ln_from l)) (nat (ln_to l)) md = runes (ln_text l)"

definition line_in_block :: "pblock list \<Rightarrow> pline \<Rightarrow> bool" where
  "line_in_block bs l \<longleftrightarrow>
     ln_from l = -1
     \<or> ln_block l < length bs \<and> 0 \<le> bl_from (bs ! ln_block l)
       \<and> bl_from (bs ! ln_block l) \<le> ln_from l \<and> ln_to l \<le> bl_to (bs ! ln_block l)"

text \<open>The blocks that are shown stand one after the other.\<close>

definition shown_spans :: "pblock list \<Rightarrow> (int \<times> int) list" where
  "shown_spans bs = filter (\<lambda>x. fst x \<noteq> -1) (map (\<lambda>b. (bl_from b, bl_to b)) bs)"

definition spans_ordered :: "nat \<Rightarrow> pblock list \<Rightarrow> bool" where
  "spans_ordered pos bs \<longleftrightarrow>
     sorted_wrt (\<lambda>x y. snd x \<le> fst y) (shown_spans bs)
     \<and> list_all (\<lambda>x. 0 \<le> fst x \<and> fst x \<le> snd x \<and> snd x \<le> int pos) (shown_spans bs)"

definition marked_well :: "pblock list \<Rightarrow> render \<Rightarrow> bool" where
  "marked_well bs st \<longleftrightarrow>
     render_ok st \<and> spans_ordered (re_pos st) bs
     \<and> (\<forall>l \<in> set (re_lines st). marks_text (re_out st) l \<and> line_in_block bs l)"

lemma marks_text_append:
  assumes "marks_text s l" "utf8 s"
  shows "marks_text (s @ t) l"
  using assms slice_append [OF assms(2), of "nat (ln_to l)" "nat (ln_from l)" t]
  unfolding marks_text_def by (auto simp: rune_len_append)

lemma spans_ordered_snoc:
  assumes "spans_ordered p bs" "p \<le> p'" "bl_from b = -1 \<or> int p \<le> bl_from b \<and> bl_from b \<le> bl_to b \<and> bl_to b \<le> int p'"
  shows "spans_ordered p' (bs @ [b])"
proof -
  have "shown_spans (bs @ [b]) = shown_spans bs @ (if bl_from b = -1 then [] else [(bl_from b, bl_to b)])"
    by (simp add: shown_spans_def)
  moreover have "\<forall>x \<in> set (shown_spans bs). 0 \<le> fst x \<and> fst x \<le> snd x \<and> snd x \<le> int p"
    using assms(1) unfolding spans_ordered_def list_all_iff by blast
  ultimately show ?thesis
    using assms unfolding spans_ordered_def list_all_iff by (fastforce simp: sorted_wrt_append)
qed

lemma line_in_block_snoc: "line_in_block bs l \<Longrightarrow> line_in_block (bs @ [b]) l"
  by (auto simp: line_in_block_def nth_append)

lemma hidden_block:
  assumes "marked_well bs st" "bl_from b = -1"
  shows "marked_well (bs @ [b]) st"
  using assms spans_ordered_snoc [of "re_pos st" bs "re_pos st" b] line_in_block_snoc unfolding marked_well_def by blast

lemma separated:
  assumes "marked_well bs st"
  shows "marked_well bs (sep_md st) \<and> re_lines (sep_md st) = re_lines st \<and> re_pos st \<le> re_pos (sep_md st)"
proof -
  have "utf8 blank_line" by (simp add: blank_line_def utf8_ascii)
  then have g: "grows [] st (write_md blank_line st)" using assms grows_write grows_refl unfolding marked_well_def by blast
  have ok: "render_ok (write_md blank_line st)" using grows_ok g assms unfolding marked_well_def by blast
  have "spans_ordered (re_pos st + rune_len blank_line) bs"
    using assms unfolding marked_well_def spans_ordered_def list_all_iff by fastforce
  with ok assms have "marked_well bs (write_md blank_line st)"
    using marks_text_append unfolding marked_well_def render_ok_def by (simp add: write_md_def)
  moreover have "marked_well bs (st'\<lparr>re_first := False\<rparr>)" if "marked_well bs st'" for st'
    using that by (auto simp: marked_well_def render_ok_def)
  ultimately show ?thesis using assms by (cases "re_first st") (simp_all add: sep_md_def write_md_def)
qed

lemma shown_block:
  assumes well: "marked_well bs st" and g: "grows js st st'"
    and js: "\<forall>i \<in> set js. ln_block (re_lines st ! i) = length bs"
    and b: "bl_from b = int (re_pos st)" "bl_to b = int (re_pos st')"
  shows "marked_well (bs @ [b]) st'"
proof -
  have ok: "render_ok st" using well by (simp add: marked_well_def)
  obtain w where w: "re_out st' = re_out st @ w" using g by (auto simp: grows_def)
  have ok': "render_ok st'" by (rule grows_ok [OF ok g])
  have "marks_text (re_out st') (re_lines st' ! i) \<and> line_in_block (bs @ [b]) (re_lines st' ! i)"
    if i: "i < length (re_lines st')" for i
  proof -
    have i': "i < length (re_lines st)" using i grows_length [OF g] by simp
    then consider "re_lines st' ! i = re_lines st ! i"
      | "i \<in> set js" "newly_marked st st' (re_lines st ! i) (re_lines st' ! i)"
      using g unfolding grows_def by blast
    then show ?thesis
    proof cases
      case 1
      have "re_lines st ! i \<in> set (re_lines st)" using i' by simp
      then have "marks_text (re_out st) (re_lines st ! i)" "line_in_block bs (re_lines st ! i)"
        using well unfolding marked_well_def by blast+
      then show ?thesis using 1 w marks_text_append line_in_block_snoc ok unfolding render_ok_def by metis
    next
      case 2
      then show ?thesis using js b ok' unfolding newly_marked_def marks_text_def line_in_block_def render_ok_def
        by (auto simp: nth_append)
    qed
  qed
  moreover have "spans_ordered (re_pos st') (bs @ [b])"
    using spans_ordered_snoc [of "re_pos st" bs "re_pos st'" b] well b grows_pos [OF g] unfolding marked_well_def by simp
  ultimately show ?thesis using ok' unfolding marked_well_def by (auto simp: in_set_conv_nth)
qed

lemma block_marked_well:
  assumes well: "marked_well bs st" and b: "bl_no b = length bs" "block_utf8 he b"
  shows "marked_well (fst (render_block he v page (bs, st) b)) (snd (render_block he v page (bs, st) b))"
    and "length (fst (render_block he v page (bs, st) b)) = Suc (length bs)"
proof -
  define js where "js = (if v \<and> \<not> block_refined b then [] else lines_of_block (re_lines st) (bl_no b))"
  have js: "\<forall>i \<in> set js. i < length (re_lines st) \<and> ln_block (re_lines st ! i) = length bs"
    using b by (auto simp: js_def lines_of_block_def)
  note sep = separated [OF well]
  have body: "marked_well (bs @ [b\<lparr>bl_from := int (re_pos (sep_md st)), bl_to := int (re_pos (f (sep_md st)))\<rparr>]) (f (sep_md st))"
    if "block_body he page b js t = Some f" for t f
  proof -
    have ok: "render_ok (sep_md st)" using sep unfolding marked_well_def by blast
    have "grows js (sep_md st) (f (sep_md st))" using grows_body [OF ok b(2) _ that] js sep by simp
    then show ?thesis using shown_block [of bs "sep_md st" js] sep js by simp
  qed
  show "marked_well (fst (render_block he v page (bs, st) b)) (snd (render_block he v page (bs, st) b))"
    using well body by (auto simp: render_block_def Let_def js_def [symmetric] hidden_block split: option.split)
  show "length (fst (render_block he v page (bs, st) b)) = Suc (length bs)"
    by (simp add: render_block_def Let_def split: option.split)
qed

lemma blocks_marked_well:
  assumes "\<forall>i < length bs. bl_no (bs ! i) = i" "\<forall>b \<in> set bs. block_utf8 he b" "marked_well [] st"
  shows "marked_well (fst (foldl (render_block he v page) ([], st) bs)) (snd (foldl (render_block he v page) ([], st) bs))
    \<and> length (fst (foldl (render_block he v page) ([], st) bs)) = length bs"
  using assms(1,2)
proof (induction bs rule: rev_induct)
  case (snoc b bs)
  obtain ds st' where x: "foldl (render_block he v page) ([], st) bs = (ds, st')" by fastforce
  have "\<forall>i < length bs. bl_no (bs ! i) = i" using snoc.prems(1) by (metis butlast_snoc length_append_singleton less_SucI nth_butlast)
  with snoc x have ih: "marked_well ds st'" "length ds = length bs" by simp_all
  have "bl_no b = length ds" using snoc.prems(1) ih(2) by (metis length_append_singleton lessI nth_append_length)
  with block_marked_well [OF ih(1)] snoc.prems(2) ih(2) x show ?case by simp
qed (use assms(3) in simp)

definition page_utf8 :: "html_env \<Rightarrow> ppage \<Rightarrow> bool" where
  "page_utf8 he pg \<longleftrightarrow> list_all (\<lambda>l. utf8 (ln_text l)) (pa_lines pg) \<and> list_all (block_utf8 he) (pa_blocks pg)"

lemma renumber_texts: "ln_text ` set (pa_lines (renumber pg)) = ln_text ` set (pa_lines pg)"
proof -
  have "map ln_text (map2 (\<lambda>i l. l\<lparr>ln_no := i\<rparr>) [0..<length ls] ls) = map ln_text ls" for ls
    by (rule nth_equalityI) simp_all
  then have numbered: "ln_text ` set (map2 (\<lambda>i l. l\<lparr>ln_no := i\<rparr>) [0..<length ls] ls) = ln_text ` set ls" for ls
    by (metis set_map)
  obtain f where f: "pa_lines (renumber pg) = (let ls = sort_key ln_block (map (\<lambda>l. l\<lparr>ln_block := f (ln_block l)\<rparr>) (pa_lines pg))
      in map2 (\<lambda>i l. l\<lparr>ln_no := i\<rparr>) [0..<length ls] ls)"
    by (simp add: renumber_def Let_def)
  show ?thesis unfolding f Let_def by (subst numbered) (simp add: image_image)
qed

lemma render_page_marks:
  assumes "page_utf8 he pg"
  shows "\<exists>bs st. pa_blocks (render_page he pg) = bs \<and> pa_lines (render_page he pg) = re_lines st
    \<and> pa_markdown (render_page he pg) = re_out st \<and> marked_well bs st \<and> length bs = length (pa_blocks pg)"
proof -
  let ?pg = "renumber pg"
  let ?st = "\<lparr>re_out = [], re_pos = 0, re_lines = map (\<lambda>l. l\<lparr>ln_from := -1, ln_to := -1\<rparr>) (pa_lines ?pg), re_first = True\<rparr>"
  have bs: "pa_blocks ?pg = map2 (\<lambda>i b. b\<lparr>bl_no := i\<rparr>) [0..<length (pa_blocks pg)] (pa_blocks pg)"
    by (simp add: renumber_def Let_def)
  have no: "\<forall>i < length (pa_blocks ?pg). bl_no (pa_blocks ?pg ! i) = i" unfolding bs by simp
  have b8: "\<forall>b \<in> set (pa_blocks ?pg). block_utf8 he b"
    using assms unfolding bs page_utf8_def list_all_iff by (auto simp: block_utf8_def in_set_zip)
  have l8: "\<forall>l \<in> set (pa_lines ?pg). utf8 (ln_text l)"
    using assms renumber_texts unfolding page_utf8_def list_all_iff by (metis (no_types, lifting) image_iff)
  have "marked_well [] ?st"
    using l8 by (auto simp: marked_well_def render_ok_def rune_len_def spans_ordered_def shown_spans_def marks_text_def line_in_block_def)
  note fin = blocks_marked_well [OF no b8 this, of "pa_text_source ?pg = ''vlm''" "pa_no ?pg"]
  then show ?thesis using bs
    by (auto simp: render_page_def Let_def split: prod.split)
qed


text \<open>
  C2: rendering a page whose texts are valid UTF-8 records offsets that can be trusted: the rune range of a
  line in the markdown is exactly the text of the line, or the line has no range; a line with a range lies
  within the range of its block; and the ranges of the blocks that are shown follow one another without
  overlap, within the markdown.
\<close>

theorem render_marks_text:
  assumes "page_utf8 he pg"
  shows "list_all (marks_text (pa_markdown (render_page he pg))) (pa_lines (render_page he pg))
    \<and> list_all (line_in_block (pa_blocks (render_page he pg))) (pa_lines (render_page he pg))
    \<and> spans_ordered (rune_len (pa_markdown (render_page he pg))) (pa_blocks (render_page he pg))"
  using render_page_marks [OF assms] by (auto simp: marked_well_def render_ok_def list_all_iff)

definition sample_block :: "nat \<Rightarrow> string \<Rightarrow> string \<Rightarrow> pblock" where
  "sample_block n t s =
     \<lparr>bl_no = n, bl_source = 0, bl_type = t, bl_class = [], bl_conf = 1, bl_box = zero_box, bl_text = s, bl_html = [], bl_latex = [],
      bl_asset = [], bl_furniture = False, bl_text_source = [], bl_from = 0, bl_to = 0\<rparr>"

definition sample_line :: "nat \<Rightarrow> string \<Rightarrow> pline" where
  "sample_line n s =
     \<lparr>ln_source = 0, ln_block = n, ln_text = s, ln_conf = 1, ln_quad = quad_from_box zero_box, ln_box = zero_box, ln_in_figure = False,
      ln_low = False, ln_text_source = ''ocr'', ln_ocr = [], ln_no = 0, ln_from = 0, ln_to = 0\<rparr>"

definition sample_page :: ppage where
  "sample_page =
     \<lparr>pa_no = 1, pa_text_source = ''ocr'', pa_vlm_markdown = [], pa_blocks = [sample_block 0 ''heading'' ''1. Scope'', sample_block 1 ''paragraph'' ''This act''],
      pa_lines = [sample_line 1 ''This act'', sample_line 0 ''1. Scope'', sample_line 1 ''applies''], pa_markdown = [], pa_blank = False\<rparr>"

definition no_html :: html_env where
  "no_html = \<lparr>he_parse = (\<lambda>s. None), he_escape = (\<lambda>s. s)\<rparr>"

lemma sample_page_utf8: "page_utf8 no_html sample_page"
proof -
  have "table_markdown no_html [] = []" by (simp add: table_markdown_def parse_table_def text_simps)
  moreover have "trim_space [] = []" by (simp add: text_simps)
  ultimately show ?thesis
    by (simp add: page_utf8_def sample_page_def sample_line_def sample_block_def block_utf8_def utf8_ascii)
qed

lemma render_marks_text_witness:
  "page_utf8 no_html sample_page
   \<and> list_all (marks_text (pa_markdown (render_page no_html sample_page))) (pa_lines (render_page no_html sample_page))
   \<and> list_all (line_in_block (pa_blocks (render_page no_html sample_page))) (pa_lines (render_page no_html sample_page))
   \<and> spans_ordered (rune_len (pa_markdown (render_page no_html sample_page))) (pa_blocks (render_page no_html sample_page))"
  using sample_page_utf8 render_marks_text [OF sample_page_utf8] by simp

end
