(* ===== verification/PageAlign.thy ===== *)
theory PageAlign
  imports PageRefine
begin

text \<open>
  The alignment of the words of OCR with those of a transcription: it pairs words in order, and with exact
  arithmetic no other way to pair them costs less.
\<close>

subsection \<open>Pairings\<close>

text \<open>Pairs of indexes that grow in both components, below \<open>n\<close> and \<open>m\<close>, each with the cost of its words.\<close>

definition pairing :: "(nat \<Rightarrow> nat \<Rightarrow> rat) \<Rightarrow> nat \<Rightarrow> nat \<Rightarrow> (nat \<times> nat \<times> rat) list \<Rightarrow> bool" where
  "pairing c n m ps \<longleftrightarrow>
     sorted_wrt (\<lambda>(i, j, x) (i', j', x'). i < i' \<and> j < j') ps \<and> list_all (\<lambda>(i, j, x). i < n \<and> j < m \<and> x = c i j) ps"

text \<open>What a pairing costs: its pairs, and a gap for every word without one.\<close>

definition pairing_cost :: "rat \<Rightarrow> nat \<Rightarrow> nat \<Rightarrow> (nat \<times> nat \<times> rat) list \<Rightarrow> rat" where
  "pairing_cost g n m ps = sum_list (map (\<lambda>(i, j, x). x) ps) + g * (of_nat n + of_nat m - 2 * of_nat (length ps))"

definition word_cost :: "(rat \<Rightarrow> rat) \<Rightarrow> word list \<Rightarrow> word list \<Rightarrow> nat \<Rightarrow> nat \<Rightarrow> rat" where
  "word_cost rnd as bs i j = sub_cost rnd (as ! i) (bs ! j)"

fun least_cost :: "(nat \<Rightarrow> nat \<Rightarrow> rat) \<Rightarrow> rat \<Rightarrow> nat \<Rightarrow> nat \<Rightarrow> rat" where
  "least_cost c g 0 j = of_nat j * g"
| "least_cost c g (Suc i) 0 = of_nat (Suc i) * g"
| "least_cost c g (Suc i) (Suc j) =
     min (min (least_cost c g i j + c i j) (least_cost c g i (Suc j) + g)) (least_cost c g (Suc i) j + g)"

lemma pairing_Nil [simp]: "pairing c n m []"
  by (simp add: pairing_def)

lemma pairing_mono: "pairing c n m ps \<Longrightarrow> n \<le> n' \<Longrightarrow> m \<le> m' \<Longrightarrow> pairing c n' m' ps"
  unfolding pairing_def by (auto elim!: list.pred_mono_strong)

lemma pairing_snoc:
  assumes "pairing c n m ps" "n \<le> i" "m \<le> j" "i < n'" "j < m'"
  shows "pairing c n' m' (ps @ [(i, j, c i j)])"
proof -
  have "pairing c n' m' ps" using assms by (auto elim: pairing_mono)
  moreover have "\<forall>p \<in> set ps. fst p < i \<and> fst (snd p) < j"
    using assms(1-3) unfolding pairing_def list_all_iff by fastforce
  ultimately show ?thesis using assms(4,5) unfolding pairing_def by (auto simp: sorted_wrt_append)
qed

lemma pairing_snocD:
  assumes "pairing c n m (ps @ [(i, j, x)])"
  shows "pairing c i j ps" "i < n" "j < m" "x = c i j"
  using assms unfolding pairing_def list_all_iff by (fastforce simp: sorted_wrt_append)+

lemma pairing_zero: "pairing c 0 m ps \<Longrightarrow> ps = []" "pairing c n 0 ps \<Longrightarrow> ps = []"
  by (cases ps, auto simp: pairing_def)+

lemma pairing_cost_snoc: "pairing_cost g (Suc n) (Suc m) (ps @ [(i, j, x)]) = pairing_cost g n m ps + x"
  by (simp add: pairing_cost_def algebra_simps)

lemma pairing_cost_gap:
  "pairing_cost g (Suc n) m ps = pairing_cost g n m ps + g" "pairing_cost g n (Suc m) ps = pairing_cost g n m ps + g"
  by (simp_all add: pairing_cost_def algebra_simps)

lemma least_cost_least: "pairing c n m ps \<Longrightarrow> least_cost c g n m \<le> pairing_cost g n m ps"
proof (induction c g n m arbitrary: ps rule: least_cost.induct)
  case (1 c g j)
  from pairing_zero(1) [OF this] show ?case by (simp add: pairing_cost_def algebra_simps)
next
  case (2 c g i)
  then have "ps = []" using pairing_zero by blast
  then show ?case by (simp add: pairing_cost_def algebra_simps)
next
  case (3 c g i j)
  consider "ps = []" | qs a b x where "ps = qs @ [(a, b, x)]" by (metis prod_cases3 rev_exhaust)
  then show ?case
  proof cases
    case 1
    then show ?thesis using "3.IH"(3) [of "[]"] pairing_cost_gap(2) [of g "Suc i" j "[]"] by (simp add: min_le_iff_disj)
  next
    case (2 qs a b x)
    note last = pairing_snocD [OF "3.prems" [unfolded 2]]
    consider "a < i" | "b < j" | "a = i" "b = j" using last by linarith
    then show ?thesis
    proof cases
      case 1
      have "pairing c i (Suc j) ps" using pairing_snoc [OF last(1), of a b i "Suc j"] 1 last(3,4) 2 by simp
      from "3.IH"(2) [OF this] show ?thesis by (simp add: pairing_cost_gap min_le_iff_disj)
    next
      case 2: 2
      have "pairing c (Suc i) j ps" using pairing_snoc [OF last(1), of a b "Suc i" j] 2 last(2,4) \<open>ps = qs @ [(a, b, x)]\<close> by simp
      from "3.IH"(3) [OF this] show ?thesis by (simp add: pairing_cost_gap(2) min_le_iff_disj)
    next
      case 3
      with last(1) have "least_cost c g i j \<le> pairing_cost g i j qs" using "3.IH"(1) by simp
      then show ?thesis using 3 last(4) 2 by (simp add: pairing_cost_snoc min_le_iff_disj)
    qed
  qed
qed

subsection \<open>The table\<close>

lemma align_cells_step:
  "align_cells (\<lambda>x. x) a (b # bs) (diag # up # ups) left =
     (let v = min (min (diag + sub_cost (\<lambda>x. x) a b) (up + 7 / 10)) (left + 7 / 10)
      in v # align_cells (\<lambda>x. x) a bs (up # ups) v)"
proof -
  have "(if y < x then y else x) = min x y" for x y :: rat by (simp add: min_def)
  then show ?thesis by (simp add: align_gap_def Let_def)
qed

lemma align_cells_least:
  assumes "i < length as" "j \<le> length bs"
  shows "align_cells (\<lambda>x. x) (as ! i) (drop j bs) (map (least_cost (word_cost (\<lambda>x. x) as bs) (7 / 10) i) [j..<Suc (length bs)])
      (least_cost (word_cost (\<lambda>x. x) as bs) (7 / 10) (Suc i) j)
    = map (least_cost (word_cost (\<lambda>x. x) as bs) (7 / 10) (Suc i)) [Suc j..<Suc (length bs)]"
  using assms(2)
proof (induction "length bs - j" arbitrary: j)
  case 0
  then show ?case by simp
next
  case (Suc k)
  let ?c = "least_cost (word_cost (\<lambda>x. x) as bs) (7 / 10)"
  have j: "j < length bs" using Suc by simp
  then have d: "drop j bs = bs ! j # drop (Suc j) bs" by (simp add: Cons_nth_drop_Suc)
  have u: "[j..<Suc (length bs)] = j # [Suc j..<Suc (length bs)]" "[Suc j..<Suc (length bs)] = Suc j # [Suc (Suc j)..<Suc (length bs)]"
    using j by (simp_all add: upt_conv_Cons)
  have best: "?c (Suc i) (Suc j) = min (min (?c i j + sub_cost (\<lambda>x. x) (as ! i) (bs ! j)) (?c i (Suc j) + 7 / 10)) (?c (Suc i) j + 7 / 10)"
    by (simp add: word_cost_def)
  have "align_cells (\<lambda>x. x) (as ! i) (drop (Suc j) bs) (map (?c i) [Suc j..<Suc (length bs)]) (?c (Suc i) (Suc j))
    = map (?c (Suc i)) [Suc (Suc j)..<Suc (length bs)]"
    using Suc(1) [of "Suc j"] Suc(2) j by simp
  then show ?case
    unfolding d u(1) using u(2) best by (simp add: align_cells_step Let_def del: align_cells.simps least_cost.simps upt_Suc)
qed

lemma align_rows_least:
  assumes "i \<le> length as"
  shows "align_rows (\<lambda>x. x) (Suc i) (drop i as) bs (map (least_cost (word_cost (\<lambda>x. x) as bs) (7 / 10) i) [0..<Suc (length bs)])
    = map (\<lambda>k. map (least_cost (word_cost (\<lambda>x. x) as bs) (7 / 10) k) [0..<Suc (length bs)]) [Suc i..<Suc (length as)]"
  using assms
proof (induction "length as - i" arbitrary: i)
  case 0
  then show ?case by simp
next
  case (Suc k)
  let ?c = "least_cost (word_cost (\<lambda>x. x) as bs) (7 / 10)"
  have i: "i < length as" using Suc by simp
  then have d: "drop i as = as ! i # drop (Suc i) as" by (simp add: Cons_nth_drop_Suc)
  have u: "[Suc i..<Suc (length as)] = Suc i # [Suc (Suc i)..<Suc (length as)]" using i by (simp add: upt_conv_Cons)
  have "[0..<Suc (length bs)] = 0 # [Suc 0..<Suc (length bs)]" by (simp add: upt_conv_Cons del: upt_Suc)
  then have row: "map (?c (Suc i)) [0..<Suc (length bs)]
      = ?c (Suc i) 0 # align_cells (\<lambda>x. x) (as ! i) bs (map (?c i) [0..<Suc (length bs)]) (?c (Suc i) 0)"
    using align_cells_least [OF i, of 0 bs] by simp
  have "align_rows (\<lambda>x. x) (Suc (Suc i)) (drop (Suc i) as) bs (map (?c (Suc i)) [0..<Suc (length bs)])
    = map (\<lambda>k. map (?c k) [0..<Suc (length bs)]) [Suc (Suc i)..<Suc (length as)]"
    using Suc(1) [of "Suc i"] Suc(2) i by simp
  then show ?case
    unfolding d u using row by (simp add: align_gap_def Let_def del: upt_Suc)
qed

lemma align_table_least:
  assumes "i \<le> length as" "j \<le> length bs"
  shows "align_table (\<lambda>x. x) as bs ! i ! j = least_cost (word_cost (\<lambda>x. x) as bs) (7 / 10) i j"
proof -
  let ?c = "least_cost (word_cost (\<lambda>x. x) as bs) (7 / 10)"
  have top: "map (\<lambda>j. (of_nat j * align_gap (\<lambda>x. x))) [0..<length bs + 1] = map (?c 0) [0..<Suc (length bs)]"
    by (simp add: align_gap_def)
  have "align_table (\<lambda>x. x) as bs = map (\<lambda>k. map (?c k) [0..<Suc (length bs)]) [0..<Suc (length as)]"
    using align_rows_least [of 0 as bs] unfolding align_table_def top Let_def
    by (simp add: upt_conv_Cons del: upt_Suc)
  then show ?thesis using assms by (simp del: upt_Suc)
qed

subsection \<open>The way back\<close>

lemma align_back_pairing: "pairing (word_cost rnd as bs) i j (align_back rnd d as bs i j)"
proof (induction rnd d as bs i j rule: align_back.induct)
  case (1 rnd d as bs i j)
  show ?case
    using 1 pairing_snoc [of "word_cost rnd as bs" i j "align_back rnd d as bs i j" i j "Suc i" "Suc j"]
      pairing_mono [of "word_cost rnd as bs" i "Suc j" _ "Suc i" "Suc j"] pairing_mono [of "word_cost rnd as bs" "Suc i" j _ "Suc i" "Suc j"]
    by (simp add: Let_def word_cost_def [symmetric])
qed simp_all

lemma align_back_cost:
  assumes "\<And>i j. i \<le> n \<Longrightarrow> j \<le> m \<Longrightarrow> d ! i ! j = least_cost (word_cost (\<lambda>x. x) as bs) (7 / 10) i j" "i \<le> n" "j \<le> m"
  shows "pairing_cost (7 / 10) i j (align_back (\<lambda>x. x) d as bs i j) = least_cost (word_cost (\<lambda>x. x) as bs) (7 / 10) i j"
  using assms(2,3)
proof (induction i arbitrary: j)
  case 0
  then show ?case by (simp add: pairing_cost_def)
next
  case (Suc i)
  note outer = Suc
  show ?case using Suc.prems
  proof (induction j)
    case 0
    then show ?case by (simp add: pairing_cost_def)
  next
    case (Suc j)
    let ?c = "least_cost (word_cost (\<lambda>x. x) as bs) (7 / 10)"
    have d: "d ! Suc i ! Suc j = ?c (Suc i) (Suc j)" "d ! i ! j = ?c i j" "d ! i ! Suc j = ?c i (Suc j)"
      using assms(1) Suc.prems by simp_all
    have ih: "pairing_cost (7 / 10) i j (align_back (\<lambda>x. x) d as bs i j) = ?c i j"
      "pairing_cost (7 / 10) i (Suc j) (align_back (\<lambda>x. x) d as bs i (Suc j)) = ?c i (Suc j)"
      "pairing_cost (7 / 10) (Suc i) j (align_back (\<lambda>x. x) d as bs (Suc i) j) = ?c (Suc i) j"
      using outer Suc by simp_all
    have best: "?c (Suc i) (Suc j) = min (min (?c i j + sub_cost (\<lambda>x. x) (as ! i) (bs ! j)) (?c i (Suc j) + 7 / 10)) (?c (Suc i) j + 7 / 10)"
      by (simp add: word_cost_def)
    show ?case
    proof (cases "?c (Suc i) (Suc j) = ?c i j + sub_cost (\<lambda>x. x) (as ! i) (bs ! j)")
      case True
      then show ?thesis using d ih by (simp add: Let_def pairing_cost_snoc del: least_cost.simps)
    next
      case no_pair: False
      show ?thesis
      proof (cases "?c (Suc i) (Suc j) = ?c i (Suc j) + 7 / 10")
        case True
        then show ?thesis using d ih no_pair by (simp add: Let_def align_gap_def pairing_cost_gap del: least_cost.simps)
      next
        case False
        then have "?c (Suc i) (Suc j) = ?c (Suc i) j + 7 / 10" using best no_pair by (auto simp: min_def split: if_splits)
        then show ?thesis using d ih no_pair False by (simp add: Let_def align_gap_def pairing_cost_gap(2) del: least_cost.simps)
      qed
    qed
  qed
qed


text \<open>
  C4: the alignment pairs OCR words with words of the transcription in order, each word at most once and
  with the cost of its pair, whatever the rounding is; and with exact arithmetic it is a best one: no pairing
  in order, where a pair costs what \<^verbatim>\<open>subCost\<close> says and a word left alone costs 0.7, costs less.
\<close>

definition best_pairing :: "word list \<Rightarrow> word list \<Rightarrow> (nat \<times> nat \<times> rat) list \<Rightarrow> bool" where
  "best_pairing as bs ps \<longleftrightarrow>
     (\<forall>qs. pairing (word_cost (\<lambda>x. x) as bs) (length as) (length bs) qs
        \<longrightarrow> pairing_cost (7 / 10) (length as) (length bs) ps \<le> pairing_cost (7 / 10) (length as) (length bs) qs)"

theorem align_best:
  "pairing (word_cost rnd as bs) (length as) (length bs) (align rnd as bs) \<and> best_pairing as bs (align (\<lambda>x. x) as bs)"
  using align_back_pairing align_back_cost [OF align_table_least [of _ as _ bs], of "length as" "length bs"]
  unfolding align_def best_pairing_def by (simp add: least_cost_least)

end
