(* ===== verification/PageFacts.thy ===== *)
theory PageFacts
  imports PageMarks PageAlign "HOL-Library.Multiset"
begin

text \<open>
  The assembly of a page loses no line: the reading order has every line once, and every line goes to one block.
\<close>

subsection \<open>Reading order\<close>

lemma see_line_distinct: "distinct seen \<Longrightarrow> distinct (see_line p seen i)"
  by (auto simp: see_line_def split: option.split)

lemma last_index_less: "last_index P xs = Some i \<Longrightarrow> i < length xs \<and> P (xs ! i)"
  using last_in_set [of "filter (\<lambda>i. P (xs ! i)) [0..<length xs]"]
  by (auto simp: last_index_def split: list.splits if_splits)

lemma see_lines:
  assumes "distinct seen" "set seen \<subseteq> set [0..<length (rp_lines p)]"
  shows "distinct (foldl (see_line p) seen ids) \<and> set (foldl (see_line p) seen ids) \<subseteq> set [0..<length (rp_lines p)]"
  using assms
proof (induction ids arbitrary: seen)
  case (Cons i ids)
  have "set (see_line p seen i) \<subseteq> set [0..<length (rp_lines p)]"
    using Cons.prems(2) by (auto simp: see_line_def dest: last_index_less split: option.split)
  with Cons see_line_distinct show ?case by simp
qed simp

lemma mset_rest:
  assumes "distinct seen" "set seen \<subseteq> set xs" "distinct xs"
  shows "mset seen + mset (filter (\<lambda>i. i \<notin> set seen) xs) = mset xs"
proof -
  have "mset seen = mset (filter (\<lambda>i. i \<in> set seen) xs)"
    using assms by (intro set_eq_iff_mset_eq_distinct [THEN iffD1]) auto
  then show ?thesis by (metis multiset_partition mset_filter)
qed

definition arranges :: "arrange \<Rightarrow> bool" where
  "arranges arrange \<longleftrightarrow> (\<forall>less xs. mset (arrange less xs) = mset xs)"

lemma reading_order_mset:
  assumes "arranges arrange"
  shows "mset (reading_order rnd arrange p) = mset [0..<length (rp_lines p)]"
proof -
  let ?seen = "foldl (see_line p) [] (rp_order p)"
  have "distinct ?seen \<and> set ?seen \<subseteq> set [0..<length (rp_lines p)]" by (rule see_lines) simp_all
  then have "mset ?seen + mset (filter (\<lambda>i. i \<notin> set ?seen) [0..<length (rp_lines p)]) = mset [0..<length (rp_lines p)]"
    by (intro mset_rest) (simp_all del: set_upt)
  then show ?thesis
    using assms unfolding reading_order_def Let_def arranges_def mset_append by metis
qed

lemma place_of_less: "i \<in> set xs \<Longrightarrow> place_of xs i < length xs"
  by (induction xs) (auto simp: place_of_def)

text \<open>The comparison of lines is not an order: three lines of a skewed page stand in a circle.\<close>

definition line_at :: "rat \<Rightarrow> rat \<Rightarrow> raw_line" where
  "line_at x y = \<lparr>rl_id = 0, rl_text = [], rl_conf = 1, rl_quad = quad_from_box \<lparr>bx0 = x, by0 = y, bx1 = x + 10, by1 = y + 10\<rparr>, rl_layout = 0\<rparr>"

definition skewed_page :: raw_page where
  "skewed_page =
     \<lparr>rp_width = 100, rp_height = 100, rp_lines = [line_at 20 0, line_at 10 4, line_at 0 8], rp_regions = [], rp_order = [], rp_markdown = []\<rparr>"

lemma reads_before_circle:
  "reads_before (\<lambda>x. x) skewed_page 2 1 \<and> reads_before (\<lambda>x. x) skewed_page 1 0 \<and> reads_before (\<lambda>x. x) skewed_page 0 2"
  by code_simp

subsection \<open>Blocks\<close>

lemma rank_runs_concat: "concat (rank_runs rank xs) = xs"
  by (induction rank xs rule: rank_runs.induct) (auto split: list.splits)

lemma mset_classes:
  "distinct cs \<Longrightarrow> set (map f xs) \<subseteq> set cs \<Longrightarrow> mset (concat (map (\<lambda>c. filter (\<lambda>x. f x = c) xs) cs)) = mset xs"
proof (induction xs)
  case Nil
  then show ?case by (induction cs) auto
next
  case (Cons x xs)
  have "mset (concat (map (\<lambda>c. filter (\<lambda>y. f y = c) (x # xs)) cs)) = (if f x \<in> set cs then {#x#} else {#}) + mset (concat (map (\<lambda>c. filter (\<lambda>y. f y = c) xs) cs))"
    using Cons.prems(1) by (induction cs) auto
  with Cons show ?case by simp
qed


lemma assigned_lines: "mset (concat (map wb_lines (assigned_blocks rnd overrides rank p))) = mset [0..<length (rp_lines p)]"
proof -
  let ?n = "[0..<length (rp_lines p)]"
  let ?f = "line_region rnd p"
  have range: "j < length (rp_regions p)" if "?f i = Some j" for i j
  proof -
    have fold: "foldl (\<lambda>best i. if \<not> box_contains (bs ! i) cx cy then best
          else case best of None \<Rightarrow> Some i | Some j \<Rightarrow> if box_area rnd (bs ! i) < box_area rnd (bs ! j) then Some i else Some j) b is = Some k
        \<Longrightarrow> k \<in> set is \<or> b = Some k" for bs cx cy b "is" k
      by (induction "is" arbitrary: b) (fastforce split: if_splits option.splits)+
    have "containing rnd bs x = Some k \<Longrightarrow> k < length bs" for bs x k
      unfolding containing_def Let_def using fold [of bs _ _ None "[0..<length bs]" k] by fastforce
    then show ?thesis using that last_index_less unfolding line_region_def by (fastforce split: option.splits)
  qed
  have regions: "concat (map wb_lines (map (\<lambda>j. \<lparr>wb_block = region_block overrides (rp_regions p ! j), wb_lines = filter (\<lambda>i. ?f i = Some j) ?n,
          wb_rank = 0, wb_refined = rr_text (rp_regions p ! j)\<rparr>) [0..<length (rp_regions p)]))
      = concat (map (\<lambda>c. filter (\<lambda>i. ?f i = c) ?n) (map Some [0..<length (rp_regions p)]))"
    by (simp add: comp_def)
  have orphans: "concat (map wb_lines (map (orphan_block p) (rank_runs rank xs))) = xs" for xs
    by (simp add: orphan_block_def comp_def rank_runs_concat)
  have "mset (concat (map wb_lines (assigned_blocks rnd overrides rank p)))
      = mset (concat (map (\<lambda>c. filter (\<lambda>i. ?f i = c) ?n) (map Some [0..<length (rp_regions p)] @ [None])))"
    unfolding assigned_blocks_def Let_def map_append concat_append orphans regions by simp
  also have "\<dots> = mset ?n"
  proof (rule mset_classes)
    show "distinct (map Some [0..<length (rp_regions p)] @ [None])" by (auto simp: distinct_map)
    show "set (map ?f ?n) \<subseteq> set (map Some [0..<length (rp_regions p)] @ [None])"
      using range by (auto simp: image_iff) (metis atLeastLessThan_iff le0 not_Some_eq)
  qed
  finally show ?thesis .
qed

lemma mset_lines_map: "(\<And>b. mset (wb_lines (f b)) = mset (wb_lines b)) \<Longrightarrow> mset (concat (map wb_lines (map f bs))) = mset (concat (map wb_lines bs))"
  by (induction bs) auto

lemma mset_concat_lines:
  fixes bs :: "work_block list"
  assumes "mset bs = mset bs'"
  shows "mset (concat (map wb_lines bs)) = mset (concat (map wb_lines bs'))"
proof -
  have "mset (concat (map wb_lines bs)) = sum_mset (image_mset (\<lambda>b. mset (wb_lines b)) (mset bs))" for bs :: "work_block list"
    by (induction bs) auto
  then show ?thesis using assms by simp
qed

lemma move_to_mset: "j \<le> i \<Longrightarrow> i < length bs \<Longrightarrow> mset (move_to i j bs) = mset bs"
proof -
  assume a: "j \<le> i" "i < length bs"
  have "take j bs @ drop j (take i bs) = take i bs" using a(1) by (metis append_take_drop_id min.absorb1 take_take)
  then have "bs = take j bs @ drop j (take i bs) @ bs ! i # drop (Suc i) bs"
    using id_take_nth_drop [OF a(2)] by (metis append.assoc)
  then have "mset bs = mset (take j bs @ drop j (take i bs) @ bs ! i # drop (Suc i) bs)" by simp
  then show ?thesis by (simp add: move_to_def)
qed

lemma fix_order_mset: "mset (fix_order rnd bs) = mset bs"
proof -
  have pass: "mset (snd (fix_pass rnd bs)) = mset bs \<and> length (snd (fix_pass rnd bs)) = length bs" for bs
  proof -
    have "mset (snd (foldl (fix_block rnd) x is)) = mset (snd x) \<and> length (snd (foldl (fix_block rnd) x is)) = length (snd x)"
      if "\<forall>i \<in> set is. i < length (snd x)" for x "is"
      using that
    proof (induction "is" arbitrary: x)
      case (Cons i "is")
      have "mset (snd (fix_block rnd x i)) = mset (snd x)"
        using Cons.prems move_to_mset [of _ i "snd x"] by (auto simp: fix_block_def find_Some_iff split: option.split)
      moreover from this have "length (snd (fix_block rnd x i)) = length (snd x)" by (metis size_mset)
      ultimately show ?case using Cons by simp
    qed simp
    from this [of "[1..<length bs]" "(False, bs)"] show ?thesis by (simp add: fix_pass_def)
  qed
  have "mset (fix_passes rnd k bs) = mset bs" for k bs
    by (induction k arbitrary: bs) (use pass in \<open>auto split: prod.split, metis snd_conv, metis snd_conv\<close>)
  then show ?thesis by (simp add: fix_order_def)
qed

lemma ordered_blocks_mset:
  "mset (ordered_blocks rnd arrange overrides reorder p)
   = mset (place_lineless rnd (map (rank_block ((!) (line_ranks rnd arrange p))) (assigned_blocks rnd overrides ((!) (line_ranks rnd arrange p)) p)))"
  by (simp add: ordered_blocks_def Let_def fix_order_mset)

lemma ordered_lines: "mset (concat (map wb_lines (ordered_blocks rnd arrange overrides reorder p))) = mset [0..<length (rp_lines p)]"
proof -
  let ?r = "(!) (line_ranks rnd arrange p)"
  have "wb_lines (place_block rnd bs b) = wb_lines b" for bs b by (simp add: place_block_def Let_def)
  then have place: "mset (concat (map wb_lines (place_lineless rnd bs))) = mset (concat (map wb_lines bs))" for bs
    unfolding place_lineless_def by (intro mset_lines_map) simp
  have "mset (concat (map wb_lines (map (rank_block ?r) bs))) = mset (concat (map wb_lines bs))" for bs
    by (rule mset_lines_map) (simp add: rank_block_def Let_def)
  then show ?thesis
    using mset_concat_lines [OF ordered_blocks_mset [of rnd arrange overrides reorder p]] place assigned_lines by simp
qed

lemma ordered_sorted:
  assumes "b \<in> set (ordered_blocks rnd arrange overrides reorder p)"
  shows "sorted (map ((!) (line_ranks rnd arrange p)) (wb_lines b))"
proof -
  have "b \<in># mset (ordered_blocks rnd arrange overrides reorder p)" using assms by simp
  then have "b \<in> set (place_lineless rnd (map (rank_block ((!) (line_ranks rnd arrange p))) (assigned_blocks rnd overrides ((!) (line_ranks rnd arrange p)) p)))"
    unfolding ordered_blocks_mset by simp
  then obtain bs b' where "b = place_block rnd bs (rank_block ((!) (line_ranks rnd arrange p)) b')"
    by (auto simp: place_lineless_def)
  moreover have "wb_lines (place_block rnd bs b) = wb_lines b" for bs b by (simp add: place_block_def Let_def)
  ultimately show ?thesis by (simp add: rank_block_def Let_def)
qed


subsection \<open>The page\<close>

text \<open>The ids of lines that OCR read; a line made from a transcription has the id -1.\<close>

definition ocr_ids :: "int list \<Rightarrow> int list" where
  "ocr_ids = filter (\<lambda>i. i \<noteq> -1)"

lemma ocr_ids_synthetic: "ocr_ids (map ln_source (synthetic_lines rnd b t)) = []"
  by (auto simp: ocr_ids_def synthetic_lines_def synthetic_line_def Let_def filter_empty_conv in_set_zip)

lemma ocr_ids_rows: "ocr_ids (map ln_source (table_row_lines rnd rows b md)) = []"
  by (simp add: table_row_lines_def Let_def ocr_ids_synthetic) (simp add: ocr_ids_def)

lemma refine_line_source: "ln_source (refine_line rs ocr vlm pairs n l) = ln_source l"
  by (simp add: refine_line_def split: option.split)

lemma refine_block_ids: "ocr_ids (map ln_source (snd (refine_block rnd nfd b ls t))) = ocr_ids (map ln_source ls)"
proof -
  have "map ln_source (map2 (refine_line rs ocr vlm pairs) [0..<length ls] ls) = map ln_source ls" for rs ocr vlm pairs
    by (rule nth_equalityI) (simp_all add: refine_line_source)
  then show ?thesis
    by (simp add: refine_block_def Let_def ocr_ids_synthetic) (simp add: ocr_ids_def)
qed

lemma emit_block_ids:
  "ocr_ids (map ln_source (snd (emit_block e opt raw bi wb))) = ocr_ids (map (\<lambda>i. rl_id (rp_lines raw ! i)) (wb_lines wb))"
proof -
  have ids: "map ln_source (map (ocr_line opt raw bi t) is) = map (\<lambda>i. rl_id (rp_lines raw ! i)) is" for t "is"
    by (simp add: ocr_line_def Let_def)
  have empty: "ocr_ids [] = []" by (simp add: ocr_ids_def)
  show ?thesis
    by (auto simp: emit_block_def Let_def ids empty ocr_ids_rows refine_block_ids simp del: map_map
        split: prod.splits option.splits dest!: arg_cong [where f = snd])
qed


lemma page_ids: "ocr_ids (map ln_source (pa_lines (build_page e opt raw)))
    = ocr_ids (map (\<lambda>i. rl_id (rp_lines raw ! i)) (concat (map wb_lines (ordered_blocks (pv_rnd e) (pv_arrange e) (bo_overrides opt) (bo_reorder opt) raw))))"
proof -
  have parts: "ocr_ids (map f (concat xss)) = concat (map (\<lambda>xs. ocr_ids (map f xs)) xss)" for f :: "'x \<Rightarrow> int" and xss
    by (induction xss) (simp_all add: ocr_ids_def)
  have "map (\<lambda>ls. ocr_ids (map ln_source ls)) (map snd (map2 (emit_block e opt raw) [0..<length wbs] wbs))
      = map (\<lambda>is. ocr_ids (map (\<lambda>i. rl_id (rp_lines raw ! i)) is)) (map wb_lines wbs)" for wbs
    by (rule nth_equalityI) (simp_all add: emit_block_ids)
  then show ?thesis by (simp add: build_page_def Let_def parts del: map_map)
qed

lemma ranks_perm:
  assumes "arranges arrange"
  shows "mset (line_ranks rnd arrange p) = mset [0..<length (rp_lines p)]"
proof -
  let ?xs = "reading_order rnd arrange p"
  let ?n = "length (rp_lines p)"
  have m: "mset ?xs = mset [0..<?n]" by (rule reading_order_mset [OF assms])
  then have xs: "set ?xs = {0..<?n}" "length ?xs = ?n" by (metis set_mset_mset set_upt, metis length_upt minus_nat.diff_0 size_mset)
  have "inj_on (place_of ?xs) {0..<?n}"
    using place_inj xs(1) unfolding inj_on_def place_of_def by metis
  moreover have "place_of ?xs ` {0..<?n} \<subseteq> {0..<?n}" using place_of_less [of _ ?xs] xs by auto
  ultimately have "place_of ?xs ` {0..<?n} = {0..<?n}" by (simp add: endo_inj_surj)
  moreover have "distinct (line_ranks rnd arrange p)"
    using \<open>inj_on (place_of ?xs) {0..<?n}\<close> by (simp add: line_ranks_def distinct_map)
  ultimately show ?thesis
    by (intro set_eq_iff_mset_eq_distinct [THEN iffD1]) (simp_all add: line_ranks_def)
qed

text \<open>
  C3: building a page loses and duplicates no line that OCR read: the reading ranks are a permutation of
  the places of the lines, every line goes to exactly one block, the lines of a block stand in reading
  order, and the page has the ids of the OCR lines, each as often as the raw page. That the sort of the
  lines without a place in the engine's order gives the same lines back is a hypothesis.
\<close>

theorem build_keeps_lines:
  assumes "arranges (pv_arrange e)"
  shows "mset (line_ranks (pv_rnd e) (pv_arrange e) raw) = mset [0..<length (rp_lines raw)]
    \<and> mset (concat (map wb_lines (ordered_blocks (pv_rnd e) (pv_arrange e) (bo_overrides opt) (bo_reorder opt) raw))) = mset [0..<length (rp_lines raw)]
    \<and> list_all (\<lambda>b. sorted (map ((!) (line_ranks (pv_rnd e) (pv_arrange e) raw)) (wb_lines b)))
        (ordered_blocks (pv_rnd e) (pv_arrange e) (bo_overrides opt) (bo_reorder opt) raw)
    \<and> mset (ocr_ids (map ln_source (pa_lines (build_page e opt raw)))) = mset (ocr_ids (map rl_id (rp_lines raw)))"
proof (intro conjI)
  let ?bs = "ordered_blocks (pv_rnd e) (pv_arrange e) (bo_overrides opt) (bo_reorder opt) raw"
  show "mset (line_ranks (pv_rnd e) (pv_arrange e) raw) = mset [0..<length (rp_lines raw)]" by (rule ranks_perm [OF assms])
  show lines: "mset (concat (map wb_lines ?bs)) = mset [0..<length (rp_lines raw)]" by (rule ordered_lines)
  show "list_all (\<lambda>b. sorted (map ((!) (line_ranks (pv_rnd e) (pv_arrange e) raw)) (wb_lines b))) ?bs"
    using ordered_sorted by (auto simp: list_all_iff)
  have "mset (ocr_ids (map f xs)) = filter_mset (\<lambda>i. i \<noteq> -1) (image_mset f (mset xs))" for f :: "nat \<Rightarrow> int" and xs
    by (simp add: ocr_ids_def)
  then have "mset (ocr_ids (map ln_source (pa_lines (build_page e opt raw)))) = mset (ocr_ids (map (\<lambda>i. rl_id (rp_lines raw ! i)) [0..<length (rp_lines raw)]))"
    using lines by (simp only: page_ids)
  also have "map (\<lambda>i. rl_id (rp_lines raw ! i)) [0..<length (rp_lines raw)] = map rl_id (rp_lines raw)"
    by (rule nth_equalityI) simp_all
  finally show "mset (ocr_ids (map ln_source (pa_lines (build_page e opt raw)))) = mset (ocr_ids (map rl_id (rp_lines raw)))" .
qed

definition sample_raw_line :: "int \<Rightarrow> string \<Rightarrow> rat \<Rightarrow> raw_line" where
  "sample_raw_line i s y = \<lparr>rl_id = i, rl_text = s, rl_conf = 1, rl_quad = quad_from_box \<lparr>bx0 = 0, by0 = y, bx1 = 100, by1 = y + 10\<rparr>, rl_layout = 0\<rparr>"

definition sample_raw :: raw_page where
  "sample_raw =
     \<lparr>rp_width = 100, rp_height = 100, rp_lines = [sample_raw_line 7 ''second'' 20, sample_raw_line 8 ''first'' 0],
      rp_regions = [], rp_order = [8], rp_markdown = []\<rparr>"

definition plain_env :: page_env where
  "plain_env = \<lparr>pv_rnd = (\<lambda>x. x), pv_nfd = Some, pv_arrange = (\<lambda>less xs. xs), pv_html = no_html\<rparr>"

definition plain_opts :: build_opts where
  "plain_opts = \<lparr>bo_page = 1, bo_overrides = (\<lambda>s. None), bo_reorder = True, bo_low = 0, bo_asset = None\<rparr>"

lemma build_keeps_lines_witness:
  "arranges (pv_arrange plain_env) \<and> mset (ocr_ids (map ln_source (pa_lines (build_page plain_env plain_opts sample_raw)))) = {#7, 8#}"
proof -
  have a: "arranges (pv_arrange plain_env)" by (simp add: arranges_def plain_env_def)
  from build_keeps_lines [OF a, of sample_raw plain_opts] show ?thesis
    using a by (simp add: sample_raw_def sample_raw_line_def ocr_ids_def)
qed

end
