(* ===== verification/CrossRules.thy ===== *)
theory CrossRules
  imports CheckFacts
begin

text \<open>
  The rule sets of the cross-checks (\<^verbatim>\<open>sheets/checks.go\<close>, \<^verbatim>\<open>types/checks.go\<close>): the scopes that formulas
  see, the formula and the name of a rule chosen field by field, the validation of a rule set, and the
  translation of a sentence into a formula by the agent. Texts of errors are constructors.
\<close>

subsection \<open>Document types\<close>

record sheet_field =
  sf_key :: string
  sf_label :: string
  sf_value_type :: string
  sf_description :: string

record kb_type =
  kt_name :: string
  kt_title :: string
  kt_fields :: "sheet_field list"

type_synonym kb_config = "kb_type list"

text \<open>Maps filled in a loop: a later entry of the same key replaces the earlier one.\<close>

definition type_fields :: "sheet_field list \<Rightarrow> string \<rightharpoonup> field_info" where
  "type_fields fs = foldl (\<lambda>m f. m(sf_key f \<mapsto> \<lparr>fi_label = sf_label f, fi_type = sf_value_type f\<rparr>)) Map.empty fs"

definition type_infos :: "kb_config \<Rightarrow> string \<rightharpoonup> type_info" where
  "type_infos kb = foldl (\<lambda>m t. m(kt_name t \<mapsto> \<lparr>ti_title = kt_title t, ti_fields = type_fields (kt_fields t)\<rparr>)) Map.empty kb"

definition type_title :: "kb_config \<Rightarrow> string \<Rightarrow> string" where
  "type_title kb name = (case find (\<lambda>t. kt_name t = name) kb of Some t \<Rightarrow> kt_title t | None \<Rightarrow> name)"

definition has_type :: "kb_config \<Rightarrow> string \<Rightarrow> bool" where
  "has_type kb name \<longleftrightarrow> list_ex (\<lambda>t. kt_name t = name) kb"

text \<open>The scope of a step: the document by its type, one contract by the anchor type.\<close>

definition link_scope :: "kb_config \<Rightarrow> string \<Rightarrow> string \<Rightarrow> scope" where
  "link_scope kb dtype anchor =
     \<lparr>sc_types = type_infos kb, sc_groups = Map.empty, sc_single = Map.empty, sc_single_type = [dtype \<mapsto> dtype, anchor \<mapsto> anchor]\<rparr>"

definition rule_scope :: "kb_config \<Rightarrow> string \<Rightarrow> scope" where
  "rule_scope kb anchor =
     \<lparr>sc_types = type_infos kb, sc_groups = Map.empty, sc_single = Map.empty, sc_single_type = [anchor \<mapsto> anchor]\<rparr>"

subsection \<open>Rules\<close>

record field_ref =
  fr_type :: string
  fr_key :: string

record check_step =
  cs_id :: string
  cs_text :: string
  cs_formula :: string
  cs_ai :: bool
  cs_explanation :: string

record check_link =
  lk_type :: string
  lk_steps :: "check_step list"

record check_rule =
  ru_id :: string
  ru_name :: string
  ru_a :: "field_ref option"
  ru_op :: string
  ru_b :: "field_ref option"
  ru_text :: string
  ru_formula :: string
  ru_ai :: bool
  ru_off :: bool
  ru_explanation :: string

record ruleset =
  rs_id :: string
  rs_name :: string
  rs_description :: string
  rs_kbs :: "string list"
  rs_anchor :: string
  rs_links :: "check_link list"
  rs_rules :: "check_rule list"

definition check_ops :: "string \<Rightarrow> string \<rightharpoonup> string" where
  "check_ops kind =
     (if kind = ''text'' then map_of [(''same'', (vn ''gi~1ED1;ng v~1EDB;i'')), (''contains'', (vn ''c~F3; ch~1EE9;a'')), (''diff'', (vn ''kh~E1;c v~1EDB;i''))]
      else if kind = ''money'' then
        map_of [(''eq'', (vn ''b~1EB1;ng'')), (''le'', (vn ''kh~F4;ng l~1EDB;n h~1A1;n'')), (''ge'', (vn ''kh~F4;ng nh~1ECF; h~1A1;n'')), (''sum_le'', (vn ''c~1ED9;ng l~1EA1;i kh~F4;ng v~1B0;~1EE3;t qu~E1;''))]
      else if kind = ''date'' then
        map_of [(''before'', (vn ''tr~1B0;~1EDB;c ho~1EB7;c c~F9;ng ng~E0;y'')), (''after'', (vn ''sau ho~1EB7;c c~F9;ng ng~E0;y'')), (''same_day'', (vn ''c~F9;ng ng~E0;y v~1EDB;i''))]
      else Map.empty)"

definition field_kind :: "string \<Rightarrow> string" where
  "field_kind vt = (if vt \<in> {''money'', ''number''} then ''money'' else if vt = ''date'' then ''date'' else ''text'')"

definition field_of :: "kb_config \<Rightarrow> field_ref \<Rightarrow> sheet_field option" where
  "field_of kb r = find (\<lambda>f. sf_key f = fr_key r) (concat (map kt_fields (filter (\<lambda>t. kt_name t = fr_type r) kb)))"

definition zero_field :: sheet_field where
  "zero_field = \<lparr>sf_key = [], sf_label = [], sf_value_type = [], sf_description = []\<rparr>"

definition field_or_zero :: "kb_config \<Rightarrow> field_ref \<Rightarrow> sheet_field" where
  "field_or_zero kb r = (case field_of kb r of Some f \<Rightarrow> f | None \<Rightarrow> zero_field)"

definition ref_text :: "field_ref \<Rightarrow> string" where
  "ref_text r = fr_type r @ ''.'' @ fr_key r"

definition rule_formula :: "field_ref \<Rightarrow> string \<Rightarrow> field_ref \<Rightarrow> string \<Rightarrow> string" where
  "rule_formula ra op rb anchor =
     (let a = ref_text ra; b = ref_text rb in
      if op = ''same_day'' then a @ '' = '' @ b
      else if op = ''same'' then ''SAME('' @ a @ '', '' @ b @ '')''
      else if op = ''contains'' then ''CONTAINS('' @ a @ '', '' @ b @ '')''
      else if op = ''diff'' then ''NOT(SAME('' @ a @ '', '' @ b @ ''))''
      else if op = ''eq'' then a @ '' = '' @ b
      else if op \<in> {''le'', ''before''} then a @ '' <= '' @ b
      else if op \<in> {''ge'', ''after''} then a @ '' >= '' @ b
      else if op = ''sum_le'' then ''SUM('' @ a @ '') <= '' @ (if fr_type rb \<noteq> anchor then ''SUM('' @ b @ '')'' else b)
      else [])"

definition op_words :: "sheet_field \<Rightarrow> string \<Rightarrow> string" where
  "op_words f op = (case check_ops (field_kind (sf_value_type f)) op of Some w \<Rightarrow> w | None \<Rightarrow> [])"

definition rule_name :: "kb_config \<Rightarrow> check_rule \<Rightarrow> string \<Rightarrow> string" where
  "rule_name kb r anchor =
     (case (ru_a r, ru_b r) of
        (Some ra, Some rb) \<Rightarrow>
          (let fa = field_or_zero kb ra; fb = field_or_zero kb rb;
               a = sf_label fa @ (vn '' c~1EE7;a '') @ type_title kb (fr_type ra);
               b = sf_label fb @ (vn '' c~1EE7;a '') @ type_title kb (fr_type rb);
               op = op_words fa (ru_op r)
           in if ru_op r = ''sum_le'' then
                (vn ''T~1ED5;ng '') @ a @ '' '' @ op @ '' '' @ (if fr_type rb \<noteq> anchor then (vn ''t~1ED5;ng '') @ b else b)
              else a @ '' '' @ op @ '' '' @ b)
      | _ \<Rightarrow> ru_text r)"

subsection \<open>Validation\<close>

datatype ruleset_error =
    NoRulesetName
  | NoAnchorChosen
  | AnchorNotInLibrary string
  | StepWithoutFormula string string
  | BadStep string string formula_error
  | UnknownRuleField
  | KindsDiffer string string
  | OpNotForField string string
  | BadRule string formula_error

text \<open>New ids are those of the argument \<open>new\<close>, numbered by \<open>k\<close> (\<^verbatim>\<open>uuid.NewString()[:8]\<close>).\<close>

definition fresh_id :: "(nat \<Rightarrow> string) \<Rightarrow> nat \<Rightarrow> string \<Rightarrow> nat \<times> string" where
  "fresh_id new k s = (if s = [] then (Suc k, new k) else (k, s))"

fun check_steps ::
  "formula_env \<Rightarrow> kb_config \<Rightarrow> string \<Rightarrow> string \<Rightarrow> (nat \<Rightarrow> string) \<Rightarrow> nat \<Rightarrow> check_step list \<Rightarrow> ruleset_error + nat \<times> check_step list"
where
  "check_steps e kb anchor dtype new k [] = Inr (k, [])"
| "check_steps e kb anchor dtype new k (st # sts) =
     (let t = trim_space (cs_text st); (k', i) = fresh_id new k (cs_id st); st' = st\<lparr>cs_text := t, cs_id := i\<rparr>;
          check = check_formula e (cs_formula st) (link_scope kb dtype anchor) in
      if t = [] \<and> cs_formula st = [] then check_steps e kb anchor dtype new k sts
      else if \<not> cs_ai st \<and> trim_space (cs_formula st) = [] then Inl (StepWithoutFormula (type_title kb dtype) t)
      else if \<not> cs_ai st \<and> fst check \<noteq> None then Inl (BadStep (type_title kb dtype) t (the (fst check)))
      else (case check_steps e kb anchor dtype new k' sts of
          Inl err \<Rightarrow> Inl err
        | Inr (k, out) \<Rightarrow> Inr (k, st' # out)))"

fun check_links ::
  "formula_env \<Rightarrow> kb_config \<Rightarrow> string \<Rightarrow> (nat \<Rightarrow> string) \<Rightarrow> nat \<Rightarrow> check_link list \<Rightarrow> ruleset_error + nat \<times> check_link list"
where
  "check_links e kb anchor new k [] = Inr (k, [])"
| "check_links e kb anchor new k (l # ls) =
     (if lk_type l = anchor \<or> \<not> has_type kb (lk_type l) then check_links e kb anchor new k ls
      else case check_steps e kb anchor (lk_type l) new k (lk_steps l) of
        Inl err \<Rightarrow> Inl err
      | Inr (k', sts) \<Rightarrow>
          (case check_links e kb anchor new k' ls of
             Inl err \<Rightarrow> Inl err
           | Inr (k, out) \<Rightarrow> Inr (k, (if sts \<noteq> [] then [\<lparr>lk_type = lk_type l, lk_steps = sts\<rparr>] else []) @ out)))"

text \<open>A rule: \<open>None\<close> when it is neither two fields nor a sentence.\<close>

definition check_field_rule :: "formula_env \<Rightarrow> kb_config \<Rightarrow> string \<Rightarrow> check_rule \<Rightarrow> field_ref \<Rightarrow> field_ref \<Rightarrow> ruleset_error + check_rule" where
  "check_field_rule e kb anchor r ra rb =
     (case (field_of kb ra, field_of kb rb) of
        (Some fa, Some fb) \<Rightarrow>
          (let ka = field_kind (sf_value_type fa); f = rule_formula ra (ru_op r) rb anchor;
               r = r\<lparr>ru_formula := f, ru_ai := False\<rparr>; check = check_formula e f (rule_scope kb anchor) in
           if ka \<noteq> field_kind (sf_value_type fb) then Inl (KindsDiffer (sf_label fa) (sf_label fb))
           else if check_ops ka (ru_op r) = None then Inl (OpNotForField (ru_op r) (sf_label fa))
           else (case fst check of
               Some err \<Rightarrow> Inl (BadRule (rule_name kb r anchor) err)
             | None \<Rightarrow> Inr (r\<lparr>ru_name := rule_name kb r anchor\<rparr>)))
      | _ \<Rightarrow> Inl UnknownRuleField)"

definition check_sentence_rule :: "formula_env \<Rightarrow> kb_config \<Rightarrow> string \<Rightarrow> check_rule \<Rightarrow> check_rule" where
  "check_sentence_rule e kb anchor r =
     (let r = r\<lparr>ru_a := None, ru_b := None, ru_op := []\<rparr>;
          r = (if trim_space (ru_formula r) = [] then r\<lparr>ru_ai := True\<rparr>
               else if fst (check_formula e (ru_formula r) (rule_scope kb anchor)) \<noteq> None then r\<lparr>ru_formula := [], ru_ai := True\<rparr>
               else r)
      in if trim_space (ru_name r) = [] then r\<lparr>ru_name := ru_text r\<rparr> else r)"

definition check_rule_of :: "formula_env \<Rightarrow> kb_config \<Rightarrow> string \<Rightarrow> check_rule \<Rightarrow> ruleset_error + check_rule option" where
  "check_rule_of e kb anchor r =
     (case (ru_a r, ru_b r, ru_text r) of
        (Some ra, Some rb, []) \<Rightarrow> map_sum id Some (check_field_rule e kb anchor r ra rb)
      | _ \<Rightarrow> if ru_text r \<noteq> [] then Inr (Some (check_sentence_rule e kb anchor r)) else Inr None)"

fun check_rules ::
  "formula_env \<Rightarrow> kb_config \<Rightarrow> string \<Rightarrow> (nat \<Rightarrow> string) \<Rightarrow> nat \<Rightarrow> check_rule list \<Rightarrow> ruleset_error + check_rule list"
where
  "check_rules e kb anchor new k [] = Inr []"
| "check_rules e kb anchor new k (r # rs) =
     (let (k', i) = fresh_id new k (ru_id r) in
      case check_rule_of e kb anchor (r\<lparr>ru_id := i, ru_text := trim_space (ru_text r)\<rparr>) of
        Inl err \<Rightarrow> Inl err
      | Inr res \<Rightarrow>
          (case check_rules e kb anchor new k' rs of
             Inl err \<Rightarrow> Inl err
           | Inr out \<Rightarrow> Inr ((case res of None \<Rightarrow> [] | Some r \<Rightarrow> [r]) @ out)))"

definition check_ruleset :: "formula_env \<Rightarrow> kb_config \<Rightarrow> (nat \<Rightarrow> string) \<Rightarrow> ruleset \<Rightarrow> ruleset_error + ruleset" where
  "check_ruleset e kb new rs =
     (let out = rs\<lparr>rs_name := trim_space (rs_name rs), rs_description := trim_space (rs_description rs), rs_links := [], rs_rules := []\<rparr> in
      if trim_space (rs_name rs) = [] then Inl NoRulesetName
      else if rs_anchor rs = [] then
        (if rs_rules rs \<noteq> [] \<or> rs_links rs \<noteq> [] then Inl NoAnchorChosen else Inr out)
      else if \<not> has_type kb (rs_anchor rs) then Inl (AnchorNotInLibrary (rs_anchor rs))
      else case check_links e kb (rs_anchor rs) new 0 (rs_links rs) of
        Inl err \<Rightarrow> Inl err
      | Inr (k, links) \<Rightarrow>
          (case check_rules e kb (rs_anchor rs) new k (rs_rules rs) of
             Inl err \<Rightarrow> Inl err
           | Inr rules \<Rightarrow> Inr (out\<lparr>rs_links := links, rs_rules := rules\<rparr>)))"

text \<open>The types a rule set may meet: those of its knowledge bases, the fields of equal types joined.\<close>

definition join_type :: "kb_config \<Rightarrow> kb_type \<Rightarrow> kb_config" where
  "join_type out t =
     (if has_type out (kt_name t) then
        map (\<lambda>o'. if kt_name o' = kt_name t
             then o'\<lparr>kt_fields := kt_fields o' @ filter (\<lambda>f. sf_key f \<notin> sf_key ` set (kt_fields o')) (kt_fields t)\<rparr> else o') out
      else out @ [t])"

definition ruleset_types :: "kb_config list \<Rightarrow> kb_config" where
  "ruleset_types kbs = foldl join_type [] (concat kbs)"

text \<open>
  The tables a rule set reads: \<open>Some None\<close> is every table with fields (\<^verbatim>\<open>nil\<close>), \<open>None\<close> the panic
  on a rule with only its first field.
\<close>

definition add_table :: "string list \<Rightarrow> string \<Rightarrow> string list" where
  "add_table out t = (if t = [] \<or> t \<in> set out then out else out @ [t])"

fun rule_tables :: "string list \<Rightarrow> check_rule list \<Rightarrow> string list option option" where
  "rule_tables out [] = Some (Some out)"
| "rule_tables out (r # rs) =
     (if ru_off r then rule_tables out rs
      else case ru_a r of
        None \<Rightarrow> Some None
      | Some a \<Rightarrow>
          (case ru_b r of
             None \<Rightarrow> None
           | Some b \<Rightarrow> rule_tables (add_table (add_table out (fr_type a)) (fr_type b)) rs))"

definition ruleset_tables :: "ruleset \<Rightarrow> string list option option" where
  "ruleset_tables rs = rule_tables (foldl add_table [] (rs_anchor rs # map lk_type (rs_links rs))) (rs_rules rs)"

subsection \<open>A sentence into a formula\<close>

record compiled =
  co_name :: string
  co_formula :: string
  co_ai :: bool
  co_explanation :: string
  co_missing :: string

datatype compile_error = EmptySentence | AnchorNotChosen | LinkTypeNotValid | ModelFailed

text \<open>
  The agent is the argument \<open>ask\<close>: it answers the first request, and the second one, which carries the
  refused formula with its error; \<open>None\<close> when the call fails.
\<close>

definition failed_compile :: "string \<Rightarrow> compiled" where
  "failed_compile why = \<lparr>co_name = [], co_formula = [], co_ai = True, co_explanation = why, co_missing = []\<rparr>"

definition retried :: "formula_env \<Rightarrow> scope \<Rightarrow> ((string \<times> formula_error) option \<Rightarrow> compiled option) \<Rightarrow> (formula_error \<Rightarrow> string) \<Rightarrow> compiled \<Rightarrow> compiled" where
  "retried e sc ask err_text out =
     (case fst (check_formula e (co_formula out) sc) of
        None \<Rightarrow> out
      | Some err \<Rightarrow>
          (let out = (case ask (Some (co_formula out, err)) of Some again \<Rightarrow> again | None \<Rightarrow> out) in
           case fst (check_formula e (co_formula out) sc) of
             None \<Rightarrow> out
           | Some err \<Rightarrow>
               if co_ai out then out
               else (failed_compile ((vn ''Kh~F4;ng chuy~1EC3;n ~111;~1B0;~1EE3;c th~E0;nh c~F4;ng th~1EE9;c ('') @ err_text err @ (vn ''); AI s~1EBD; t~1EF1; ~111;~E1;nh gi~E1; c~E2;u n~E0;y m~1ED7;i l~1EA7;n ~111;~1ED1;i chi~1EBF;u.'')))\<lparr>co_name := co_name out\<rparr>))"

definition finish_compile :: "string \<Rightarrow> compiled \<Rightarrow> compiled" where
  "finish_compile sentence out =
     (let out = (if co_ai out then
            out\<lparr>co_formula := [],
                co_explanation := (if co_explanation out = [] then (vn ''AI s~1EBD; ~111;~1ECD;c th~F4;ng tin c~E1;c gi~1EA5;y t~1EDD; v~E0; t~1EF1; ~111;~E1;nh gi~E1; c~E2;u n~E0;y m~1ED7;i l~1EA7;n ~111;~1ED1;i chi~1EBF;u.'') else co_explanation out)\<rparr>
          else out)
      in if trim_space (co_name out) = [] then out\<lparr>co_name := sentence\<rparr> else out)"

definition compile_scope :: "kb_config \<Rightarrow> bool \<Rightarrow> string \<Rightarrow> string \<Rightarrow> scope" where
  "compile_scope kb is_link dtype anchor = (if is_link then link_scope kb dtype anchor else rule_scope kb anchor)"

definition compile ::
  "formula_env \<Rightarrow> kb_config \<Rightarrow> (string \<Rightarrow> (string \<times> formula_error) option \<Rightarrow> compiled option) \<Rightarrow> (formula_error \<Rightarrow> string) \<Rightarrow>
     bool \<Rightarrow> string \<Rightarrow> string \<Rightarrow> string \<Rightarrow> compile_error + compiled"
where
  "compile e kb ask err_text is_link dtype anchor sentence =
     (let t = trim_space sentence in
      if t = [] then Inl EmptySentence
      else if \<not> has_type kb anchor then Inl AnchorNotChosen
      else if is_link \<and> (\<not> has_type kb dtype \<or> dtype = anchor) then Inl LinkTypeNotValid
      else case ask t None of
        None \<Rightarrow> Inl ModelFailed
      | Some out \<Rightarrow>
          Inr (finish_compile t (if co_ai out then out else retried e (compile_scope kb is_link dtype anchor) (ask t) err_text out)))"

end
