(* ===== verification/RuleFacts.thy ===== *)
theory RuleFacts
  imports CrossRules
begin

text \<open>
  The formulas of rules chosen field by field: they read as the comparison that was chosen, so the validation
  never refuses one over fields with word codes, and every saved formula evaluates without a panic.
\<close>

subsection \<open>Positions do not matter to the parser\<close>

definition place0 :: "token \<Rightarrow> token" where
  "place0 t = token_of (tk_kind t) (tk_text t) 0"

definition same_tokens :: "token list \<Rightarrow> token list \<Rightarrow> bool" where
  "same_tokens ts us \<longleftrightarrow> map place0 ts = map place0 us"

definition agree_on :: "('a \<Rightarrow> 'a \<Rightarrow> bool) \<Rightarrow> (formula_error + 'a \<times> token list) option \<Rightarrow> (formula_error + 'a \<times> token list) option \<Rightarrow> bool" where
  "agree_on R a b \<longleftrightarrow> rel_option (rel_sum (\<lambda>_ _. True) (\<lambda>x y. R (fst x) (fst y) \<and> same_tokens (snd x) (snd y))) a b"

abbreviation same_node :: "node \<Rightarrow> node \<Rightarrow> bool" where
  "same_node x y \<equiv> unplaced x = unplaced y"

definition blind :: "parse \<Rightarrow> bool" where
  "blind p \<longleftrightarrow> (\<forall>ts us. same_tokens ts us \<longrightarrow> agree_on same_node (p ts) (p us))"

lemma blindD: "blind p \<Longrightarrow> same_tokens ts us \<Longrightarrow> agree_on same_node (p ts) (p us)"
  by (simp add: blind_def)

lemma agree_on_simps [simp]:
  "agree_on R None None" "agree_on R (Some (Inl e)) (Some (Inl e'))"
  "agree_on R (Some (Inr (x, ts))) (Some (Inr (y, us))) \<longleftrightarrow> R x y \<and> same_tokens ts us"
  by (simp_all add: agree_on_def)

lemma agree_and_then:
  assumes "agree_on R m m'" "\<And>x ts y us. R x y \<Longrightarrow> same_tokens ts us \<Longrightarrow> agree_on Q (f (x, ts)) (f' (y, us))"
  shows "agree_on Q (and_then m f) (and_then m' f')"
  using assms unfolding agree_on_def by (auto simp: and_then_def option_rel_Some1 elim!: option.rel_cases rel_sum.cases)

lemma place0_eq: "place0 t = place0 u \<longleftrightarrow> tk_kind t = tk_kind u \<and> tk_text t = tk_text u"
  by (auto simp: place0_def token_of_def)

lemma same_length: "same_tokens ts us \<Longrightarrow> length ts = length us"
  unfolding same_tokens_def by (metis length_map)

lemma same_tl: "same_tokens ts us \<Longrightarrow> same_tokens (tl ts) (tl us)"
  unfolding same_tokens_def by (metis map_tl)

lemma same_peek: "same_tokens ts us \<Longrightarrow> tk_kind (peek ts) = tk_kind (peek us) \<and> tk_text (peek ts) = tk_text (peek us)"
  by (cases ts; cases us) (auto simp: same_tokens_def peek_def place0_eq)

lemma same_Cons: "same_tokens (t # ts) us \<Longrightarrow> \<exists>u vs. us = u # vs \<and> tk_kind t = tk_kind u \<and> tk_text t = tk_text u \<and> same_tokens ts vs"
  by (cases us) (auto simp: same_tokens_def place0_eq)

text \<open>Tests that do not look at the position.\<close>

definition token_test :: "(token \<Rightarrow> 'a) \<Rightarrow> bool" where
  "token_test f \<longleftrightarrow> (\<forall>t u. tk_kind t = tk_kind u \<and> tk_text t = tk_text u \<longrightarrow> f t = f u)"

lemma token_tests [simp]: "token_test is_or" "token_test is_and" "token_test is_not" "token_test (is_op ops)" "token_test cmp_op"
  by (simp_all add: token_test_def is_or_def is_and_def is_not_def is_op_def is_word_def cmp_op_def)

lemma chain_blind:
  assumes "blind sub" "token_test cont" "\<And>t u l l' r r'. tk_text t = tk_text u \<Longrightarrow> same_node l l' \<Longrightarrow> same_node r r' \<Longrightarrow> same_node (mk t l r) (mk u l' r')"
  shows "same_node l l' \<Longrightarrow> same_tokens ts us \<Longrightarrow> agree_on same_node (chain k cont mk sub l ts) (chain k cont mk sub l' us)"
proof (induction k arbitrary: l l' ts us)
  case (Suc k)
  have "cont (peek ts) = cont (peek us)" using assms(2) same_peek [OF Suc.prems(2)] unfolding token_test_def by blast
  moreover have "agree_on same_node (and_then (sub (tl ts)) (\<lambda>(r, ts'). chain k cont mk sub (mk (peek ts) l r) ts'))
      (and_then (sub (tl us)) (\<lambda>(r, us'). chain k cont mk sub (mk (peek us) l' r) us'))"
  proof (rule agree_and_then [OF blindD [OF assms(1) same_tl [OF Suc.prems(2)]]], unfold prod.case)
    fix x ts' y us' assume "same_node x y" "same_tokens ts' us'"
    then show "agree_on same_node (chain k cont mk sub (mk (peek ts) l x) ts') (chain k cont mk sub (mk (peek us) l' y) us')"
      using Suc.prems(1) same_peek [OF Suc.prems(2)] by (intro Suc.IH assms(3)) simp_all
  qed
  ultimately show ?case using Suc.prems by simp
qed simp

lemma left_level_blind:
  assumes "blind sub" "token_test cont" "\<And>t u l l' r r'. tk_text t = tk_text u \<Longrightarrow> same_node l l' \<Longrightarrow> same_node r r' \<Longrightarrow> same_node (mk t l r) (mk u l' r')"
  shows "blind (left_level cont mk sub)"
  unfolding blind_def left_level_def
proof (intro allI impI)
  fix ts us assume "same_tokens ts us"
  from blindD [OF assms(1) this] show "agree_on same_node (and_then (sub ts) (\<lambda>(l, ts'). chain (length ts' + 1) cont mk sub l ts'))
      (and_then (sub us) (\<lambda>(l, ts'). chain (length ts' + 1) cont mk sub l ts'))"
    by (rule agree_and_then) (use same_length chain_blind [OF assms] in \<open>simp del: chain.simps\<close>)
qed

lemma p_not_blind: "blind sub \<Longrightarrow> blind (p_not sub)"
proof -
  assume sub: "blind sub"
  have "same_tokens ts us \<Longrightarrow> agree_on same_node (p_not sub ts) (p_not sub us)" for ts us
  proof (induction ts arbitrary: us)
    case Nil
    then have "us = []" by (simp add: same_tokens_def)
    then show ?case using blindD [OF sub] by (simp add: same_tokens_def)
  next
    case (Cons t ts)
    then obtain u vs where u: "us = u # vs" "tk_kind t = tk_kind u" "tk_text t = tk_text u" "same_tokens ts vs" using same_Cons by blast
    have "is_not t = is_not u" using u token_tests(3) unfolding token_test_def by blast
    then show ?case
      using u blindD [OF sub Cons.prems]
      by (auto intro!: agree_and_then [OF Cons.IH [OF u(4)]])
  qed
  then show ?thesis by (simp add: blind_def)
qed

lemma p_unary_blind: "blind sub \<Longrightarrow> blind (p_unary sub)"
proof -
  assume sub: "blind sub"
  have "same_tokens ts us \<Longrightarrow> agree_on same_node (p_unary sub ts) (p_unary sub us)" for ts us
  proof (induction ts arbitrary: us)
    case Nil
    then have "us = []" by (simp add: same_tokens_def)
    then show ?case using blindD [OF sub] by (simp add: same_tokens_def)
  next
    case (Cons t ts)
    then obtain u vs where u: "us = u # vs" "tk_kind t = tk_kind u" "tk_text t = tk_text u" "same_tokens ts vs" using same_Cons by blast
    have "is_op [''-''] t = is_op [''-''] u" using u token_tests(4) unfolding token_test_def by blast
    then show ?case
      using u blindD [OF sub Cons.prems]
      by (auto intro!: agree_and_then [OF Cons.IH [OF u(4)]])
  qed
  then show ?thesis by (simp add: blind_def)
qed

lemma p_cmp_blind:
  assumes "blind sub"
  shows "blind (p_cmp sub)"
  unfolding blind_def p_cmp_def
proof (intro allI impI)
  fix ts us assume "same_tokens ts us"
  from blindD [OF assms this]
  show "agree_on same_node
      (and_then (sub ts) (\<lambda>(l, ts'). case cmp_op (peek ts') of None \<Rightarrow> Some (Inr (l, ts'))
         | Some op \<Rightarrow> and_then (sub (tl ts')) (\<lambda>(r, ts''). Some (Inr (NCmp op l r (tk_pos (peek ts')), ts'')))))
      (and_then (sub us) (\<lambda>(l, ts'). case cmp_op (peek ts') of None \<Rightarrow> Some (Inr (l, ts'))
         | Some op \<Rightarrow> and_then (sub (tl ts')) (\<lambda>(r, ts''). Some (Inr (NCmp op l r (tk_pos (peek ts')), ts'')))))"
  proof (rule agree_and_then)
    fix x ts y us assume same: "same_node x y" "same_tokens ts us"
    have "cmp_op (peek ts) = cmp_op (peek us)" using same_peek [OF same(2)] token_tests(5) unfolding token_test_def by blast
    then show "agree_on same_node
        (case (x, ts) of (l, ts') \<Rightarrow> (case cmp_op (peek ts') of None \<Rightarrow> Some (Inr (l, ts'))
           | Some op \<Rightarrow> and_then (sub (tl ts')) (\<lambda>(r, ts''). Some (Inr (NCmp op l r (tk_pos (peek ts')), ts'')))))
        (case (y, us) of (l, ts') \<Rightarrow> (case cmp_op (peek ts') of None \<Rightarrow> Some (Inr (l, ts'))
           | Some op \<Rightarrow> and_then (sub (tl ts')) (\<lambda>(r, ts''). Some (Inr (NCmp op l r (tk_pos (peek ts')), ts'')))))"
      using same by (auto split: option.split intro!: agree_and_then [OF blindD [OF assms same_tl [OF same(2)]]])
  qed
qed

lemma ladder_blind: "blind prim \<Longrightarrow> blind (ladder prim)"
  unfolding ladder_def p_or_def p_and_def p_add_def p_mul_def
  by (intro left_level_blind p_not_blind p_cmp_blind p_unary_blind) simp_all

lemma p_args_blind:
  assumes "blind sub"
  shows "same_tokens ts us \<Longrightarrow> agree_on (\<lambda>as bs. map unplaced as = map unplaced bs) (p_args k sub ts) (p_args k sub us)"
proof (induction k arbitrary: ts us)
  case (Suc k)
  show ?case unfolding p_args.simps
  proof (rule agree_and_then [OF blindD [OF assms Suc.prems]])
    fix a b ts us assume same: "same_node a b" "same_tokens ts us"
    then show "agree_on (\<lambda>as bs. map unplaced as = map unplaced bs)
        (case (a, ts) of (a, ts') \<Rightarrow> if tk_kind (peek ts') = '','' then and_then (p_args k sub (tl ts')) (\<lambda>(as, ts''). Some (Inr (a # as, ts''))) else Some (Inr ([a], ts')))
        (case (b, us) of (a, ts') \<Rightarrow> if tk_kind (peek ts') = '','' then and_then (p_args k sub (tl ts')) (\<lambda>(as, ts''). Some (Inr (a # as, ts''))) else Some (Inr ([a], ts')))"
      using same_peek [OF same(2)] by (auto intro!: agree_and_then [OF Suc.IH [OF same_tl [OF same(2)]]])
  qed
qed simp

lemma p_call_blind:
  assumes "blind sub" "same_tokens ts us"
  shows "agree_on same_node (p_call sub f p ts) (p_call sub f q us)"
  unfolding p_call_def
proof (rule agree_and_then)
  show "agree_on (\<lambda>as bs. map unplaced as = map unplaced bs)
      (if tk_kind (peek ts) \<noteq> '')'' then p_args (length ts + 1) sub ts else Some (Inr ([], ts)))
      (if tk_kind (peek us) \<noteq> '')'' then p_args (length us + 1) sub us else Some (Inr ([], us)))"
    using same_peek [OF assms(2)] same_length [OF assms(2)] p_args_blind [OF assms] assms(2) by (simp del: p_args.simps)
qed (auto dest: same_peek same_tl)

lemma p_primary_blind:
  assumes "blind sub"
  shows "blind (p_primary rnd sub)"
  unfolding blind_def
proof (intro allI impI)
  fix ts us assume same: "same_tokens ts us"
  note tl1 = same_tl [OF same]
  note tl2 = same_tl [OF tl1]
  note tests = same_peek [OF same] same_peek [OF tl1] same_peek [OF tl2] same_peek [OF same_tl [OF tl2]]
  have sub: "agree_on same_node (and_then (sub (tl ts)) (\<lambda>(x, ts'). if tk_kind (peek ts') \<noteq> '')'' then Some (Inl MissingParen) else Some (Inr (x, tl ts'))))
      (and_then (sub (tl us)) (\<lambda>(x, ts'). if tk_kind (peek ts') \<noteq> '')'' then Some (Inl MissingParen) else Some (Inr (x, tl ts'))))"
    by (rule agree_and_then [OF blindD [OF assms tl1]]) (auto dest: same_peek same_tl)
  have call: "agree_on same_node (p_call sub (to_upper (tk_text (peek us))) p (tl (tl ts))) (p_call sub (to_upper (tk_text (peek us))) q (tl (tl us)))" for p q
    by (rule p_call_blind [OF assms tl2])
  show "agree_on same_node (p_primary rnd sub ts) (p_primary rnd sub us)"
    using tests sub call tl1 same_tl [OF tl2] unfolding p_primary_def Let_def
    by (auto split: option.split)
qed

lemma p_expr_blind: "blind (p_expr rnd n)"
proof (induction n)
  case 0
  then show ?case by (simp add: blind_def)
next
  case (Suc n)
  have "p_expr rnd (Suc n) = ladder (p_primary rnd (p_expr rnd n))" by (rule ext) simp
  then show ?case using ladder_blind [OF p_primary_blind [OF Suc]] by simp
qed

text \<open>Tokens that differ only in their positions parse to formulas that differ only in theirs.\<close>

lemma parse_tokens_blind:
  assumes "same_tokens ts us" "parse_tokens rnd us = Some (Inr n)"
  shows "\<exists>m. parse_tokens rnd ts = Some (Inr m) \<and> unplaced m = unplaced n"
proof -
  have a: "agree_on same_node (p_expr rnd (length ts + 1) ts) (p_expr rnd (length us + 1) us)"
    using blindD [OF p_expr_blind assms(1), of rnd "length ts + 1"] same_length [OF assms(1)] by simp
  from assms(2) obtain rest where us: "p_expr rnd (length us + 1) us = Some (Inr (n, rest))" "tk_kind (peek rest) = ''eof''"
    by (auto simp: parse_tokens_def and_then_def split: option.splits sum.splits if_splits simp del: p_expr.simps)
  with a obtain m rest' where "p_expr rnd (length ts + 1) ts = Some (Inr (m, rest'))" "unplaced m = unplaced n" "same_tokens rest' rest"
    by (auto simp: agree_on_def option_rel_Some2 elim!: rel_sum.cases simp del: p_expr.simps)
  then show ?thesis using us same_peek by (auto simp: parse_tokens_def simp del: p_expr.simps)
qed


subsection \<open>Reading the text of a rule\<close>

definition code_char :: "char \<Rightarrow> bool" where
  "code_char c \<longleftrightarrow>
     (let n = of_char c :: nat in 97 \<le> n \<and> n \<le> 122 \<or> 48 \<le> n \<and> n \<le> 57 \<or> n = 95 \<or> n = 45)"

text \<open>A code that reads as a word: it begins with a small letter or an underscore.\<close>

definition code_word :: "string \<Rightarrow> bool" where
  "code_word s \<longleftrightarrow>
     list_all code_char s
     \<and> (case s of [] \<Rightarrow> False | c # _ \<Rightarrow> (let n = of_char c :: nat in 97 \<le> n \<and> n \<le> 122 \<or> n = 95))"

definition eof_tok :: token where
  "eof_tok = token_of ''eof'' [] 0"

definition lexes :: "string \<Rightarrow> token list \<Rightarrow> bool" where
  "lexes s ts \<longleftrightarrow> (\<forall>i. \<exists>us. lex_from (lit s) i = Inr us \<and> same_tokens us (ts @ [eof_tok]))"

lemma lexes_Nil: "lexes [] []"
  by (simp add: lexes_def same_tokens_def place0_def eof_tok_def)

lemma lexes_cons:
  assumes "lexes s ts" "\<And>i. \<exists>p j. lex_from (lit s') i = cons_token (token_of k t p) (lex_from (lit s) j)"
  shows "lexes s' (token_of k t 0 # ts)"
  unfolding lexes_def
proof
  fix i
  from assms(2) obtain p j where l: "lex_from (lit s') i = cons_token (token_of k t p) (lex_from (lit s) j)" by blast
  from assms(1) obtain us where "lex_from (lit s) j = Inr us" "same_tokens us (ts @ [eof_tok])" unfolding lexes_def by blast
  with l show "\<exists>us. lex_from (lit s') i = Inr us \<and> same_tokens us ((token_of k t 0 # ts) @ [eof_tok])"
    by (auto simp: cons_token_def same_tokens_def place0_def)
qed

lemma lexes_space:
  assumes "lexes s ts"
  shows "lexes (CHR '' '' # s) ts"
proof -
  have "lex_from (lit (CHR '' '' # s)) i = lex_from (lit s) (i + 1)" for i
    by (simp add: lex_from.simps(2) is_space_ascii)
  then show ?thesis using assms unfolding lexes_def by simp
qed

lemma mark_chars:
  "char_of (40 :: nat) = CHR ''(''" "char_of (41 :: nat) = CHR '')''" "char_of (44 :: nat) = CHR '',''" "char_of (46 :: nat) = CHR ''.''"
  "char_of (60 :: nat) = CHR ''<''" "char_of (61 :: nat) = CHR ''=''" "char_of (62 :: nat) = CHR ''>''"
  by (simp_all add: char_of_eq_iff)

lemma lexes_mark:
  assumes "lexes s ts" "c \<in> set ''(),.''"
  shows "lexes (c # s) (mark_tok [c] # ts)"
proof (rule lexes_cons [OF assms(1)])
  fix i
  consider "c = CHR ''(''" | "c = CHR '')''" | "c = CHR '',''" | "c = CHR ''.''" using assms(2) by auto
  then have "lex_from (lit (c # s)) i = cons_token (token_of [c] [c] i) (lex_from (lit s) (i + 1))"
    by cases (simp_all add: lex_from.simps(2) is_space_ascii is_digit_ascii is_letter_ascii is_quote_def two_ops_def one_op_def
        encode_ascii mark_chars)
  then show "\<exists>p j. lex_from (lit (c # s)) i = cons_token (token_of [c] [c] p) (lex_from (lit s) j)" by blast
qed

lemma lexes_op:
  assumes "lexes s ts" "op \<in> {''='', ''<='', ''>=''}" "s = CHR '' '' # s'"
  shows "lexes (op @ s) (op_tok op # ts)"
proof (rule lexes_cons [OF assms(1)])
  fix i
  consider "op = ''=''" | "op = ''<=''" | "op = ''>=''" using assms(2) by auto
  then have "lex_from (lit (op @ s)) i = cons_token (token_of ''op'' op i) (lex_from (lit s) (i + length op))"
    unfolding assms(3)
    by cases (simp_all add: lex_from.simps(2) is_space_ascii is_digit_ascii is_letter_ascii is_quote_def two_ops_def one_op_def
        encode_ascii mark_chars)
  then show "\<exists>p j. lex_from (lit (op @ s)) i = cons_token (token_of ''op'' op p) (lex_from (lit s) j)" by blast
qed

definition name_char :: "char \<Rightarrow> bool" where
  "name_char c \<longleftrightarrow> code_char c \<or> (65 :: nat) \<le> of_char c \<and> of_char c \<le> (90 :: nat)"

definition first_char :: "char \<Rightarrow> bool" where
  "first_char c \<longleftrightarrow>
     (let n = of_char c :: nat in 97 \<le> n \<and> n \<le> 122 \<or> n = 95 \<or> 65 \<le> n \<and> n \<le> 90)"

lemma name_char_rune: "name_char c \<Longrightarrow> word_rune (of_char c) \<and> of_char c < (128 :: nat)"
proof -
  assume "name_char c"
  then have "of_char c < (128 :: nat)" by (auto simp: name_char_def code_char_def Let_def)
  then show ?thesis using \<open>name_char c\<close>
    by (auto simp: name_char_def code_char_def Let_def word_rune_def is_letter_ascii is_digit_ascii)
qed

lemma ascii_words: "list_all name_char w \<Longrightarrow> ascii w"
  by (induction w) (auto dest: name_char_rune)

lemma encode_lit: "ascii w \<Longrightarrow> encode (lit w) = w"
  by (simp add: encode_ascii ascii_def list_all_iff comp_def)

lemma lexes_word:
  assumes "lexes s ts" "w = c # cs" "first_char c" "list_all name_char w"
    and "s = [] \<or> hd s \<in> set ''(),. ''"
  shows "lexes (w @ s) (word_tok w # ts)"
proof (rule lexes_cons [OF assms(1)])
  fix i
  have start: "\<not> is_space (of_char c) \<and> \<not> is_digit (of_char c) \<and> \<not> is_quote (of_char c) \<and> (is_letter (of_char c) \<or> of_char c = (95 :: nat))"
  proof -
    have "of_char c < (128 :: nat)" using assms(3) by (auto simp: first_char_def Let_def)
    then show ?thesis using assms(3) by (auto simp: first_char_def Let_def is_space_ascii is_digit_ascii is_letter_ascii is_quote_def)
  qed
  have cs: "list_all word_rune (lit cs)" using assms(2,4) name_char_rune by (simp add: list_all_iff)
  have stop: "case lit s of [] \<Rightarrow> True | y # _ \<Rightarrow> \<not> word_rune y"
    using assms(5) by (cases s) (auto simp: word_rune_def is_letter_ascii is_digit_ascii)
  have "encode (lit w) = w" using encode_lit ascii_words assms(4) by blast
  moreover have "takeWhile word_rune (lit cs @ lit s) = lit cs" "dropWhile word_rune (lit cs @ lit s) = lit s"
    using takeWhile_split [OF cs stop] dropWhile_split [OF cs stop] by simp_all
  ultimately have "lex_from (lit (w @ s)) i = cons_token (token_of ''ident'' w i) (lex_from (lit s) (i + 1 + length cs))"
    using start assms(2) by (simp add: lex_from.simps(2) Let_def)
  then show "\<exists>p j. lex_from (lit (w @ s)) i = cons_token (token_of ''ident'' w p) (lex_from (lit s) j)" by blast
qed

lemma code_word_chars:
  assumes "code_word w"
  obtains c cs where "w = c # cs" "first_char c" "list_all name_char w"
proof (cases w)
  case (Cons c cs)
  have "list_all name_char w" using assms by (auto simp: code_word_def list_all_iff name_char_def)
  then show ?thesis using that [of c cs] assms Cons by (auto simp: code_word_def first_char_def Let_def)
qed (use assms in \<open>simp add: code_word_def\<close>)

text \<open>A reference to a field.\<close>

definition ref_node :: "field_ref \<Rightarrow> node" where
  "ref_node r = NMember (fr_type r) (fr_key r) 0"

definition good_ref :: "field_ref \<Rightarrow> bool" where
  "good_ref r \<longleftrightarrow> code_word (fr_type r) \<and> code_word (fr_key r) \<and> plain_word (fr_type r)"

lemma lexes_ref:
  assumes "lexes s ts" "good_ref r" "s = [] \<or> hd s \<in> set ''(),. ''"
  shows "lexes (ref_text r @ s) (unparse (ref_node r) @ ts)"
proof -
  from assms(2) obtain c cs where k: "fr_key r = c # cs" "first_char c" "list_all name_char (fr_key r)"
    unfolding good_ref_def by (metis code_word_chars)
  from assms(2) obtain d ds where t: "fr_type r = d # ds" "first_char d" "list_all name_char (fr_type r)"
    unfolding good_ref_def by (metis code_word_chars)
  have "lexes (fr_key r @ s) (word_tok (fr_key r) # ts)" by (rule lexes_word [OF assms(1) k assms(3)])
  from lexes_mark [OF this, of "CHR ''.''"] have "lexes (''.'' @ fr_key r @ s) (mark_tok ''.'' # word_tok (fr_key r) # ts)" by simp
  from lexes_word [OF this t] show ?thesis by (simp add: ref_text_def ref_node_def)
qed


subsection \<open>The formula of a rule\<close>

text \<open>What the rule compares, as a formula.\<close>

definition rule_node :: "field_ref \<Rightarrow> string \<Rightarrow> field_ref \<Rightarrow> string \<Rightarrow> node" where
  "rule_node ra op rb anchor =
     (let a = ref_node ra; b = ref_node rb in
      if op = ''same'' then NCall ''SAME'' [a, b] 0
      else if op = ''contains'' then NCall ''CONTAINS'' [a, b] 0
      else if op = ''diff'' then NNot (NCall ''SAME'' [a, b] 0) 0
      else if op \<in> {''same_day'', ''eq''} then NCmp ''='' a b 0
      else if op \<in> {''le'', ''before''} then NCmp ''<='' a b 0
      else if op \<in> {''ge'', ''after''} then NCmp ''>='' a b 0
      else NCmp ''<='' (NCall ''SUM'' [a] 0) (if fr_type rb \<noteq> anchor then NCall ''SUM'' [b] 0 else b) 0)"

definition rule_ops :: "string list" where
  "rule_ops = [''same'', ''contains'', ''diff'', ''same_day'', ''eq'', ''le'', ''before'', ''ge'', ''after'', ''sum_le'']"

definition rule_tokens :: "field_ref \<Rightarrow> string \<Rightarrow> field_ref \<Rightarrow> string \<Rightarrow> token list" where
  "rule_tokens ra op rb anchor =
     (case rule_node ra op rb anchor of
        NCmp c l r p \<Rightarrow> unparse l @ op_tok c # unparse r
      | NNot x p \<Rightarrow> word_tok ''NOT'' # wrap (unparse x)
      | n \<Rightarrow> unparse n)"

lemma call_names: "plain_word ''SAME'' \<and> to_upper ''SAME'' = ''SAME''" "plain_word ''CONTAINS'' \<and> to_upper ''CONTAINS'' = ''CONTAINS''"
    "plain_word ''SUM'' \<and> to_upper ''SUM'' = ''SUM''"
  by (simp_all add: plain_word_def is_true_word_def is_false_word_def is_not_def is_word_def is_op_def
       equal_fold_def fold_orbit_def text_simps to_lower_rune_def to_upper_rune_def to_upper_def encode_ascii char_of_eq_iff)

lemma is_not_NOT: "is_not (word_tok ''NOT'')"
  by (simp add: is_not_def is_word_def equal_fold_def fold_orbit_def text_simps)

lemma lexes_word_mark:
  assumes "lexes s ts" "list_all name_char w" "w = c # cs" "first_char c"
  shows "lexes (w @ CHR ''('' # s) (word_tok w # mark_tok ''('' # ts)"
  by (rule lexes_word [OF lexes_mark [OF assms(1)] assms(3,4,2)]) simp_all

lemma call_name_chars: "list_all name_char ''SAME''" "list_all name_char ''CONTAINS''" "list_all name_char ''SUM''" "list_all name_char ''NOT''"
    "first_char CHR ''S''" "first_char CHR ''C''" "first_char CHR ''N''"
  by (simp_all add: name_char_def code_char_def first_char_def)

lemma lexes_call:
  assumes "lexes s ts" "good_ref ra" "good_ref rb" "list_all name_char w" "w = c # cs" "first_char c"
  shows "lexes (w @ ''('' @ ref_text ra @ '', '' @ ref_text rb @ '')'' @ s) (unparse (NCall w [ref_node ra, ref_node rb] 0) @ ts)"
proof -
  have "lexes ('')'' @ s) (mark_tok '')'' # ts)" using lexes_mark [OF assms(1), of "CHR '')''"] by simp
  from lexes_space [OF lexes_ref [OF this assms(3)]]
  have "lexes ('' '' @ ref_text rb @ '')'' @ s) (unparse (ref_node rb) @ mark_tok '')'' # ts)" by simp
  from lexes_mark [OF this, of "CHR '',''"]
  have "lexes ('','' @ '' '' @ ref_text rb @ '')'' @ s) (mark_tok '','' # unparse (ref_node rb) @ mark_tok '')'' # ts)" by simp
  from lexes_ref [OF this assms(2)]
  have "lexes (ref_text ra @ '', '' @ ref_text rb @ '')'' @ s) (unparse (ref_node ra) @ mark_tok '','' # unparse (ref_node rb) @ mark_tok '')'' # ts)"
    by simp
  from lexes_word_mark [OF this assms(4-6)] show ?thesis by (simp add: wrap_def)
qed

lemma lexes_sum:
  assumes "lexes s ts" "good_ref r"
  shows "lexes (''SUM('' @ ref_text r @ '')'' @ s) (unparse (NCall ''SUM'' [ref_node r] 0) @ ts)"
proof -
  have "lexes ('')'' @ s) (mark_tok '')'' # ts)" using lexes_mark [OF assms(1), of "CHR '')''"] by simp
  from lexes_ref [OF this assms(2)] have "lexes (ref_text r @ '')'' @ s) (unparse (ref_node r) @ mark_tok '')'' # ts)" by simp
  from lexes_word_mark [OF this call_name_chars(3)] show ?thesis by (simp add: wrap_def call_name_chars)
qed

lemma lexes_compared:
  assumes "lexes s ts" "op \<in> {''='', ''<='', ''>=''}"
  shows "lexes ('' '' @ op @ '' '' @ s) (op_tok op # ts)"
  using lexes_space [OF lexes_op [OF lexes_space [OF assms(1)] assms(2) refl]] by simp

lemma rule_lexes:
  assumes good: "good_ref ra" "good_ref rb" and op: "op \<in> set rule_ops"
  shows "lexes (rule_formula ra op rb anchor) (rule_tokens ra op rb anchor)"
proof -
  have b: "lexes (ref_text rb) (unparse (ref_node rb))" using lexes_ref [OF lexes_Nil good(2)] by simp
  have cmp: "lexes (ref_text ra @ '' '' @ c @ '' '' @ ref_text rb) (unparse (ref_node ra) @ op_tok c # unparse (ref_node rb))"
    if "c \<in> {''='', ''<='', ''>=''}" for c
    using lexes_ref [OF lexes_compared [OF b that] good(1)] by simp
  have same: "lexes (w @ ''('' @ ref_text ra @ '', '' @ ref_text rb @ '')'') (unparse (NCall w [ref_node ra, ref_node rb] 0))"
    if "list_all name_char w" "w = c # cs" "first_char c" for w c cs
    using lexes_call [OF lexes_Nil good that] by simp
  have sum: "lexes (''SUM('' @ ref_text ra @ '')'' @ '' '' @ ''<='' @ '' '' @ s) (unparse (NCall ''SUM'' [ref_node ra] 0) @ op_tok ''<='' # ts)"
    if "lexes s ts" for s ts
    using lexes_sum [OF lexes_compared [OF that] good(1), of "''<=''"] by simp
  have close: "lexes '')'' [mark_tok '')'']" using lexes_mark [OF lexes_Nil, of "CHR '')''"] by simp
  have "lexes (''NOT'' @ CHR ''('' # ''SAME'' @ ''('' @ ref_text ra @ '', '' @ ref_text rb @ '')'' @ '')'')
      (word_tok ''NOT'' # mark_tok ''('' # unparse (NCall ''SAME'' [ref_node ra, ref_node rb] 0) @ [mark_tok '')''])"
    by (rule lexes_word_mark [OF lexes_call [OF close good call_name_chars(1) refl call_name_chars(5)] call_name_chars(4) refl call_name_chars(7)])
  then have diff: "lexes (''NOT(SAME('' @ ref_text ra @ '', '' @ ref_text rb @ ''))'') (word_tok ''NOT'' # wrap (unparse (NCall ''SAME'' [ref_node ra, ref_node rb] 0)))"
    by (simp add: wrap_def)
  have sums: "lexes (''SUM('' @ ref_text rb @ '')'') (unparse (NCall ''SUM'' [ref_node rb] 0))" using lexes_sum [OF lexes_Nil good(2)] by simp
  show ?thesis
    using op cmp [of "''=''"] cmp [of "''<=''"] cmp [of "''>=''"] same [OF call_name_chars(1)] same [OF call_name_chars(2)]
      sum [OF b] sum [OF sums] diff
    unfolding rule_ops_def
    by (auto simp: rule_formula_def rule_tokens_def rule_node_def Let_def call_name_chars)
qed


lemma printable_ref: "good_ref r \<Longrightarrow> printable rnd (ref_node r)"
  by (simp add: good_ref_def ref_node_def)

lemma ref_unplaced [simp]: "unplaced (ref_node r) = ref_node r"
  by (simp add: ref_node_def)

lemma ref_starts: "good_ref r \<Longrightarrow> starts (unparse (ref_node r) @ rest)"
  using starts_unparse [OF printable_ref] by blast

lemma rule_node_unplaced: "unplaced (rule_node ra op rb anchor) = rule_node ra op rb anchor"
  by (simp add: rule_node_def Let_def)

lemma parse_ladder:
  assumes "ladder (p_primary rnd (p_expr rnd (length ts + 1))) (ts @ [eof_tok]) = Some (Inr (n, [eof_tok]))"
  shows "parse_tokens rnd (ts @ [eof_tok]) = Some (Inr n)"
  using assms by (simp add: parse_tokens_def) (simp add: eof_tok_def)

lemma rule_parses:
  assumes good: "good_ref ra" "good_ref rb"
  shows "parse_tokens rnd (rule_tokens ra op rb anchor @ [eof_tok]) = Some (Inr (rule_node ra op rb anchor))"
proof -
  note p = printable_ref [OF good(1)] printable_ref [OF good(2)]
  have print: "printable rnd (NCall f [ref_node ra, ref_node rb] 0)" if "f \<in> {''SAME'', ''CONTAINS''}" for f
    using that p call_names by auto
  have sums: "printable rnd (NCall ''SUM'' [ref_node r] 0)" if "good_ref r" for r
    using that printable_ref call_names by simp
  have read: "p_primary rnd (p_expr rnd m) (unparse n @ rest) = Some (Inr (unplaced n, rest))"
    if "printable rnd n" "length (unparse n) \<le> m + 1" "follows (peek rest)" for n m rest
    using unparse_primary that by blast
  have eof: "ends (peek [eof_tok])" "follows (peek [eof_tok])" "ends eof_tok" "follows eof_tok" by (simp_all add: eof_tok_def ends_def follows_def)
  have cmp: "parse_tokens rnd ((unparse l @ op_tok c # unparse r) @ [eof_tok]) = Some (Inr (NCmp c (unplaced l) (unplaced r) 0))"
    if lr: "printable rnd l" "printable rnd r" "c \<in> {''='', ''<='', ''>=''}" for l r c
  proof (rule parse_ladder)
    let ?p = "p_primary rnd (p_expr rnd (length (unparse l @ op_tok c # unparse r) + 1))"
    have l: "?p (unparse l @ op_tok c # unparse r @ [eof_tok]) = Some (Inr (unplaced l, op_tok c # unparse r @ [eof_tok]))"
      by (rule read) (simp_all add: lr)
    have r: "?p (unparse r @ [eof_tok]) = Some (Inr (unplaced r, [eof_tok]))" by (rule read) (simp_all add: lr eof)
    show "ladder ?p ((unparse l @ op_tok c # unparse r) @ [eof_tok]) = Some (Inr (NCmp c (unplaced l) (unplaced r) 0, [eof_tok]))"
      using ladder_cmp [OF _ l starts_unparse [OF lr(1)] r starts_unparse [OF lr(2)] eof(1)] lr(3) by (auto simp del: p_expr.simps)
  qed
  have whole: "parse_tokens rnd (unparse n @ [eof_tok]) = Some (Inr (unplaced n))" if n: "printable rnd n" for n
  proof (rule parse_ladder)
    have "p_primary rnd (p_expr rnd (length (unparse n) + 1)) (unparse n @ [eof_tok]) = Some (Inr (unplaced n, [eof_tok]))"
      by (rule read) (simp_all add: n eof)
    then show "ladder (p_primary rnd (p_expr rnd (length (unparse n) + 1))) (unparse n @ [eof_tok]) = Some (Inr (unplaced n, [eof_tok]))"
      using starts_unparse [OF n] eof by (intro ladder_operand) simp_all
  qed
  let ?same = "NCall ''SAME'' [ref_node ra, ref_node rb] 0"
  have neg: "parse_tokens rnd ((word_tok ''NOT'' # wrap (unparse ?same)) @ [eof_tok]) = Some (Inr (NNot ?same 0))"
  proof (rule parse_ladder)
    let ?k = "length (unparse ?same) + 4"
    let ?q = "p_primary rnd (p_expr rnd ?k)"
    have "p_primary rnd (p_expr rnd (length (unparse ?same) + 3)) (unparse ?same @ mark_tok '')'' # [eof_tok]) = Some (Inr (?same, mark_tok '')'' # [eof_tok]))"
      using read [OF print, of "''SAME''" "length (unparse ?same) + 3" "mark_tok '')'' # [eof_tok]"] by (simp add: follows_def)
    then have "ladder (p_primary rnd (p_expr rnd (length (unparse ?same) + 3))) (unparse ?same @ mark_tok '')'' # [eof_tok]) = Some (Inr (?same, mark_tok '')'' # [eof_tok]))"
      using starts_unparse [OF print] by (intro ladder_operand) simp_all
    then have "p_expr rnd ?k (unparse ?same @ mark_tok '')'' # [eof_tok]) = Some (Inr (?same, mark_tok '')'' # [eof_tok]))"
      by (simp add: eval_nat_numeral)
    then have w: "?q (wrap (unparse ?same) @ [eof_tok]) = Some (Inr (?same, [eof_tok]))" by (rule primary_wrap)
    have "starts (wrap (unparse ?same) @ [eof_tok])" by (simp add: starts_def wrap_def is_not_def is_word_def is_op_def)
    then have "p_not (p_cmp (p_add (p_mul (p_unary ?q)))) (wrap (unparse ?same) @ [eof_tok]) = Some (Inr (?same, [eof_tok]))"
      using w eof by (intro to_not to_cmp) (auto simp: starts_def)
    then have "p_not (p_cmp (p_add (p_mul (p_unary ?q)))) ((word_tok ''NOT'' # wrap (unparse ?same)) @ [eof_tok]) = Some (Inr (NNot ?same 0, [eof_tok]))"
      using is_not_NOT by simp
    then have "ladder ?q ((word_tok ''NOT'' # wrap (unparse ?same)) @ [eof_tok]) = Some (Inr (NNot ?same 0, [eof_tok]))"
      by (rule from_not) (rule eof)
    then show "ladder (p_primary rnd (p_expr rnd (length (word_tok ''NOT'' # wrap (unparse ?same)) + 1)))
        ((word_tok ''NOT'' # wrap (unparse ?same)) @ [eof_tok]) = Some (Inr (NNot ?same 0, [eof_tok]))"
      by (simp add: eval_nat_numeral)
  qed
  show ?thesis
    using whole [OF print, of "''SAME''"] whole [OF print, of "''CONTAINS''"] neg p
      cmp [OF p, of "''=''"] cmp [OF p, of "''<=''"] cmp [OF p, of "''>=''"]
      cmp [OF sums [OF good(1)] p(2), of "''<=''"] cmp [OF sums [OF good(1)] sums [OF good(2)], of "''<=''"]
    by (simp add: rule_tokens_def rule_node_def Let_def)
qed


text \<open>Texts that trimming leaves alone.\<close>

definition bare :: "string \<Rightarrow> bool" where
  "bare s \<longleftrightarrow> ascii s \<and> s \<noteq> [] \<and> \<not> ascii_space (hd s) \<and> hd s \<noteq> CHR ''='' \<and> \<not> ascii_space (last s)"

lemma trim_bare: "bare s \<Longrightarrow> trim_formula s = s"
proof -
  assume s: "bare s"
  then obtain c cs where c: "s = c # cs" "\<not> ascii_space c" by (cases s) (auto simp: bare_def)
  from s obtain d ds where d: "rev s = d # ds" "\<not> ascii_space d" by (cases "rev s") (auto simp: bare_def last_rev [symmetric])
  have "dropWhile ascii_space s = s" "dropWhile ascii_space (rev s) = rev s" using c d by simp_all
  then have "trim_space s = s" using s by (simp add: trim_space_ascii bare_def)
  then show ?thesis using s by (simp add: trim_formula_def bare_def)
qed

lemma name_no_space: "name_char c \<Longrightarrow> \<not> ascii_space c \<and> c \<noteq> CHR ''=''"
  by (auto simp: name_char_def code_char_def is_space_ascii Let_def)

lemma ref_chars:
  assumes "good_ref r"
  shows "ascii (ref_text r) \<and> ref_text r \<noteq> [] \<and> name_char (hd (ref_text r)) \<and> name_char (last (ref_text r))"
proof -
  from assms obtain c cs where k: "fr_key r = c # cs" "list_all name_char (fr_key r)" unfolding good_ref_def by (metis code_word_chars)
  from assms obtain d ds where t: "fr_type r = d # ds" "list_all name_char (fr_type r)" unfolding good_ref_def by (metis code_word_chars)
  have "name_char (last (fr_key r))" using k by (metis last_in_set list.distinct(1) list_all_iff)
  then show ?thesis using k t ascii_words [OF k(2)] ascii_words [OF t(2)] by (simp add: ref_text_def)
qed

lemma rule_bare:
  assumes "good_ref ra" "good_ref rb" "op \<in> set rule_ops"
  shows "bare (rule_formula ra op rb anchor)"
proof -
  note a = ref_chars [OF assms(1)] and b = ref_chars [OF assms(2)]
  have cmp: "bare (x @ '' '' @ c @ '' '' @ y)"
    if "ascii x \<and> x \<noteq> [] \<and> name_char (hd x)" "c \<in> {''='', ''<='', ''>=''}" "ascii y \<and> y \<noteq> [] \<and> \<not> ascii_space (last y)" for x y c
    using that name_no_space [of "hd x"] by (auto simp: bare_def)
  have call: "bare (w @ x @ '')'')" if "w \<noteq> []" "ascii w" "name_char (hd w)" "ascii x" for w x
    using that name_no_space [of "hd w"] by (simp add: bare_def is_space_ascii)
  have names: "name_char CHR ''S''" "name_char CHR ''C''" "name_char CHR ''N''"
    by (simp_all add: name_char_def code_char_def)
  have sums: "ascii (''SUM('' @ x @ '')'') \<and> \<not> ascii_space (last (''SUM('' @ x @ '')''))" if "ascii x" for x
    using that by (simp add: is_space_ascii)
  show ?thesis
    using assms(3) a b name_no_space [of "last (ref_text rb)"] cmp [of "ref_text ra" "''=''" "ref_text rb"]
      cmp [of "ref_text ra" "''<=''" "ref_text rb"] cmp [of "ref_text ra" "''>=''" "ref_text rb"]
      cmp [of "''SUM('' @ ref_text ra @ '')''" "''<=''" "ref_text rb"]
      cmp [of "''SUM('' @ ref_text ra @ '')''" "''<=''" "''SUM('' @ ref_text rb @ '')''"]
      sums [of "ref_text rb"] names
      call [of "''SAME(''" "ref_text ra @ '', '' @ ref_text rb"] call [of "''CONTAINS(''" "ref_text ra @ '', '' @ ref_text rb"]
      call [of "''NOT(SAME(''" "ref_text ra @ '', '' @ ref_text rb @ '')''"]
    unfolding rule_ops_def by (auto simp: rule_formula_def Let_def)
qed

text \<open>The formula of a rule reads as the comparison it stands for, up to the positions.\<close>

lemma rule_read:
  assumes "good_ref ra" "good_ref rb" "op \<in> set rule_ops"
  shows "\<exists>m. parse_formula rnd (rule_formula ra op rb anchor) = Some (Inr m) \<and> unplaced m = rule_node ra op rb anchor"
proof -
  let ?s = "rule_formula ra op rb anchor"
  have bare: "bare ?s" by (rule rule_bare [OF assms])
  from rule_lexes [OF assms] obtain us where us: "lex_from (lit ?s) 0 = Inr us" "same_tokens us (rule_tokens ra op rb anchor @ [eof_tok])"
    unfolding lexes_def by blast
  then have "lex_formula ?s = Inr us" using bare by (simp add: lex_formula_def runes_ascii bare_def)
  then show ?thesis
    using parse_tokens_blind [OF us(2) rule_parses [OF assms(1,2)]] bare trim_bare [OF bare]
    by (simp add: parse_formula_def Let_def bare_def rule_node_unplaced)
qed


subsection \<open>Positions do not matter to the value\<close>

lemma eval_unplaced: "eval_node e sc (unplaced n) = eval_node e sc n"
proof (induction n rule: unplaced.induct)
  case (6 f as p)
  then have "map (eval_node e sc) (map unplaced as) = map (eval_node e sc) as" by simp
  then show ?case by (simp add: Let_def del: map_map)
qed simp_all

lemma walk_unplaced:
  "walk sc used (unplaced n) = walk sc used n"
  "walk_all sc used (map unplaced ns) = walk_all sc used ns"
  by (induction sc used n and sc used ns rule: walk_walk_all.induct) (auto split: option.split prod.split)

text \<open>The comparison that was chosen, over the values of the two fields.\<close>

definition rule_value :: "formula_env \<Rightarrow> scope \<Rightarrow> field_ref \<Rightarrow> string \<Rightarrow> field_ref \<Rightarrow> string \<Rightarrow> val" where
  "rule_value e sc ra op rb anchor =
     (let a = member_val e sc (fr_type ra) (fr_key ra); b = member_val e sc (fr_type rb) (fr_key rb);
          sum = (\<lambda>v. aggregate ''SUM'' (float_sum e) [v]) in
      if op = ''same'' then same_val e [a, b]
      else if op = ''contains'' then match_any e a b ''chua''
      else if op = ''diff'' then not_val (same_val e [a, b])
      else if op \<in> {''eq'', ''same_day''} then broadcast (compare_val e ''='') a b
      else if op \<in> {''le'', ''before''} then broadcast (compare_val e ''<='') a b
      else if op \<in> {''ge'', ''after''} then broadcast (compare_val e ''>='') a b
      else broadcast (compare_val e ''<='') (sum a) (if fr_type rb \<noteq> anchor then sum b else b))"

lemma eval_rule_node: "eval_node e sc (rule_node ra op rb anchor) = Some (rule_value e sc ra op rb anchor)"
  by (simp add: rule_node_def rule_value_def ref_node_def Let_def call_fn_def lift2_def)



subsection \<open>Fields of the rule's types\<close>

lemma foldl_upd_other: "x \<notin> k ` set ts \<Longrightarrow> foldl (\<lambda>m t. m(k t \<mapsto> v t)) m ts x = m x"
  by (induction ts arbitrary: m) auto

lemma foldl_upd_dom: "foldl (\<lambda>m t. m(k t \<mapsto> v t)) m ts x = None \<longleftrightarrow> m x = None \<and> x \<notin> k ` set ts"
  by (induction ts arbitrary: m) auto

lemma foldl_upd_distinct:
  "distinct (map k ts) \<Longrightarrow> t \<in> set ts \<Longrightarrow> foldl (\<lambda>m t. m(k t \<mapsto> v t)) m ts (k t) = Some (v t)"
  by (induction ts arbitrary: m) (auto simp: foldl_upd_other)

lemma field_of_scope:
  assumes "distinct (map kt_name kb)" "field_of kb r = Some f"
  shows "type_of (rule_scope kb anchor) (fr_type r) = Some (fr_type r) \<and> ti_fields (type_at (rule_scope kb anchor) (fr_type r)) (fr_key r) \<noteq> None"
proof -
  from assms(2) obtain t where t: "t \<in> set kb" "kt_name t = fr_type r" "f \<in> set (kt_fields t)" "sf_key f = fr_key r"
    unfolding field_of_def find_Some_iff by (auto dest!: nth_mem)
  have "type_infos kb (kt_name t) = Some \<lparr>ti_title = kt_title t, ti_fields = type_fields (kt_fields t)\<rparr>"
    unfolding type_infos_def using assms(1) t(1) by (rule foldl_upd_distinct)
  moreover have "type_fields (kt_fields t) (fr_key r) \<noteq> None"
    using t by (simp add: type_fields_def foldl_upd_dom image_iff) metis
  ultimately show ?thesis using t(2) by (auto simp: type_of_def type_at_def rule_scope_def)
qed

lemma walk_rule_node:
  assumes "distinct (map kt_name kb)" "field_of kb ra = Some fa" "field_of kb rb = Some fb"
  shows "walk (rule_scope kb anchor) [] (rule_node ra op rb anchor) = (None, [(fr_type ra, fr_key ra), (fr_type rb, fr_key rb)])"
proof -
  let ?fields = "\<lambda>r. ti_fields (type_at (rule_scope kb anchor) (fr_type r)) (fr_key r)"
  from field_of_scope [OF assms(1,2), of anchor] field_of_scope [OF assms(1,3), of anchor]
  obtain x y where "type_of (rule_scope kb anchor) (fr_type ra) = Some (fr_type ra)" "?fields ra = Some x"
      "type_of (rule_scope kb anchor) (fr_type rb) = Some (fr_type rb)" "?fields rb = Some y" by blast
  then show ?thesis unfolding rule_node_def ref_node_def Let_def by (cases "fr_type rb = anchor") (simp_all add: fn_arity_def)
qed

lemma check_ops_rule_ops: "check_ops kind op \<noteq> None \<Longrightarrow> op \<in> set rule_ops"
  by (auto simp: check_ops_def rule_ops_def split: if_splits)

lemma check_rule_formula:
  assumes "good_ref ra" "good_ref rb" "op \<in> set rule_ops"
  shows "check_formula e (rule_formula ra op rb anchor) sc = walk sc [] (rule_node ra op rb anchor)"
  using rule_read [OF assms, of "fe_round e" anchor] walk_unplaced(1) by (auto simp: check_formula_def) metis

lemma fields_read:
  assumes "good_ref ra" "good_ref rb" "op \<in> set rule_ops" "distinct (map kt_name kb)" "field_of kb ra = Some fa" "field_of kb rb = Some fb"
  shows "check_formula e (rule_formula ra op rb anchor) (rule_scope kb anchor) = (None, [(fr_type ra, fr_key ra), (fr_type rb, fr_key rb)])"
  using check_rule_formula [OF assms(1-3)] walk_rule_node [OF assms(4-6)] by simp

text \<open>The types of a rule set have different names.\<close>

lemma join_type_names: "map kt_name (join_type out t) = (if has_type out (kt_name t) then map kt_name out else map kt_name out @ [kt_name t])"
  by (auto simp: join_type_def)

lemma has_type_set: "has_type kb n \<longleftrightarrow> n \<in> set (map kt_name kb)"
  by (auto simp: has_type_def list_ex_iff)

lemma ruleset_types_distinct: "distinct (map kt_name (ruleset_types kbs))"
proof -
  have "distinct (map kt_name out) \<Longrightarrow> distinct (map kt_name (foldl join_type out ts))" for out ts
    by (induction ts arbitrary: out) (auto simp: join_type_names has_type_set simp del: map_append)
  from this [of "[]"] show ?thesis by (simp add: ruleset_types_def)
qed


subsection \<open>Saved rule sets\<close>

text \<open>Well-formed: the types exist, and every formula that the machine evaluates passed the validation.\<close>

definition wf_step :: "formula_env \<Rightarrow> kb_config \<Rightarrow> string \<Rightarrow> string \<Rightarrow> check_step \<Rightarrow> bool" where
  "wf_step e kb anchor dtype st \<longleftrightarrow>
     cs_ai st \<or> trim_space (cs_formula st) \<noteq> [] \<and> fst (check_formula e (cs_formula st) (link_scope kb dtype anchor)) = None"

definition wf_link :: "formula_env \<Rightarrow> kb_config \<Rightarrow> string \<Rightarrow> check_link \<Rightarrow> bool" where
  "wf_link e kb anchor l \<longleftrightarrow>
     has_type kb (lk_type l) \<and> lk_type l \<noteq> anchor \<and> lk_steps l \<noteq> [] \<and> list_all (wf_step e kb anchor (lk_type l)) (lk_steps l)"

definition wf_rule :: "formula_env \<Rightarrow> kb_config \<Rightarrow> string \<Rightarrow> check_rule \<Rightarrow> bool" where
  "wf_rule e kb anchor r \<longleftrightarrow>
     (ru_a r = None \<longleftrightarrow> ru_b r = None) \<and> (ru_ai r \<or> fst (check_formula e (ru_formula r) (rule_scope kb anchor)) = None)"

definition wf_ruleset :: "formula_env \<Rightarrow> kb_config \<Rightarrow> ruleset \<Rightarrow> bool" where
  "wf_ruleset e kb rs \<longleftrightarrow>
     rs_name rs \<noteq> [] \<and> (rs_links rs \<noteq> [] \<or> rs_rules rs \<noteq> [] \<longrightarrow> has_type kb (rs_anchor rs))
     \<and> list_all (wf_link e kb (rs_anchor rs)) (rs_links rs) \<and> list_all (wf_rule e kb (rs_anchor rs)) (rs_rules rs)"

text \<open>The formulas a run evaluates.\<close>

definition run_formulas :: "ruleset \<Rightarrow> string list" where
  "run_formulas rs =
     concat (map (\<lambda>l. map cs_formula (filter (\<lambda>st. \<not> cs_ai st) (lk_steps l))) (rs_links rs))
     @ map ru_formula (filter (\<lambda>r. \<not> ru_ai r) (rs_rules rs))"

lemma check_steps_wf:
  "check_steps e kb anchor dtype new k sts = Inr (k', out) \<Longrightarrow> list_all (wf_step e kb anchor dtype) out"
  by (induction sts arbitrary: k k' out)
     (auto simp: wf_step_def Let_def split: if_splits sum.splits prod.splits)

lemma check_links_wf:
  "check_links e kb anchor new k ls = Inr (k', out) \<Longrightarrow> list_all (wf_link e kb anchor) out"
  by (induction ls arbitrary: k k' out)
     (auto simp: wf_link_def dest: check_steps_wf split: if_splits sum.splits prod.splits)

lemma check_field_rule_wf: "ru_a r = Some ra \<Longrightarrow> ru_b r = Some rb \<Longrightarrow> check_field_rule e kb anchor r ra rb = Inr r' \<Longrightarrow> wf_rule e kb anchor r'"
  by (auto simp: check_field_rule_def wf_rule_def Let_def split: option.splits if_splits)

lemma check_sentence_rule_wf: "wf_rule e kb anchor (check_sentence_rule e kb anchor r)"
  by (simp add: check_sentence_rule_def wf_rule_def Let_def)

lemma check_rule_wf: "check_rule_of e kb anchor r = Inr (Some r') \<Longrightarrow> wf_rule e kb anchor r'"
  by (auto simp: check_rule_of_def map_sum_def check_sentence_rule_wf dest: check_field_rule_wf
      split: option.splits list.splits if_splits sum.splits)

lemma check_rules_wf: "check_rules e kb anchor new k rs = Inr out \<Longrightarrow> list_all (wf_rule e kb anchor) out"
  by (induction rs arbitrary: k out) (auto dest: check_rule_wf split: sum.splits prod.splits option.splits)

lemma check_ruleset_wf: "check_ruleset e kb new rs = Inr out \<Longrightarrow> wf_ruleset e kb out"
  by (auto simp: check_ruleset_def wf_ruleset_def Let_def dest: check_links_wf check_rules_wf split: if_splits sum.splits prod.splits)

lemma checked_eval:
  assumes "fst (check_formula e src sc) = None"
  shows "\<exists>r. eval_formula e src sc' = Inr (Some r)"
proof (cases "parse_formula (fe_round e) src")
  case (Some r)
  then show ?thesis using assms walk_eval(1) [of sc "[]" _ e sc']
    by (cases r) (auto simp: check_formula_def eval_formula_def)
qed (use parse_formula_returns in simp)

lemma wf_tables: "list_all (wf_rule e kb anchor) rs \<Longrightarrow> rule_tables out rs \<noteq> None"
  by (induction rs arbitrary: out) (auto simp: wf_rule_def split: option.split)

lemma wf_evaluates:
  assumes "wf_ruleset e kb rs"
  shows "list_all (\<lambda>f. \<exists>r. eval_formula e f sc = Inr (Some r)) (run_formulas rs)"
  using assms checked_eval [of e _ _ sc]
  by (fastforce simp: list_all_iff run_formulas_def wf_ruleset_def wf_link_def wf_step_def wf_rule_def)


text \<open>
  The library also lets the codes of types and fields begin with a digit (\<^verbatim>\<open>labelNameRe\<close>,
  \<^verbatim>\<open>fieldKeyRe\<close>): such a code reads as a number, and every rule over it is refused.
\<close>

lemma digit_code_refused:
  "parse_formula rnd (rule_formula \<lparr>fr_type = ''1a'', fr_key = ''so''\<rparr> ''eq'' \<lparr>fr_type = ''b'', fr_key = ''gia''\<rparr> anchor)
   = Some (Inl (Leftover ''a'' 2))"
proof -
  have "nat_string 1 = ''1''" by (simp add: nat_string.simps digit_char_def char_of_eq_iff)
  then have num: "parse_decimal ''1'' = Some 1" using parse_decimal_nat [of 1] by simp
  have "bare ''1a.so = b.gia''" by (simp add: bare_def is_space_ascii)
  moreover have "lex_formula ''1a.so = b.gia'' = Inr
     [token_of ''num'' ''1'' 0, token_of ''ident'' ''a'' 1, token_of ''.'' ''.'' 2, token_of ''ident'' ''so'' 3, token_of ''op'' ''='' 6,
      token_of ''ident'' ''b'' 8, token_of ''.'' ''.'' 9, token_of ''ident'' ''gia'' 10, token_of ''eof'' [] 13]"
    by (simp add: lex_formula_def lex_from.simps text_simps is_space_ascii is_letter_ascii is_digit_ascii word_rune_def cons_token_def
      two_ops_def one_op_def is_quote_def Let_def encode_ascii char_of_eq_iff del: One_nat_def)
  ultimately show ?thesis
    by (simp add: rule_formula_def ref_text_def parse_formula_def Let_def trim_bare num parse_tokens_def ladder_def p_or_def p_and_def
      p_cmp_def p_add_def p_mul_def left_level_def p_primary_def is_or_def is_and_def is_not_def is_op_def is_word_def equal_fold_def
      fold_orbit_def cmp_op_def text_simps to_lower_rune_def)
qed


subsection \<open>What the rules promise\<close>


definition example_types :: "kb_config list" where
  "example_types =
     [[\<lparr>kt_name = ''hd'', kt_title = ''HD'', kt_fields = [\<lparr>sf_key = ''gia'', sf_label = ''Gia'', sf_value_type = ''money'', sf_description = []\<rparr>]\<rparr>],
      [\<lparr>kt_name = ''hdon'', kt_title = ''Hoa don'', kt_fields = [\<lparr>sf_key = ''tien'', sf_label = ''Tien'', sf_value_type = ''number'', sf_description = []\<rparr>]\<rparr>,
       \<lparr>kt_name = ''hd'', kt_title = ''HD'', kt_fields = []\<rparr>]]"

definition example_rule :: check_rule where
  "example_rule =
     \<lparr>ru_id = [], ru_name = [], ru_a = Some \<lparr>fr_type = ''hdon'', fr_key = ''tien''\<rparr>, ru_op = ''sum_le'',
      ru_b = Some \<lparr>fr_type = ''hd'', fr_key = ''gia''\<rparr>, ru_text = [], ru_formula = [], ru_ai = False, ru_off = False, ru_explanation = []\<rparr>"

lemma example_refs: "good_ref \<lparr>fr_type = ''hdon'', fr_key = ''tien''\<rparr>" "good_ref \<lparr>fr_type = ''hd'', fr_key = ''gia''\<rparr>"
  by (simp_all add: good_ref_def code_word_def code_char_def plain_word_def is_true_word_def is_false_word_def is_not_def is_word_def
       is_op_def equal_fold_def fold_orbit_def text_simps to_lower_rune_def to_upper_rune_def to_upper_def encode_ascii char_of_eq_iff)


text \<open>
  C38: The text of a rule means the comparison that was chosen: evaluating it never panics, and gives the verdict
  of comparing the values of the two fields directly, in every scope.
\<close>

theorem field_rule_means:
  assumes "good_ref ra" "good_ref rb" "check_ops kind op \<noteq> None"
  shows "eval_formula e (rule_formula ra op rb anchor) sc = Inr (Some (verdict (rule_value e sc ra op rb anchor)))"
proof -
  obtain m where m: "parse_formula (fe_round e) (rule_formula ra op rb anchor) = Some (Inr m)" "unplaced m = rule_node ra op rb anchor"
    using rule_read [OF assms(1,2) check_ops_rule_ops [OF assms(3)]] by blast
  then have "eval_node e sc m = Some (rule_value e sc ra op rb anchor)" using eval_unplaced eval_rule_node by metis
  with m show ?thesis by (simp add: eval_formula_def)
qed

lemma field_rule_means_witness:
  "eval_formula example_env ''NOT(SAME(hdon.tien, hd.gia))'' example_scope
   = Inr (Some (verdict (not_val (same_val example_env [member_val example_env example_scope ''hdon'' ''tien'', member_val example_env example_scope ''hd'' ''gia'']))))"
  using field_rule_means [OF example_refs, of "''text''" "''diff''" example_env "[]" example_scope]
  by (simp add: rule_formula_def rule_value_def ref_text_def check_ops_def)

text \<open>
  C36: A rule set that was saved is well-formed - its types exist, no link leads to the anchor, every formula passed
  the validation in the scope it is written for -, its tables are found without a panic, and every formula that a run
  evaluates has a result, in every scope.
\<close>

theorem saved_sets_evaluate:
  assumes "check_ruleset e kb new rs = Inr out"
  shows "wf_ruleset e kb out \<and> ruleset_tables out \<noteq> None \<and> list_all (\<lambda>f. \<exists>r. eval_formula e f sc = Inr (Some r)) (run_formulas out)"
  using check_ruleset_wf [OF assms] wf_evaluates wf_tables unfolding ruleset_tables_def wf_ruleset_def by metis

lemma saved_sets_evaluate_witness:
  "\<exists>out. check_ruleset example_env (ruleset_types example_types) (\<lambda>n. ''i'')
        \<lparr>rs_id = [], rs_name = ''A'', rs_description = [], rs_kbs = [], rs_anchor = ''hd'', rs_links = [], rs_rules = [example_rule]\<rparr> = Inr out
     \<and> run_formulas out = [''SUM(hdon.tien) <= hd.gia'']
     \<and> wf_ruleset example_env (ruleset_types example_types) out
     \<and> (\<exists>r. eval_formula example_env ''SUM(hdon.tien) <= hd.gia'' example_scope = Inr (Some r))"
proof -
  let ?kb = "ruleset_types example_types"
  let ?r = "example_rule\<lparr>ru_id := ''i'', ru_text := []\<rparr>"
  have "check_formula example_env (rule_formula \<lparr>fr_type = ''hdon'', fr_key = ''tien''\<rparr> ''sum_le'' \<lparr>fr_type = ''hd'', fr_key = ''gia''\<rparr> ''hd'')
      (rule_scope ?kb ''hd'') = (None, [(''hdon'', ''tien''), (''hd'', ''gia'')])"
    using fields_read [OF example_refs _ ruleset_types_distinct, of "''sum_le''" example_types]
    by (simp add: rule_ops_def ruleset_types_def example_types_def join_type_def has_type_def field_of_def)
  then have "check_field_rule example_env ?kb ''hd'' ?r \<lparr>fr_type = ''hdon'', fr_key = ''tien''\<rparr> \<lparr>fr_type = ''hd'', fr_key = ''gia''\<rparr>
      = Inr (?r\<lparr>ru_formula := ''SUM(hdon.tien) <= hd.gia'', ru_ai := False, ru_name := rule_name ?kb (?r\<lparr>ru_formula := ''SUM(hdon.tien) <= hd.gia'', ru_ai := False\<rparr>) ''hd''\<rparr>)"
    by (simp add: ruleset_types_def example_types_def join_type_def has_type_def field_of_def field_kind_def example_rule_def check_ops_def
        rule_formula_def ref_text_def check_field_rule_def Let_def)
  then obtain r where r: "check_field_rule example_env ?kb ''hd'' ?r \<lparr>fr_type = ''hdon'', fr_key = ''tien''\<rparr> \<lparr>fr_type = ''hd'', fr_key = ''gia''\<rparr> = Inr r"
      "ru_formula r = ''SUM(hdon.tien) <= hd.gia''" "\<not> ru_ai r" by simp
  have "check_rule_of example_env ?kb ''hd'' ?r = Inr (Some r)" using r(1) by (simp add: check_rule_of_def example_rule_def)
  moreover have "has_type ?kb ''hd''" by (simp add: ruleset_types_def example_types_def join_type_def has_type_def)
  ultimately have out: "check_ruleset example_env ?kb (\<lambda>n. ''i'')
        \<lparr>rs_id = [], rs_name = ''A'', rs_description = [], rs_kbs = [], rs_anchor = ''hd'', rs_links = [], rs_rules = [example_rule]\<rparr>
      = Inr \<lparr>rs_id = [], rs_name = ''A'', rs_description = [], rs_kbs = [], rs_anchor = ''hd'', rs_links = [], rs_rules = [r]\<rparr>"
    by (simp add: check_ruleset_def fresh_id_def text_simps is_space_ascii example_rule_def)
  show ?thesis using saved_sets_evaluate [OF out, of example_scope] out r by (simp add: run_formulas_def)
qed

end
