(* ===== verification/CrossRun.thy ===== *)
theory CrossRun
  imports RuleFacts
begin

text \<open>
  The run of a cross-check (\<^verbatim>\<open>runCheck\<close>, \<^verbatim>\<open>link\<close>, \<^verbatim>\<open>comparison\<close> of \<^verbatim>\<open>sheets/checks.go\<close>): the documents
  of a sheet, the contract of each of them, the outcome of the rules on every group. A panic of the evaluator
  is \<open>None\<close>; the answers of the model are arguments.
\<close>

subsection \<open>Documents of a sheet\<close>

record cell_view =
  cv_value :: string
  cv_field :: "string option"
  cv_edited :: bool
  cv_low :: bool

record row_view =
  rv_segment :: "string option"
  rv_document :: string
  rv_file :: string
  rv_start :: int
  rv_end :: int
  rv_cells :: "string \<rightharpoonup> cell_view"

record table_view =
  tv_label :: string
  tv_fields :: "sheet_field list"
  tv_rows :: "row_view list"

record check_doc =
  cd_id :: string
  cd_document :: string
  cd_type :: string
  cd_type_title :: string
  cd_label :: string
  cd_file :: string
  cd_start :: int
  cd_end :: int

record check_member = check_doc +
  cm_source :: string
  cm_reason :: string
  cm_candidates :: "string list"

definition cell_at :: "row_view \<Rightarrow> string \<Rightarrow> cell_view" where
  "cell_at r key = (case rv_cells r key of Some c \<Rightarrow> c | None \<Rightarrow> \<lparr>cv_value = [], cv_field = None, cv_edited = False, cv_low = False\<rparr>)"

definition field_value_of :: "cell_view \<Rightarrow> field_value" where
  "field_value_of c = \<lparr>fv_text = cv_value c, fv_field = (case cv_field c of Some i \<Rightarrow> i | None \<Rightarrow> [])\<rparr>"

definition row_label :: "kb_config \<Rightarrow> table_view \<Rightarrow> row_view \<Rightarrow> string" where
  "row_label kb tv r =
     type_title kb (tv_label tv) @
     (case find (\<lambda>v. v \<noteq> []) (map (\<lambda>f. trim_space (cv_value (cell_at r (sf_key f)))) (tv_fields tv)) of
        Some v \<Rightarrow> '' '' @ v
      | None \<Rightarrow> '' (tr.'' @ int_string (rv_start r) @ (vn ''~2013;'') @ int_string (rv_end r) @ '')'')"

definition row_doc :: "kb_config \<Rightarrow> table_view \<Rightarrow> row_view \<Rightarrow> string \<Rightarrow> doc" where
  "row_doc kb tv r seg =
     \<lparr>d_id = seg, d_type = tv_label tv, d_label = row_label kb tv r,
      d_fields = foldl (\<lambda>m f. m(sf_key f \<mapsto> field_value_of (cell_at r (sf_key f)))) Map.empty (tv_fields tv)\<rparr>"

definition row_info :: "kb_config \<Rightarrow> table_view \<Rightarrow> row_view \<Rightarrow> string \<Rightarrow> check_doc" where
  "row_info kb tv r seg =
     \<lparr>cd_id = seg, cd_document = rv_document r, cd_type = tv_label tv, cd_type_title = type_title kb (tv_label tv),
      cd_label = row_label kb tv r, cd_file = rv_file r, cd_start = rv_start r, cd_end = rv_end r\<rparr>"

definition low_keys :: "table_view \<Rightarrow> row_view \<Rightarrow> string set" where
  "low_keys tv r = {k \<in> sf_key ` set (tv_fields tv). cv_low (cell_at r k) \<and> \<not> cv_edited (cell_at r k)}"

text \<open>The rows of documents, with their segments; a later row of the same segment replaces the entries of the maps.\<close>

definition doc_rows :: "table_view list \<Rightarrow> (table_view \<times> row_view \<times> string) list" where
  "doc_rows v = concat (map (\<lambda>tv. concat (map (\<lambda>r. case rv_segment r of Some seg \<Rightarrow> [(tv, r, seg)] | None \<Rightarrow> []) (tv_rows tv))) v)"

definition docs_of :: "kb_config \<Rightarrow> table_view list \<Rightarrow> doc list" where
  "docs_of kb v = map (\<lambda>(tv, r, seg). row_doc kb tv r seg) (doc_rows v)"

definition infos_of :: "kb_config \<Rightarrow> table_view list \<Rightarrow> string \<rightharpoonup> check_doc" where
  "infos_of kb v = foldl (\<lambda>m (tv, r, seg). m(seg \<mapsto> row_info kb tv r seg)) Map.empty (doc_rows v)"

definition is_low :: "table_view list \<Rightarrow> string \<Rightarrow> string \<Rightarrow> bool" where
  "is_low v seg key \<longleftrightarrow> list_ex (\<lambda>(tv, r, s). s = seg \<and> key \<in> low_keys tv r) (doc_rows v)"

definition zero_doc :: doc where
  "zero_doc = \<lparr>d_id = [], d_type = [], d_label = [], d_fields = Map.empty\<rparr>"

definition zero_info :: check_doc where
  "zero_info = \<lparr>cd_id = [], cd_document = [], cd_type = [], cd_type_title = [], cd_label = [], cd_file = [], cd_start = 0, cd_end = 0\<rparr>"

definition info_at :: "(string \<rightharpoonup> check_doc) \<Rightarrow> string \<Rightarrow> check_doc" where
  "info_at m i = (case m i of Some c \<Rightarrow> c | None \<Rightarrow> zero_info)"

definition field_text :: "doc \<Rightarrow> string \<Rightarrow> string" where
  "field_text d key = (case d_fields d key of Some v \<Rightarrow> fv_text v | None \<Rightarrow> [])"

subsection \<open>The contract of a document\<close>

text \<open>\<^verbatim>\<open>checkexpr.Eval\<close>, with the text of an error as a detail.\<close>

definition error_result :: "string \<Rightarrow> result" where
  "error_result why = result_of ErrorStatus why [] [] []"

definition run_eval :: "formula_env \<Rightarrow> (formula_error \<Rightarrow> string) \<Rightarrow> string \<Rightarrow> scope \<Rightarrow> result option" where
  "run_eval e err_text src sc = (case eval_formula e src sc of Inl err \<Rightarrow> Some (error_result (err_text err)) | Inr r \<Rightarrow> r)"

definition doc_text :: "kb_config \<Rightarrow> doc \<Rightarrow> string \<rightharpoonup> string" where
  "doc_text kb d =
     foldl (\<lambda>m f. let v = trim_space (field_text d (sf_key f)) in if v \<noteq> [] then m(sf_label f \<mapsto> v) else m)
       [''_id'' \<mapsto> d_id d, ''_loai'' \<mapsto> type_title kb (d_type d)]
       (concat (map kt_fields (filter (\<lambda>t. kt_name t = d_type d) kb)))"

text \<open>What the model answers: \<open>Inl\<close> is the text of the error of a failed call.\<close>

record judgement =
  jd_status :: string
  jd_detail :: string
  jd_missing :: string

record agent =
  ag_pick :: "string \<Rightarrow> (string \<rightharpoonup> string) \<Rightarrow> (string \<rightharpoonup> string) list \<Rightarrow> string + string \<times> string"
  ag_judge :: "string \<Rightarrow> scope \<Rightarrow> string + judgement"

definition ai_pick :: "agent \<Rightarrow> kb_config \<Rightarrow> string \<Rightarrow> doc \<Rightarrow> doc list \<Rightarrow> string \<times> string" where
  "ai_pick ag kb t d cands =
     (case ag_pick ag t (doc_text kb d) (map (doc_text kb) cands) of
        Inl err \<Rightarrow> ([], (vn ''kh~F4;ng g~1ECD;i ~111;~1B0;~1EE3;c AI: '') @ err)
      | Inr answer \<Rightarrow> answer)"

definition first_note :: "string list \<Rightarrow> string" where
  "first_note xs = (case find (\<lambda>x. x \<noteq> []) xs of Some x \<Rightarrow> x | None \<Rightarrow> [])"

definition step_scope :: "kb_config \<Rightarrow> string \<Rightarrow> doc \<Rightarrow> doc \<Rightarrow> scope" where
  "step_scope kb anchor d a = (link_scope kb (d_type d) anchor)\<lparr>sc_single := [d_type d \<mapsto> d, anchor \<mapsto> a]\<rparr>"

text \<open>One formula step over the candidates: those it holds for, those it cannot tell, and the notes.\<close>

fun try_anchors ::
  "formula_env \<Rightarrow> (formula_error \<Rightarrow> string) \<Rightarrow> kb_config \<Rightarrow> string \<Rightarrow> doc \<Rightarrow> string \<Rightarrow> doc list \<Rightarrow> (doc list \<times> doc list \<times> string list) option"
where
  "try_anchors e err_text kb anchor d f [] = Some ([], [], [])"
| "try_anchors e err_text kb anchor d f (a # as) =
     (case (run_eval e err_text f (step_scope kb anchor d a), try_anchors e err_text kb anchor d f as) of
        (Some res, Some (pass, unknown, notes)) \<Rightarrow>
          Some (case r_status res of
              Pass \<Rightarrow> (a # pass, unknown, (if r_detail res \<noteq> [] then [r_detail res] else []) @ notes)
            | Fail \<Rightarrow> (pass, unknown, map it_note (r_failing res) @ notes)
            | _ \<Rightarrow> (pass, a # unknown, r_missing res @ notes))
      | _ \<Rightarrow> None)"

record link_state =
  ls_cands :: "doc list"
  ls_why :: "string list"
  ls_source :: string

text \<open>One step: \<open>Inl\<close> is the source and the reason of a document that belongs to no contract.\<close>

definition ai_step :: "agent \<Rightarrow> kb_config \<Rightarrow> doc \<Rightarrow> check_step \<Rightarrow> link_state \<Rightarrow> string \<times> string + link_state" where
  "ai_step ag kb d st s =
     (let (pick, reason) = ai_pick ag kb (cs_text st) d (ls_cands s) in
         if pick = ''none'' then Inl (''ai'', ''AI: '' @ reason)
         else if pick \<noteq> [] then
           (let found = filter (\<lambda>a. d_id a = pick) (ls_cands s);
                cands = (if found = [] then ls_cands s else [last found]) in
            if length cands = 1 then
              Inr \<lparr>ls_cands = cands, ls_why = ls_why s @ [''AI ('' @ cs_text st @ ''): '' @ reason], ls_source = ''ai''\<rparr>
            else Inr (s\<lparr>ls_cands := cands\<rparr>))
         else Inr (s\<lparr>ls_why := ls_why s @ [(vn ''AI ch~1B0;a ch~1EAF;c ('') @ cs_text st @ ''): '' @ reason]\<rparr>))"

definition formula_step ::
  "check_step \<Rightarrow> doc list \<times> doc list \<times> string list \<Rightarrow> link_state \<Rightarrow> string \<times> string + link_state"
where
  "formula_step st tried s =
     (let (pass, unknown, notes) = tried in
      if pass \<noteq> [] then Inr (s\<lparr>ls_cands := pass, ls_why := ls_why s @ [cs_text st @ (vn '' ~2713; '') @ first_note notes]\<rparr>)
      else if length unknown = length (ls_cands s) then
        Inr (s\<lparr>ls_why := ls_why s @ [cs_text st @ (vn '': ch~1B0;a ~111;~1EE7; th~F4;ng tin ('') @ first_note notes @ '')'']\<rparr>)
      else if unknown = [] then Inl (ls_source s, cs_text st @ (vn '' ~2717; '') @ first_note notes)
      else Inr (s\<lparr>ls_cands := unknown\<rparr>))"

definition settled :: "link_state \<Rightarrow> bool" where
  "settled s \<longleftrightarrow> length (ls_cands s) = 1 \<and> ls_why s \<noteq> [] \<and> contains_sub (last (ls_why s)) (vn ''~2713;'')"

text \<open>An AI step with one candidate is left by \<^verbatim>\<open>continue\<close>, before the test that ends the loop.\<close>

fun link_steps ::
  "agent \<Rightarrow> formula_env \<Rightarrow> (formula_error \<Rightarrow> string) \<Rightarrow> kb_config \<Rightarrow> string \<Rightarrow> doc \<Rightarrow> check_step list \<Rightarrow> link_state
     \<Rightarrow> (string \<times> string + link_state) option"
where
  "link_steps ag e err_text kb anchor d [] s = Some (Inr s)"
| "link_steps ag e err_text kb anchor d (st # sts) s =
     (if cs_ai st \<and> length (ls_cands s) < 2 then link_steps ag e err_text kb anchor d sts s
      else case (if cs_ai st then Some (ai_step ag kb d st s)
          else map_option (\<lambda>tried. formula_step st tried s) (try_anchors e err_text kb anchor d (cs_formula st) (ls_cands s))) of
        None \<Rightarrow> None
      | Some (Inl stop) \<Rightarrow> Some (Inl stop)
      | Some (Inr s') \<Rightarrow> if settled s' then Some (Inr s') else link_steps ag e err_text kb anchor d sts s')"

text \<open>The contract's id, empty when there is none, and the member.\<close>

definition link_doc ::
  "agent \<Rightarrow> formula_env \<Rightarrow> (formula_error \<Rightarrow> string) \<Rightarrow> kb_config \<Rightarrow> string \<Rightarrow> doc \<Rightarrow> doc list \<Rightarrow> check_step list \<Rightarrow> check_member
     \<Rightarrow> (string \<times> check_member) option"
where
  "link_doc ag e err_text kb anchor d anchors steps m =
     (let t = type_title kb anchor; m = m\<lparr>cm_source := ''rule''\<rparr> in
      if anchors = [] then Some ([], m\<lparr>cm_reason := (vn ''H~1ED3; s~1A1; ch~1B0;a c~F3; '') @ t\<rparr>)
      else if steps = [] then
        (case anchors of
           [a] \<Rightarrow> Some (d_id a, m\<lparr>cm_source := ''single'', cm_reason := (vn ''H~1ED3; s~1A1; ch~1EC9; c~F3; m~1ED9;t '') @ t\<rparr>)
         | _ \<Rightarrow> Some ([], m\<lparr>cm_reason := (vn ''Ch~1B0;a c~E0;i ~111;~1EB7;t c~E1;ch nh~1EAD;n bi~1EBF;t '') @ type_title kb (d_type d) @ (vn '' thu~1ED9;c '') @ t @ (vn '' n~E0;o''),
                        cm_candidates := map d_id anchors\<rparr>))
      else case link_steps ag e err_text kb anchor d steps \<lparr>ls_cands = anchors, ls_why = [], ls_source = ''rule''\<rparr> of
        None \<Rightarrow> None
      | Some (Inl (source, reason)) \<Rightarrow> Some ([], m\<lparr>cm_source := source, cm_reason := reason\<rparr>)
      | Some (Inr s) \<Rightarrow>
          (let why = join_with (vn '' ~B7; '') (ls_why s); m = m\<lparr>cm_source := ls_source s\<rparr> in
           case ls_cands s of
             [a] \<Rightarrow> Some (d_id a, m\<lparr>cm_reason := (if why = [] then (vn ''Ch~1EC9; c~F2;n m~1ED9;t '') @ t @ (vn '' ph~F9; h~1EE3;p'') else why)\<rparr>)
           | cands \<Rightarrow>
               Some ([], m\<lparr>cm_candidates := map d_id cands,
                 cm_reason := (vn ''Kh~1EDB;p nhi~1EC1;u '') @ t @ '': '' @ join_with '', '' (map d_label cands) @ ''. '' @ why\<rparr>)))"

subsection \<open>Rules on a group\<close>

record check_side =
  sd_type :: string
  sd_type_title :: string
  sd_key :: string
  sd_label :: string

record check_row =
  cr_segment :: string
  cr_document :: string
  cr_label :: string
  cr_page :: int
  cr_value_a :: string
  cr_value_b :: string
  cr_status :: "status option"
  cr_unsure :: bool

record check_total =
  ct_a :: string
  ct_b :: string
  ct_note :: string

record check_outcome =
  oc_rule :: string
  oc_name :: string
  oc_text :: string
  oc_ai :: bool
  oc_op :: string
  oc_op_text :: string
  oc_a :: "check_side option"
  oc_b :: "check_side option"
  oc_rows :: "check_row list"
  oc_total :: "check_total option"
  oc_hint :: string
  oc_result :: result

definition ai_judge :: "agent \<Rightarrow> string \<Rightarrow> scope \<Rightarrow> result" where
  "ai_judge ag t sc =
     (case ag_judge ag t sc of
        Inl err \<Rightarrow> error_result ((vn ''kh~F4;ng g~1ECD;i ~111;~1B0;~1EE3;c AI: '') @ err)
      | Inr j \<Rightarrow>
          if jd_status j = ''fail'' then result_of Fail (jd_detail j) [\<lparr>it_note = jd_detail j, it_refs = []\<rparr>] [] []
          else if jd_status j = ''pass'' then result_of Pass (jd_detail j) [] [] []
          else result_of Unknown (jd_detail j) []
                 (if jd_missing j \<noteq> [] then [jd_missing j] else if jd_detail j \<noteq> [] then [jd_detail j] else []) [])"

text \<open>\<^verbatim>\<open>sumOf\<close>: \<^verbatim>\<open>%.0f\<close> rounds halves to even; a dot before every group of three digits.\<close>

definition round_even :: "rat \<Rightarrow> int" where
  "round_even x =
     (let n = \<lfloor>x\<rfloor>; r = x - of_int n in
      if r < 1 / 2 \<or> r = 1 / 2 \<and> even n then n else n + 1)"

definition fixed0 :: "rat \<Rightarrow> string" where
  "fixed0 x = (if x < 0 \<and> round_even x = 0 then ''-0'' else int_string (round_even x))"

definition dotted :: "string \<Rightarrow> string" where
  "dotted s =
     concat (map (\<lambda>i. (if 0 < i \<and> (length s - i) mod 3 = 0 \<and> s ! i \<noteq> CHR ''-'' \<and> s ! (i - 1) \<noteq> CHR ''-'' then ''.'' else []) @ [s ! i])
       [0..<length s])"

definition sum_of :: "formula_env \<Rightarrow> doc list \<Rightarrow> string \<Rightarrow> string" where
  "sum_of e ds key =
     dotted (fixed0 (foldl (\<lambda>s d. case parse_number (fe_round e) (field_text d key) of Some x \<Rightarrow> fe_round e (s + x) | None \<Rightarrow> s) 0 ds))"

definition side_of :: "kb_config \<Rightarrow> field_ref \<Rightarrow> check_side" where
  "side_of kb r = \<lparr>sd_type = fr_type r, sd_type_title = type_title kb (fr_type r), sd_key = fr_key r, sd_label = sf_label (field_or_zero kb r)\<rparr>"

definition side_docs :: "scope \<Rightarrow> string \<Rightarrow> string \<Rightarrow> doc list" where
  "side_docs sc anchor t =
     (if t = anchor then [case sc_single sc anchor of Some d \<Rightarrow> d | None \<Rightarrow> zero_doc] else group_at sc t)"

definition row_of :: "(string \<rightharpoonup> check_doc) \<Rightarrow> (string \<Rightarrow> string \<Rightarrow> bool) \<Rightarrow> string \<Rightarrow> string \<Rightarrow> doc \<Rightarrow> status option \<Rightarrow> check_row" where
  "row_of info low key b_values d st =
     (let ci = info_at info (d_id d) in
      \<lparr>cr_segment = d_id d, cr_document = cd_document ci, cr_label = d_label d, cr_page = cd_start ci,
       cr_value_a = trim_space (field_text d key), cr_value_b = b_values, cr_status = st, cr_unsure = low (d_id d) key\<rparr>)"

text \<open>The status of one document of side A: its own verdict when it is one of several.\<close>

definition alone_scope :: "scope \<Rightarrow> string \<Rightarrow> doc \<Rightarrow> scope" where
  "alone_scope sc t d = sc\<lparr>sc_groups := (sc_groups sc)(t \<mapsto> [d])\<rparr>"

definition row_status :: "formula_env \<Rightarrow> (formula_error \<Rightarrow> string) \<Rightarrow> scope \<Rightarrow> string \<Rightarrow> string \<Rightarrow> string \<Rightarrow> status \<Rightarrow> doc \<Rightarrow> status option" where
  "row_status e err_text sc anchor t f whole d =
     (if t \<noteq> anchor then map_option r_status (run_eval e err_text f (alone_scope sc t d)) else Some whole)"

definition what_words :: "string \<Rightarrow> string" where
  "what_words kind =
     (if kind = ''text'' then (vn ''Gi~E1; tr~1ECB;'') else if kind = ''money'' then (vn ''S~1ED1; ti~1EC1;n'') else if kind = ''date'' then (vn ''Ng~E0;y'') else [])"

definition failed_hint :: "string \<Rightarrow> string \<Rightarrow> string \<Rightarrow> string" where
  "failed_hint what op_text b =
     what @ (vn '' ~1EDF; gi~1EA5;y t~1EDD; t~F4; ~111;~1ECF; kh~F4;ng tho~1EA3; ~201C;'') @ op_text @ '' '' @ b @
     (vn ''~201D;. M~1EDF; trang g~1ED1;c ~111;~1EC3; xem: n~1EBF;u AI ~111;~1ECD;c sai th~EC; s~1EED;a ~1EDF; b~1EA3;ng s~1ED1; li~1EC7;u r~1ED3;i ~111;~1ED1;i chi~1EBF;u l~1EA1;i; n~1EBF;u ~111;~FA;ng l~E0; sai l~1EC7;ch th~EC; c~1EA7;n l~E0;m r~F5; v~1EDB;i kh~E1;ch h~E0;ng.'')"

definition comparison ::
  "formula_env \<Rightarrow> (formula_error \<Rightarrow> string) \<Rightarrow> kb_config \<Rightarrow> string \<Rightarrow> scope \<Rightarrow> (string \<rightharpoonup> check_doc) \<Rightarrow> (string \<Rightarrow> string \<Rightarrow> bool)
     \<Rightarrow> check_rule \<Rightarrow> field_ref \<Rightarrow> field_ref \<Rightarrow> check_outcome \<Rightarrow> check_outcome option"
where
  "comparison e err_text kb anchor sc info low r ra rb out =
     (let fa = field_or_zero kb ra; fb = field_or_zero kb rb; kind = field_kind (sf_value_type fa);
          op_text = op_words fa (ru_op r);
          a_docs = side_docs sc anchor (fr_type ra); b_docs = side_docs sc anchor (fr_type rb);
          b_values = join_with '', '' (filter (\<lambda>v. v \<noteq> []) (map (\<lambda>d. trim_space (field_text d (fr_key rb))) b_docs));
          whole = r_status (oc_result out);
          out = out\<lparr>oc_op := ru_op r, oc_op_text := op_text, oc_a := Some (side_of kb ra), oc_b := Some (side_of kb rb),
            oc_hint := (if whole = Fail then failed_hint (what_words kind) op_text (sf_label fb @ (vn '' c~1EE7;a '') @ type_title kb (fr_type rb))
                        else oc_hint out)\<rparr>
      in if ru_op r = ''sum_le'' then
           Some (out\<lparr>oc_rows := map (\<lambda>d. row_of info low (fr_key ra) [] d None) a_docs,
             oc_total := Some (if fr_type rb \<noteq> anchor then
                 \<lparr>ct_a = sum_of e a_docs (fr_key ra), ct_b = sum_of e b_docs (fr_key rb),
                  ct_note = (vn ''T~1ED5;ng '') @ nat_string (length b_docs) @ '' '' @ to_lower (type_title kb (fr_type rb))\<rparr>
               else \<lparr>ct_a = sum_of e a_docs (fr_key ra), ct_b = b_values, ct_note = []\<rparr>)\<rparr>)
         else
           (let statuses = map (row_status e err_text sc anchor (fr_type ra) (ru_formula r) whole) a_docs in
            if None \<in> set statuses then None
            else Some (out\<lparr>oc_rows := map2 (row_of info low (fr_key ra) b_values) a_docs statuses\<rparr>)))"

definition judge_rule ::
  "agent \<Rightarrow> formula_env \<Rightarrow> (formula_error \<Rightarrow> string) \<Rightarrow> kb_config \<Rightarrow> string \<Rightarrow> scope \<Rightarrow> (string \<rightharpoonup> check_doc) \<Rightarrow> (string \<Rightarrow> string \<Rightarrow> bool)
     \<Rightarrow> check_rule \<Rightarrow> check_outcome option"
where
  "judge_rule ag e err_text kb anchor sc info low r =
     (let out = (\<lambda>res. \<lparr>oc_rule = ru_id r, oc_name = ru_name r, oc_text = ru_text r, oc_ai = ru_ai r, oc_op = [], oc_op_text = [],
            oc_a = None, oc_b = None, oc_rows = [], oc_total = None, oc_hint = [], oc_result = res\<rparr>) in
      if ru_ai r then
        (let res = ai_judge ag (ru_text r) sc in
         Some ((out res)\<lparr>oc_hint := (if r_status res = Fail then (vn ''AI nh~1EAD;n ~111;~1ECB;nh: '') @ r_detail res else [])\<rparr>))
      else case run_eval e err_text (ru_formula r) sc of
        None \<Rightarrow> None
      | Some res \<Rightarrow>
          (case (ru_a r, ru_b r) of
             (Some ra, Some rb) \<Rightarrow> comparison e err_text kb anchor sc info low r ra rb (out res)
           | _ \<Rightarrow> Some (out res)))"

subsection \<open>The run\<close>

record check_group =
  cg_anchor :: check_doc
  cg_members :: "check_member list"
  cg_results :: "check_outcome list"

record counts =
  cn_groups :: nat
  cn_pass :: nat
  cn_fail :: nat
  cn_unknown :: nat
  cn_unlinked :: nat

record check_result =
  cx_ruleset :: string
  cx_ruleset_name :: string
  cx_anchor :: string
  cx_anchor_title :: string
  cx_groups :: "check_group list"
  cx_unlinked :: "check_member list"
  cx_counts :: counts

definition new_member :: "check_doc \<Rightarrow> check_member" where
  "new_member c = check_doc.extend c \<lparr>cm_source = [], cm_reason = [], cm_candidates = []\<rparr>"

text \<open>The choice of the user for a document, if there is one: \<open>Some None\<close> is "none".\<close>

definition user_choice :: "string \<Rightarrow> (string \<rightharpoonup> check_doc) \<Rightarrow> string option \<Rightarrow> check_member \<Rightarrow> string \<times> check_member" where
  "user_choice t info choice m =
     (let m = m\<lparr>cm_source := ''user''\<rparr> in
      case choice of
        None \<Rightarrow> ([], m\<lparr>cm_reason := (vn ''B~1EA1;n ch~1ECD;n: kh~F4;ng thu~1ED9;c '') @ t @ (vn '' n~E0;o'')\<rparr>)
      | Some a \<Rightarrow>
          if info a \<noteq> None then (a, m\<lparr>cm_reason := (vn ''B~1EA1;n ch~1ECD;n'')\<rparr>)
          else ([], m\<lparr>cm_reason := (vn ''B~1EA1;n ~111;~E3; ch~1ECD;n m~1ED9;t '') @ t @ (vn '' kh~F4;ng c~F2;n trong h~1ED3; s~1A1;'')\<rparr>))"

text \<open>The steps of a type: those of its last link.\<close>

definition steps_of :: "check_link list \<Rightarrow> string \<Rightarrow> check_step list" where
  "steps_of ls t = (case foldl (\<lambda>m l. m(lk_type l \<mapsto> lk_steps l)) Map.empty ls t of Some sts \<Rightarrow> sts | None \<Rightarrow> [])"

fun place_docs ::
  "agent \<Rightarrow> formula_env \<Rightarrow> (formula_error \<Rightarrow> string) \<Rightarrow> kb_config \<Rightarrow> ruleset \<Rightarrow> (string \<rightharpoonup> check_doc) \<Rightarrow> (string \<rightharpoonup> string option) \<Rightarrow> doc list
     \<Rightarrow> doc list \<Rightarrow> (string \<times> check_member) list option"
where
  "place_docs ag e err_text kb cfg info overrides anchors [] = Some []"
| "place_docs ag e err_text kb cfg info overrides anchors (d # ds) =
     (if d_type d = rs_anchor cfg then place_docs ag e err_text kb cfg info overrides anchors ds
      else
        (let m = new_member (info_at info (d_id d)) in
         case (case overrides (d_id d) of
             Some choice \<Rightarrow> Some (user_choice (type_title kb (rs_anchor cfg)) info choice m)
           | None \<Rightarrow> link_doc ag e err_text kb (rs_anchor cfg) d anchors (steps_of (rs_links cfg) (d_type d)) m) of
           None \<Rightarrow> None
         | Some placed \<Rightarrow> map_option ((#) placed) (place_docs ag e err_text kb cfg info overrides anchors ds)))"

definition members_at :: "string \<Rightarrow> (string \<times> check_member) list \<Rightarrow> check_member list" where
  "members_at i placed = map snd (filter (\<lambda>(a, m). a = i) placed)"

definition doc_at :: "doc list \<Rightarrow> string \<Rightarrow> doc" where
  "doc_at ds i = (case find (\<lambda>d. d_id d = i) (rev ds) of Some d \<Rightarrow> d | None \<Rightarrow> zero_doc)"

definition group_scope :: "kb_config \<Rightarrow> string \<Rightarrow> doc list \<Rightarrow> doc \<Rightarrow> check_member list \<Rightarrow> scope" where
  "group_scope kb anchor ds a members =
     (rule_scope kb anchor)\<lparr>sc_single := [anchor \<mapsto> a],
       sc_groups := foldl (\<lambda>m b. m(cd_type b \<mapsto> (case m (cd_type b) of Some l \<Rightarrow> l | None \<Rightarrow> []) @ [doc_at ds (cd_id b)]))
         (\<lambda>t. if type_infos kb t \<noteq> None \<and> t \<noteq> anchor then Some [] else None) members\<rparr>"

text \<open>Every element, or \<open>None\<close> when one of them panics.\<close>

definition all_some :: "'a option list \<Rightarrow> 'a list option" where
  "all_some xs = (if None \<in> set xs then None else Some (map the xs))"

definition judge_group ::
  "agent \<Rightarrow> formula_env \<Rightarrow> (formula_error \<Rightarrow> string) \<Rightarrow> kb_config \<Rightarrow> ruleset \<Rightarrow> table_view list \<Rightarrow> (string \<times> check_member) list \<Rightarrow> doc
     \<Rightarrow> check_group option"
where
  "judge_group ag e err_text kb cfg v placed a =
     (let info = infos_of kb v; members = members_at (d_id a) placed;
          sc = group_scope kb (rs_anchor cfg) (docs_of kb v) a members in
      map_option (\<lambda>outs. \<lparr>cg_anchor = info_at info (d_id a), cg_members = members, cg_results = outs\<rparr>)
        (all_some (map (judge_rule ag e err_text kb (rs_anchor cfg) sc info (is_low v)) (filter (\<lambda>r. \<not> ru_off r) (rs_rules cfg)))))"

definition count_status :: "(status \<Rightarrow> bool) \<Rightarrow> check_group list \<Rightarrow> nat" where
  "count_status p gs = length (filter (\<lambda>o'. p (r_status (oc_result o'))) (concat (map cg_results gs)))"

datatype run_failure = NoChecks | RunPanics

definition run_check ::
  "agent \<Rightarrow> formula_env \<Rightarrow> (formula_error \<Rightarrow> string) \<Rightarrow> kb_config \<Rightarrow> ruleset \<Rightarrow> (string \<rightharpoonup> string option) \<Rightarrow> table_view list
     \<Rightarrow> run_failure + check_result"
where
  "run_check ag e err_text kb cfg overrides v =
     (let ds = docs_of kb v; anchors = filter (\<lambda>d. d_type d = rs_anchor cfg) ds in
      if rs_anchor cfg = [] then Inl NoChecks
      else case place_docs ag e err_text kb cfg (infos_of kb v) overrides anchors ds of
        None \<Rightarrow> Inl RunPanics
      | Some placed \<Rightarrow>
          (case all_some (map (judge_group ag e err_text kb cfg v placed) anchors) of
             None \<Rightarrow> Inl RunPanics
           | Some groups \<Rightarrow>
               (let unlinked = members_at [] placed in
                Inr \<lparr>cx_ruleset = rs_id cfg, cx_ruleset_name = rs_name cfg, cx_anchor = rs_anchor cfg,
                  cx_anchor_title = type_title kb (rs_anchor cfg), cx_groups = groups, cx_unlinked = unlinked,
                  cx_counts = \<lparr>cn_groups = length groups, cn_pass = count_status (\<lambda>s. s = Pass) groups,
                    cn_fail = count_status (\<lambda>s. s = Fail) groups, cn_unknown = count_status (\<lambda>s. s \<noteq> Pass \<and> s \<noteq> Fail) groups,
                    cn_unlinked = length unlinked\<rparr>\<rparr>)))"

end
