(* ===== verification/RunFacts.thy ===== *)
theory RunFacts
  imports CrossRun "HOL-Library.Multiset"
begin

text \<open>
  What a run promises: on a saved rule set it never panics, it places every document once, and it never links a
  document with a contract that a step it used refutes.
\<close>

subsection \<open>No panic\<close>

text \<open>A formula that evaluates everywhere.\<close>

definition total_formula :: "formula_env \<Rightarrow> string \<Rightarrow> bool" where
  "total_formula e f \<longleftrightarrow> (\<forall>sc. \<exists>r. eval_formula e f sc = Inr (Some r))"

lemma total_run: "total_formula e f \<Longrightarrow> run_eval e err_text f sc \<noteq> None"
  unfolding total_formula_def run_eval_def by (metis option.distinct(1) sum.case(2))

lemma wf_total: "wf_ruleset e kb rs \<Longrightarrow> f \<in> set (run_formulas rs) \<Longrightarrow> total_formula e f"
  using wf_evaluates unfolding total_formula_def list_all_iff by blast

lemma try_total: "total_formula e f \<Longrightarrow> try_anchors e err_text kb anchor d f as \<noteq> None"
  by (induction as) (auto simp: Let_def dest: total_run split: option.splits status.splits)

lemma link_steps_total:
  "list_all (\<lambda>st. cs_ai st \<or> total_formula e (cs_formula st)) sts \<Longrightarrow> link_steps ag e err_text kb anchor d sts s \<noteq> None"
  by (induction sts arbitrary: s) (auto dest: try_total split: option.splits sum.splits)

lemma link_doc_total:
  "list_all (\<lambda>st. cs_ai st \<or> total_formula e (cs_formula st)) sts \<Longrightarrow> link_doc ag e err_text kb anchor d anchors sts m \<noteq> None"
proof -
  assume "list_all (\<lambda>st. cs_ai st \<or> total_formula e (cs_formula st)) sts"
  from link_steps_total [OF this] obtain r where
    "link_steps ag e err_text kb anchor d sts \<lparr>ls_cands = anchors, ls_why = [], ls_source = ''rule''\<rparr> = Some r" by blast
  then show ?thesis by (cases r) (simp_all add: link_doc_def Let_def split: list.split prod.split)
qed

lemma row_status_total: "total_formula e f \<Longrightarrow> row_status e err_text sc anchor t f whole d \<noteq> None"
  using total_run by (simp add: row_status_def)

lemma comparison_total: "total_formula e (ru_formula r) \<Longrightarrow> comparison e err_text kb anchor sc info low r ra rb out \<noteq> None"
proof -
  assume f: "total_formula e (ru_formula r)"
  have "None \<notin> set (map (row_status e err_text sc anchor t (ru_formula r) st) ds)" for t st ds
  proof (induction ds)
    case (Cons d ds)
    obtain x where "row_status e err_text sc anchor t (ru_formula r) st d = Some x" using row_status_total [OF f] by blast
    with Cons show ?case by simp
  qed simp
  then show ?thesis unfolding comparison_def Let_def by (metis option.distinct(1))
qed

lemma judge_rule_total: "ru_ai r \<or> total_formula e (ru_formula r) \<Longrightarrow> judge_rule ag e err_text kb anchor sc info low r \<noteq> None"
proof (cases "ru_ai r")
  case False
  moreover assume "ru_ai r \<or> total_formula e (ru_formula r)"
  ultimately have f: "total_formula e (ru_formula r)" by simp
  then obtain res where "run_eval e err_text (ru_formula r) sc = Some res" using total_run by blast
  then show ?thesis using False comparison_total [OF f] by (simp add: judge_rule_def split: option.split)
qed (simp add: judge_rule_def Let_def)

lemma all_some_total: "list_all (\<lambda>x. f x \<noteq> None) xs \<Longrightarrow> all_some (map f xs) = Some (map (\<lambda>x. the (f x)) xs)"
  by (auto simp: all_some_def list_all_iff)

lemma judge_group_total:
  "list_all (\<lambda>r. ru_ai r \<or> total_formula e (ru_formula r)) (rs_rules cfg) \<Longrightarrow> judge_group ag e err_text kb cfg v placed a \<noteq> None"
proof -
  assume "list_all (\<lambda>r. ru_ai r \<or> total_formula e (ru_formula r)) (rs_rules cfg)"
  then have "list_all (\<lambda>r. judge_rule ag e err_text kb (rs_anchor cfg) sc info low r \<noteq> None) (filter (\<lambda>r. \<not> ru_off r) (rs_rules cfg))" for sc info low
    using judge_rule_total by (auto simp: list_all_iff)
  from all_some_total [OF this] show ?thesis unfolding judge_group_def Let_def by simp
qed

lemma wf_rules_total: "wf_ruleset e kb cfg \<Longrightarrow> list_all (\<lambda>r. ru_ai r \<or> total_formula e (ru_formula r)) (rs_rules cfg)"
  using wf_total by (fastforce simp: list_all_iff run_formulas_def)

lemma last_entry: "foldl (\<lambda>m l. m(k l \<mapsto> v l)) m ls t = Some x \<Longrightarrow> m t = Some x \<or> (\<exists>l\<in>set ls. v l = x)"
  by (induction ls arbitrary: m) (fastforce split: if_splits)+

lemma steps_of_total:
  assumes "wf_ruleset e kb cfg"
  shows "list_all (\<lambda>st. cs_ai st \<or> total_formula e (cs_formula st)) (steps_of (rs_links cfg) t)"
proof (cases "foldl (\<lambda>m l. m(lk_type l \<mapsto> lk_steps l)) Map.empty (rs_links cfg) t")
  case (Some sts)
  then obtain l where l: "l \<in> set (rs_links cfg)" "lk_steps l = sts" using last_entry [of lk_type lk_steps Map.empty] by fastforce
  have "cs_ai st \<or> total_formula e (cs_formula st)" if "st \<in> set sts" for st
    using wf_total [OF assms, of "cs_formula st"] that l by (auto simp: run_formulas_def)
  then show ?thesis using Some by (simp add: steps_of_def list_all_iff)
qed (simp add: steps_of_def)

lemma place_docs_total: "wf_ruleset e kb0 cfg \<Longrightarrow> place_docs ag e err_text kb cfg info overrides anchors ds \<noteq> None"
  by (induction ds) (auto simp: Let_def split: option.splits dest: link_doc_total [OF steps_of_total])


subsection \<open>Every document once\<close>

lemma docs_ids: "map d_id (docs_of kb v) = map (\<lambda>(tv, r, seg). seg) (doc_rows v)"
  by (simp add: docs_of_def comp_def split_beta row_doc_def)

definition ids_fit :: "(string \<rightharpoonup> check_doc) \<Rightarrow> bool" where
  "ids_fit m \<longleftrightarrow> (\<forall>i. case m i of Some c \<Rightarrow> cd_id c = i | None \<Rightarrow> True)"

lemma infos_fit: "ids_fit (infos_of kb v)"
proof -
  have "ids_fit m \<Longrightarrow> ids_fit (foldl (\<lambda>m (tv, r, seg). m(seg \<mapsto> row_info kb tv r seg)) m rs)" for m rs
    by (induction rs arbitrary: m) (simp_all add: split_beta ids_fit_def row_info_def)
  then show ?thesis by (simp add: infos_of_def ids_fit_def)
qed

lemma infos_id: "infos_of kb v i = Some c \<Longrightarrow> cd_id c = i"
proof -
  assume c: "infos_of kb v i = Some c"
  have "case infos_of kb v i of Some c \<Rightarrow> cd_id c = i | None \<Rightarrow> True" using infos_fit [of kb v] by (simp add: ids_fit_def)
  then show ?thesis using c by simp
qed

lemma infos_dom: "infos_of kb v i \<noteq> None \<longleftrightarrow> i \<in> d_id ` set (docs_of kb v)"
proof -
  have "foldl (\<lambda>m (tv, r, seg). m(seg \<mapsto> row_info kb tv r seg)) m rs i = None \<longleftrightarrow> m i = None \<and> i \<notin> set (map (\<lambda>(tv, r, seg). seg) rs)" for m rs
  proof (induction rs arbitrary: m)
    case (Cons x rs)
    obtain tv r seg where "x = (tv, r, seg)" by (cases x)
    then show ?case using Cons.IH by simp
  qed simp
  then have "infos_of kb v i = None \<longleftrightarrow> i \<notin> set (map (\<lambda>(tv, r, seg). seg) (doc_rows v))" unfolding infos_of_def by simp
  also have "set (map (\<lambda>(tv, r, seg). seg) (doc_rows v)) = d_id ` set (docs_of kb v)"
    by (simp only: docs_ids [of kb, symmetric]) (simp only: list.set_map)
  finally show ?thesis by simp
qed

lemma new_member_id [simp]: "cd_id (new_member c) = cd_id c"
  by (simp add: new_member_def check_doc.defs)

lemma user_choice_id: "user_choice t info choice m = (i, m') \<Longrightarrow> cd_id m' = cd_id m"
  by (auto simp: user_choice_def Let_def split: option.splits if_splits)

lemma link_doc_id: "link_doc ag e err_text kb anchor d anchors sts m = Some (i, m') \<Longrightarrow> cd_id m' = cd_id m"
  by (auto simp: link_doc_def Let_def split: if_splits list.splits option.splits sum.splits)

lemma place_docs_ids:
  "place_docs ag e err_text kb cfg (infos_of kb v) overrides anchors ds = Some placed \<Longrightarrow> set ds \<subseteq> set (docs_of kb v) \<Longrightarrow>
     map (\<lambda>(a, m). cd_id m) placed = map d_id (filter (\<lambda>d. d_type d \<noteq> rs_anchor cfg) ds)"
proof (induction ds arbitrary: placed)
  case (Cons d ds)
  have "infos_of kb v (d_id d) \<noteq> None" using Cons.prems(2) infos_dom by simp
  then have "cd_id (info_at (infos_of kb v) (d_id d)) = d_id d" using infos_id by (auto simp: info_at_def)
  then show ?case
    using Cons by (auto simp: Let_def split_beta dest!: link_doc_id user_choice_id split: if_splits option.splits)
qed simp

text \<open>The candidates only get fewer.\<close>

definition step_status :: "formula_env \<Rightarrow> (formula_error \<Rightarrow> string) \<Rightarrow> kb_config \<Rightarrow> string \<Rightarrow> doc \<Rightarrow> string \<Rightarrow> doc \<Rightarrow> status option" where
  "step_status e err_text kb anchor d f a = map_option r_status (run_eval e err_text f (step_scope kb anchor d a))"

lemma try_anchors_filter:
  "try_anchors e err_text kb anchor d f as = Some (pass, unknown, ns) \<Longrightarrow>
     pass = filter (\<lambda>a. step_status e err_text kb anchor d f a = Some Pass) as
     \<and> unknown = filter (\<lambda>a. step_status e err_text kb anchor d f a \<noteq> Some Pass \<and> step_status e err_text kb anchor d f a \<noteq> Some Fail) as"
proof (induction as arbitrary: pass unknown ns)
  case (Cons a as)
  then obtain res p u n where "run_eval e err_text f (step_scope kb anchor d a) = Some res"
      "try_anchors e err_text kb anchor d f as = Some (p, u, n)" by (auto split: option.splits)
  then show ?case using Cons by (cases "r_status res") (simp_all add: step_status_def split: if_splits)
qed simp

lemma ai_step_subset: "ai_step ag kb d st s = Inr s' \<Longrightarrow> set (ls_cands s') \<subseteq> set (ls_cands s)"
proof -
  have "set (filter (\<lambda>a. d_id a = p) c) \<subseteq> set c" "filter (\<lambda>a. d_id a = p) c \<noteq> [] \<Longrightarrow> last (filter (\<lambda>a. d_id a = p) c) \<in> set c" for p and c :: "doc list"
    using last_in_set by fastforce+
  then show "ai_step ag kb d st s = Inr s' \<Longrightarrow> set (ls_cands s') \<subseteq> set (ls_cands s)"
    by (auto simp: ai_step_def Let_def split: prod.splits if_splits)
qed

text \<open>A step refutes a candidate when its formula fails on the two documents.\<close>

definition refutes :: "formula_env \<Rightarrow> (formula_error \<Rightarrow> string) \<Rightarrow> kb_config \<Rightarrow> string \<Rightarrow> doc \<Rightarrow> doc \<Rightarrow> check_step \<Rightarrow> bool" where
  "refutes e err_text kb anchor d a st \<longleftrightarrow> \<not> cs_ai st \<and> step_status e err_text kb anchor d (cs_formula st) a = Some Fail"

lemma filter_keeps_all:
  assumes "length (filter P xs) = length xs" "x \<in> set xs"
  shows "P x"
proof (rule ccontr)
  assume "\<not> P x"
  with assms(2) have "length (filter P xs) < length xs" by (rule length_filter_less)
  then show False using assms(1) by simp
qed

lemma formula_step_kept:
  assumes "try_anchors e err_text kb anchor d (cs_formula st) (ls_cands s) = Some tried" "formula_step st tried s = Inr s'"
    and "a \<in> set (ls_cands s')"
  shows "\<not> refutes e err_text kb anchor d a st \<and> a \<in> set (ls_cands s)"
proof -
  let ?st = "step_status e err_text kb anchor d (cs_formula st)"
  obtain pass unknown ns where t: "tried = (pass, unknown, ns)" by (cases tried)
  have p: "pass = filter (\<lambda>a. ?st a = Some Pass) (ls_cands s)" "unknown = filter (\<lambda>a. ?st a \<noteq> Some Pass \<and> ?st a \<noteq> Some Fail) (ls_cands s)"
    using try_anchors_filter [OF assms(1) [unfolded t]] by simp_all
  from assms(2) t consider "ls_cands s' = pass" | "length unknown = length (ls_cands s)" "ls_cands s' = ls_cands s" | "ls_cands s' = unknown"
    by (auto simp: formula_step_def split: if_splits)
  then show ?thesis
  proof cases
    case 2
    have "?st a \<noteq> Some Pass \<and> ?st a \<noteq> Some Fail" by (rule filter_keeps_all [OF 2(1) [unfolded p(2)]]) (use 2(2) assms(3) in simp)
    then show ?thesis using 2(2) assms(3) unfolding refutes_def by simp
  qed (use assms(3) p in \<open>simp_all add: refutes_def\<close>)
qed


lemma link_steps_kept:
  "link_steps ag e err_text kb anchor d sts s = Some (Inr s') \<Longrightarrow> a \<in> set (ls_cands s') \<Longrightarrow>
     a \<in> set (ls_cands s) \<and> (\<exists>k. k \<le> length sts \<and> (sts \<noteq> [] \<longrightarrow> 0 < k) \<and> list_all (\<lambda>st. \<not> refutes e err_text kb anchor d a st) (take k sts))"
proof (induction sts arbitrary: s)
  case (Cons st sts)
  have first: ?case if "a \<in> set (ls_cands s)" "\<not> refutes e err_text kb anchor d a st"
    using that by (intro conjI exI [of _ 1]) simp_all
  have more: ?case if "a \<in> set (ls_cands s)" "\<not> refutes e err_text kb anchor d a st" "k \<le> length sts"
      "list_all (\<lambda>st. \<not> refutes e err_text kb anchor d a st) (take k sts)" for k
    using that by (intro conjI exI [of _ "Suc k"]) simp_all
  show ?case
  proof (cases "cs_ai st \<and> length (ls_cands s) < 2")
    case True
    then have "link_steps ag e err_text kb anchor d sts s = Some (Inr s')" using Cons.prems(1) by simp
    with Cons.IH Cons.prems(2) True more show ?thesis unfolding refutes_def by blast
  next
    case False
    define step where "step = (if cs_ai st then Some (ai_step ag kb d st s)
        else map_option (\<lambda>tried. formula_step st tried s) (try_anchors e err_text kb anchor d (cs_formula st) (ls_cands s)))"
    from Cons.prems(1) False obtain t where t: "step = Some (Inr t)"
        and rest: "if settled t then s' = t else link_steps ag e err_text kb anchor d sts t = Some (Inr s')"
      unfolding step_def by (auto split: option.splits sum.splits if_splits)
    have kept: "a \<in> set (ls_cands s) \<and> \<not> refutes e err_text kb anchor d a st" if "a \<in> set (ls_cands t)"
    proof (cases "cs_ai st")
      case True
      then show ?thesis using t that ai_step_subset [of ag kb d st s t] by (auto simp: step_def refutes_def)
    next
      case False
      then obtain tried where "try_anchors e err_text kb anchor d (cs_formula st) (ls_cands s) = Some tried" "formula_step st tried s = Inr t"
        using t by (auto simp: step_def)
      from formula_step_kept [OF this that] show ?thesis by simp
    qed
    show ?thesis
    proof (cases "settled t")
      case True
      then show ?thesis using kept rest Cons.prems(2) first by simp
    next
      case False
      then have "link_steps ag e err_text kb anchor d sts t = Some (Inr s')" using rest by simp
      from Cons.IH [OF this Cons.prems(2)] kept more show ?thesis by blast
    qed
  qed
qed simp

lemma link_doc_kept:
  assumes "link_doc ag e err_text kb anchor d anchors sts m = Some (i, m')" "i \<noteq> []"
  shows "\<exists>a\<in>set anchors. d_id a = i \<and> (\<exists>k. k \<le> length sts \<and> (sts \<noteq> [] \<longrightarrow> 0 < k) \<and> list_all (\<lambda>st. \<not> refutes e err_text kb anchor d a st) (take k sts))"
proof (cases "sts = []")
  case True
  then show ?thesis using assms by (auto simp: link_doc_def Let_def split: if_splits list.splits)
next
  case False
  with assms obtain s a where s: "link_steps ag e err_text kb anchor d sts \<lparr>ls_cands = anchors, ls_why = [], ls_source = ''rule''\<rparr> = Some (Inr s)"
      "ls_cands s = [a]" "d_id a = i"
    by (auto simp: link_doc_def Let_def split: if_splits list.splits option.splits sum.splits)
  then show ?thesis using link_steps_kept [OF s(1), of a] by auto
qed

subsection \<open>Groups and the rest\<close>

text \<open>The user chose among the contracts of this rule set, or a document that left the case.\<close>

definition choices_fit :: "(string \<rightharpoonup> check_doc) \<Rightarrow> (string \<rightharpoonup> string option) \<Rightarrow> doc list \<Rightarrow> bool" where
  "choices_fit info overrides anchors \<longleftrightarrow> (\<forall>i a. overrides i = Some (Some a) \<and> info a \<noteq> None \<longrightarrow> a \<in> d_id ` set anchors)"

text \<open>The segments of a sheet differ, and none is empty.\<close>

definition segments_fit :: "table_view list \<Rightarrow> bool" where
  "segments_fit v \<longleftrightarrow> (let segs = map (\<lambda>(tv, r, seg). seg) (doc_rows v) in distinct segs \<and> [] \<notin> set segs)"

lemma place_docs_keys:
  assumes "choices_fit info overrides anchors"
  shows "place_docs ag e err_text kb cfg info overrides anchors ds = Some placed \<Longrightarrow> fst ` set placed \<subseteq> insert [] (d_id ` set anchors)"
proof (induction ds arbitrary: placed)
  case (Cons d ds)
  have choice: "fst (user_choice t info choice m) \<in> insert [] (d_id ` set anchors)" if "overrides (d_id d) = Some choice" for t choice m
    using assms that by (auto simp: choices_fit_def user_choice_def Let_def split: option.split)
  have linked: "i \<in> insert [] (d_id ` set anchors)" if "link_doc ag e err_text kb anchor d anchors sts m = Some (i, m')" for anchor sts m i m'
    using link_doc_kept [OF that] by auto
  show ?case
  proof (cases "d_type d = rs_anchor cfg")
    case False
    with Cons.prems obtain p rest where p: "placed = p # rest" "place_docs ag e err_text kb cfg info overrides anchors ds = Some rest"
        "(case overrides (d_id d) of
             Some choice \<Rightarrow> Some (user_choice (type_title kb (rs_anchor cfg)) info choice (new_member (info_at info (d_id d))))
           | None \<Rightarrow> link_doc ag e err_text kb (rs_anchor cfg) d anchors (steps_of (rs_links cfg) (d_type d)) (new_member (info_at info (d_id d)))) = Some p"
      by (auto simp: Let_def split: option.splits)
    have "fst p \<in> insert [] (d_id ` set anchors)"
    proof (cases "overrides (d_id d)")
      case None
      with p(3) show ?thesis using linked [of _ _ _ "fst p" "snd p"] by simp
    next
      case (Some c)
      with p(3) show ?thesis using choice [OF Some] by auto
    qed
    then show ?thesis using p(1) Cons.IH [OF p(2)] by auto
  qed (use Cons in simp)
qed simp

lemma members_partition:
  "distinct ks \<Longrightarrow> fst ` set placed \<subseteq> set ks \<Longrightarrow> mset (concat (map (\<lambda>k. members_at k placed) ks)) = mset (map snd placed)"
proof (induction ks arbitrary: placed)
  case (Cons k ks)
  let ?rest = "filter (\<lambda>(a, m). a \<noteq> k) placed"
  have "map (\<lambda>k. members_at k placed) ks = map (\<lambda>k. members_at k ?rest) ks"
    using Cons.prems(1) by (auto simp: members_at_def intro!: arg_cong [where f = "map snd"] filter_cong)
  then have "concat (map (\<lambda>k. members_at k placed) ks) = concat (map (\<lambda>k. members_at k ?rest) ks)" by (rule arg_cong)
  then have "mset (concat (map (\<lambda>k. members_at k placed) ks)) = mset (concat (map (\<lambda>k. members_at k ?rest) ks))" by (rule arg_cong)
  also have "\<dots> = mset (map snd ?rest)" by (rule Cons.IH) (use Cons.prems in auto)
  finally have "mset (concat (map (\<lambda>k. members_at k placed) ks)) = mset (map snd ?rest)" .
  moreover have "mset (members_at k placed) + mset (map snd ?rest) = mset (map snd placed)"
    by (induction placed) (auto simp: members_at_def)
  ultimately show ?case by simp
qed simp


lemma count_all: "count_status (\<lambda>s. s = Pass) gs + count_status (\<lambda>s. s = Fail) gs + count_status (\<lambda>s. s \<noteq> Pass \<and> s \<noteq> Fail) gs
    = length (concat (map cg_results gs))"
proof -
  have "length (filter (\<lambda>o'. r_status (oc_result o') = Pass) xs) + length (filter (\<lambda>o'. r_status (oc_result o') = Fail) xs)
      + length (filter (\<lambda>o'. r_status (oc_result o') \<noteq> Pass \<and> r_status (oc_result o') \<noteq> Fail) xs) = length xs" for xs
    by (induction xs) auto
  then show ?thesis unfolding count_status_def .
qed

lemma run_groups:
  assumes "wf_ruleset e kb0 cfg" "rs_anchor cfg \<noteq> []"
  obtains placed res where
    "place_docs ag e err_text kb cfg (infos_of kb v) overrides (filter (\<lambda>d. d_type d = rs_anchor cfg) (docs_of kb v)) (docs_of kb v) = Some placed"
    "run_check ag e err_text kb cfg overrides v = Inr res"
    "map cg_anchor (cx_groups res) = map (\<lambda>a. info_at (infos_of kb v) (d_id a)) (filter (\<lambda>d. d_type d = rs_anchor cfg) (docs_of kb v))"
    "map cg_members (cx_groups res) = map (\<lambda>a. members_at (d_id a) placed) (filter (\<lambda>d. d_type d = rs_anchor cfg) (docs_of kb v))"
    "cx_unlinked res = members_at [] placed"
    "cn_pass (cx_counts res) + cn_fail (cx_counts res) + cn_unknown (cx_counts res) = length (concat (map cg_results (cx_groups res)))"
proof -
  let ?anchors = "filter (\<lambda>d. d_type d = rs_anchor cfg) (docs_of kb v)"
  obtain placed where placed: "place_docs ag e err_text kb cfg (infos_of kb v) overrides ?anchors (docs_of kb v) = Some placed"
    using place_docs_total [OF assms(1)] by blast
  have "list_all (\<lambda>a. judge_group ag e err_text kb cfg v placed a \<noteq> None) ?anchors"
    using judge_group_total [OF wf_rules_total [OF assms(1)]] by (simp add: list_all_iff)
  note groups = all_some_total [OF this]
  have g: "cg_anchor (the (judge_group ag e err_text kb cfg v placed a)) = info_at (infos_of kb v) (d_id a)
      \<and> cg_members (the (judge_group ag e err_text kb cfg v placed a)) = members_at (d_id a) placed" for a
  proof -
    obtain gr where "judge_group ag e err_text kb cfg v placed a = Some gr" using judge_group_total [OF wf_rules_total [OF assms(1)]] by blast
    then show ?thesis by (auto simp: judge_group_def Let_def)
  qed
  have "\<exists>res. run_check ag e err_text kb cfg overrides v = Inr res
      \<and> map cg_anchor (cx_groups res) = map (\<lambda>a. info_at (infos_of kb v) (d_id a)) ?anchors
      \<and> map cg_members (cx_groups res) = map (\<lambda>a. members_at (d_id a) placed) ?anchors
      \<and> cx_unlinked res = members_at [] placed
      \<and> cn_pass (cx_counts res) + cn_fail (cx_counts res) + cn_unknown (cx_counts res) = length (concat (map cg_results (cx_groups res)))"
    unfolding run_check_def Let_def by (simp add: assms(2) placed groups g count_all comp_def)
  then show ?thesis using that [OF placed] by blast
qed

subsection \<open>An example\<close>

definition example_row :: "string \<Rightarrow> row_view" where
  "example_row seg = \<lparr>rv_segment = Some seg, rv_document = ''f'', rv_file = ''f.pdf'', rv_start = 1, rv_end = 1, rv_cells = Map.empty\<rparr>"

definition example_view :: "table_view list" where
  "example_view =
     [\<lparr>tv_label = ''hd'', tv_fields = [], tv_rows = [example_row ''a'']\<rparr>,
      \<lparr>tv_label = ''hdon'', tv_fields = [], tv_rows = [example_row ''b'', example_row ''c'']\<rparr>]"

definition example_agent :: agent where
  "example_agent = \<lparr>ag_pick = (\<lambda>_ _ _. Inl []), ag_judge = (\<lambda>_ _. Inr \<lparr>jd_status = ''fail'', jd_detail = ''no'', jd_missing = []\<rparr>)\<rparr>"

definition sentence_rule :: check_rule where
  "sentence_rule =
     \<lparr>ru_id = ''r'', ru_name = [], ru_a = None, ru_op = [], ru_b = None, ru_text = ''t'', ru_formula = [], ru_ai = True, ru_off = False,
      ru_explanation = []\<rparr>"

definition sentence_set :: ruleset where
  "sentence_set =
     \<lparr>rs_id = [], rs_name = ''A'', rs_description = [], rs_kbs = [], rs_anchor = ''hd'', rs_links = [], rs_rules = [sentence_rule\<lparr>ru_name := ''t''\<rparr>]\<rparr>"

lemma sentence_set_saved:
  "check_ruleset example_env (ruleset_types example_types) (\<lambda>_. ''i'') (sentence_set\<lparr>rs_rules := [sentence_rule]\<rparr>) = Inr sentence_set"
proof -
  have "has_type (ruleset_types example_types) ''hd''" by (simp add: ruleset_types_def example_types_def join_type_def has_type_def)
  moreover have "trim_space ''t'' = ''t''" "trim_space ''A'' = ''A''" "trim_space [] = []" by (simp_all add: text_simps is_space_ascii)
  ultimately show ?thesis
    by (simp add: check_ruleset_def fresh_id_def sentence_set_def sentence_rule_def check_rule_of_def check_sentence_rule_def)
qed

lemma example_rows: "map (\<lambda>(tv, r, seg). (tv_label tv, seg)) (doc_rows example_view) = [(''hd'', ''a''), (''hdon'', ''b''), (''hdon'', ''c'')]"
  by (simp add: doc_rows_def example_view_def example_row_def)

lemma example_docs: "map (\<lambda>d. (d_type d, d_id d)) (docs_of kb example_view) = [(''hd'', ''a''), (''hdon'', ''b''), (''hdon'', ''c'')]"
  by (simp add: docs_of_def row_doc_def doc_rows_def example_view_def example_row_def)

lemma example_segments: "segments_fit example_view"
  by (simp add: segments_fit_def doc_rows_def example_view_def example_row_def)

text \<open>
  A choice of the user is kept per case, not per rule set, and nothing checks that it names a contract: when it
  names another document, the document is in no group and not among the unlinked ones.
\<close>

lemma choice_loses_document:
  "\<exists>res. run_check example_agent example_env err_text kb (sentence_set\<lparr>rs_rules := []\<rparr>) [''b'' \<mapsto> Some ''c''] example_view = Inr res
     \<and> map cd_id (concat (map cg_members (cx_groups res)) @ cx_unlinked res) = [''c'']"
  by (simp add: run_check_def place_docs.simps sentence_set_def docs_of_def infos_of_def row_doc_def row_info_def doc_rows_def example_view_def
      example_row_def Let_def user_choice_def link_doc_def steps_of_def info_at_def new_member_def check_doc.defs all_some_def judge_group_def
      members_at_def)

subsection \<open>What the run promises\<close>





definition example_step :: check_step where
  "example_step = \<lparr>cs_id = ''s'', cs_text = ''t'', cs_formula = ''SUM(hd.so) <= 40'', cs_ai = False, cs_explanation = []\<rparr>"

lemma example_step_passes:
  "step_status example_env (\<lambda>_. []) [] ''neo'' (zero_doc\<lparr>d_type := ''x''\<rparr>) ''SUM(hd.so) <= 40'' a = Some Pass"
  by (simp add: step_status_def run_eval_def eval_formula_def example_parse example_env_def step_scope_def link_scope_def call_fn_def aggregate_def
      member_val_def type_of_def type_at_def type_infos_def group_at_def list_val_def agg_missing_def num_val_def lift2_def broadcast.simps
      compare_val_def compare_order_def cmp_holds_def bool_val_def val_defs Let_def)


end
