(* ===== verification/Citations.thy ===== *)
theory Citations
  imports TreeView
begin

text \<open>
  Citations and the reading of pages (\<^verbatim>\<open>index/search.go\<close>): the ids of citations, the check of a quote against
  the lines of its page, the budget of model calls, and the location of an answer on chosen pages.
\<close>

subsection \<open>Citations\<close>

text \<open>\<^verbatim>\<open>doc:<uuid>:p<page>:l<a>-<b>\<close>; a document id is its canonical text.\<close>

definition citation_id :: "string \<Rightarrow> int \<Rightarrow> int list \<Rightarrow> string" where
  "citation_id doc page ls =
     ''doc:'' @ doc @ '':p'' @ int_string page @
     (if ls = [] then [] else '':l'' @ int_string (foldl min (hd ls) ls) @ ''-'' @ int_string (foldl max (hd ls) ls))"

definition id_char :: "char \<Rightarrow> bool" where
  "id_char c \<longleftrightarrow>
     (let n = of_char c :: nat in 48 \<le> n \<and> n \<le> 57 \<or> 97 \<le> n \<and> n \<le> 102 \<or> 65 \<le> n \<and> n \<le> 70 \<or> n = 45)"

text \<open>\<^verbatim>\<open>citationRe\<close>, anchored at both ends: the groups of the id, the page and the lines.\<close>

definition match_digits :: "string \<Rightarrow> (string \<times> string) option" where
  "match_digits s =
     (let ds = takeWhile is_ascii_digit s in if ds = [] then None else Some (ds, dropWhile is_ascii_digit s))"

definition match_last :: "string \<Rightarrow> string option option" where
  "match_last s =
     (if s = [] then Some None
      else if hd s = CHR ''-'' then
        (case match_digits (trim_prefix ''l'' (tl s)) of
           Some (hi, []) \<Rightarrow> Some (Some hi)
         | _ \<Rightarrow> None)
      else None)"

definition match_lines :: "string \<Rightarrow> (string \<times> string option) option option" where
  "match_lines s =
     (if s = [] then Some None
      else if prefix '':l'' s then
        (case match_digits (drop 2 s) of
           None \<Rightarrow> None
         | Some (lo, rest) \<Rightarrow> (case match_last rest of None \<Rightarrow> None | Some hi \<Rightarrow> Some (Some (lo, hi))))
      else None)"

definition match_citation :: "string \<Rightarrow> (string \<times> string \<times> (string \<times> string option) option) option" where
  "match_citation s =
     (let i = take 36 (drop 4 s); rest = drop 40 s in
      if prefix ''doc:'' s \<and> length i = 36 \<and> list_all id_char i \<and> prefix '':p'' rest then
        (case match_digits (drop 2 rest) of
           None \<Rightarrow> None
         | Some (page, rest) \<Rightarrow> (case match_lines rest of None \<Rightarrow> None | Some ls \<Rightarrow> Some (i, page, ls)))
      else None)"

datatype citation_error = BadCitation string | BadUuid string

text \<open>\<open>uuid_of\<close> is \<^verbatim>\<open>uuid.Parse\<close>, with the canonical text as its value.\<close>

definition parse_citation :: "(string \<Rightarrow> string option) \<Rightarrow> string \<Rightarrow> citation_error + string \<times> int \<times> int \<times> int" where
  "parse_citation uuid_of c =
     (case match_citation (trim_space c) of
        None \<Rightarrow> Inl (BadCitation c)
      | Some (i, page, ls) \<Rightarrow>
          (case uuid_of i of
             None \<Rightarrow> Inl (BadUuid i)
           | Some doc \<Rightarrow>
               (let (lo, hi) = (case ls of
                    None \<Rightarrow> (-1, -1)
                  | Some (l, None) \<Rightarrow> (fst (atoi l), fst (atoi l))
                  | Some (l, Some h) \<Rightarrow> (fst (atoi l), fst (atoi h)))
                in Inr (doc, fst (atoi page), lo, hi))))"

subsection \<open>Quotes\<close>

record page_line =
  pl_page :: int
  pl_no :: int
  pl_text :: string
  pl_box :: bbox
  pl_low :: bool
  pl_source :: string

record loc_hit =
  lh_doc :: string
  lh_page :: int
  lh_lines :: "int list"
  lh_quote :: string
  lh_relevance :: rat
  lh_reason :: string

text \<open>What the search needs from outside: the database of characters, the rounding, and the limits of the configuration.\<close>

record search_env =
  se_nfd :: "string \<Rightarrow> string option"
  se_round :: "rat \<Rightarrow> rat"
  se_quote :: "string \<Rightarrow> string"
  se_min_similarity :: rat
  se_page_tokens :: nat
  se_tree_tokens :: nat
  se_toc_tokens :: nat
  se_node_tokens :: nat
  se_full_tokens :: nat
  se_max_docs :: nat
  se_max_hops :: nat
  se_locate_prompt :: "int \<Rightarrow> string"
  se_tree_prompt :: "nat \<Rightarrow> string"

text \<open>The lines of a page by number; a later line of the same number replaces an earlier one.\<close>

definition line_at :: "page_line list \<Rightarrow> int \<Rightarrow> page_line option" where
  "line_at ls n = find (\<lambda>l. pl_no l = n) (rev ls)"

definition line_numbers :: "page_line list \<Rightarrow> int list" where
  "line_numbers ls = sort (remdups (map pl_no ls))"

definition cited_texts :: "page_line list \<Rightarrow> int list \<Rightarrow> string list" where
  "cited_texts ls nums = map pl_text (List.map_filter (line_at ls) nums)"

definition quote_holds :: "search_env \<Rightarrow> page_line list \<Rightarrow> string \<Rightarrow> int list \<Rightarrow> bool" where
  "quote_holds e ls q nums =
     (let parts = cited_texts ls nums; joined = normalize_text (se_nfd e) (join_with '' '' parts) in
      parts \<noteq> []
      \<and> (contains_sub joined q \<or> contains_sub q joined \<and> length q div 2 < length joined
         \<or> se_min_similarity e \<le> similarity (se_round e) q joined))"

definition trim_suffix :: "string \<Rightarrow> string \<Rightarrow> string" where
  "trim_suffix p s = (if suffix p s then take (length s - length p) s else s)"

definition quote_key :: "search_env \<Rightarrow> string \<Rightarrow> string" where
  "quote_key e q = normalize_text (se_nfd e) (trim_suffix '' (?)'' q)"

definition windows :: "nat \<Rightarrow> 'a list \<Rightarrow> 'a list list" where
  "windows w xs = map (\<lambda>i. take w (drop i xs)) [0..<length xs + 1 - w]"

definition verify_quote :: "search_env \<Rightarrow> loc_hit \<Rightarrow> page_line list \<Rightarrow> (int list \<times> bbox list) option" where
  "verify_quote e h ls =
     (let q = quote_key e (lh_quote h); cited = sort (lh_lines h); all = line_numbers ls in
      if q = [] then None
      else map_option (\<lambda>nums. (nums, map (\<lambda>n. case line_at ls n of Some l \<Rightarrow> pl_box l | None \<Rightarrow> zero_box) nums))
        (if quote_holds e ls q cited then Some cited
         else find (quote_holds e ls q) (concat (map (\<lambda>w. windows w all) [1, 2, 3, 4]))))"

definition clamp01 :: "rat \<Rightarrow> rat" where
  "clamp01 v = (if v \<le> 0 then 1 / 2 else min v 1)"

subsection \<open>The budget of model calls\<close>

record budget =
  bu_used :: nat
  bu_max :: nat
  bu_tokens :: nat

datatype call_error = OverBudget | CallFailed | StoreFailed

definition call_model :: "budget \<Rightarrow> string \<Rightarrow> string \<Rightarrow> 'a option \<Rightarrow> budget \<times> (call_error + 'a)" where
  "call_model b system user answer =
     (let b = b\<lparr>bu_used := bu_used b + 1\<rparr> in
      if bu_used b > bu_max b then (b, Inl OverBudget)
      else (b\<lparr>bu_tokens := bu_tokens b + (estimate_tokens system + estimate_tokens user)\<rparr>,
            case answer of None \<Rightarrow> Inl CallFailed | Some a \<Rightarrow> Inr a))"

subsection \<open>Locating an answer\<close>

record search_doc =
  sd_id :: string
  sd_file :: string
  sd_case :: string
  sd_pages :: int
  sd_meta :: string
  sd_summary :: string

record search_hit =
  sh_doc :: string
  sh_file :: string
  sh_case :: string
  sh_meta :: string
  sh_page :: int
  sh_lines :: "int list"
  sh_path :: "string list"
  sh_quote :: string
  sh_snippet :: string
  sh_relevance :: rat
  sh_reason :: string
  sh_citation :: string
  sh_via :: string
  sh_boxes :: "bbox list"

definition hit_from_line ::
  "search_doc \<Rightarrow> int \<Rightarrow> int list \<Rightarrow> string \<Rightarrow> bbox list \<Rightarrow> rat \<Rightarrow> string \<Rightarrow> string list \<Rightarrow> search_hit"
where
  "hit_from_line d page ls quote boxes score snippet path =
     \<lparr>sh_doc = sd_id d, sh_file = sd_file d, sh_case = sd_case d, sh_meta = sd_meta d, sh_page = page, sh_lines = ls, sh_path = path,
      sh_quote = quote, sh_snippet = snippet, sh_relevance = score, sh_reason = [], sh_citation = citation_id (sd_id d) page ls,
      sh_via = ''keyword'', sh_boxes = boxes\<rparr>"

text \<open>The pages to read of one document, with the path of each of them.\<close>

record doc_sel =
  ds_doc :: search_doc
  ds_short :: string
  ds_pages :: "int list"
  ds_nodes :: "string list"
  ds_paths :: "(int \<times> string list) list"

record page_text =
  pt_sel :: doc_sel
  pt_page :: int
  pt_text :: string
  pt_lines :: "page_line list"

definition page_lines :: "page_line list \<Rightarrow> int \<Rightarrow> page_line list" where
  "page_lines ls p = filter (\<lambda>l. pl_page l = p \<and> trim_space (pl_text l) \<noteq> []) ls"

definition numbered_line :: "page_line \<Rightarrow> string" where
  "numbered_line l =
     ''[L'' @ int_string (pl_no l) @ ''] '' @ pl_text l @ (if pl_low l \<and> pl_source l = ''ocr'' then '' (?)'' else []) @ [CHR 0x0A]"

definition numbered_page :: "search_env \<Rightarrow> doc_sel \<Rightarrow> int \<Rightarrow> page_line list \<Rightarrow> page_text" where
  "numbered_page e sel p ls =
     \<lparr>pt_sel = sel, pt_page = p,
      pt_text = (vn ''<page n=~22;'') @ int_string p @ (vn ''~22; doc='') @ se_quote e (ds_short sel) @ '' file='' @ se_quote e (sd_file (ds_doc sel)) @ ''>'' @ [CHR 0x0A]
        @ concat (map numbered_line ls) @ ''</page>'' @ [CHR 0x0A],
      pt_lines = ls\<rparr>"

text \<open>\<open>stored\<close> reads the lines of a document from the store, \<open>None\<close> when that fails.\<close>

definition sel_texts :: "search_env \<Rightarrow> (string \<Rightarrow> int \<Rightarrow> int \<Rightarrow> page_line list option) \<Rightarrow> doc_sel \<Rightarrow> page_text list option" where
  "sel_texts e stored sel =
     map_option (\<lambda>ls. List.map_filter
         (\<lambda>p. let pls = page_lines ls p in if pls = [] then None else Some (numbered_page e sel p pls)) (ds_pages sel))
       (stored (sd_id (ds_doc sel)) (hd (ds_pages sel)) (last (ds_pages sel)))"

fun page_texts :: "search_env \<Rightarrow> (string \<Rightarrow> int \<Rightarrow> int \<Rightarrow> page_line list option) \<Rightarrow> doc_sel list \<Rightarrow> page_text list option" where
  "page_texts e stored [] = Some []"
| "page_texts e stored (sel # sels) =
     (case (sel_texts e stored sel, page_texts e stored sels) of
        (Some a, Some b) \<Rightarrow> Some (a @ b)
      | _ \<Rightarrow> None)"

text \<open>A batch takes its first page whatever its size.\<close>

fun fill_batch :: "nat \<Rightarrow> nat \<Rightarrow> page_text list \<Rightarrow> page_text list \<times> page_text list" where
  "fill_batch cap used [] = ([], [])"
| "fill_batch cap used (p # ps) =
     (let k = estimate_tokens (pt_text p) in
      if used + k \<le> cap then (let (b, rest) = fill_batch cap (used + k) ps in (p # b, rest)) else ([], p # ps))"

lemma fill_batch_length: "length (snd (fill_batch cap used ps)) \<le> length ps"
proof (induction ps arbitrary: used)
  case (Cons p ps)
  then show ?case using Cons.IH [of "used + estimate_tokens (pt_text p)"] by (simp add: Let_def split_beta le_SucI)
qed simp

function batches :: "nat \<Rightarrow> page_text list \<Rightarrow> page_text list list" where
  "batches cap [] = []"
| "batches cap (p # ps) =
     (let (b, rest) = fill_batch cap (estimate_tokens (pt_text p)) ps in (p # b) # batches cap rest)"
  by pat_completeness auto
termination
  by (relation "measure (\<lambda>(cap, ps). length ps)") (simp_all, metis fill_batch_length le_imp_less_Suc snd_conv)

text \<open>
  The calls of the batches, in their order. The code makes them in parallel and stores every answer at the index of
  its batch, so only the order of the calls differs. All of them are made, and the first error that is not the
  budget's is the result.
\<close>

fun read_batches ::
  "search_env \<Rightarrow> (string \<Rightarrow> loc_hit list option) \<Rightarrow> string \<Rightarrow> int \<Rightarrow> budget \<Rightarrow> page_text list list \<Rightarrow> budget \<times> (call_error + loc_hit list list)"
where
  "read_batches e ask query top_k b [] = (b, Inr [])"
| "read_batches e ask query top_k b (batch # bs) =
     (let user = ''Question: '' @ query @ [CHR 0x0A, CHR 0x0A] @ concat (map pt_text batch);
          (b, res) = call_model b (se_locate_prompt e top_k) user (ask user);
          (b, rest) = read_batches e ask query top_k b bs
      in (b, case res of
           Inl OverBudget \<Rightarrow> map_sum (\<lambda>x. x) ((#) []) rest
         | Inl err \<Rightarrow> Inl err
         | Inr hits \<Rightarrow> map_sum (\<lambda>x. x) ((#) hits) rest))"

definition page_key :: "string \<Rightarrow> int \<Rightarrow> string" where
  "page_key short p = short @ '':'' @ int_string p"

definition page_at :: "page_text list \<Rightarrow> string \<Rightarrow> page_text option" where
  "page_at pts k = find (\<lambda>p. page_key (ds_short (pt_sel p)) (pt_page p) = k) (rev pts)"

definition path_at :: "doc_sel \<Rightarrow> int \<Rightarrow> string list" where
  "path_at sel p = (case map_of (ds_paths sel) p of Some path \<Rightarrow> path | None \<Rightarrow> [])"

definition locate_hit :: "search_env \<Rightarrow> doc_sel list \<Rightarrow> page_text list \<Rightarrow> loc_hit \<Rightarrow> search_hit option" where
  "locate_hit e sels pts h =
     (case (case page_at pts (page_key (trim_space (lh_doc h)) (lh_page h)) of
          Some pt \<Rightarrow> Some pt
        | None \<Rightarrow> (case sels of [sel] \<Rightarrow> page_at pts (page_key (ds_short sel) (lh_page h)) | _ \<Rightarrow> None)) of
        None \<Rightarrow> None
      | Some pt \<Rightarrow>
          (case verify_quote e h (pt_lines pt) of
             None \<Rightarrow> None
           | Some (nums, boxes) \<Rightarrow>
               Some ((hit_from_line (ds_doc (pt_sel pt)) (pt_page pt) nums (lh_quote h) boxes (clamp01 (lh_relevance h)) []
                   (path_at (pt_sel pt) (pt_page pt)))\<lparr>sh_reason := lh_reason h, sh_via := ''tree''\<rparr>)))"

text \<open>The hits in the order of the batches, each citation once, and the number of answers dropped.\<close>

fun keep_hits :: "search_hit list \<Rightarrow> search_hit option list \<Rightarrow> search_hit list \<times> nat" where
  "keep_hits out [] = (out, 0)"
| "keep_hits out (None # hs) = (let (out, n) = keep_hits out hs in (out, n + 1))"
| "keep_hits out (Some h # hs) = keep_hits (if sh_citation h \<in> sh_citation ` set out then out else out @ [h]) hs"

record located =
  lo_hits :: "search_hit list"
  lo_dropped :: nat
  lo_truncated :: bool

definition locate ::
  "search_env \<Rightarrow> (string \<Rightarrow> int \<Rightarrow> int \<Rightarrow> page_line list option) \<Rightarrow> (string \<Rightarrow> loc_hit list option) \<Rightarrow> string \<Rightarrow> int \<Rightarrow> budget \<Rightarrow> doc_sel list
     \<Rightarrow> budget \<times> (call_error + located)"
where
  "locate e stored ask query top_k b sels =
     (case page_texts e stored sels of
        None \<Rightarrow> (b, Inl StoreFailed)
      | Some pts \<Rightarrow>
          (let bs = batches (se_page_tokens e) pts; rest = int (bu_max b) - int (bu_used b);
               (b, res) = read_batches e ask query top_k b (take (nat rest) bs)
           in (b, map_sum (\<lambda>x. x) (\<lambda>rs. let (out, n) = keep_hits [] (map (locate_hit e sels pts) (concat rs)) in
                \<lparr>lo_hits = out, lo_dropped = n, lo_truncated = (rest < int (length bs))\<rparr>) res)))"

text \<open>\<^verbatim>\<open>dedupHits\<close>: the first hit of every citation.\<close>

fun dedup_hits :: "string list \<Rightarrow> search_hit list \<Rightarrow> search_hit list" where
  "dedup_hits seen [] = []"
| "dedup_hits seen (h # hs) =
     (if sh_citation h \<in> set seen then dedup_hits seen hs else h # dedup_hits (sh_citation h # seen) hs)"

end
