(* ===== verification/TreeSearch.thy ===== *)
theory TreeSearch
  imports Citations
begin

text \<open>
  The search that walks the trees of a case with the model (\<^verbatim>\<open>index/search_tree.go\<close>): the table of contents,
  the choices of the model, the pages to read and the loop over them. Whatever the model answers is an argument.
\<close>

subsection \<open>Documents as the model sees them\<close>

text \<open>The rows of the tree are \<open>None\<close> when it is not built yet; \<open>dv_recorded\<close> holds the recorded sizes.\<close>

record doc_view =
  dv_ref :: string
  dv_doc :: search_doc
  dv_tree :: "tree_row list option"
  dv_recorded :: "nat \<Rightarrow> nat"

text \<open>The root of a tree; a tree without one has Go's zero value, with a node id that no row knows.\<close>

definition unknown_node :: "tree_row list \<Rightarrow> nat" where
  "unknown_node rows = Suc (sum_list (map (\<lambda>r. tr_node r + (case tr_parent r of Some i \<Rightarrow> i | None \<Rightarrow> 0)) rows))"

definition zero_row :: "nat \<Rightarrow> tree_row" where
  "zero_row i =
     \<lparr>tr_node = i, tr_parent = None, tr_short = [], tr_ord = 0, tr_level = 0,
      tr_data = \<lparr>tn_title = [], tn_origin = [], tn_level = 0, tn_start = 0, tn_end = 0, tn_children = [], tn_sections = [],
        tn_summary = [], tn_tokens = 0, tn_doctype = []\<rparr>\<rparr>"

definition root_row :: "tree_row list \<Rightarrow> tree_row" where
  "root_row rows = (case view_root rows of Some r \<Rightarrow> r | None \<Rightarrow> zero_row (unknown_node rows))"

definition root_children :: "tree_row list \<Rightarrow> tree_row list" where
  "root_children rows = view_children rows (tr_node (root_row rows))"

definition full_tokens :: "doc_view \<Rightarrow> nat" where
  "full_tokens v =
     (case dv_tree v of
        None \<Rightarrow> 0
      | Some rows \<Rightarrow> tree_tokens (length rows) (dv_recorded v) rows (tr_node (root_row rows)))"

subsection \<open>The table of contents\<close>

definition card_line :: "doc_view \<Rightarrow> nat \<Rightarrow> string" where
  "card_line v words =
     (let d = dv_doc v; sum = collapse_space (sd_summary d) in
      ''['' @ dv_ref v @ ''] '' @ sd_file d @ '' ('' @ int_string (sd_pages d) @ '' tr.)''
      @ (if sd_meta d \<noteq> [] then '' '' @ sd_meta d else [])
      @ (if 0 < words \<and> sum \<noteq> [] then (vn '' ~2014; '') @ first_words sum words else [])
      @ (if dv_tree v = None then (vn '' (ch~1B0;a c~F3; m~1EE5;c l~1EE5;c)'') else []))"

definition branch_text :: "doc_view \<Rightarrow> tree_row list \<Rightarrow> tree_row \<Rightarrow> string" where
  "branch_text v rows n =
     ''['' @ dv_ref v @ ''.'' @ tr_short n @ ''] '' @ node_title n 80 @ '' (tr. '' @ page_range (tn_start (tr_data n)) (tn_end (tr_data n)) @ '')''
     @ (if view_children rows (tr_node n) \<noteq> [] then '' +'' else [])"

fun pair_lines :: "string list \<Rightarrow> string" where
  "pair_lines [] = []"
| "pair_lines [a] = ''  '' @ a @ [CHR 0x0A]"
| "pair_lines (a # b # rest) = ''  '' @ a @ ''   '' @ b @ [CHR 0x0A] @ pair_lines rest"

definition write_branches :: "doc_view \<Rightarrow> tree_row list \<Rightarrow> string" where
  "write_branches v rows = pair_lines (map (branch_text v rows) (root_children rows))"

definition toc_stages :: "(bool \<times> nat) list" where
  "toc_stages = [(True, 120), (False, 120), (False, 40), (False, 0)]"

definition toc_entry :: "string set \<Rightarrow> nat \<Rightarrow> bool \<times> nat \<Rightarrow> doc_view \<Rightarrow> string" where
  "toc_entry expand tree_budget st v =
     card_line v (snd st) @ [CHR 0x0A]
     @ (case dv_tree v of
          None \<Rightarrow> []
        | Some rows \<Rightarrow>
            if dv_ref v \<in> expand then fst (render_tree rows (tr_node (root_row rows)) (dv_ref v @ ''.'') tree_budget)
            else if fst st then write_branches v rows
            else if root_children rows \<noteq> [] then
              ''  (+'' @ nat_string (descendants (length rows) rows (tr_node (root_row rows))) @ (vn '' m~1EE5;c, expand '') @ dv_ref v @ '')'' @ [CHR 0x0A]
            else [])"

definition toc_stage :: "search_env \<Rightarrow> string \<Rightarrow> string \<Rightarrow> doc_view list \<Rightarrow> string set \<Rightarrow> nat \<Rightarrow> bool \<times> nat \<Rightarrow> string" where
  "toc_stage e code title views expand tree_budget st =
     ''<case code='' @ se_quote e code @ '' title='' @ se_quote e title @ (vn '' files=~22;'') @ nat_string (length views) @ (vn ''~22;>'') @ [CHR 0x0A]
     @ concat (map (toc_entry expand tree_budget st) views) @ ''</case>'' @ [CHR 0x0A]"

text \<open>The first stage within the budget, or else the last one; whether it is not the first one.\<close>

definition toc_text :: "search_env \<Rightarrow> string \<Rightarrow> string \<Rightarrow> doc_view list \<Rightarrow> string set \<Rightarrow> nat \<Rightarrow> nat \<Rightarrow> string \<times> bool" where
  "toc_text e code title views expand cap tree_budget =
     (let texts = map (toc_stage e code title views expand tree_budget) toc_stages in
      case find (\<lambda>i. estimate_tokens (texts ! i) \<le> cap) [0..<length texts] of
        Some i \<Rightarrow> (texts ! i, 0 < i)
      | None \<Rightarrow> (last texts, True))"

subsection \<open>Choices\<close>

text \<open>A whole document or one of its nodes.\<close>

record pick =
  pk_view :: doc_view
  pk_node :: "tree_row option"

definition view_by_ref :: "doc_view list \<Rightarrow> string \<Rightarrow> doc_view option" where
  "view_by_ref views ref = find (\<lambda>v. dv_ref v = ref) (rev views)"

definition resolve_pick :: "doc_view list \<Rightarrow> string \<Rightarrow> pick option" where
  "resolve_pick views ref =
     (let (doc_ref, node_ref) = cut_at (CHR ''.'') ref in
      case view_by_ref views doc_ref of
        None \<Rightarrow> None
      | Some v \<Rightarrow>
          (case (node_ref, dv_tree v) of
             (Some short, Some rows) \<Rightarrow>
               (case find (\<lambda>r. tr_short r = short) (rev rows) of
                  None \<Rightarrow> None
                | Some n \<Rightarrow> Some \<lparr>pk_view = v, pk_node = (if tr_parent n = None then None else Some n)\<rparr>)
           | _ \<Rightarrow> Some \<lparr>pk_view = v, pk_node = None\<rparr>))"

definition pick_key :: "pick \<Rightarrow> string" where
  "pick_key p = dv_ref (pk_view p) @ (case pk_node p of Some n \<Rightarrow> ''.'' @ tr_short n | None \<Rightarrow> [])"

definition too_big :: "search_env \<Rightarrow> pick \<Rightarrow> bool" where
  "too_big e p =
     (case dv_tree (pk_view p) of
        None \<Rightarrow> False
      | Some rows \<Rightarrow>
          (case pk_node p of
             None \<Rightarrow> se_full_tokens e < tn_tokens (tr_data (root_row rows)) \<and> root_children rows \<noteq> []
           | Some n \<Rightarrow> se_node_tokens e < tn_tokens (tr_data n) \<and> view_children rows (tr_node n) \<noteq> []))"

text \<open>\<^verbatim>\<open>expandText\<close>: the trees that were not shown whole yet, and what is shown afterwards.\<close>

definition expand_one :: "search_env \<Rightarrow> pick \<Rightarrow> tree_row list \<Rightarrow> string" where
  "expand_one e p rows =
     (let v = pk_view p; d = dv_doc v; close = ''</tree>'' @ [CHR 0x0A] in
      case pk_node p of
        Some n \<Rightarrow>
          if view_children rows (tr_node n) = [] then []
          else ''<tree doc='' @ se_quote e (dv_ref v) @ '' node='' @ se_quote e (tr_short n) @ ''>'' @ [CHR 0x0A]
            @ fst (render_tree rows (tr_node n) (dv_ref v @ ''.'') (se_tree_tokens e)) @ close
      | None \<Rightarrow>
          ''<tree doc='' @ se_quote e (dv_ref v) @ '' file='' @ se_quote e (sd_file d) @ (vn '' pages=~22;'') @ int_string (sd_pages d) @ (vn ''~22;>'') @ [CHR 0x0A]
            @ fst (render_tree rows (tr_node (root_row rows)) (dv_ref v @ ''.'') (se_tree_tokens e)) @ close)"

fun expand_text :: "search_env \<Rightarrow> doc_view list \<Rightarrow> string list \<Rightarrow> string list \<Rightarrow> string \<times> string list" where
  "expand_text e views [] expanded = ([], expanded)"
| "expand_text e views (ref # refs) expanded =
     (let ref = trim_space ref in
      if ref \<in> set expanded then expand_text e views refs expanded
      else case resolve_pick views ref of
        None \<Rightarrow> expand_text e views refs expanded
      | Some p \<Rightarrow>
          (case dv_tree (pk_view p) of
             None \<Rightarrow> expand_text e views refs expanded
           | Some rows \<Rightarrow> (let (more, expanded) = expand_text e views refs (ref # expanded) in (expand_one e p rows @ more, expanded))))"

subsection \<open>The pages of the choices\<close>

text \<open>The pages read so far, by document.\<close>

type_synonym pages_read = "string \<Rightarrow> int list"

definition in_range :: "int \<Rightarrow> int \<Rightarrow> int \<Rightarrow> bool" where
  "in_range from up p \<longleftrightarrow> (from \<le> 0 \<or> from \<le> p) \<and> (up \<le> 0 \<or> p \<le> up)"

text \<open>The pages of one node: those not read yet, in the range asked for, while the budget of the document lasts.\<close>

record sel_state =
  sl_pages :: "int list"
  sl_used :: nat
  sl_read :: "int list"

fun take_pages :: "(int \<Rightarrow> bool) \<Rightarrow> nat \<Rightarrow> nat \<Rightarrow> int list \<Rightarrow> sel_state \<Rightarrow> sel_state" where
  "take_pages ok cap per_page [] s = s"
| "take_pages ok cap per_page (p # ps) s =
     (if p \<in> set (sl_read s) \<or> \<not> ok p then take_pages ok cap per_page ps s
      else if cap < sl_used s + per_page \<and> sl_pages s \<noteq> [] then s
      else take_pages ok cap per_page ps
        \<lparr>sl_pages = sl_pages s @ [p], sl_used = sl_used s + per_page, sl_read = sl_read s @ [p]\<rparr>)"

record picked_doc =
  pd_sel :: doc_sel
  pd_used :: nat

record picked =
  pi_docs :: "picked_doc list"
  pi_read :: pages_read
  pi_no_tree :: "search_doc list"

definition per_page :: "tnode \<Rightarrow> nat" where
  "per_page n = nat (int (tn_tokens n) div max 1 (tn_end n - tn_start n + 1))"

definition pages_between :: "int \<Rightarrow> int \<Rightarrow> int list" where
  "pages_between a b = [a..b]"

definition read_pick :: "search_env \<Rightarrow> int \<Rightarrow> int \<Rightarrow> pick \<Rightarrow> tree_row list \<Rightarrow> int list \<Rightarrow> picked_doc \<Rightarrow> picked_doc \<times> int list" where
  "read_pick e from up p rows read pd =
     (let sel = pd_sel pd; row = (case pk_node p of Some n \<Rightarrow> n | None \<Rightarrow> root_row rows); n = tr_data row;
          s = take_pages (in_range from up) (se_page_tokens e * 2) (per_page n) (pages_between (tn_start n) (tn_end n))
            \<lparr>sl_pages = ds_pages sel, sl_used = pd_used pd, sl_read = read\<rparr>;
          new = drop (length (ds_pages sel)) (sl_pages s);
          path = (\<lambda>pg. case pk_node p of Some n \<Rightarrow> row_path (length rows) rows n | None \<Rightarrow> path_for_page rows pg)
      in (\<lparr>pd_sel = sel\<lparr>ds_pages := sl_pages s, ds_paths := map (\<lambda>pg. (pg, path pg)) new @ ds_paths sel, ds_nodes := ds_nodes sel @ [tr_short row]\<rparr>,
           pd_used = sl_used s\<rparr>, sl_read s))"

fun update_first :: "('a \<Rightarrow> bool) \<Rightarrow> 'a \<Rightarrow> 'a list \<Rightarrow> 'a list" where
  "update_first P y [] = []"
| "update_first P y (x # xs) = (if P x then y # xs else x # update_first P y xs)"

definition add_pick :: "search_env \<Rightarrow> int \<Rightarrow> int \<Rightarrow> picked \<Rightarrow> pick \<Rightarrow> picked" where
  "add_pick e from up s p =
     (let v = pk_view p; mine = (\<lambda>pd. ds_short (pd_sel pd) = dv_ref v) in
      case dv_tree v of
        None \<Rightarrow> s\<lparr>pi_no_tree := pi_no_tree s @ [dv_doc v]\<rparr>
      | Some rows \<Rightarrow>
          (case find mine (pi_docs s) of
             Some pd \<Rightarrow>
               (let (pd, read) = read_pick e from up p rows (pi_read s (dv_ref v)) pd in
                s\<lparr>pi_docs := update_first mine pd (pi_docs s), pi_read := (pi_read s)(dv_ref v := read)\<rparr>)
           | None \<Rightarrow>
               if se_max_docs e \<le> length (pi_docs s) then s
               else
                 (let (pd, read) = read_pick e from up p rows (pi_read s (dv_ref v))
                      \<lparr>pd_sel = \<lparr>ds_doc = dv_doc v, ds_short = dv_ref v, ds_pages = [], ds_nodes = [], ds_paths = []\<rparr>, pd_used = 0\<rparr>
                  in s\<lparr>pi_docs := pi_docs s @ [pd], pi_read := (pi_read s)(dv_ref v := read)\<rparr>)))"

definition pages_of :: "search_env \<Rightarrow> int \<Rightarrow> int \<Rightarrow> pick list \<Rightarrow> pages_read \<Rightarrow> doc_sel list \<times> search_doc list \<times> pages_read" where
  "pages_of e from up picks read =
     (let s = foldl (add_pick e from up) \<lparr>pi_docs = [], pi_read = read, pi_no_tree = []\<rparr> picks in
      (map (\<lambda>sel. sel\<lparr>ds_pages := sort (ds_pages sel)\<rparr>) (filter (\<lambda>sel. ds_pages sel \<noteq> []) (map pd_sel (pi_docs s))),
       pi_no_tree s, pi_read s))"

definition read_summary :: "doc_view list \<Rightarrow> pages_read \<Rightarrow> string" where
  "read_summary views read =
     join_with ''; '' (map (\<lambda>v. dv_ref v @ '' tr. '' @ join_with '', '' (map int_string (sort (read (dv_ref v)))))
       (filter (\<lambda>v. read (dv_ref v) \<noteq> []) views))"

text \<open>Full-text matches next to the table of contents: the sections found, with document and pages, at most eight pages each.\<close>

fun hint_pages :: "int list \<Rightarrow> int list \<Rightarrow> int list" where
  "hint_pages seen [] = seen"
| "hint_pages seen (p # ps) =
     (if 8 \<le> length seen then seen else hint_pages (if p \<in> set seen then seen else seen @ [p]) ps)"

definition keyword_hints :: "(string \<times> int \<times> int) list \<Rightarrow> doc_view list \<Rightarrow> string" where
  "keyword_hints secs views =
     (let ref_of = (\<lambda>d. map_option dv_ref (find (\<lambda>v. sd_id (dv_doc v) = d) (rev views)));
          pages = (\<lambda>ref. foldl (\<lambda>seen (d, a, b). if ref_of d = Some ref then hint_pages seen [a..b] else seen) [] secs)
      in if secs = [] then []
         else [CHR 0x0A] @ ''Keyword hints:'' @ [CHR 0x0A]
           @ concat (map (\<lambda>v. ''['' @ dv_ref v @ (vn ''] (kh~1EDB;p: tr. '') @ join_with '', '' (map int_string (sort (pages (dv_ref v)))) @ '')'' @ [CHR 0x0A])
               (filter (\<lambda>v. pages (dv_ref v) \<noteq> []) views)))"

subsection \<open>The search in one case\<close>

record selection =
  sn_select :: "string list"
  sn_expand :: "string list"

record search_request =
  rq_query :: string
  rq_from :: int
  rq_to :: int
  rq_top_k :: int

text \<open>The answers of the model, the lines of the store, and the full-text search over given documents.\<close>

record search_world =
  sw_select :: "string \<Rightarrow> selection option"
  sw_locate :: "string \<Rightarrow> loc_hit list option"
  sw_lines :: "string \<Rightarrow> int \<Rightarrow> int \<Rightarrow> page_line list option"
  sw_sections :: "(string \<times> int \<times> int) list"
  sw_keyword :: "search_doc list \<Rightarrow> search_hit list option"

record trace =
  tc_expanded :: "string list"
  tc_dropped :: nat
  tc_truncated :: bool
  tc_docs :: "string list"
  tc_nodes :: "(string \<times> string list) list"
  tc_pages :: "(string \<times> int list) list"
  tc_fallback :: string

record search_state =
  sx_text :: string
  sx_picks :: "pick list"
  sx_picked :: "string list"
  sx_read :: pages_read
  sx_hops :: nat
  sx_hits :: "search_hit list"
  sx_keyword :: "search_doc list"
  sx_retried :: bool
  sx_expanded :: "string list"
  sx_trace :: trace

text \<open>The selection: nodes too big to read are expanded first.\<close>

fun choose_picks :: "search_env \<Rightarrow> doc_view list \<Rightarrow> string list \<Rightarrow> search_state \<Rightarrow> search_state \<times> string list" where
  "choose_picks e views [] s = (s, [])"
| "choose_picks e views (x # xs) s =
     (case resolve_pick views (trim_space x) of
        None \<Rightarrow> choose_picks e views xs s
      | Some p \<Rightarrow>
          (let key = pick_key p in
           if key \<in> set (sx_picked s) then choose_picks e views xs s
           else if too_big e p \<and> sx_hops s < se_max_hops e \<and> key \<notin> set (sx_expanded s) then
             (let (s, more) = choose_picks e views xs s in (s, key # more))
           else choose_picks e views xs (s\<lparr>sx_picked := key # sx_picked s, sx_picks := sx_picks s @ [p]\<rparr>)))"

definition note_reading :: "doc_sel list \<Rightarrow> located \<Rightarrow> trace \<Rightarrow> trace" where
  "note_reading sels out t =
     t\<lparr>tc_dropped := tc_dropped t + lo_dropped out, tc_truncated := (tc_truncated t \<or> lo_truncated out),
       tc_docs := tc_docs t @ map (\<lambda>sel. sd_id (ds_doc sel)) sels,
       tc_nodes := tc_nodes t @ map (\<lambda>sel. (sd_id (ds_doc sel), ds_nodes sel)) sels,
       tc_pages := tc_pages t @ map (\<lambda>sel. (sd_id (ds_doc sel), ds_pages sel)) sels\<rparr>"

text \<open>One round: an answer of the model, and the expansion or the reading it asks for. \<open>True\<close> when the loop goes on.\<close>

definition search_round ::
  "search_env \<Rightarrow> search_world \<Rightarrow> search_request \<Rightarrow> doc_view list \<Rightarrow> budget \<Rightarrow> search_state \<Rightarrow> budget \<times> (call_error + bool \<times> search_state)"
where
  "search_round e w rq views b s =
     (let (b, res) = call_model b (se_tree_prompt e (se_max_docs e)) (sx_text s) (sw_select w (sx_text s)) in
      case res of
        Inl OverBudget \<Rightarrow> (b, Inr (False, s))
      | Inl err \<Rightarrow> (b, Inl err)
      | Inr out \<Rightarrow>
          (let (s, big) = choose_picks e views (sn_select out) s;
               to_expand = big @ sn_expand out;
               (more, expanded) = expand_text e views to_expand (sx_expanded s);
               s = s\<lparr>sx_expanded := expanded\<rparr>
           in if more \<noteq> [] \<and> sx_hops s < se_max_hops e then
                (b, Inr (True, s\<lparr>sx_hops := sx_hops s + 1, sx_text := sx_text s @ [CHR 0x0A] @ ''Expanded:'' @ [CHR 0x0A] @ more,
                    sx_trace := (sx_trace s)\<lparr>tc_expanded := tc_expanded (sx_trace s) @ to_expand\<rparr>\<rparr>))
              else
                (let (sels, no_tree, read) = pages_of e (rq_from rq) (rq_to rq) (sx_picks s) (sx_read s);
                     s = s\<lparr>sx_keyword := sx_keyword s @ no_tree, sx_picks := [], sx_read := read\<rparr>;
                     (b, res) = locate e (sw_lines w) (sw_locate w) (rq_query rq) (rq_top_k rq) b sels
                 in case res of
                      Inl err \<Rightarrow> (b, Inl err)
                    | Inr out \<Rightarrow>
                        (let s = s\<lparr>sx_hits := sx_hits s @ lo_hits out, sx_trace := note_reading sels out (sx_trace s)\<rparr> in
                         if lo_hits out \<noteq> [] \<or> sels = [] \<or> sx_retried s \<or> se_max_hops e \<le> sx_hops s then (b, Inr (False, s))
                         else (b, Inr (True, s\<lparr>sx_retried := True, sx_hops := sx_hops s + 1,
                           sx_text := sx_text s @ [CHR 0x0A] @ ''Already read without an answer: '' @ read_summary views (sx_read s)
                             @ ''. Choose other nodes or expand.'' @ [CHR 0x0A]\<rparr>))))))"

lemma choose_hops [simp]: "sx_hops (fst (choose_picks e views xs s)) = sx_hops s"
  by (induction xs arbitrary: s) (auto simp: Let_def split_beta split: option.split)

lemma round_hops: "search_round e w rq views b s = (b', Inr (True, s')) \<Longrightarrow> sx_hops s' = Suc (sx_hops s) \<and> sx_hops s < se_max_hops e"
  by (auto simp: search_round_def Let_def split_beta choose_hops split: sum.splits call_error.splits if_splits prod.splits)

text \<open>The loop ends because every further round takes a hop.\<close>

function search_loop ::
  "search_env \<Rightarrow> search_world \<Rightarrow> search_request \<Rightarrow> doc_view list \<Rightarrow> budget \<Rightarrow> search_state \<Rightarrow> budget \<times> (call_error + search_state)"
where
  "search_loop e w rq views b s =
     (case search_round e w rq views b s of
        (b, Inl err) \<Rightarrow> (b, Inl err)
      | (b, Inr (False, s)) \<Rightarrow> (b, Inr s)
      | (b, Inr (True, s)) \<Rightarrow> search_loop e w rq views b s)"
  by pat_completeness auto
termination
  by (relation "measure (\<lambda>(e, w, rq, views, b, s). se_max_hops e - sx_hops s)") (auto dest!: round_hops [OF sym])

declare search_loop.simps [simp del]

definition first_state :: "search_env \<Rightarrow> search_world \<Rightarrow> search_request \<Rightarrow> string \<Rightarrow> string \<Rightarrow> doc_view list \<Rightarrow> search_state" where
  "first_state e w rq code title views =
     (let whole = (sum_list (map full_tokens views) \<le> se_tree_tokens e);
          toc = fst (if whole then toc_text e code title views (dv_ref ` set views) (2 ^ 30) (se_tree_tokens e)
                else toc_text e code title views {} (se_toc_tokens e) (se_tree_tokens e))
      in \<lparr>sx_text = ''Question: '' @ rq_query rq @ [CHR 0x0A, CHR 0x0A] @ toc @ keyword_hints (sw_sections w) views,
          sx_picks = [], sx_picked = [], sx_read = (\<lambda>_. []), sx_hops = 0, sx_hits = [], sx_keyword = [], sx_retried = False,
          sx_expanded = (if whole then map dv_ref views else []),
          sx_trace = \<lparr>tc_expanded = [], tc_dropped = 0, tc_truncated = False, tc_docs = [], tc_nodes = [], tc_pages = [], tc_fallback = []\<rparr>\<rparr>)"

text \<open>What is found on the trees and in documents without one; the full text of the whole scope when nothing was chosen.\<close>

definition finish_search :: "search_world \<Rightarrow> doc_view list \<Rightarrow> search_state \<Rightarrow> call_error + search_hit list \<times> trace" where
  "finish_search w views s =
     (case (if sx_keyword s = [] then Some [] else sw_keyword w (sx_keyword s)) of
        None \<Rightarrow> Inl StoreFailed
      | Some kw \<Rightarrow>
          (let hits = sx_hits s @ kw; t = sx_trace s in
           if hits = [] \<and> sx_picked s = [] then
             (case sw_keyword w (map dv_doc views) of
                None \<Rightarrow> Inl StoreFailed
              | Some hits \<Rightarrow> Inr (hits, t\<lparr>tc_fallback := (if tc_fallback t = [] then ''nothing_selected'' else tc_fallback t)\<rparr>))
           else Inr (dedup_hits [] hits, t)))"

definition search_case ::
  "search_env \<Rightarrow> search_world \<Rightarrow> search_request \<Rightarrow> string \<Rightarrow> string \<Rightarrow> doc_view list \<Rightarrow> budget \<Rightarrow> budget \<times> (call_error + search_hit list \<times> trace)"
where
  "search_case e w rq code title views b =
     (case search_loop e w rq views b (first_state e w rq code title views) of
        (b, Inl err) \<Rightarrow> (b, Inl err)
      | (b, Inr s) \<Rightarrow> (b, finish_search w views s))"

end
