(* ===== verification/SearchFacts.thy ===== *)
theory SearchFacts
  imports TreeSearch "HOL-Library.Multiset"
begin

text \<open>
  What the search promises: citations read back, batches fit the budget, and whatever the model answers, every hit
  is a verified quote on a page in scope or comes from the full text, no page is read twice, and the calls are bounded.
\<close>

subsection \<open>Citations read back\<close>

definition canonical_id :: "string \<Rightarrow> bool" where
  "canonical_id d \<longleftrightarrow> length d = 36 \<and> list_all id_char d"

lemma id_char_ascii: "id_char c \<Longrightarrow> of_char c < (128 :: nat) \<and> \<not> ascii_space c"
  by (auto simp: id_char_def is_space_ascii Let_def)

lemma match_digits_nat: "rest = [] \<or> \<not> is_ascii_digit (hd rest) \<Longrightarrow> match_digits (nat_string n @ rest) = Some (nat_string n, rest)"
proof -
  assume r: "rest = [] \<or> \<not> is_ascii_digit (hd rest)"
  have "takeWhile is_ascii_digit (nat_string n @ rest) = nat_string n @ takeWhile is_ascii_digit rest"
    using nat_string_digits [of n] by (intro takeWhile_append2) (simp add: list_all_iff)
  also have "takeWhile is_ascii_digit rest = []" using r by (cases rest) simp_all
  finally have t: "takeWhile is_ascii_digit (nat_string n @ rest) = nat_string n" by simp
  have "dropWhile is_ascii_digit (nat_string n @ rest) = dropWhile is_ascii_digit rest"
    using nat_string_digits [of n] by (intro dropWhile_append2) (simp add: list_all_iff)
  also have "\<dots> = rest" using r by (cases rest) simp_all
  finally show ?thesis unfolding match_digits_def Let_def t by simp
qed

lemma atoi_nat: "int n \<le> max_int \<Longrightarrow> atoi (nat_string n) = (int n, True)"
proof -
  assume n: "int n \<le> max_int"
  obtain c cs where c: "nat_string n = c # cs" using nat_string_nonempty by (cases "nat_string n") auto
  then have "is_ascii_digit c" using nat_string_digits [of n] by simp
  then have "c \<noteq> CHR ''-'' \<and> c \<noteq> CHR ''+''" by (auto simp: is_ascii_digit_def)
  then show ?thesis using n c nat_string_digits [of n] digits_value_nat_string [of n]
    by (simp add: atoi_def Let_def max_int_def)
qed

lemma citation_text_ascii: "canonical_id d \<Longrightarrow> 0 \<le> p \<Longrightarrow> 0 \<le> a \<Longrightarrow> 0 \<le> b \<Longrightarrow> ascii d \<and> ascii (int_string p) \<and> ascii (int_string a @ ''-'' @ int_string b)"
proof -
  have digits: "ascii (nat_string n)" for n
    using nat_string_digits [of n] by (auto simp: ascii_def list_all_iff is_ascii_digit_def)
  assume "canonical_id d" "0 \<le> p" "0 \<le> a" "0 \<le> b"
  then show ?thesis using id_char_ascii by (auto simp: canonical_id_def ascii_def [of d] list_all_iff int_string_def digits)
qed

lemma last_digit: "\<not> ascii_space (last (nat_string n))"
proof -
  have "is_ascii_digit (last (nat_string n))"
    using nat_string_digits [of n] last_in_set [OF nat_string_nonempty [of n]] by (simp add: list_all_iff)
  then show ?thesis by (auto simp: is_ascii_digit_def is_space_ascii)
qed

lemma trim_plain: "ascii s \<Longrightarrow> s \<noteq> [] \<Longrightarrow> \<not> ascii_space (hd s) \<Longrightarrow> \<not> ascii_space (last s) \<Longrightarrow> trim_space s = s"
proof -
  assume s: "ascii s" "s \<noteq> []" "\<not> ascii_space (hd s)" "\<not> ascii_space (last s)"
  then have "dropWhile ascii_space s = s" "dropWhile ascii_space (rev s) = rev s"
    by (cases s, simp_all) (cases s rule: rev_cases, simp_all)
  then show ?thesis using s(1) by (simp add: trim_space_ascii)
qed

definition line_span :: "int list \<Rightarrow> int \<times> int" where
  "line_span ls = (if ls = [] then (-1, -1) else (foldl min (hd ls) ls, foldl max (hd ls) ls))"

lemma foldl_bounds: "list_all (\<lambda>l. 0 \<le> l \<and> l \<le> m) (a # ls) \<Longrightarrow> 0 \<le> foldl min a ls \<and> foldl min a ls \<le> m \<and> 0 \<le> foldl max a ls \<and> foldl max a ls \<le> (m :: int)"
proof -
  have "0 \<le> a \<and> a \<le> m \<Longrightarrow> list_all (\<lambda>l. 0 \<le> l \<and> l \<le> m) ls \<Longrightarrow> 0 \<le> foldl min a ls \<and> foldl min a ls \<le> m"
    by (induction ls arbitrary: a) (simp_all add: min_le_iff_disj le_max_iff_disj)
  moreover have "0 \<le> a \<and> a \<le> m \<Longrightarrow> list_all (\<lambda>l. 0 \<le> l \<and> l \<le> m) ls \<Longrightarrow> 0 \<le> foldl max a ls \<and> foldl max a ls \<le> m"
    by (induction ls arbitrary: a) (simp_all add: min_le_iff_disj le_max_iff_disj)
  ultimately show "list_all (\<lambda>l. 0 \<le> l \<and> l \<le> m) (a # ls) \<Longrightarrow> ?thesis" by simp
qed

lemma span_bounds: "ls \<noteq> [] \<Longrightarrow> list_all (\<lambda>l. 0 \<le> l \<and> l \<le> max_int) ls \<Longrightarrow>
    0 \<le> fst (line_span ls) \<and> fst (line_span ls) \<le> max_int \<and> 0 \<le> snd (line_span ls) \<and> snd (line_span ls) \<le> max_int"
  using foldl_bounds [of max_int "hd ls" ls] by (cases ls) (simp_all add: line_span_def)

lemma match_citation_id:
  assumes "canonical_id d" "0 \<le> p" "list_all (\<lambda>l. 0 \<le> l \<and> l \<le> max_int) ls"
  shows "match_citation (citation_id d p ls)
    = Some (d, int_string p, if ls = [] then None else Some (int_string (fst (line_span ls)), Some (int_string (snd (line_span ls)))))"
proof -
  let ?tail = "if ls = [] then [] else '':l'' @ int_string (fst (line_span ls)) @ ''-'' @ int_string (snd (line_span ls))"
  have c: "citation_id d p ls = ''doc:'' @ d @ '':p'' @ int_string p @ ?tail" by (simp add: citation_id_def line_span_def)
  have d: "length d = 36" "list_all id_char d" using assms(1) by (simp_all add: canonical_id_def)
  have p: "match_digits (int_string p @ ?tail) = Some (int_string p, ?tail)"
    using assms(2) by (simp add: int_string_def match_digits_nat is_ascii_digit_def)
  have lines: "match_lines ?tail = Some (if ls = [] then None else Some (int_string (fst (line_span ls)), Some (int_string (snd (line_span ls)))))"
  proof (cases "ls = []")
    case False
    note b = span_bounds [OF False assms(3)]
    have "match_digits (int_string (fst (line_span ls)) @ ''-'' @ int_string (snd (line_span ls)))
        = Some (int_string (fst (line_span ls)), ''-'' @ int_string (snd (line_span ls)))"
      using b by (simp add: int_string_def match_digits_nat is_ascii_digit_def)
    moreover have "match_digits (int_string (snd (line_span ls))) = Some (int_string (snd (line_span ls)), [])"
      using b match_digits_nat [of "[]"] by (simp add: int_string_def)
    moreover have "\<not> prefix ''l'' (int_string (snd (line_span ls)))"
    proof -
      obtain n where n: "int_string (snd (line_span ls)) = nat_string n" using b by (auto simp: int_string_def)
      have "is_ascii_digit (hd (nat_string n))"
        using nat_string_digits [of n] list.set_sel(1) [OF nat_string_nonempty [of n]] by (simp add: list_all_iff)
      then have "hd (nat_string n) \<noteq> CHR ''l''" by (auto simp: is_ascii_digit_def)
      then show ?thesis unfolding n by (cases "nat_string n") simp_all
    qed
    ultimately show ?thesis using False by (simp add: match_lines_def match_last_def trim_prefix_def)
  qed (simp add: match_lines_def)
  have "take 36 (drop 4 (citation_id d p ls)) = d" "drop 40 (citation_id d p ls) = '':p'' @ int_string p @ ?tail" "prefix ''doc:'' (citation_id d p ls)"
    using d(1) unfolding c by simp_all
  then show ?thesis using d p lines unfolding match_citation_def Let_def by simp
qed


lemma trim_citation:
  assumes "canonical_id d" "0 \<le> p" "list_all (\<lambda>l. 0 \<le> l \<and> l \<le> max_int) ls"
  shows "trim_space (citation_id d p ls) = citation_id d p ls"
proof (rule trim_plain)
  have span: "ls \<noteq> [] \<Longrightarrow> 0 \<le> fst (line_span ls) \<and> 0 \<le> snd (line_span ls)" using span_bounds assms(3) by blast
  have c: "citation_id d p ls = ''doc:'' @ d @ '':p'' @ int_string p @ (if ls = [] then [] else '':l'' @ int_string (fst (line_span ls)) @ ''-'' @ int_string (snd (line_span ls)))"
    by (simp add: citation_id_def line_span_def)
  show "ascii (citation_id d p ls)" "citation_id d p ls \<noteq> []"
    using citation_text_ascii [OF assms(1,2)] span unfolding c by auto
  show "\<not> ascii_space (hd (citation_id d p ls))" unfolding c by (simp add: is_space_ascii)
  show "\<not> ascii_space (last (citation_id d p ls))"
    using assms(2) span last_digit unfolding c by (auto simp: int_string_def)
qed

lemma atoi_int_string: "0 \<le> i \<Longrightarrow> i \<le> max_int \<Longrightarrow> fst (atoi (int_string i)) = i"
  using atoi_nat [of "nat i"] by (simp add: int_string_def)


subsection \<open>Quotes\<close>

lemma verify_quote_holds:
  "verify_quote e h ls = Some (nums, boxes) \<Longrightarrow> quote_key e (lh_quote h) \<noteq> [] \<and> quote_holds e ls (quote_key e (lh_quote h)) nums"
  by (auto simp: verify_quote_def Let_def find_Some_iff split: if_splits)


subsection \<open>Batches\<close>

definition batch_tokens :: "page_text list \<Rightarrow> nat" where
  "batch_tokens b = sum_list (map (\<lambda>p. estimate_tokens (pt_text p)) b)"

lemma fill_batch_parts: "fst (fill_batch cap used ps) @ snd (fill_batch cap used ps) = ps"
  by (induction ps arbitrary: used) (simp_all add: Let_def split_beta)

lemma fill_batch_fits: "used \<le> cap \<Longrightarrow> used + batch_tokens (fst (fill_batch cap used ps)) \<le> cap"
proof (induction ps arbitrary: used)
  case (Cons p ps)
  then show ?case using Cons.IH [of "used + estimate_tokens (pt_text p)"] by (simp add: Let_def split_beta batch_tokens_def add.assoc)
qed (simp add: batch_tokens_def)

lemma fill_batch_full: "cap < used \<Longrightarrow> fst (fill_batch cap used ps) = []"
  by (cases ps) simp_all

lemma batches_parts: "concat (batches cap ps) = ps"
proof (induction cap ps rule: batches.induct)
  case (2 cap p ps)
  obtain b rest where f: "fill_batch cap (estimate_tokens (pt_text p)) ps = (b, rest)" by fastforce
  have "concat (batches cap rest) = rest" by (rule "2.IH" [OF refl f [symmetric]])
  then show ?case using fill_batch_parts [of cap "estimate_tokens (pt_text p)" ps] f by simp
qed simp

lemma batches_fit: "list_all (\<lambda>b. length b = 1 \<or> batch_tokens b \<le> cap) (batches cap ps)"
proof (induction cap ps rule: batches.induct)
  case (2 cap p ps)
  let ?k = "estimate_tokens (pt_text p)"
  have "length (p # fst (fill_batch cap ?k ps)) = 1 \<or> batch_tokens (p # fst (fill_batch cap ?k ps)) \<le> cap"
    using fill_batch_fits [of ?k cap ps] fill_batch_full [of cap ?k ps] by (cases "?k \<le> cap") (simp_all add: batch_tokens_def)
  moreover obtain b rest where f: "fill_batch cap ?k ps = (b, rest)" by fastforce
  moreover have "list_all (\<lambda>b. length b = 1 \<or> batch_tokens b \<le> cap) (batches cap rest)" by (rule "2.IH" [OF refl f [symmetric]])
  ultimately show ?case by simp
qed simp


subsection \<open>The budget\<close>

lemma call_model_budget: "call_model b system user answer = (b', r) \<Longrightarrow> bu_used b' = bu_used b + 1 \<and> bu_max b' = bu_max b"
  by (auto simp: call_model_def Let_def split: if_splits)

lemma read_batches_budget:
  "read_batches e ask query top_k b bs = (b', r) \<Longrightarrow> bu_max b' = bu_max b \<and> bu_used b' \<le> bu_used b + length bs"
proof (induction bs arbitrary: b b' r)
  case (Cons batch bs)
  define user where "user = ''Question: '' @ query @ [CHR 0x0A, CHR 0x0A] @ concat (map pt_text batch)"
  obtain b1 res where c: "call_model b (se_locate_prompt e top_k) user (ask user) = (b1, res)" by fastforce
  obtain b2 rest where r: "read_batches e ask query top_k b1 bs = (b2, rest)" by fastforce
  have "b' = b2" using Cons.prems c r unfolding read_batches.simps Let_def user_def [symmetric] by simp
  then show ?case using call_model_budget [OF c] Cons.IH [OF r] by simp
qed simp

lemma locate_budget:
  "locate e stored ask query top_k b sels = (b', r) \<Longrightarrow> bu_used b \<le> bu_max b \<Longrightarrow> bu_max b' = bu_max b \<and> bu_used b' \<le> bu_max b"
proof -
  assume l: "locate e stored ask query top_k b sels = (b', r)" and u: "bu_used b \<le> bu_max b"
  show ?thesis
  proof (cases "page_texts e stored sels")
    case (Some pts)
    let ?bs = "batches (se_page_tokens e) pts"
    obtain b1 res where b1: "read_batches e ask query top_k b (take (nat (int (bu_max b) - int (bu_used b))) ?bs) = (b1, res)" by fastforce
    then have "b' = b1" using l Some by (simp add: locate_def Let_def)
    then show ?thesis using read_batches_budget [OF b1] u by (auto simp: min_def split: if_splits)
  qed (use l u in \<open>simp add: locate_def\<close>)
qed

text \<open>What a round does: the budget is spent, the call fails, trees are expanded, or pages are read.\<close>

lemma search_round_cases:
  assumes "search_round e w rq views b s = (b', r)"
  obtains
    (over) "bu_used b' = bu_used b + 1" "bu_max b' = bu_max b" "r = Inr (False, s)"
  | (failed) err where "bu_used b' = bu_used b + 1" "bu_max b' = bu_max b" "r = Inl err"
  | (expanded) out :: selection and s1 big s' where "choose_picks e views (sn_select out) s = (s1, big)"
      "bu_used b' = bu_used b + 1" "bu_used b' \<le> bu_max b" "bu_max b' = bu_max b" "r = Inr (True, s')"
      "sx_picks s' = sx_picks s1" "sx_read s' = sx_read s1" "sx_hits s' = sx_hits s1" "sx_keyword s' = sx_keyword s1" "tc_pages (sx_trace s') = tc_pages (sx_trace s1)"
  | (read) out :: selection and s1 big sels no_tree read b1 res where "choose_picks e views (sn_select out) s = (s1, big)"
      "bu_used b1 = bu_used b + 1" "bu_used b1 \<le> bu_max b" "bu_max b1 = bu_max b"
      "pages_of e (rq_from rq) (rq_to rq) (sx_picks s1) (sx_read s1) = (sels, no_tree, read)"
      "locate e (sw_lines w) (sw_locate w) (rq_query rq) (rq_top_k rq) b1 sels = (b', res)"
      "case res of Inl err \<Rightarrow> r = Inl err
       | Inr out \<Rightarrow> (\<exists>go s'. r = Inr (go, s') \<and> sx_picks s' = [] \<and> sx_read s' = read \<and> sx_hits s' = sx_hits s1 @ lo_hits out
           \<and> sx_keyword s' = sx_keyword s1 @ no_tree \<and> tc_pages (sx_trace s') = tc_pages (sx_trace s1) @ map (\<lambda>sel. (sd_id (ds_doc sel), ds_pages sel)) sels)"
proof -
  obtain b1 res where c: "call_model b (se_tree_prompt e (se_max_docs e)) (sx_text s) (sw_select w (sx_text s)) = (b1, res)" by fastforce
  note b1 = call_model_budget [OF c]
  show thesis
  proof (cases res)
    case (Inl err)
    then show thesis using that(1,2) assms c b1 by (cases err) (auto simp: search_round_def)
  next
    case (Inr out)
    have u: "bu_used b1 \<le> bu_max b" using c Inr b1 by (auto simp: call_model_def Let_def split: if_splits)
    obtain s1 big where ch: "choose_picks e views (sn_select out) s = (s1, big)" by fastforce
    obtain tx shown where ex: "expand_text e views (big @ sn_expand out) (sx_expanded s1) = (tx, shown)" by fastforce
    show thesis
    proof (cases "tx \<noteq> [] \<and> sx_hops s1 < se_max_hops e")
      case True
      then have "b' = b1 \<and> (\<exists>s'. r = Inr (True, s') \<and> sx_picks s' = sx_picks s1 \<and> sx_read s' = sx_read s1 \<and> sx_hits s' = sx_hits s1
          \<and> sx_keyword s' = sx_keyword s1 \<and> tc_pages (sx_trace s') = tc_pages (sx_trace s1))"
        using assms c Inr ch ex by (auto simp: search_round_def Let_def)
      then obtain s' where "b' = b1" "r = Inr (True, s')" "sx_picks s' = sx_picks s1" "sx_read s' = sx_read s1" "sx_hits s' = sx_hits s1"
          "sx_keyword s' = sx_keyword s1" "tc_pages (sx_trace s') = tc_pages (sx_trace s1)" by blast
      then show thesis using that(3) [OF ch] b1 u by simp
    next
      case False
      obtain sels no_tree read where p: "pages_of e (rq_from rq) (rq_to rq) (sx_picks s1) (sx_read s1) = (sels, no_tree, read)"
        by (metis surj_pair)
      obtain b2 lres where l: "locate e (sw_lines w) (sw_locate w) (rq_query rq) (rq_top_k rq) b1 sels = (b2, lres)" by fastforce
      have r: "b' = b2 \<and> (case lres of Inl err \<Rightarrow> r = Inl err
       | Inr out \<Rightarrow> (\<exists>go s'. r = Inr (go, s') \<and> sx_picks s' = [] \<and> sx_read s' = read \<and> sx_hits s' = sx_hits s1 @ lo_hits out
           \<and> sx_keyword s' = sx_keyword s1 @ no_tree \<and> tc_pages (sx_trace s') = tc_pages (sx_trace s1) @ map (\<lambda>sel. (sd_id (ds_doc sel), ds_pages sel)) sels))"
        using assms c Inr ch ex p l False
        by (cases lres) (auto simp: search_round_def Let_def note_reading_def split: if_splits)
      then have "b' = b2" by simp
      with r l show thesis using b1 u by (intro that(4) [OF ch _ _ _ p, of b1]) simp_all
    qed
  qed
qed

lemma search_round_budget:
  assumes "search_round e w rq views b s = (b', r)" "bu_used b \<le> bu_max b"
  shows "bu_max b' = bu_max b \<and> bu_used b' \<le> bu_max b + 1 \<and> (\<forall>s'. r = Inr (True, s') \<longrightarrow> bu_used b' \<le> bu_max b)"
  using assms(1)
proof (cases rule: search_round_cases)
  case (read out s1 big sels no_tree read b1 res)
  then show ?thesis using locate_budget [OF read(6)] by simp
qed (use assms(2) in auto)

lemma search_loop_budget:
  "search_loop e w rq views b s = (b', r) \<Longrightarrow> bu_used b \<le> bu_max b \<Longrightarrow> bu_max b' = bu_max b \<and> bu_used b' \<le> bu_max b + 1"
proof (induction e w rq views b s arbitrary: b' r rule: search_loop.induct)
  case (1 e w rq views b s)
  obtain b1 r1 where r: "search_round e w rq views b s = (b1, r1)" by fastforce
  note b1 = search_round_budget [OF r "1.prems"(2)]
  consider err where "r1 = Inl err" | s1 where "r1 = Inr (False, s1)" | s1 where "r1 = Inr (True, s1)" by (metis sum.exhaust surj_pair)
  then show ?case
  proof cases
    case (3 s1)
    then have "search_loop e w rq views b1 s1 = (b', r)" using "1.prems"(1) r by (simp add: search_loop.simps [of e w rq views b s])
    then show ?thesis using "1.IH" [OF r [symmetric]] 3 b1 by auto
  qed (use "1.prems"(1) r b1 in \<open>simp_all add: search_loop.simps [of e w rq views b s]\<close>)
qed



subsection \<open>Hits\<close>

text \<open>A verified passage on a page in scope, or a hit of the full text over documents in scope.\<close>

definition located_hit :: "search_env \<Rightarrow> search_world \<Rightarrow> search_request \<Rightarrow> search_doc set \<Rightarrow> search_hit \<Rightarrow> bool" where
  "located_hit e w rq docs h \<longleftrightarrow>
     (\<exists>d\<in>docs. sh_doc h = sd_id d) \<and> in_range (rq_from rq) (rq_to rq) (sh_page h)
     \<and> sh_citation h = citation_id (sh_doc h) (sh_page h) (sh_lines h)
     \<and> quote_key e (sh_quote h) \<noteq> []
     \<and> (\<exists>a b ls. sw_lines w (sh_doc h) a b = Some ls \<and> quote_holds e (page_lines ls (sh_page h)) (quote_key e (sh_quote h)) (sh_lines h))"

definition keyword_hit :: "search_world \<Rightarrow> search_doc set \<Rightarrow> search_hit \<Rightarrow> bool" where
  "keyword_hit w docs h \<longleftrightarrow> (\<exists>ds hs. set ds \<subseteq> docs \<and> sw_keyword w ds = Some hs \<and> h \<in> set hs)"

lemma page_texts_from:
  "page_texts e stored sels = Some pts \<Longrightarrow> pt \<in> set pts \<Longrightarrow>
     \<exists>sel\<in>set sels. \<exists>a b ls. stored (sd_id (ds_doc sel)) a b = Some ls \<and> pt_sel pt = sel \<and> pt_page pt \<in> set (ds_pages sel)
       \<and> pt_lines pt = page_lines ls (pt_page pt)"
proof (induction sels arbitrary: pts)
  case (Cons sel sels)
  obtain xs ys where x: "sel_texts e stored sel = Some xs" and y: "page_texts e stored sels = Some ys" and p: "pts = xs @ ys"
    using Cons.prems(1) by (auto split: option.splits)
  show ?case
  proof (cases "pt \<in> set ys")
    case True
    then show ?thesis using Cons.IH [OF y] by auto
  next
    case False
    then have "pt \<in> set xs" using Cons.prems(2) p by simp
    then obtain ls p where "stored (sd_id (ds_doc sel)) (hd (ds_pages sel)) (last (ds_pages sel)) = Some ls" "p \<in> set (ds_pages sel)"
        "pt = numbered_page e sel p (page_lines ls p)"
      using x by (auto simp: sel_texts_def map_filter_def Let_def split: if_splits)
    then show ?thesis by (auto simp: numbered_page_def)
  qed
qed simp

lemma page_at_in: "page_at pts k = Some pt \<Longrightarrow> pt \<in> set pts"
  by (auto simp: page_at_def find_Some_iff) (metis length_rev nth_mem set_rev)

lemma locate_hit_from:
  assumes "locate_hit e sels pts h = Some hit"
  shows "\<exists>pt\<in>set pts. sh_doc hit = sd_id (ds_doc (pt_sel pt)) \<and> sh_page hit = pt_page pt \<and> sh_citation hit = citation_id (sh_doc hit) (sh_page hit) (sh_lines hit)
    \<and> quote_key e (sh_quote hit) \<noteq> [] \<and> quote_holds e (pt_lines pt) (quote_key e (sh_quote hit)) (sh_lines hit)"
proof -
  define found where "found = (case page_at pts (page_key (trim_space (lh_doc h)) (lh_page h)) of
          Some pt \<Rightarrow> Some pt
        | None \<Rightarrow> (case sels of [sel] \<Rightarrow> page_at pts (page_key (ds_short sel) (lh_page h)) | _ \<Rightarrow> None))"
  have in_pts: "found = Some pt \<Longrightarrow> pt \<in> set pts" for pt
    unfolding found_def by (auto dest: page_at_in split: option.splits list.splits)
  from assms obtain pt nums boxes where "found = Some pt" "verify_quote e h (pt_lines pt) = Some (nums, boxes)"
      "hit = (hit_from_line (ds_doc (pt_sel pt)) (pt_page pt) nums (lh_quote h) boxes (clamp01 (lh_relevance h)) []
                   (path_at (pt_sel pt) (pt_page pt)))\<lparr>sh_reason := lh_reason h, sh_via := ''tree''\<rparr>"
    unfolding locate_hit_def found_def [symmetric] by (auto split: option.splits)
  then show ?thesis using in_pts verify_quote_holds by (intro bexI [of _ pt]) (auto simp: hit_from_line_def)
qed

lemma keep_hits_from: "h \<in> set (fst (keep_hits out hs)) \<Longrightarrow> h \<in> set out \<or> Some h \<in> set hs"
  by (induction out hs rule: keep_hits.induct) (auto simp: split_beta split: if_splits)

lemma locate_hits:
  assumes "locate e (sw_lines w) ask query top_k b sels = (b', Inr out)" "h \<in> set (lo_hits out)"
    and "\<forall>sel\<in>set sels. ds_doc sel \<in> docs \<and> list_all (in_range (rq_from rq) (rq_to rq)) (ds_pages sel)"
  shows "located_hit e w rq docs h"
proof -
  from assms(1) obtain pts where pts: "page_texts e (sw_lines w) sels = Some pts" by (auto simp: locate_def split: option.splits)
  obtain b1 res where r: "read_batches e ask query top_k b (take (nat (int (bu_max b) - int (bu_used b))) (batches (se_page_tokens e) pts)) = (b1, res)"
    by fastforce
  from assms(1) pts r obtain rs where "res = Inr rs" "lo_hits out = fst (keep_hits [] (map (locate_hit e sels pts) (concat rs)))"
    by (cases res) (auto simp: locate_def Let_def split_beta)
  then have "Some h \<in> set (map (locate_hit e sels pts) (concat rs))" using assms(2) keep_hits_from [of h "[]"] by (metis empty_iff list.set(1))
  then obtain lh where "locate_hit e sels pts lh = Some h" unfolding set_map by (metis imageE)
  from locate_hit_from [OF this] obtain pt where pt: "pt \<in> set pts" "sh_doc h = sd_id (ds_doc (pt_sel pt))" "sh_page h = pt_page pt"
      "sh_citation h = citation_id (sh_doc h) (sh_page h) (sh_lines h)" "quote_key e (sh_quote h) \<noteq> []"
      "quote_holds e (pt_lines pt) (quote_key e (sh_quote h)) (sh_lines h)" by blast
  from page_texts_from [OF pts pt(1)] obtain a b ls where sel: "pt_sel pt \<in> set sels" "sw_lines w (sd_id (ds_doc (pt_sel pt))) a b = Some ls"
      "pt_page pt \<in> set (ds_pages (pt_sel pt))" "pt_lines pt = page_lines ls (pt_page pt)" by blast
  show ?thesis
    unfolding located_hit_def using pt sel assms(3) by (auto simp: list_all_iff)
qed


subsection \<open>Pages\<close>

lemma take_pages_new:
  "\<exists>new. sl_pages (take_pages ok cap k ps s) = sl_pages s @ new \<and> sl_read (take_pages ok cap k ps s) = sl_read s @ new
     \<and> distinct new \<and> set new \<inter> set (sl_read s) = {} \<and> list_all ok new"
proof (induction ps arbitrary: s)
  case (Cons p ps)
  show ?case
  proof (cases "p \<in> set (sl_read s) \<or> \<not> ok p \<or> cap < sl_used s + k \<and> sl_pages s \<noteq> []")
    case True
    then show ?thesis using Cons.IH by auto
  next
    case False
    let ?s = "\<lparr>sl_pages = sl_pages s @ [p], sl_used = sl_used s + k, sl_read = sl_read s @ [p]\<rparr>"
    from Cons.IH [of ?s] obtain new where "sl_pages (take_pages ok cap k ps ?s) = sl_pages s @ p # new"
        "sl_read (take_pages ok cap k ps ?s) = sl_read s @ p # new" "distinct new" "set new \<inter> set (sl_read s @ [p]) = {}" "list_all ok new" by auto
    then show ?thesis using False by (intro exI [of _ "p # new"]) auto
  qed
qed simp

lemma read_pick_new:
  assumes "read_pick e from up p rows read pd = (pd', read')"
  shows "\<exists>new. ds_pages (pd_sel pd') = ds_pages (pd_sel pd) @ new \<and> read' = read @ new \<and> distinct new \<and> set new \<inter> set read = {}
    \<and> list_all (in_range from up) new \<and> ds_doc (pd_sel pd') = ds_doc (pd_sel pd) \<and> ds_short (pd_sel pd') = ds_short (pd_sel pd)"
proof -
  define s where "s = \<lparr>sl_pages = ds_pages (pd_sel pd), sl_used = pd_used pd, sl_read = read\<rparr>"
  define row where "row = (case pk_node p of Some n \<Rightarrow> n | None \<Rightarrow> root_row rows)"
  define s' where "s' = take_pages (in_range from up) (se_page_tokens e * 2) (per_page (tr_data row))
      (pages_between (tn_start (tr_data row)) (tn_end (tr_data row))) s"
  have "ds_pages (pd_sel pd') = sl_pages s'" "read' = sl_read s'" "ds_doc (pd_sel pd') = ds_doc (pd_sel pd)" "ds_short (pd_sel pd') = ds_short (pd_sel pd)"
    using assms unfolding read_pick_def Let_def s'_def s_def row_def by auto
  moreover obtain new where "sl_pages s' = sl_pages s @ new \<and> sl_read s' = sl_read s @ new \<and> distinct new \<and> set new \<inter> set (sl_read s) = {} \<and> list_all (in_range from up) new"
    using take_pages_new unfolding s'_def by blast
  ultimately show ?thesis by (auto simp: s_def)
qed

text \<open>The pages chosen of the documents under a reference.\<close>

definition pages_under :: "string \<Rightarrow> picked_doc list \<Rightarrow> int list" where
  "pages_under k pds = concat (map (\<lambda>pd. ds_pages (pd_sel pd)) (filter (\<lambda>pd. ds_short (pd_sel pd) = k) pds))"

definition of_view :: "doc_view list \<Rightarrow> doc_sel \<Rightarrow> bool" where
  "of_view views sel \<longleftrightarrow> (\<exists>v\<in>set views. ds_doc sel = dv_doc v \<and> ds_short sel = dv_ref v)"

lemma update_first_set: "x \<in> set (update_first P y xs) \<Longrightarrow> x = y \<or> x \<in> set xs"
  by (induction xs) (auto split: if_splits)

lemma update_first_under:
  "find (\<lambda>pd. ds_short (pd_sel pd) = r) pds = Some pd \<Longrightarrow> ds_short (pd_sel pd') = r \<Longrightarrow> ds_pages (pd_sel pd') = ds_pages (pd_sel pd) @ new \<Longrightarrow>
     mset (pages_under k (update_first (\<lambda>pd. ds_short (pd_sel pd) = r) pd' pds)) = mset (pages_under k pds) + (if k = r then mset new else {#})"
  by (induction pds) (auto simp: pages_under_def)

definition reads_ok :: "int \<Rightarrow> int \<Rightarrow> pages_read \<Rightarrow> bool" where
  "reads_ok from up read \<longleftrightarrow> (\<forall>k. distinct (read k) \<and> list_all (in_range from up) (read k))"

lemma reads_ok_extend:
  "reads_ok from up read \<Longrightarrow> distinct new \<Longrightarrow> set new \<inter> set (read k) = {} \<Longrightarrow> list_all (in_range from up) new \<Longrightarrow>
     reads_ok from up (read(k := read k @ new))"
  by (auto simp: reads_ok_def)

definition picked_ok :: "int \<Rightarrow> int \<Rightarrow> doc_view list \<Rightarrow> pages_read \<Rightarrow> picked \<Rightarrow> bool" where
  "picked_ok from up views read s \<longleftrightarrow>
     reads_ok from up (pi_read s) \<and> (\<forall>k. mset (pages_under k (pi_docs s)) + mset (read k) = mset (pi_read s k))
     \<and> (\<forall>pd\<in>set (pi_docs s). of_view views (pd_sel pd)) \<and> set (pi_no_tree s) \<subseteq> dv_doc ` set views"

lemma add_pick_ok:
  assumes s: "picked_ok from up views read s" and v: "pk_view p \<in> set views"
  shows "picked_ok from up views read (add_pick e from up s p)"
proof (cases "dv_tree (pk_view p)")
  case None
  then show ?thesis using assms by (auto simp: picked_ok_def add_pick_def)
next
  case (Some rows)
  define r where "r = dv_ref (pk_view p)"
  show ?thesis
  proof (cases "find (\<lambda>pd. ds_short (pd_sel pd) = r) (pi_docs s)")
    case f: (Some pd)
    obtain pd' read' where rp: "read_pick e from up p rows (pi_read s r) pd = (pd', read')" by fastforce
    from read_pick_new [OF rp] obtain new where n: "ds_pages (pd_sel pd') = ds_pages (pd_sel pd) @ new" "read' = pi_read s r @ new" "distinct new"
        "set new \<inter> set (pi_read s r) = {}" "list_all (in_range from up) new" "ds_doc (pd_sel pd') = ds_doc (pd_sel pd)" "ds_short (pd_sel pd') = ds_short (pd_sel pd)"
      by blast
    have short: "ds_short (pd_sel pd) = r" "pd \<in> set (pi_docs s)" using f by (auto simp: find_Some_iff)
    have a: "add_pick e from up s p = s\<lparr>pi_docs := update_first (\<lambda>pd. ds_short (pd_sel pd) = r) pd' (pi_docs s), pi_read := (pi_read s)(r := pi_read s r @ new)\<rparr>"
      using Some f rp n(2) by (simp add: add_pick_def r_def Let_def)
    have "of_view views (pd_sel pd')" using s short(2) n(6,7) by (auto simp: picked_ok_def of_view_def)
    then have "\<forall>pd\<in>set (update_first (\<lambda>pd. ds_short (pd_sel pd) = r) pd' (pi_docs s)). of_view views (pd_sel pd)"
      using s by (auto simp: picked_ok_def dest: update_first_set)
    then show ?thesis unfolding a using s reads_ok_extend [where read = "pi_read s" and k = r, OF _ n(3-5)] update_first_under [OF f _ n(1)] short(1) n(7)
      by (simp add: picked_ok_def)
  next
    case f: None
    let ?new = "\<lparr>pd_sel = \<lparr>ds_doc = dv_doc (pk_view p), ds_short = r, ds_pages = [], ds_nodes = [], ds_paths = []\<rparr>, pd_used = 0\<rparr>"
    obtain pd' read' where rp: "read_pick e from up p rows (pi_read s r) ?new = (pd', read')" by fastforce
    from read_pick_new [OF rp] obtain new where n: "ds_pages (pd_sel pd') = new" "read' = pi_read s r @ new" "distinct new"
        "set new \<inter> set (pi_read s r) = {}" "list_all (in_range from up) new" "ds_doc (pd_sel pd') = dv_doc (pk_view p)" "ds_short (pd_sel pd') = r"
      by auto
    have under: "pages_under k (pi_docs s @ [pd']) = pages_under k (pi_docs s) @ (if k = r then new else [])" for k
      using n(1,7) by (simp add: pages_under_def)
    have v': "of_view views (pd_sel pd')" unfolding of_view_def n(6,7) r_def using v by blast
    have a: "add_pick e from up s p = (if se_max_docs e \<le> length (pi_docs s) then s
        else s\<lparr>pi_docs := pi_docs s @ [pd'], pi_read := (pi_read s)(r := pi_read s r @ new)\<rparr>)"
      using Some f rp n(2) by (simp add: add_pick_def r_def Let_def)
    show ?thesis unfolding a using s reads_ok_extend [where read = "pi_read s" and k = r, OF _ n(3-5)] v' under
      by (simp add: picked_ok_def)
  qed
qed

lemma pages_of_ok:
  assumes p: "pages_of e from up picks read = (sels, no_tree, read')" and v: "\<forall>p\<in>set picks. pk_view p \<in> set views" and r: "reads_ok from up read"
  shows "reads_ok from up read'" and "set no_tree \<subseteq> dv_doc ` set views" and "\<forall>sel\<in>set sels. of_view views sel"
    and "mset (concat (map ds_pages (filter (\<lambda>sel. ds_short sel = k) sels))) + mset (read k) = mset (read' k)"
    and "\<forall>sel\<in>set sels. list_all (in_range from up) (ds_pages sel)"
proof -
  have ok: "picked_ok from up views read (foldl (add_pick e from up) s picks)" if "picked_ok from up views read s" for s
    using v that by (induction picks arbitrary: s) (simp_all add: add_pick_ok)
  define s where "s = foldl (add_pick e from up) \<lparr>pi_docs = [], pi_read = read, pi_no_tree = []\<rparr> picks"
  have s: "picked_ok from up views read s" unfolding s_def by (rule ok) (use r in \<open>simp add: picked_ok_def pages_under_def\<close>)
  have res: "sels = map (\<lambda>sel. sel\<lparr>ds_pages := sort (ds_pages sel)\<rparr>) (filter (\<lambda>sel. ds_pages sel \<noteq> []) (map pd_sel (pi_docs s)))"
      "no_tree = pi_no_tree s" "read' = pi_read s"
    using p unfolding pages_of_def s_def [symmetric] by (simp_all add: Let_def)
  show "reads_ok from up read'" "set no_tree \<subseteq> dv_doc ` set views" using s res by (simp_all add: picked_ok_def)
  show "\<forall>sel\<in>set sels. of_view views sel" using s by (auto simp: res picked_ok_def of_view_def)
  have "mset (concat (map ds_pages (filter (\<lambda>sel. ds_short sel = k) (map (\<lambda>sel. sel\<lparr>ds_pages := sort (ds_pages sel)\<rparr>) (filter (\<lambda>sel. ds_pages sel \<noteq> []) (map pd_sel pds))))))
      = mset (pages_under k pds)" for pds k
    by (induction pds) (auto simp: pages_under_def)
  then have m: "mset (concat (map ds_pages (filter (\<lambda>sel. ds_short sel = k) sels))) = mset (pages_under k (pi_docs s))" for k unfolding res by blast
  then show "mset (concat (map ds_pages (filter (\<lambda>sel. ds_short sel = k) sels))) + mset (read k) = mset (read' k)"
    using s by (simp add: picked_ok_def res)
  show "\<forall>sel\<in>set sels. list_all (in_range from up) (ds_pages sel)"
  proof
    fix sel assume "sel \<in> set sels"
    then have "set (ds_pages sel) \<subseteq> set_mset (mset (concat (map ds_pages (filter (\<lambda>x. ds_short x = ds_short sel) sels))))" by auto
    also have "\<dots> \<subseteq> set (read' (ds_short sel))"
      using s unfolding m res(3) picked_ok_def by (metis mset_subset_eq_add_left set_mset_mono set_mset_mset)
    finally show "list_all (in_range from up) (ds_pages sel)" using s unfolding res(3) picked_ok_def reads_ok_def list_all_iff by blast
  qed
qed

text \<open>Choices name documents in scope, and choosing reads nothing.\<close>

lemma resolve_pick_view: "resolve_pick views ref = Some p \<Longrightarrow> pk_view p \<in> set views"
  by (auto simp: resolve_pick_def view_by_ref_def split_beta find_Some_iff split: option.splits)
    (metis length_rev nth_mem set_rev)+

lemma choose_picks_views:
  "\<forall>p\<in>set (sx_picks s). pk_view p \<in> set views \<Longrightarrow> \<forall>p\<in>set (sx_picks (fst (choose_picks e views xs s))). pk_view p \<in> set views"
proof (induction xs arbitrary: s)
  case (Cons x xs)
  show ?case
  proof (cases "resolve_pick views (trim_space x)")
    case (Some p)
    have "\<forall>q\<in>set (sx_picks (s\<lparr>sx_picked := pick_key p # sx_picked s, sx_picks := sx_picks s @ [p]\<rparr>)). pk_view q \<in> set views"
      using Cons.prems resolve_pick_view [OF Some] by auto
    from Cons.IH [OF this] Cons.IH [OF Cons.prems] show ?thesis by (simp add: Some Let_def split_beta)
  qed (use Cons in simp)
qed simp

lemma choose_picks_rest:
  "sx_read (fst (choose_picks e views xs s)) = sx_read s" "sx_hits (fst (choose_picks e views xs s)) = sx_hits s"
  "sx_keyword (fst (choose_picks e views xs s)) = sx_keyword s" "sx_trace (fst (choose_picks e views xs s)) = sx_trace s"
  by (induction xs arbitrary: s) (auto simp: Let_def split_beta split: option.split)

text \<open>The pages of a document in the trace.\<close>

definition traced_pages :: "(string \<times> int list) list \<Rightarrow> string \<Rightarrow> int list" where
  "traced_pages t d = concat (map snd (filter (\<lambda>x. fst x = d) t))"

definition views_apart :: "doc_view list \<Rightarrow> bool" where
  "views_apart views \<longleftrightarrow> distinct (map dv_ref views) \<and> distinct (map (\<lambda>v. sd_id (dv_doc v)) views)"

definition search_ok :: "search_env \<Rightarrow> search_world \<Rightarrow> search_request \<Rightarrow> doc_view list \<Rightarrow> search_state \<Rightarrow> bool" where
  "search_ok e w rq views s \<longleftrightarrow>
     (\<forall>p\<in>set (sx_picks s). pk_view p \<in> set views) \<and> set (sx_keyword s) \<subseteq> dv_doc ` set views
     \<and> (\<forall>h\<in>set (sx_hits s). located_hit e w rq (dv_doc ` set views) h) \<and> reads_ok (rq_from rq) (rq_to rq) (sx_read s)
     \<and> (views_apart views \<longrightarrow> (\<forall>v\<in>set views. mset (traced_pages (tc_pages (sx_trace s)) (sd_id (dv_doc v))) = mset (sx_read s (dv_ref v))))"

lemma search_ok_choose: "search_ok e w rq views s \<Longrightarrow> search_ok e w rq views (fst (choose_picks e views xs s))"
  unfolding search_ok_def choose_picks_rest using choose_picks_views [of s views e xs] by blast

lemma traced_sels:
  assumes a: "views_apart views" and s: "\<forall>sel\<in>set sels. of_view views sel" and v: "v \<in> set views"
  shows "traced_pages (map (\<lambda>sel. (sd_id (ds_doc sel), ds_pages sel)) sels) (sd_id (dv_doc v))
      = concat (map ds_pages (filter (\<lambda>sel. ds_short sel = dv_ref v) sels))"
proof -
  have "sd_id (ds_doc sel) = sd_id (dv_doc v) \<longleftrightarrow> ds_short sel = dv_ref v" if "of_view views sel" for sel
    using that a v unfolding of_view_def views_apart_def distinct_map inj_on_def by auto
  with s show ?thesis by (induction sels) (auto simp: traced_pages_def)
qed

lemma search_round_ok:
  assumes s: "search_ok e w rq views s" and r: "search_round e w rq views b s = (b', Inr (go, s'))"
  shows "search_ok e w rq views s'"
  using r
proof (cases rule: search_round_cases)
  case (expanded out s1 big s2)
  have "search_ok e w rq views s1" using search_ok_choose [OF s, of "sn_select out"] expanded(1) by simp
  then show ?thesis using expanded by (simp add: search_ok_def)
next
  case (read out s1 big sels no_tree read b1 res)
  have s1: "search_ok e w rq views s1" using search_ok_choose [OF s, of "sn_select out"] read(1) by simp
  then have pre: "\<forall>p\<in>set (sx_picks s1). pk_view p \<in> set views" "reads_ok (rq_from rq) (rq_to rq) (sx_read s1)" by (simp_all add: search_ok_def)
  note p = pages_of_ok [OF read(5) pre]
  obtain lo where lo: "res = Inr lo" using read(7) by (cases res) auto
  have s': "sx_picks s' = []" "sx_read s' = read" "sx_hits s' = sx_hits s1 @ lo_hits lo" "sx_keyword s' = sx_keyword s1 @ no_tree"
      "tc_pages (sx_trace s') = tc_pages (sx_trace s1) @ map (\<lambda>sel. (sd_id (ds_doc sel), ds_pages sel)) sels"
    using read(7) by (simp_all add: lo)
  have "\<forall>sel\<in>set sels. ds_doc sel \<in> dv_doc ` set views \<and> list_all (in_range (rq_from rq) (rq_to rq)) (ds_pages sel)"
    using p(3,5) by (auto simp: of_view_def)
  then have "\<forall>h\<in>set (lo_hits lo). located_hit e w rq (dv_doc ` set views) h" using locate_hits read(6) lo by blast
  moreover have "mset (traced_pages (tc_pages (sx_trace s')) (sd_id (dv_doc v))) = mset (read (dv_ref v))"
    if "views_apart views" "v \<in> set views" for v
  proof -
    have "traced_pages (tc_pages (sx_trace s')) (sd_id (dv_doc v)) = traced_pages (tc_pages (sx_trace s1)) (sd_id (dv_doc v))
        @ concat (map ds_pages (filter (\<lambda>sel. ds_short sel = dv_ref v) sels))"
      using traced_sels [OF that(1) p(3) that(2)] unfolding s' by (simp add: traced_pages_def)
    then show ?thesis using s1 that p(4) [of "dv_ref v"] by (simp add: search_ok_def ac_simps)
  qed
  ultimately show ?thesis using s1 p(1,2) unfolding search_ok_def s' by auto
qed (use s in simp_all)

lemma search_loop_ok:
  "search_loop e w rq views b s = (b', Inr s') \<Longrightarrow> search_ok e w rq views s \<Longrightarrow> search_ok e w rq views s'"
proof (induction e w rq views b s arbitrary: b' s' rule: search_loop.induct)
  case (1 e w rq views b s)
  obtain b1 r1 where r: "search_round e w rq views b s = (b1, r1)" by fastforce
  consider err where "r1 = Inl err" | s1 where "r1 = Inr (False, s1)" | s1 where "r1 = Inr (True, s1)" by (metis sum.exhaust surj_pair)
  then show ?case
  proof cases
    case (2 s1)
    then show ?thesis using "1.prems" r search_round_ok [of e w rq views s b b1] by (auto simp: search_loop.simps [of e w rq views b s])
  next
    case (3 s1)
    then have "search_loop e w rq views b1 s1 = (b', Inr s')" using "1.prems"(1) r by (simp add: search_loop.simps [of e w rq views b s])
    then show ?thesis using "1.IH" [OF r [symmetric]] 3 search_round_ok [OF "1.prems"(2)] r by auto
  qed (use "1.prems"(1) r in \<open>simp add: search_loop.simps [of e w rq views b s]\<close>)
qed

lemma first_state_ok: "search_ok e w rq views (first_state e w rq code title views)"
  by (simp add: search_ok_def first_state_def reads_ok_def traced_pages_def Let_def)

lemma search_case_ok:
  assumes "search_case e w rq code title views b = (b', Inr (hits, t))"
  obtains s where "search_ok e w rq views s" "finish_search w views s = Inr (hits, t)"
proof -
  obtain b1 r1 where l: "search_loop e w rq views b (first_state e w rq code title views) = (b1, r1)" by fastforce
  then obtain s where "r1 = Inr s" "finish_search w views s = Inr (hits, t)"
    using assms by (cases r1) (auto simp: search_case_def)
  with l that show thesis using search_loop_ok first_state_ok by blast
qed

lemma dedup_hits_subset: "h \<in> set (dedup_hits seen hs) \<Longrightarrow> h \<in> set hs"
  by (induction seen hs rule: dedup_hits.induct) (auto split: if_splits)

lemma finish_search_hits:
  assumes "finish_search w views s = Inr (hits, t)" "h \<in> set hits" "set (sx_keyword s) \<subseteq> dv_doc ` set views"
  shows "h \<in> set (sx_hits s) \<or> keyword_hit w (dv_doc ` set views) h"
proof -
  obtain kw where kw: "(if sx_keyword s = [] then Some [] else sw_keyword w (sx_keyword s)) = Some kw"
    using assms(1) by (cases "if sx_keyword s = [] then Some [] else sw_keyword w (sx_keyword s)") (auto simp: finish_search_def)
  have k: "g \<in> set kw \<Longrightarrow> keyword_hit w (dv_doc ` set views) g" for g
    using kw assms(3) by (auto simp: keyword_hit_def split: if_splits)
  show ?thesis
  proof (cases "sx_hits s @ kw = [] \<and> sx_picked s = []")
    case True
    then have "sw_keyword w (map dv_doc views) = Some hits"
      using assms(1) kw by (auto simp: finish_search_def Let_def split: option.splits)
    then show ?thesis using assms(2) by (auto simp: keyword_hit_def intro!: exI [of _ "map dv_doc views"])
  next
    case False
    then have "hits = dedup_hits [] (sx_hits s @ kw)" using assms(1) kw by (auto simp: finish_search_def Let_def split: if_splits)
    then show ?thesis using assms(2) dedup_hits_subset k by fastforce
  qed
qed

lemma finish_search_pages: "finish_search w views s = Inr (hits, t) \<Longrightarrow> tc_pages t = tc_pages (sx_trace s)"
  by (auto simp: finish_search_def Let_def split: if_splits option.splits)

lemma search_case_budget:
  assumes "search_case e w rq code title views b = (b', r)" "bu_used b \<le> bu_max b"
  shows "bu_max b' = bu_max b \<and> bu_used b' \<le> bu_max b + 1"
proof -
  obtain b1 r1 where l: "search_loop e w rq views b (first_state e w rq code title views) = (b1, r1)" by fastforce
  then have "b' = b1" using assms(1) by (cases r1) (auto simp: search_case_def)
  then show ?thesis using search_loop_budget [OF l assms(2)] by simp
qed


subsection \<open>A search\<close>

text \<open>One document of two pages, of which the second is read; its line 3 holds the answer.\<close>

definition sample_env :: search_env where
  "sample_env =
     \<lparr>se_nfd = (\<lambda>_. None), se_round = (\<lambda>x. x), se_quote = (\<lambda>s. s), se_min_similarity = 1, se_page_tokens = 1000,
      se_tree_tokens = 1000, se_toc_tokens = 1000, se_node_tokens = 1000, se_full_tokens = 1000, se_max_docs = 3, se_max_hops = 2,
      se_locate_prompt = (\<lambda>_. []), se_tree_prompt = (\<lambda>_. [])\<rparr>"

definition sample_doc :: search_doc where
  "sample_doc = \<lparr>sd_id = ''7'', sd_file = ''a.pdf'', sd_case = [], sd_pages = 2, sd_meta = [], sd_summary = []\<rparr>"

definition sample_view :: doc_view where
  "sample_view =
     \<lparr>dv_ref = ''A'', dv_doc = sample_doc,
      dv_tree = Some [\<lparr>tr_node = 1, tr_parent = None, tr_short = ''0'', tr_ord = 0, tr_level = 0,
        tr_data = \<lparr>tn_title = [], tn_origin = [], tn_level = 0, tn_start = 1, tn_end = 2, tn_children = [], tn_sections = [],
          tn_summary = [], tn_tokens = 10, tn_doctype = []\<rparr>\<rparr>],
      dv_recorded = (\<lambda>_. 10)\<rparr>"

definition sample_lines :: "page_line list" where
  "sample_lines = [\<lparr>pl_page = 2, pl_no = 3, pl_text = ''due 5'', pl_box = zero_box, pl_low = False, pl_source = ''pdf''\<rparr>]"

definition sample_answer :: "int list \<Rightarrow> loc_hit" where
  "sample_answer nums = \<lparr>lh_doc = ''A'', lh_page = 2, lh_lines = nums, lh_quote = ''due 5'', lh_relevance = 1, lh_reason = []\<rparr>"

definition sample_world :: search_world where
  "sample_world =
     \<lparr>sw_select = (\<lambda>_. Some \<lparr>sn_select = [''A''], sn_expand = []\<rparr>),
      sw_locate = (\<lambda>_. Some [(sample_answer [3])]),
      sw_lines = (\<lambda>_ _ _. Some sample_lines), sw_sections = [], sw_keyword = (\<lambda>_. None)\<rparr>"

definition sample_request :: search_request where
  "sample_request = \<lparr>rq_query = ''due'', rq_from = 2, rq_to = 0, rq_top_k = 5\<rparr>"


lemma sample_text: "normalize_text (\<lambda>_. None) ''due 5'' = ''due 5''"
proof -
  have "to_lower ''due 5'' = ''due 5''" "replace_dd ''due 5'' = ''due 5''"
    by (simp_all add: text_simps to_lower_rune_def char_of_eq_iff)
  then show ?thesis
    by (simp add: normalize_text_def unaccent_def collapse_space_def fields_at.simps is_space_ascii)
qed

lemma sample_resolve: "resolve_pick [sample_view] (trim_space ''A'') = Some \<lparr>pk_view = sample_view, pk_node = None\<rparr>"
proof -
  have "trim_space ''A'' = ''A''" by (simp add: text_simps is_space_ascii)
  moreover have "cut_at (CHR ''.'') ''A'' = (''A'', None)" by (simp add: cut_at_def)
  ultimately show ?thesis by (simp add: resolve_pick_def view_by_ref_def sample_view_def)
qed

lemma sample_small: "\<not> too_big sample_env \<lparr>pk_view = sample_view, pk_node = None\<rparr>"
  by (simp add: too_big_def sample_view_def sample_env_def root_row_def view_root_def)

definition sample_sel :: doc_sel where
  "sample_sel = \<lparr>ds_doc = sample_doc, ds_short = ''A'', ds_pages = [2], ds_nodes = [''0''], ds_paths = [(2, [])]\<rparr>"

lemma sample_pages: "\<exists>read. pages_of sample_env 2 0 [\<lparr>pk_view = sample_view, pk_node = None\<rparr>] (\<lambda>_. []) = ([sample_sel], [], read)"
proof -
  have "pages_between 1 2 = [1, 2]" by (simp add: pages_between_def upto.simps)
  then show ?thesis
  by (simp add: pages_of_def add_pick_def read_pick_def sample_view_def sample_env_def sample_sel_def root_row_def view_root_def in_range_def per_page_def Let_def path_for_page_def view_children_def)
qed

definition sample_hit :: search_hit where
  "sample_hit =
     \<lparr>sh_doc = ''7'', sh_file = ''a.pdf'', sh_case = [], sh_meta = [], sh_page = 2, sh_lines = [3], sh_path = [], sh_quote = ''due 5'', sh_snippet = [],
      sh_relevance = 1, sh_reason = [], sh_citation = ''doc:7:p2:l3-3'', sh_via = ''tree'', sh_boxes = [zero_box]\<rparr>"
  
lemma sample_key: "quote_key sample_env ''due 5'' = ''due 5''"
  using sample_text by (simp add: quote_key_def trim_suffix_def sample_env_def suffix_to_prefix)

lemma sample_quote: "quote_holds sample_env sample_lines ''due 5'' [3]" "quote_holds sample_env sample_lines ''due 5'' [3, 99]"
  using sample_text by (simp_all add: quote_holds_def cited_texts_def line_at_def sample_lines_def map_filter_def sample_env_def contains_sub_def Let_def)

lemma sample_verified:
  "verify_quote sample_env (sample_answer [3]) sample_lines = Some ([3], [zero_box])"
  "verify_quote sample_env (sample_answer [3, 99]) sample_lines = Some ([3, 99], [zero_box, zero_box])"
  using sample_quote by (simp_all add: verify_quote_def sample_key sample_answer_def Let_def) (simp_all add: line_at_def sample_lines_def)

lemma sample_locate: "\<exists>b'. locate sample_env (sw_lines sample_world) (sw_locate sample_world) ''due'' 5 \<lparr>bu_used = 1, bu_max = 2, bu_tokens = k\<rparr> [sample_sel]
   = (b', Inr \<lparr>lo_hits = [sample_hit], lo_dropped = 0, lo_truncated = False\<rparr>)"
proof -
  have t: "trim_space ''A'' = ''A''" "trim_space ''due 5'' = ''due 5''" by (simp_all add: text_simps is_space_ascii)
  define pt where "pt = numbered_page sample_env sample_sel 2 sample_lines"
  have "page_lines sample_lines 2 = sample_lines" by (simp add: page_lines_def sample_lines_def t)
  then have pts: "page_texts sample_env (\<lambda>_ _ _. Some sample_lines) [sample_sel] = Some [pt]" 
    by (simp add: sel_texts_def sample_sel_def [unfolded] pt_def map_filter_def) (simp add: sample_sel_def sample_lines_def)
  have b: "batches 1000 [pt] = [[pt]]" by simp
  have loc: "locate_hit sample_env [sample_sel] [pt] (sample_answer [3])
      = Some sample_hit"
    using sample_verified(1) by (simp add: locate_hit_def sample_answer_def page_at_def t pt_def numbered_page_def sample_sel_def hit_from_line_def sample_hit_def sample_doc_def
      clamp01_def path_at_def citation_id_def int_string_def nat_string.simps digit_char_def char_of_eq_iff)
  show ?thesis
    using pts loc b by (simp add: locate_def sample_world_def call_model_def)
qed

lemma sample_search:
  "\<exists>b' t. search_case sample_env sample_world sample_request [] [] [sample_view] \<lparr>bu_used = 0, bu_max = 2, bu_tokens = 0\<rparr> = (b', Inr ([sample_hit], t))
     \<and> tc_pages t = [(''7'', [2])]"
proof -
  define s where "s = first_state sample_env sample_world sample_request [] [] [sample_view]"
  have s: "sx_picks s = []" "sx_picked s = []" "sx_read s = (\<lambda>_. [])" "sx_hops s = 0" "sx_hits s = []" "sx_keyword s = []" "tc_pages (sx_trace s) = []"
    by (simp_all add: s_def first_state_def Let_def)
  define k where "k = estimate_tokens (se_tree_prompt sample_env 3) + estimate_tokens (sx_text s)"
  define p where "p = \<lparr>pk_view = sample_view, pk_node = None\<rparr>"
  have c: "call_model \<lparr>bu_used = 0, bu_max = 2, bu_tokens = 0\<rparr> (se_tree_prompt sample_env 3) (sx_text s) (sw_select sample_world (sx_text s))
      = (\<lparr>bu_used = 1, bu_max = 2, bu_tokens = k\<rparr>, Inr \<lparr>sn_select = [''A''], sn_expand = []\<rparr>)"
    by (simp add: call_model_def sample_world_def k_def)
  define s1 where "s1 = s\<lparr>sx_picked := [pick_key p], sx_picks := [p]\<rparr>"
  have ch: "choose_picks sample_env [sample_view] [''A''] s = (s1, [])"
    using s sample_small by (simp add: sample_resolve Let_def p_def s1_def)
  obtain read where p: "pages_of sample_env 2 0 [p] (\<lambda>_. []) = ([sample_sel], [], read)" using sample_pages unfolding p_def by blast
  obtain b' where l: "locate sample_env (sw_lines sample_world) (sw_locate sample_world) ''due'' 5 \<lparr>bu_used = 1, bu_max = 2, bu_tokens = k\<rparr> [sample_sel]
      = (b', Inr \<lparr>lo_hits = [sample_hit], lo_dropped = 0, lo_truncated = False\<rparr>)" using sample_locate by blast
  have docs: "se_max_docs sample_env = 3" by (simp add: sample_env_def)
  have rq: "rq_query sample_request = ''due''" "rq_from sample_request = 2" "rq_to sample_request = 0" "rq_top_k sample_request = 5"
    by (simp_all add: sample_request_def)
  have "sx_picks s1 = [p]" "sx_read s1 = (\<lambda>_. [])" "sx_hits s1 = []" "sx_keyword s1 = []" "tc_pages (sx_trace s1) = []" "sx_picked s1 \<noteq> []"
    by (simp_all add: s1_def s)
  note s1 = this
  have "\<exists>s'. search_round sample_env sample_world sample_request [sample_view] \<lparr>bu_used = 0, bu_max = 2, bu_tokens = 0\<rparr> s = (b', Inr (False, s'))
      \<and> sx_hits s' = [sample_hit] \<and> sx_keyword s' = [] \<and> tc_pages (sx_trace s') = [(''7'', [2])]"
    using c ch p l by (simp add: search_round_def docs rq s1 note_reading_def sample_sel_def sample_doc_def)
  then show ?thesis
    by (auto simp: search_case_def s_def [symmetric] search_loop.simps [of _ _ _ _ _ s] finish_search_def Let_def)
qed

subsection \<open>The promises\<close>

text \<open>
  C0: \<^verbatim>\<open>ParseCitation\<close> reads back what \<^verbatim>\<open>CitationID\<close> wrote: the document, the page, and the least and greatest
  line (\<open>-1\<close> for both when no line is cited).
\<close>

theorem citation_roundtrip:
  assumes "canonical_id d" "uuid_of d = Some d" "0 \<le> p" "p \<le> max_int" "list_all (\<lambda>l. 0 \<le> l \<and> l \<le> max_int) ls"
  shows "parse_citation uuid_of (citation_id d p ls) = Inr (d, p, line_span ls)"
proof -
  have "ls \<noteq> [] \<Longrightarrow> fst (atoi (int_string (fst (line_span ls)))) = fst (line_span ls) \<and> fst (atoi (int_string (snd (line_span ls)))) = snd (line_span ls)"
    using span_bounds assms(5) by (simp add: atoi_int_string)
  then show ?thesis
    using assms(2) atoi_int_string [OF assms(3,4)] match_citation_id [OF assms(1,3,5)] trim_citation [OF assms(1,3,5)]
    by (cases "ls = []") (simp_all add: parse_citation_def line_span_def)
qed

theorem citation_roundtrip_witness:
  "parse_citation Some (citation_id ''3f2504e0-4f89-11d3-9a0c-0305e82c3301'' 12 [5, 4, 7]) = Inr (''3f2504e0-4f89-11d3-9a0c-0305e82c3301'', 12, 4, 7)"
  using citation_roundtrip [of "''3f2504e0-4f89-11d3-9a0c-0305e82c3301''" Some 12 "[5, 4, 7]"]
  by (simp add: canonical_id_def id_char_def line_span_def max_int_def)

text \<open>
  C0: Whatever the model answers, a hit of the search cites a page in the range asked for, of a document in scope, whose
  stored lines hold its quote; the only other hits are those of the full text over documents in scope.
\<close>

theorem search_hits_in_scope:
  assumes "search_case e w rq code title views b = (b', Inr (hits, t))"
  shows "list_all (\<lambda>h. located_hit e w rq (dv_doc ` set views) h \<or> keyword_hit w (dv_doc ` set views) h) hits"
proof -
  obtain s where s: "search_ok e w rq views s" "finish_search w views s = Inr (hits, t)" using search_case_ok [OF assms] .
  then have "set (sx_keyword s) \<subseteq> dv_doc ` set views" "\<forall>h\<in>set (sx_hits s). located_hit e w rq (dv_doc ` set views) h"
    by (simp_all add: search_ok_def)
  then show ?thesis using finish_search_hits [OF s(2)] unfolding list_all_iff by blast
qed

theorem search_hits_in_scope_witness:
  "located_hit sample_env sample_world sample_request {sample_doc} sample_hit \<or> keyword_hit sample_world {sample_doc} sample_hit"
proof -
  obtain b' t where "search_case sample_env sample_world sample_request [] [] [sample_view] \<lparr>bu_used = 0, bu_max = 2, bu_tokens = 0\<rparr> = (b', Inr ([sample_hit], t))"
    using sample_search by blast
  from search_hits_in_scope [OF this] show ?thesis by (simp add: sample_view_def)
qed

text \<open>
  C0: Over all the rounds of a search no page of a document is read twice, and only pages in the range asked for are read.
\<close>

theorem pages_read_once:
  assumes "search_case e w rq code title views b = (b', Inr (hits, t))" "views_apart views" "v \<in> set views"
  shows "distinct (traced_pages (tc_pages t) (sd_id (dv_doc v)))
    \<and> list_all (in_range (rq_from rq) (rq_to rq)) (traced_pages (tc_pages t) (sd_id (dv_doc v)))"
proof -
  obtain s where s: "search_ok e w rq views s" "finish_search w views s = Inr (hits, t)" using search_case_ok [OF assms(1)] .
  then have "mset (traced_pages (tc_pages t) (sd_id (dv_doc v))) = mset (sx_read s (dv_ref v))"
      "reads_ok (rq_from rq) (rq_to rq) (sx_read s)"
    using assms(2,3) finish_search_pages [OF s(2)] by (simp_all add: search_ok_def)
  then show ?thesis unfolding reads_ok_def list_all_iff by (metis mset_eq_imp_distinct_iff mset_eq_setD)
qed

theorem pages_read_once_witness:
  "\<exists>b' t. search_case sample_env sample_world sample_request [] [] [sample_view] \<lparr>bu_used = 0, bu_max = 2, bu_tokens = 0\<rparr> = (b', Inr ([sample_hit], t))
     \<and> traced_pages (tc_pages t) ''7'' = [2] \<and> distinct (traced_pages (tc_pages t) ''7'')"
proof -
  obtain b' t where s: "search_case sample_env sample_world sample_request [] [] [sample_view] \<lparr>bu_used = 0, bu_max = 2, bu_tokens = 0\<rparr> = (b', Inr ([sample_hit], t))"
      "tc_pages t = [(''7'', [2])]"
    using sample_search by blast
  have "sd_id (dv_doc sample_view) = ''7''" by (simp add: sample_view_def sample_doc_def)
  then show ?thesis using s pages_read_once [OF s(1), of sample_view] by (simp add: views_apart_def traced_pages_def)
qed

text \<open>
  C0: A search in a case makes at most the calls of its budget, whatever the number of rounds and batches; only one call
  more may be counted, the one that is refused.
\<close>

theorem search_calls_bounded:
  assumes "bu_used b \<le> bu_max b"
  shows "bu_max (fst (search_case e w rq code title views b)) = bu_max b
    \<and> bu_used (fst (search_case e w rq code title views b)) \<le> bu_max b + 1"
  by (rule search_case_budget [OF surjective_pairing assms])

theorem search_calls_bounded_witness:
  "bu_used (fst (search_case sample_env sample_world sample_request [] [] [sample_view] \<lparr>bu_used = 0, bu_max = 2, bu_tokens = 0\<rparr>)) \<le> 3"
  using search_calls_bounded [of "\<lparr>bu_used = 0, bu_max = 2, bu_tokens = 0\<rparr>" sample_env sample_world sample_request "[]" "[]" "[sample_view]"] by simp

end
