(* ===== verification/Spec2Isabelle.thy ===== *)
theory Spec2Isabelle
  imports CalcNumbers JsonRepair TextGuard CiteRefs ModelCalls TurnResults CheckFacts SplitConfirm ToolSafety SectionFacts ViewFacts DocTypeFacts QueueFacts PageFacts RunFacts SearchFacts
begin

text \<open>
  A verification development of the bepaylot server (the Go sources under \<^verbatim>\<open>src/\<close>): a service that reads
  scanned case files, splits them into documents, indexes and compares them, and lets an agent answer questions
  about them.

  \<^bold>\<open>How the parts work together.\<close> A file becomes pages: an engine reads lines and regions, package
  \<^verbatim>\<open>assemble\<close> turns them into blocks and markdown with offsets. The pages are classified, proposed as
  documents (\<^verbatim>\<open>docmodel\<close>, \<^verbatim>\<open>group.go\<close>), confirmed by a user and stored; \<^verbatim>\<open>index\<close> cuts them into sections
  under a tree. The values of the documents form sheets; the cross-checks (\<^verbatim>\<open>sheets/checks.go\<close>) group them
  around contracts and judge rules written as formulas (\<^verbatim>\<open>checkexpr\<close>). A turn of the agent builds its history,
  calls the model under a budget, runs tools, guards and rewrites the text it streams, assembles the events into
  stored blocks, and takes messages while it runs. Work in the background goes through the task queue.

  \<^bold>\<open>Theories and sources\<close>, in the order of the layers:

  \<^item> \<open>Prelude\<close>, \<open>Streaming\<close>: lemmas on lists, options and maps, and the three interfaces: \<open>fuelled\<close> (a function with
    fuel whose result no longer depends on it), interpreted on the calculator; \<open>preserved\<close> (an invariant of a
    transition system), on the registry of turns, the tool results of a turn and the queue; \<open>stream_filter\<close> (a
    rewriter whose output does not depend on the chunks), on the text guard and the citation rewriter.
  \<^item> \<open>GoUnicode\<close>, \<open>GoText\<close>, \<open>GoStrings\<close>, \<open>Utf8\<close>, \<open>TextUtil\<close>: Go strings as lists of bytes, runes and UTF-8, the
    \<^verbatim>\<open>strings\<close>, \<^verbatim>\<open>strconv\<close> and \<^verbatim>\<open>unicode\<close> functions the code calls; \<^verbatim>\<open>docpipe/textutil\<close> (normal forms, numbers,
    edit distance).
  \<^item> \<open>Calc\<close>, \<open>CalcNumbers\<close>: \<^verbatim>\<open>internal/tools/calc.go\<close>, the exact calculator: parser with fuel (the length of the
    text, enough by \<open>calculate_returns\<close>) and the decimal rendering of rationals.
  \<^item> \<open>JsonRepair\<close>, \<open>TextGuard\<close>, \<open>CiteRefs\<close>: \<^verbatim>\<open>agent/jsonrepair.go\<close>, \<^verbatim>\<open>textguard.go\<close>, \<^verbatim>\<open>citerefs.go\<close>: what happens
    to the streamed text.
  \<^item> \<open>Messages\<close>, \<open>Steer\<close>, \<open>ModelCalls\<close>, \<open>Blocks\<close>, \<open>History\<close>: messages and events, \<^verbatim>\<open>agent/steer.go\<close> (inbox and
    registry of running turns), \<^verbatim>\<open>budget.go\<close>, \<^verbatim>\<open>continue.go\<close>, \<^verbatim>\<open>llm/retry.go\<close> and \<^verbatim>\<open>meter.go\<close>, \<^verbatim>\<open>agent/history.go\<close>.
  \<^item> \<open>Assembler\<close>, \<open>TurnStream\<close>, \<open>TurnResults\<close>: \<^verbatim>\<open>agent/assembler.go\<close>: the events of a turn against the blocks that
    are stored.
  \<^item> \<open>ToolSession\<close>, \<open>ToolSafety\<close>: \<^verbatim>\<open>internal/tools\<close>: registry, sessions, deferred tools.
  \<^item> \<open>CheckParse\<close>, \<open>CheckPrint\<close>, \<open>CheckValues\<close>, \<open>CheckEval\<close>, \<open>CheckFacts\<close>: \<^verbatim>\<open>internal/checkexpr\<close>: lexer, parser
    with its printer, values, evaluator and validation of the check formulas.
  \<^item> \<open>CrossRules\<close>, \<open>RuleFacts\<close>, \<open>CrossRun\<close>, \<open>RunFacts\<close>: \<^verbatim>\<open>sheets/checks.go\<close>: rules, rule sets and runs of the
    cross-checks.
  \<^item> \<open>Split\<close>, \<open>SplitShown\<close>, \<open>SplitSaved\<close>, \<open>SplitConfirm\<close>: \<^verbatim>\<open>docmodel/split.go\<close>: proposals, gaps, saved and
    confirmed splits.
  \<^item> \<open>Sections\<close>, \<open>SectionFacts\<close>, \<open>DocTree\<close>, \<open>TreeFacts\<close>, \<open>DocTypes\<close>, \<open>DocTypeFacts\<close>, \<open>TreeView\<close>, \<open>ViewFacts\<close>:
    \<^verbatim>\<open>service/index\<close>: sections, tree, documents of a file, the view of the tree for the model.
  \<^item> \<open>Citations\<close>, \<open>TreeSearch\<close>, \<open>SearchFacts\<close>: \<^verbatim>\<open>index/search.go\<close> and \<^verbatim>\<open>search_tree.go\<close>: citations, the check of
    quotes, the reading of pages under a budget, and the search of one case over its trees.
  \<^item> \<open>Queue\<close>, \<open>QueueFacts\<close>: \<^verbatim>\<open>internal/queue\<close> and \<^verbatim>\<open>types/task.go\<close>.
  \<^item> \<open>PageLayout\<close>, \<open>PageRefine\<close>, \<open>PageRender\<close>, \<open>PageMarks\<close>, \<open>PageAlign\<close>, \<open>PageFacts\<close>: package \<^verbatim>\<open>docpipe/parser/assemble\<close>.

  \<^bold>\<open>How the code is modelled.\<close> A struct is a record with its fields in order, an enum a datatype or the string it
  is, a method with a mutex one step on the record. Errors and panics are values: a sum with the error, an option
  where the code can panic. Texts of errors are constructors, texts that are stored or shown are written out (\<open>vn\<close>
  decodes the Vietnamese letters of a literal). Loops are structural recursions; where the recursion is not
  structural it has a measure, and the two parsers and the walks over stored tree rows carry fuel: the number of
  tokens, bytes or rows, which is proved to be enough (\<open>calculate_returns\<close>, \<open>parse_formula_returns\<close>,
  \<open>stored_tree_finds_page\<close>). Go integers that cannot overflow on data that fits in memory are \<open>int\<close> or \<open>nat\<close>;
  float64 is \<open>rat\<close> with every operation followed by a rounding \<open>rnd\<close>, an argument; NaN and the infinities are
  not modelled.

  \<^bold>\<open>Arguments of the model\<close> stand for code outside the repository: the chat model and its answers, tools and task
  handlers, the JSON codec, the Unicode decomposition (\<^verbatim>\<open>golang.org/x/text\<close>), the rounding of float64 and
  \<^verbatim>\<open>math.Pow\<close>, \<^verbatim>\<open>strconv.Quote\<close>, the clock, new ids, the HTML parser, and the sort of lines by a comparison that is
  no order (\<open>arrange\<close>). The hypotheses on them are named in the theorems.

  \<^bold>\<open>What is shown.\<close> Each component has its invariant or its specification: the reader of events rebuilds what is
  stored; every tool call of a history has its result; a steered message is delivered once; the guard only
  evaluates arithmetic and does not depend on the chunks, away from the counterexample; repaired JSON is unchanged
  outside arithmetic; the calculator is exact; formulas print and parse back, and rules chosen by fields mean what
  was chosen; a saved rule set never panics and a run places every document once; splits, sections, trees, spans and
  markdown offsets partition what they cover; a drained queue completes with unique ids and the attempts of the
  policy; the alignment of words is optimal; citations read back, and a search only returns verified quotes on pages in
  scope, reads no page twice and keeps its budget of calls. Behaviour that contradicts a comment or loses data is proved as a lemma
  beside its component, and listed as a finding.

  \<^bold>\<open>Not modelled\<close>: the SQL repositories, the HTTP handlers, the generated API documents, configuration and wiring,
  authentication, storage and web hooks, the clients of OCR, PDF and embedding services, the frontend. They call
  libraries or services and keep no logic of their own that a shallow embedding could check. Of the modelled
  packages, prompts sent to the model, logging and metrics are left out, and the parts listed as \<^verbatim>\<open>partly\<close> or
  \<^verbatim>\<open>not_modelled\<close> in the manifest.
\<close>

end
